(* ===== verification/Prelude.thy ===== *)
theory Prelude
  imports Main "HOL-Library.Word" "HOL-Library.Sublist"
begin

text \<open>
  What every component of the model shares.

  A Rust \<open>u8\<close> of a byte string is a HOL \<open>char\<close> (both have 256 values), so
  \<open>&[u8]\<close>, \<open>Vec<u8>\<close> and the UTF-8 bytes of a \<open>&str\<close> are all \<open>bytes\<close>.
  \<open>Result<T, E>\<close> is the datatype \<open>result\<close>; the \<open>?\<close> operator is \<open>and_then\<close>.
  The byte classes, the string operations (\<open>split\<close>, \<open>strip_prefix\<close>, \<open>rsplit_once\<close>,
  \<open>trim\<close>, case folding), UTF-8 validation and the decimal and hexadecimal
  conversions are those of the Rust standard library that the program calls.
\<close>

named_theorems byte_class_defs \<open>definitions of the ASCII byte classes\<close>

section \<open>Results\<close>

datatype ('a, 'e) result = Ok 'a | Err 'e

primrec and_then :: "('a, 'e) result \<Rightarrow> ('a \<Rightarrow> ('b, 'e) result) \<Rightarrow> ('b, 'e) result" where
  "and_then (Ok x) f = f x"
| "and_then (Err e) f = Err e"

primrec map_err :: "('e \<Rightarrow> 'f) \<Rightarrow> ('a, 'e) result \<Rightarrow> ('a, 'f) result" where
  "map_err f (Ok x) = Ok x"
| "map_err f (Err e) = Err (f e)"

definition ok_or :: "'e \<Rightarrow> 'a option \<Rightarrow> ('a, 'e) result" where
  "ok_or e x = (case x of None \<Rightarrow> Err e | Some y \<Rightarrow> Ok y)"

primrec is_ok :: "('a, 'e) result \<Rightarrow> bool" where
  "is_ok (Ok x) = True"
| "is_ok (Err e) = False"

primrec ok :: "('a, 'e) result \<Rightarrow> 'a option" where
  "ok (Ok x) = Some x"
| "ok (Err e) = None"

lemma ok_or_simps [simp]:
  "ok_or e None = Err e"
  "ok_or e (Some x) = Ok x"
  by (simp_all add: ok_or_def)

lemma ok_or_eq_Ok [simp]: "ok_or e x = Ok y \<longleftrightarrow> x = Some y"
  by (cases x) auto

lemma and_then_eq_Ok [simp]: "and_then r f = Ok y \<longleftrightarrow> (\<exists>x. r = Ok x \<and> f x = Ok y)"
  by (cases r) auto

lemma and_then_eq_Err:
  "and_then r f = Err e \<longleftrightarrow> r = Err e \<or> (\<exists>x. r = Ok x \<and> f x = Err e)"
  by (cases r) auto

lemma map_err_eq_Ok [simp]: "map_err f r = Ok y \<longleftrightarrow> r = Ok y"
  by (cases r) auto

lemma ok_eq_Some [simp]: "ok r = Some y \<longleftrightarrow> r = Ok y"
  by (cases r) auto

lemma is_ok_iff: "is_ok r \<longleftrightarrow> (\<exists>x. r = Ok x)"
  by (cases r) auto

text \<open>\<open>Iterator::collect\<close> into a \<open>Result\<close>: the first error stops the collection.\<close>

fun collect_results :: "('a, 'e) result list \<Rightarrow> ('a list, 'e) result" where
  "collect_results [] = Ok []"
| "collect_results (Err e # rs) = Err e"
| "collect_results (Ok x # rs) =
     (case collect_results rs of Ok xs \<Rightarrow> Ok (x # xs) | Err e \<Rightarrow> Err e)"

lemma collect_results_map_Ok [simp]: "collect_results (map Ok xs) = Ok xs"
  by (induction xs) auto

lemma collect_results_eq_Ok:
  "collect_results rs = Ok xs \<longleftrightarrow> rs = map Ok xs"
proof
  show "collect_results rs = Ok xs \<Longrightarrow> rs = map Ok xs"
    by (induction rs arbitrary: xs rule: collect_results.induct) (auto split: result.splits)
qed simp

lemma collect_results_eq_Err:
  "collect_results rs = Err e \<Longrightarrow> Err e \<in> set rs"
  by (induction rs rule: collect_results.induct) (auto split: result.splits)

lemma collect_results_is_Err:
  "Err e \<in> set rs \<Longrightarrow> \<exists>e'. collect_results rs = Err e'"
  by (induction rs rule: collect_results.induct) (auto split: result.splits)

section \<open>Bytes and byte classes\<close>

type_synonym bytes = "char list"

abbreviation octet :: "char \<Rightarrow> nat" where
  "octet c \<equiv> of_char c"

abbreviation CR :: char where "CR \<equiv> CHR 0x0D"
abbreviation LF :: char where "LF \<equiv> CHR 0x0A"
abbreviation TAB :: char where "TAB \<equiv> CHR 0x09"
abbreviation CRLF :: bytes where "CRLF \<equiv> [CR, LF]"
abbreviation DQUOTE :: char where "DQUOTE \<equiv> CHR 0x22"
abbreviation BACKSLASH :: char where "BACKSLASH \<equiv> CHR 0x5C"
abbreviation APOSTROPHE :: char where "APOSTROPHE \<equiv> CHR 0x27"
abbreviation BACKTICK :: char where "BACKTICK \<equiv> CHR 0x60"

lemma octet_lt_256 [simp]: "octet c < 256"
  by (metis mod_less_divisor char_of_char of_char_of zero_less_numeral)

definition is_ascii_digit :: "char \<Rightarrow> bool" where
  [byte_class_defs]: "is_ascii_digit c \<longleftrightarrow> 48 \<le> octet c \<and> octet c \<le> 57"

definition is_ascii_lowercase :: "char \<Rightarrow> bool" where
  [byte_class_defs]: "is_ascii_lowercase c \<longleftrightarrow> 97 \<le> octet c \<and> octet c \<le> 122"

definition is_ascii_uppercase :: "char \<Rightarrow> bool" where
  [byte_class_defs]: "is_ascii_uppercase c \<longleftrightarrow> 65 \<le> octet c \<and> octet c \<le> 90"

definition is_ascii_alphabetic :: "char \<Rightarrow> bool" where
  [byte_class_defs]: "is_ascii_alphabetic c \<longleftrightarrow> is_ascii_lowercase c \<or> is_ascii_uppercase c"

definition is_ascii_alphanumeric :: "char \<Rightarrow> bool" where
  [byte_class_defs]: "is_ascii_alphanumeric c \<longleftrightarrow> is_ascii_alphabetic c \<or> is_ascii_digit c"

definition is_ascii_hexdigit :: "char \<Rightarrow> bool" where
  [byte_class_defs]: "is_ascii_hexdigit c \<longleftrightarrow>
     is_ascii_digit c \<or> (97 \<le> octet c \<and> octet c \<le> 102) \<or> (65 \<le> octet c \<and> octet c \<le> 70)"

text \<open>\<open>u8::is_ascii_whitespace\<close>: tab, line feed, form feed, carriage return, space.\<close>

definition is_ascii_whitespace :: "char \<Rightarrow> bool" where
  [byte_class_defs]: "is_ascii_whitespace c \<longleftrightarrow>
     octet c = 9 \<or> octet c = 10 \<or> octet c = 12 \<or> octet c = 13 \<or> octet c = 32"

definition is_ascii_control :: "char \<Rightarrow> bool" where
  [byte_class_defs]: "is_ascii_control c \<longleftrightarrow> octet c < 32 \<or> octet c = 127"

definition is_ascii_char :: "char \<Rightarrow> bool" where
  [byte_class_defs]: "is_ascii_char c \<longleftrightarrow> octet c < 128"

definition is_ascii :: "bytes \<Rightarrow> bool" where
  "is_ascii s \<longleftrightarrow> list_all is_ascii_char s"

lemma digit_is_alphanumeric: "is_ascii_digit c \<Longrightarrow> is_ascii_alphanumeric c"
  by (simp add: is_ascii_alphanumeric_def)

lemma digit_is_hexdigit: "is_ascii_digit c \<Longrightarrow> is_ascii_hexdigit c"
  by (simp add: is_ascii_hexdigit_def)

lemma alphanumeric_is_ascii: "is_ascii_alphanumeric c \<Longrightarrow> is_ascii_char c"
  by (auto simp: byte_class_defs)

section \<open>Case folding\<close>

definition to_ascii_lower :: "char \<Rightarrow> char" where
  "to_ascii_lower c = (if is_ascii_uppercase c then char_of (octet c + 32) else c)"

definition to_ascii_lowercase :: "bytes \<Rightarrow> bytes" where
  "to_ascii_lowercase s = map to_ascii_lower s"

definition eq_ignore_ascii_case :: "bytes \<Rightarrow> bytes \<Rightarrow> bool" where
  "eq_ignore_ascii_case s t \<longleftrightarrow> to_ascii_lowercase s = to_ascii_lowercase t"

lemma octet_to_ascii_lower:
  "octet (to_ascii_lower c) = (if is_ascii_uppercase c then octet c + 32 else octet c)"
  by (auto simp: to_ascii_lower_def of_char_of is_ascii_uppercase_def)

lemma to_ascii_lower_not_upper [simp]: "\<not> is_ascii_uppercase (to_ascii_lower c)"
  by (auto simp: is_ascii_uppercase_def octet_to_ascii_lower)

lemma to_ascii_lower_id: "\<not> is_ascii_uppercase c \<Longrightarrow> to_ascii_lower c = c"
  by (simp add: to_ascii_lower_def)

lemma to_ascii_lower_idem [simp]: "to_ascii_lower (to_ascii_lower c) = to_ascii_lower c"
  by (simp add: to_ascii_lower_id)

lemma to_ascii_lowercase_idem [simp]:
  "to_ascii_lowercase (to_ascii_lowercase s) = to_ascii_lowercase s"
  by (simp add: to_ascii_lowercase_def)

lemma to_ascii_lowercase_id:
  "list_all (\<lambda>c. \<not> is_ascii_uppercase c) s \<Longrightarrow> to_ascii_lowercase s = s"
  by (induction s) (auto simp: to_ascii_lowercase_def to_ascii_lower_id)

lemma length_to_ascii_lowercase [simp]: "length (to_ascii_lowercase s) = length s"
  by (simp add: to_ascii_lowercase_def)

lemma to_ascii_lower_eq_iff:
  "\<not> is_ascii_alphabetic d \<Longrightarrow> to_ascii_lower c = d \<longleftrightarrow> c = d"
proof
  assume d: "\<not> is_ascii_alphabetic d" and "to_ascii_lower c = d"
  then have "octet d = octet (to_ascii_lower c)" by simp
  with d show "c = d"
    by (cases "is_ascii_uppercase c")
      (auto simp: octet_to_ascii_lower byte_class_defs dest: of_char_eqI)
next
  assume "\<not> is_ascii_alphabetic d" and "c = d"
  then show "to_ascii_lower c = d"
    by (simp add: to_ascii_lower_id is_ascii_alphabetic_def)
qed

lemma to_ascii_lower_classes [simp]:
  "is_ascii_digit (to_ascii_lower c) = is_ascii_digit c"
  "is_ascii_alphanumeric (to_ascii_lower c) = is_ascii_alphanumeric c"
  "is_ascii_alphabetic (to_ascii_lower c) = is_ascii_alphabetic c"
  "is_ascii_char (to_ascii_lower c) = is_ascii_char c"
  by (auto simp: byte_class_defs octet_to_ascii_lower)

lemma is_ascii_to_ascii_lowercase [simp]: "is_ascii (to_ascii_lowercase s) = is_ascii s"
  by (simp add: is_ascii_def to_ascii_lowercase_def list.pred_map comp_def)

end
