(* ===== verification/Std_Str.thy ===== *)
theory Std_Str
  imports Prelude
begin

text \<open>
  The \<open>str\<close> and slice operations of the Rust standard library that the program calls, over
  the UTF-8 bytes of the string: splitting and joining, prefixes and suffixes, searching,
  Unicode trimming and UTF-8 validation, each with the lemmas its callers share.
\<close>

section \<open>Splitting at a character\<close>

fun split_on :: "char \<Rightarrow> bytes \<Rightarrow> bytes list" where
  "split_on c [] = [[]]"
| "split_on c (x # xs) =
     (if x = c then [] # split_on c xs
      else (case split_on c xs of [] \<Rightarrow> [[x]] | y # ys \<Rightarrow> (x # y) # ys))"

fun join_with :: "char \<Rightarrow> bytes list \<Rightarrow> bytes" where
  "join_with c [] = []"
| "join_with c [y] = y"
| "join_with c (y # z # ys) = y @ c # join_with c (z # ys)"

lemma split_on_not_Nil [simp]: "split_on c s \<noteq> []"
  by (induction s) (auto split: list.splits)

lemma split_on_free: "c \<notin> set s \<Longrightarrow> split_on c s = [s]"
  by (induction s) auto

lemma split_on_append [simp]: "split_on c (s @ c # t) = split_on c s @ split_on c t"
  by (induction s) (auto simp: append_eq_Cons_conv split: list.splits)

lemma split_on_free_append:
  "c \<notin> set s \<Longrightarrow> split_on c (s @ c # t) = s # split_on c t"
  by (simp add: split_on_free)

lemma join_with_append:
  "xs \<noteq> [] \<Longrightarrow> ys \<noteq> [] \<Longrightarrow> join_with c (xs @ ys) = join_with c xs @ c # join_with c ys"
proof (induction c xs rule: join_with.induct)
  case (2 c y)
  then show ?case by (cases ys) auto
qed auto

lemma join_split [simp]: "join_with c (split_on c s) = s"
proof (induction s)
  case (Cons x s)
  show ?case
  proof (cases "split_on c s")
    case (Cons y ys)
    with Cons.IH show ?thesis by (cases ys) auto
  qed simp
qed simp

lemma split_join:
  "ps \<noteq> [] \<Longrightarrow> \<forall>p \<in> set ps. c \<notin> set p \<Longrightarrow> split_on c (join_with c ps) = ps"
  by (induction c ps rule: join_with.induct) (auto simp: split_on_free split_on_free_append)

lemma split_on_pieces: "p \<in> set (split_on c s) \<Longrightarrow> c \<notin> set p"
  by (induction s arbitrary: p) (fastforce split: if_splits list.splits)+

lemma split_on_inj: "split_on c s = split_on c t \<longleftrightarrow> s = t"
  by (metis join_split)

lemma set_split_on: "p \<in> set (split_on c s) \<Longrightarrow> set p \<subseteq> set s"
  by (induction s arbitrary: p) (fastforce split: if_splits list.splits)+

lemma split_on_chars: "x \<in> set s \<Longrightarrow> x \<noteq> c \<Longrightarrow> \<exists>p \<in> set (split_on c s). x \<in> set p"
  by (induction s) (fastforce split: list.splits)+

text \<open>
  A suffix of the list of pieces is the whole string or what follows one separator: what
  makes matching whole labels the same as matching a string suffix at a label boundary.
\<close>

lemma suffix_split_on:
  "suffix (split_on c p) (split_on c h) \<longleftrightarrow> h = p \<or> (\<exists>x. h = x @ c # p)"
proof
  assume "suffix (split_on c p) (split_on c h)"
  then obtain zs where zs: "split_on c h = zs @ split_on c p"
    by (auto simp: suffix_def)
  then have h: "h = join_with c (zs @ split_on c p)"
    by (metis join_split)
  show "h = p \<or> (\<exists>x. h = x @ c # p)"
  proof (cases "zs = []")
    case True
    with h show ?thesis by simp
  next
    case False
    with h have "h = join_with c zs @ c # p"
      by (simp add: join_with_append)
    then show ?thesis by blast
  qed
qed (auto simp: suffix_def)

section \<open>Prefixes, suffixes and positions\<close>

definition strip_prefix :: "bytes \<Rightarrow> bytes \<Rightarrow> bytes option" where
  "strip_prefix p s = (if prefix p s then Some (drop (length p) s) else None)"

definition strip_suffix :: "bytes \<Rightarrow> bytes \<Rightarrow> bytes option" where
  "strip_suffix p s = (if suffix p s then Some (take (length s - length p) s) else None)"

definition starts_with :: "bytes \<Rightarrow> bytes \<Rightarrow> bool" where
  "starts_with p s \<longleftrightarrow> prefix p s"

definition ends_with :: "bytes \<Rightarrow> bytes \<Rightarrow> bool" where
  "ends_with p s \<longleftrightarrow> suffix p s"

lemma strip_prefix_Some: "strip_prefix p s = Some t \<longleftrightarrow> s = p @ t"
  by (auto simp: strip_prefix_def prefix_def)

lemma strip_suffix_Some: "strip_suffix p s = Some t \<longleftrightarrow> s = t @ p"
  by (auto simp: strip_suffix_def suffix_def)

lemma strip_prefix_append [simp]: "strip_prefix p (p @ t) = Some t"
  by (simp add: strip_prefix_Some)

lemma strip_suffix_append [simp]: "strip_suffix p (t @ p) = Some t"
  by (simp add: strip_suffix_Some)

lemma ends_with_single: "ends_with [c] s \<longleftrightarrow> s \<noteq> [] \<and> last s = c"
  by (cases s rule: rev_cases) (auto simp: ends_with_def suffix_def)

lemma starts_with_single: "starts_with [c] s \<longleftrightarrow> s \<noteq> [] \<and> hd s = c"
  by (cases s) (auto simp: starts_with_def)

fun position :: "('a \<Rightarrow> bool) \<Rightarrow> 'a list \<Rightarrow> nat option" where
  "position P [] = None"
| "position P (x # xs) = (if P x then Some 0 else map_option Suc (position P xs))"

lemma position_None [simp]: "position P xs = None \<longleftrightarrow> (\<forall>x \<in> set xs. \<not> P x)"
  by (induction xs) auto

lemma position_Some:
  "position P xs = Some i \<longleftrightarrow> i < length xs \<and> P (xs ! i) \<and> (\<forall>j < i. \<not> P (xs ! j))"
proof (induction xs arbitrary: i)
  case (Cons x xs)
  then show ?case
    by (cases i) (auto simp: less_Suc_eq_0_disj nth_Cons split: nat.splits)
qed simp

text \<open>\<open>split_once\<close> and \<open>rsplit_once\<close> at a character: the first and the last occurrence.\<close>

definition split_once :: "char \<Rightarrow> bytes \<Rightarrow> (bytes \<times> bytes) option" where
  "split_once c s =
     (case position (\<lambda>x. x = c) s of None \<Rightarrow> None | Some i \<Rightarrow> Some (take i s, drop (Suc i) s))"

definition rsplit_once :: "char \<Rightarrow> bytes \<Rightarrow> (bytes \<times> bytes) option" where
  "rsplit_once c s =
     (case split_once c (rev s) of None \<Rightarrow> None | Some (b, a) \<Rightarrow> Some (rev a, rev b))"

lemma split_once_Some: "split_once c s = Some (a, b) \<longleftrightarrow> s = a @ c # b \<and> c \<notin> set a"
proof
  assume "split_once c s = Some (a, b)"
  then obtain i where "i < length s" "s ! i = c" "\<forall>j < i. s ! j \<noteq> c"
      "a = take i s" "b = drop (Suc i) s"
    by (auto simp: split_once_def position_Some split: option.splits)
  then show "s = a @ c # b \<and> c \<notin> set a"
    by (auto simp: id_take_nth_drop in_set_conv_nth)
next
  assume *: "s = a @ c # b \<and> c \<notin> set a"
  then have "position (\<lambda>x. x = c) s = Some (length a)"
    by (auto simp: position_Some nth_append)
  with * show "split_once c s = Some (a, b)"
    by (simp add: split_once_def)
qed

lemma split_once_None [simp]: "split_once c s = None \<longleftrightarrow> c \<notin> set s"
proof -
  have "split_once c s = None \<longleftrightarrow> position (\<lambda>x. x = c) s = None"
    by (simp add: split_once_def del: position_None split: option.split)
  then show ?thesis by auto
qed

lemma rsplit_once_Some: "rsplit_once c s = Some (a, b) \<longleftrightarrow> s = a @ c # b \<and> c \<notin> set b"
proof -
  have "rsplit_once c s = Some (a, b) \<longleftrightarrow> split_once c (rev s) = Some (rev b, rev a)"
    by (auto simp: rsplit_once_def simp del: split_once_None split: option.splits)
  also have "\<dots> \<longleftrightarrow> rev s = rev (a @ c # b) \<and> c \<notin> set b"
    by (simp add: split_once_Some)
  finally show ?thesis
    by (simp only: rev_is_rev_conv)
qed

lemma rsplit_once_None [simp]: "rsplit_once c s = None \<longleftrightarrow> c \<notin> set s"
proof -
  have "rsplit_once c s = None \<longleftrightarrow> split_once c (rev s) = None"
    by (auto simp: rsplit_once_def simp del: split_once_None split: option.split)
  then show ?thesis by simp
qed

text \<open>The first occurrence of a window, as \<open>windows(n).position\<close> and \<open>str::find\<close> compute it.\<close>

fun find_window :: "bytes \<Rightarrow> bytes \<Rightarrow> nat option" where
  "find_window w [] = (if w = [] then Some 0 else None)"
| "find_window w (x # xs) =
     (if prefix w (x # xs) then Some 0 else map_option Suc (find_window w xs))"

lemma find_window_Some:
  "find_window w s = Some i \<Longrightarrow> \<exists>t. s = take i s @ w @ t \<and> i + length w \<le> length s"
proof (induction w s arbitrary: i rule: find_window.induct)
  case (2 w x xs)
  show ?case
  proof (cases "prefix w (x # xs)")
    case True
    then obtain t where "x # xs = w @ t"
      by (auto simp: prefix_def)
    moreover from True have "length w \<le> length (x # xs)"
      by (rule prefix_length_le)
    moreover from True "2.prems" have "i = 0"
      by simp
    ultimately show ?thesis by simp
  next
    case False
    with "2.prems" obtain j where j: "find_window w xs = Some j" and i: "i = Suc j"
      by auto
    from "2.IH" [OF False j] i show ?thesis by auto
  qed
qed (auto split: if_splits)

lemma find_window_least:
  "find_window w s = Some i \<Longrightarrow> j < i \<Longrightarrow> \<not> prefix w (drop j s)"
proof (induction w s arbitrary: i j rule: find_window.induct)
  case (2 w x xs)
  then show ?case by (cases j) (auto split: if_splits)
qed (auto split: if_splits)

lemma find_window_None:
  "w \<noteq> [] \<Longrightarrow> find_window w s = None \<Longrightarrow> \<not> prefix w (drop j s)"
proof (induction w s arbitrary: j rule: find_window.induct)
  case (2 w x xs)
  then show ?case by (cases j) (auto split: if_splits)
qed auto

section \<open>Trimming\<close>

text \<open>
  \<open>str::trim\<close> removes Unicode \<open>White_Space\<close>: U+0009 to U+000D, U+0020, U+0085, U+00A0,
  U+1680, U+2000 to U+200A, U+2028, U+2029, U+202F, U+205F and U+3000, here in UTF-8.
\<close>

definition is_ws1 :: "char \<Rightarrow> bool" where
  "is_ws1 c \<longleftrightarrow> (9 \<le> octet c \<and> octet c \<le> 13) \<or> octet c = 32"

definition is_ws2 :: "char \<Rightarrow> char \<Rightarrow> bool" where
  "is_ws2 a b \<longleftrightarrow> octet a = 194 \<and> (octet b = 133 \<or> octet b = 160)"

definition is_ws3 :: "char \<Rightarrow> char \<Rightarrow> char \<Rightarrow> bool" where
  "is_ws3 a b c \<longleftrightarrow>
     (octet a = 225 \<and> octet b = 154 \<and> octet c = 128)
   \<or> (octet a = 226 \<and> octet b = 128 \<and>
        ((128 \<le> octet c \<and> octet c \<le> 138) \<or> octet c = 168 \<or> octet c = 169 \<or> octet c = 175))
   \<or> (octet a = 226 \<and> octet b = 129 \<and> octet c = 159)
   \<or> (octet a = 227 \<and> octet b = 128 \<and> octet c = 128)"

fun trim_start :: "bytes \<Rightarrow> bytes" where
  "trim_start [] = []"
| "trim_start (a # s) =
     (if is_ws1 a then trim_start s
      else case s of
             b # t \<Rightarrow>
               (if is_ws2 a b then trim_start t
                else case t of
                       c # u \<Rightarrow> (if is_ws3 a b c then trim_start u else a # s)
                     | [] \<Rightarrow> a # s)
           | [] \<Rightarrow> a # s)"

fun trim_end_rev :: "bytes \<Rightarrow> bytes" where
  "trim_end_rev [] = []"
| "trim_end_rev (c # s) =
     (if is_ws1 c then trim_end_rev s
      else case s of
             b # t \<Rightarrow>
               (if is_ws2 b c then trim_end_rev t
                else case t of
                       a # u \<Rightarrow> (if is_ws3 a b c then trim_end_rev u else c # s)
                     | [] \<Rightarrow> c # s)
           | [] \<Rightarrow> c # s)"

definition trim :: "bytes \<Rightarrow> bytes" where
  "trim s = rev (trim_end_rev (rev (trim_start s)))"

lemma trim_start_unspaced:
  "s = [] \<or> (\<not> is_ws1 (hd s) \<and> is_ascii_char (hd s)) \<Longrightarrow> trim_start s = s"
  by (cases s) (auto simp: is_ws2_def is_ws3_def is_ascii_char_def split: list.splits)

lemma trim_end_rev_unspaced:
  "s = [] \<or> (\<not> is_ws1 (hd s) \<and> is_ascii_char (hd s)) \<Longrightarrow> trim_end_rev s = s"
  by (cases s) (auto simp: is_ws2_def is_ws3_def is_ascii_char_def split: list.splits)

lemma trim_unspaced:
  "s = [] \<or> (\<not> is_ws1 (hd s) \<and> is_ascii_char (hd s) \<and> \<not> is_ws1 (last s) \<and> is_ascii_char (last s))
   \<Longrightarrow> trim s = s"
  by (auto simp: trim_def trim_start_unspaced trim_end_rev_unspaced hd_rev)

lemma suffix_trim_start: "suffix (trim_start s) s"
  by (induction s rule: trim_start.induct)
    (auto split: list.splits intro: suffix_ConsI simp: suffix_Cons)

lemma suffix_trim_end_rev: "suffix (trim_end_rev s) s"
  by (induction s rule: trim_end_rev.induct)
    (auto split: list.splits intro: suffix_ConsI simp: suffix_Cons)

lemma set_trim: "set (trim s) \<subseteq> set s"
  using set_mono_suffix [OF suffix_trim_start, of s]
    set_mono_suffix [OF suffix_trim_end_rev, of "rev (trim_start s)"]
  by (auto simp: trim_def)

definition trim_matches_char :: "char \<Rightarrow> bytes \<Rightarrow> bytes" where
  "trim_matches_char c s =
     rev (dropWhile (\<lambda>x. x = c) (rev (dropWhile (\<lambda>x. x = c) s)))"

lemma dropWhile_id: "t = [] \<or> \<not> P (hd t) \<Longrightarrow> dropWhile P t = t"
  by (cases t) auto

lemma trim_matches_char_id:
  assumes "s = [] \<or> (hd s \<noteq> c \<and> last s \<noteq> c)"
  shows "trim_matches_char c s = s"
proof -
  from assms have "dropWhile (\<lambda>x. x = c) s = s"
    by (intro dropWhile_id) blast
  moreover from assms have "dropWhile (\<lambda>x. x = c) (rev s) = rev s"
    by (intro dropWhile_id) (metis hd_rev rev_is_Nil_conv)
  ultimately show ?thesis
    by (simp add: trim_matches_char_def)
qed

section \<open>UTF-8\<close>

definition is_cont :: "char \<Rightarrow> bool" where
  "is_cont c \<longleftrightarrow> 128 \<le> octet c \<and> octet c \<le> 191"

text \<open>
  The well-formed sequences that \<open>str::from_utf8\<close> accepts: no overlong form, no surrogate,
  nothing above U+10FFFF.
\<close>

definition utf8_second :: "char \<Rightarrow> char \<Rightarrow> bool" where
  "utf8_second a b \<longleftrightarrow>
     (if octet a = 224 then 160 \<le> octet b \<and> octet b \<le> 191
      else if octet a = 237 then 128 \<le> octet b \<and> octet b \<le> 159
      else if octet a = 240 then 144 \<le> octet b \<and> octet b \<le> 191
      else if octet a = 244 then 128 \<le> octet b \<and> octet b \<le> 143
      else is_cont b)"

fun utf8_valid :: "bytes \<Rightarrow> bool" where
  "utf8_valid [] = True"
| "utf8_valid (a # s) =
     (if octet a < 128 then utf8_valid s
      else if 194 \<le> octet a \<and> octet a \<le> 223 then
        (case s of b # t \<Rightarrow> is_cont b \<and> utf8_valid t | [] \<Rightarrow> False)
      else if 224 \<le> octet a \<and> octet a \<le> 239 then
        (case s of b # c # t \<Rightarrow> utf8_second a b \<and> is_cont c \<and> utf8_valid t | _ \<Rightarrow> False)
      else if 240 \<le> octet a \<and> octet a \<le> 244 then
        (case s of b # c # d # t \<Rightarrow> utf8_second a b \<and> is_cont c \<and> is_cont d \<and> utf8_valid t
                 | _ \<Rightarrow> False)
      else False)"

lemma is_ascii_utf8_valid: "is_ascii s \<Longrightarrow> utf8_valid s"
  by (induction s) (auto simp: is_ascii_def is_ascii_char_def)

end
