(* ===== verification/Std_Num.thy ===== *)
theory Std_Num
  imports Std_Str
begin

text \<open>
  Numbers and their spellings: \<open>str::parse\<close> for the unsigned integers, \<open>Display\<close> and
  \<open>LowerHex\<close>, checked arithmetic on machine words, and \<open>Iterator::try_fold\<close>.
\<close>

section \<open>Digits\<close>

definition digit_value :: "char \<Rightarrow> nat" where
  "digit_value c = octet c - 48"

definition digit_char :: "nat \<Rightarrow> char" where
  "digit_char d = char_of (48 + d)"

definition hex_digit_value :: "char \<Rightarrow> nat" where
  "hex_digit_value c =
     (if is_ascii_digit c then octet c - 48
      else if 97 \<le> octet c then octet c - 87 else octet c - 55)"

definition hex_digit_char :: "nat \<Rightarrow> char" where
  "hex_digit_char d = (if d < 10 then char_of (48 + d) else char_of (87 + d))"

lemma octet_digit_char: "d < 10 \<Longrightarrow> octet (digit_char d) = 48 + d"
  by (simp add: digit_char_def of_char_of)

lemma digit_value_digit_char [simp]: "d < 10 \<Longrightarrow> digit_value (digit_char d) = d"
  by (simp add: digit_value_def octet_digit_char)

lemma is_ascii_digit_digit_char [simp]: "d < 10 \<Longrightarrow> is_ascii_digit (digit_char d)"
  by (simp add: is_ascii_digit_def octet_digit_char)

lemma digit_value_less: "is_ascii_digit c \<Longrightarrow> digit_value c < 10"
  by (auto simp: digit_value_def is_ascii_digit_def)

lemma digit_char_digit_value: "is_ascii_digit c \<Longrightarrow> digit_char (digit_value c) = c"
  by (rule of_char_eqI [where 'a = nat])
    (simp add: octet_digit_char digit_value_less, simp add: digit_value_def is_ascii_digit_def)

lemma octet_hex_digit_char:
  "d < 16 \<Longrightarrow> octet (hex_digit_char d) = (if d < 10 then 48 + d else 87 + d)"
  by (simp add: hex_digit_char_def of_char_of)

lemma hex_digit_value_char [simp]: "d < 16 \<Longrightarrow> hex_digit_value (hex_digit_char d) = d"
  by (auto simp: hex_digit_value_def octet_hex_digit_char is_ascii_digit_def)

lemma is_ascii_hexdigit_char [simp]: "d < 16 \<Longrightarrow> is_ascii_hexdigit (hex_digit_char d)"
  by (auto simp: octet_hex_digit_char byte_class_defs)

lemma hex_digit_value_less: "is_ascii_hexdigit c \<Longrightarrow> hex_digit_value c < 16"
  by (auto simp: hex_digit_value_def byte_class_defs)

section \<open>Values of digit strings\<close>

definition dec_value :: "bytes \<Rightarrow> nat" where
  "dec_value s = foldl (\<lambda>v c. v * 10 + digit_value c) 0 s"

definition hex_value_of :: "bytes \<Rightarrow> nat" where
  "hex_value_of s = foldl (\<lambda>v c. v * 16 + hex_digit_value c) 0 s"

lemma dec_value_simps [simp]:
  "dec_value [] = 0"
  "dec_value (s @ [c]) = dec_value s * 10 + digit_value c"
  by (simp_all add: dec_value_def)

lemma hex_value_of_simps [simp]:
  "hex_value_of [] = 0"
  "hex_value_of (s @ [c]) = hex_value_of s * 16 + hex_digit_value c"
  by (simp_all add: hex_value_of_def)

lemma dec_value_single [simp]: "dec_value [c] = digit_value c"
  using dec_value_simps(2) [of "[]" c] by simp

lemma hex_value_of_single [simp]: "hex_value_of [c] = hex_digit_value c"
  using hex_value_of_simps(2) [of "[]" c] by simp

fun show_nat :: "nat \<Rightarrow> bytes" where
  "show_nat n = (if n < 10 then [digit_char n] else show_nat (n div 10) @ [digit_char (n mod 10)])"

fun show_hex :: "nat \<Rightarrow> bytes" where
  "show_hex n =
     (if n < 16 then [hex_digit_char n] else show_hex (n div 16) @ [hex_digit_char (n mod 16)])"

declare show_nat.simps [simp del] show_hex.simps [simp del]

lemma show_nat_not_Nil [simp]: "show_nat n \<noteq> []"
  by (subst show_nat.simps) simp

lemma show_hex_not_Nil [simp]: "show_hex n \<noteq> []"
  by (subst show_hex.simps) simp

lemma dec_value_show_nat [simp]: "dec_value (show_nat n) = n"
proof (induction n rule: show_nat.induct)
  case (1 n)
  then show ?case
    by (subst show_nat.simps) auto
qed

lemma hex_value_show_hex [simp]: "hex_value_of (show_hex n) = n"
proof (induction n rule: show_hex.induct)
  case (1 n)
  then show ?case
    by (subst show_hex.simps) auto
qed

lemma show_nat_inj [simp]: "show_nat m = show_nat n \<longleftrightarrow> m = n"
  by (metis dec_value_show_nat)

lemma show_nat_digits [simp]: "list_all is_ascii_digit (show_nat n)"
proof (induction n rule: show_nat.induct)
  case (1 n)
  then show ?case
    by (subst show_nat.simps) auto
qed

lemma show_hex_digits [simp]: "list_all is_ascii_hexdigit (show_hex n)"
proof (induction n rule: show_hex.induct)
  case (1 n)
  then show ?case
    by (subst show_hex.simps) auto
qed

lemma show_nat_digit: "c \<in> set (show_nat n) \<Longrightarrow> is_ascii_digit c"
  using show_nat_digits [of n] by (auto simp: list_all_iff)

lemma show_nat_free: "\<not> is_ascii_digit c \<Longrightarrow> c \<notin> set (show_nat n)"
  using show_nat_digit by blast

text \<open>No leading zero is printed, and every canonical digit string is what its value prints.\<close>

definition canonical_digits :: "bytes \<Rightarrow> bool" where
  "canonical_digits s \<longleftrightarrow>
     s \<noteq> [] \<and> list_all is_ascii_digit s \<and> (1 < length s \<longrightarrow> hd s \<noteq> CHR ''0'')"

lemma dec_value_0_iff:
  "list_all is_ascii_digit s \<Longrightarrow> dec_value s = 0 \<longleftrightarrow> (\<forall>c \<in> set s. c = CHR ''0'')"
proof (induction s rule: rev_induct)
  case (snoc c s)
  have "digit_char 0 = CHR ''0''"
    by (rule of_char_eqI [where 'a = nat]) (simp add: octet_digit_char)
  moreover have "is_ascii_digit c"
    using snoc.prems by simp
  ultimately have "digit_value c = 0 \<longleftrightarrow> c = CHR ''0''"
    using digit_char_digit_value [of c] by (metis digit_value_digit_char zero_less_numeral)
  with snoc show ?case by auto
qed simp

lemma show_nat_dec_value: "canonical_digits s \<Longrightarrow> show_nat (dec_value s) = s"
proof (induction s rule: rev_induct)
  case (snoc c s)
  then have c: "is_ascii_digit c" and s: "list_all is_ascii_digit s"
    by (auto simp: canonical_digits_def)
  show ?case
  proof (cases "s = []")
    case True
    with c show ?thesis
      by (subst show_nat.simps) (simp add: digit_value_less digit_char_digit_value)
  next
    case False
    then have hd: "hd s \<noteq> CHR ''0''"
      using snoc.prems by (cases s) (auto simp: canonical_digits_def)
    then have "dec_value s \<noteq> 0"
      using False s by (metis dec_value_0_iff hd_in_set)
    moreover have "show_nat (dec_value s) = s"
      using False s hd by (intro snoc.IH) (auto simp: canonical_digits_def)
    ultimately show ?thesis
      using c by (subst show_nat.simps) (simp add: digit_value_less digit_char_digit_value)
  qed
qed (simp add: canonical_digits_def)

lemma show_nat_canonical: "canonical_digits (show_nat n)"
proof (induction n rule: show_nat.induct)
  case (1 n)
  show ?case
  proof (cases "n < 10")
    case True
    then show ?thesis
      by (subst show_nat.simps) (simp add: canonical_digits_def)
  next
    case False
    with 1 have IH: "canonical_digits (show_nat (n div 10))" by simp
    have "hd (show_nat (n div 10)) \<noteq> CHR ''0''"
    proof
      assume *: "hd (show_nat (n div 10)) = CHR ''0''"
      with IH have "show_nat (n div 10) = [CHR ''0'']"
        by (cases "show_nat (n div 10)") (auto simp: canonical_digits_def)
      then have "n div 10 = dec_value [CHR ''0'']"
        by (metis dec_value_show_nat)
      with False show False by (simp add: digit_value_def)
    qed
    with False IH show ?thesis
      by (subst show_nat.simps) (simp add: canonical_digits_def)
  qed
qed

section \<open>Parsing unsigned integers\<close>

text \<open>
  \<open>str::parse\<close> for an unsigned type whose largest value is \<open>bound\<close>: an optional \<open>+\<close>, then
  at least one decimal digit and nothing else, and no overflow.
\<close>

definition parse_uint :: "nat \<Rightarrow> bytes \<Rightarrow> nat option" where
  "parse_uint bound s =
     (let d = (case s of [] \<Rightarrow> [] | x # xs \<Rightarrow> if x = CHR ''+'' then xs else s)
      in if d \<noteq> [] \<and> list_all is_ascii_digit d \<and> dec_value d \<le> bound
         then Some (dec_value d) else None)"

lemma plus_no_digit [simp]: "\<not> is_ascii_digit (CHR ''+'')"
  by (simp add: is_ascii_digit_def)

lemma parse_uint_digits:
  "s \<noteq> [] \<Longrightarrow> list_all is_ascii_digit s \<Longrightarrow>
     parse_uint bound s = (if dec_value s \<le> bound then Some (dec_value s) else None)"
  by (cases s) (auto simp: parse_uint_def)

lemma parse_uint_show_nat: "n \<le> bound \<Longrightarrow> parse_uint bound (show_nat n) = Some n"
  by (simp add: parse_uint_digits)

section \<open>Checked arithmetic\<close>

definition checked_add :: "'a::len word \<Rightarrow> 'a word \<Rightarrow> 'a word option" where
  "checked_add a b = (if unat a + unat b < 2 ^ LENGTH('a) then Some (a + b) else None)"

definition checked_mul :: "'a::len word \<Rightarrow> 'a word \<Rightarrow> 'a word option" where
  "checked_mul a b = (if unat a * unat b < 2 ^ LENGTH('a) then Some (a * b) else None)"

text \<open>Evaluation compares integers, which are binary, and not natural numbers.\<close>

lemma checked_add_code [code]:
  "checked_add (a :: 'a::len word) b =
     (if uint a + uint b < 2 ^ LENGTH('a) then Some (a + b) else None)"
proof -
  have "unat a + unat b < 2 ^ LENGTH('a) \<longleftrightarrow> uint a + uint b < 2 ^ LENGTH('a)"
    unfolding uint_nat by (metis of_nat_add of_nat_less_iff of_nat_numeral of_nat_power)
  then show ?thesis
    by (simp add: checked_add_def)
qed

lemma checked_mul_code [code]:
  "checked_mul (a :: 'a::len word) b =
     (if uint a * uint b < 2 ^ LENGTH('a) then Some (a * b) else None)"
proof -
  have "unat a * unat b < 2 ^ LENGTH('a) \<longleftrightarrow> uint a * uint b < 2 ^ LENGTH('a)"
    unfolding uint_nat by (metis of_nat_mult of_nat_less_iff of_nat_numeral of_nat_power)
  then show ?thesis
    by (simp add: checked_mul_def)
qed

lemma unat_less_pow: "unat (w :: 'a::len word) < 2 ^ LENGTH('a)"
  by (rule unsigned_less)

lemma checked_add_Some:
  "checked_add a b = Some c \<longleftrightarrow> unat a + unat b = unat c"
  by (auto simp: checked_add_def unat_word_ariths word_unat_eq_iff unat_less_pow)

lemma checked_mul_Some:
  "checked_mul a b = Some c \<longleftrightarrow> unat a * unat b = unat c"
  by (auto simp: checked_mul_def unat_word_ariths word_unat_eq_iff unat_less_pow)

fun try_fold :: "('b \<Rightarrow> 'a \<Rightarrow> 'b option) \<Rightarrow> 'b \<Rightarrow> 'a list \<Rightarrow> 'b option" where
  "try_fold f v [] = Some v"
| "try_fold f v (x # xs) = (case f v x of None \<Rightarrow> None | Some w \<Rightarrow> try_fold f w xs)"

text \<open>
  A positional accumulation in a machine word, step by step checked, computes the value of the
  digit string exactly when that value fits, and fails otherwise.
\<close>

lemma foldl_digits_ge: "(v::nat) \<le> foldl (\<lambda>v c. v * Suc r + g c) v s"
proof (induction s arbitrary: v)
  case (Cons c s)
  have "v \<le> v * Suc r + g c" by simp
  also have "\<dots> \<le> foldl (\<lambda>v c. v * Suc r + g c) (v * Suc r + g c) s"
    by (rule Cons)
  finally show ?case by simp
qed simp

definition checked_digit :: "'a::len word \<Rightarrow> ('b \<Rightarrow> 'a word) \<Rightarrow> 'a word \<Rightarrow> 'b \<Rightarrow> 'a word option" where
  "checked_digit r g v c =
     (case checked_mul v r of None \<Rightarrow> None | Some w \<Rightarrow> checked_add w (g c))"

lemma checked_digit_Some:
  "checked_digit r g v c = Some w \<longleftrightarrow> unat v * unat r + unat (g c) = unat w"
proof
  assume "checked_digit r g v c = Some w"
  then show "unat v * unat r + unat (g c) = unat w"
    by (auto simp: checked_digit_def checked_mul_Some checked_add_Some split: option.splits)
next
  assume *: "unat v * unat r + unat (g c) = unat w"
  then have "unat v * unat r < 2 ^ LENGTH('a)"
    using unat_less_pow [of w] by linarith
  then have "unat v * unat r = unat (v * r)"
    by (simp add: unat_word_ariths)
  then have "checked_mul v r = Some (v * r)"
    by (simp add: checked_mul_Some)
  with * \<open>unat v * unat r = unat (v * r)\<close> show "checked_digit r g v c = Some w"
    by (simp add: checked_digit_def checked_add_Some)
qed

lemma checked_digit_None:
  fixes v :: "'a::len word"
  assumes "checked_digit r g v c = None"
  shows "2 ^ LENGTH('a) \<le> unat v * unat r + unat (g c)"
proof (rule ccontr)
  assume "\<not> ?thesis"
  then have "unat v * unat r + unat (g c) = unat (of_nat (unat v * unat r + unat (g c)) :: 'a word)"
    by (simp only: unat_of_nat not_le mod_less)
  then have "checked_digit r g v c = Some (of_nat (unat v * unat r + unat (g c)))"
    by (simp only: checked_digit_Some)
  with assms show False by simp
qed

lemma try_fold_checked:
  fixes v w :: "'a::len word"
  assumes r: "unat r = Suc k"
  shows "try_fold (checked_digit r g) v s = Some w
     \<longleftrightarrow> foldl (\<lambda>v c. v * Suc k + unat (g c)) (unat v) s = unat w"
proof (induction s arbitrary: v)
  case (Cons c s)
  show ?case
  proof (cases "checked_digit r g v c")
    case None
    have "2 ^ LENGTH('a) \<le> unat v * Suc k + unat (g c)"
      using checked_digit_None [OF None] by (simp only: r)
    also have "\<dots> \<le> foldl (\<lambda>v c. v * Suc k + unat (g c)) (unat v * Suc k + unat (g c)) s"
      by (rule foldl_digits_ge)
    finally have "2 ^ LENGTH('a) \<le> foldl (\<lambda>v c. v * Suc k + unat (g c)) (unat v) (c # s)"
      by (simp only: foldl_Cons)
    then have "foldl (\<lambda>v c. v * Suc k + unat (g c)) (unat v) (c # s) \<noteq> unat w"
      by (metis unat_less_pow not_le)
    with None show ?thesis by simp
  next
    case (Some u)
    then have "unat v * Suc k + unat (g c) = unat u"
      by (simp only: checked_digit_Some r)
    with Some Cons show ?thesis by simp
  qed
qed (simp add: word_unat_eq_iff)

end
