(* ===== verification/Ip_Addr.thy ===== *)
theory Ip_Addr
  imports Std_Num
begin

text \<open>
  \<open>std::net\<close>: the address types, their numeric values, their classification predicates and
  the standard library's parser and printer for them. An IPv4 address is four octets, an IPv6
  address eight 16-bit segments. The parser is the recursive-descent parser of
  \<open>core::net::parser\<close>: every reader is atomic, so it returns the value and the rest of the
  input, or \<open>None\<close> with the input untouched.
\<close>

type_synonym u8 = "8 word"
type_synonym u16 = "16 word"
type_synonym u32 = "32 word"
type_synonym u64 = "64 word"
type_synonym u128 = "128 word"

datatype ipv4_addr = Ipv4Addr u8 u8 u8 u8

datatype ipv6_addr = Ipv6Addr u16 u16 u16 u16 u16 u16 u16 u16

datatype ip_addr = V4 ipv4_addr | V6 ipv6_addr

section \<open>Values and classes\<close>

primrec octets :: "ipv4_addr \<Rightarrow> u8 list" where
  "octets (Ipv4Addr a b c d) = [a, b, c, d]"

primrec segments :: "ipv6_addr \<Rightarrow> u16 list" where
  "segments (Ipv6Addr a b c d e f g h) = [a, b, c, d, e, f, g, h]"

fun ipv6_of_segments :: "u16 list \<Rightarrow> ipv6_addr option" where
  "ipv6_of_segments [a, b, c, d, e, f, g, h] = Some (Ipv6Addr a b c d e f g h)"
| "ipv6_of_segments _ = None"

definition ipv4_nat :: "ipv4_addr \<Rightarrow> nat" where
  "ipv4_nat a = foldl (\<lambda>v x. v * 256 + unat x) 0 (octets a)"

definition ipv6_nat :: "ipv6_addr \<Rightarrow> nat" where
  "ipv6_nat a = foldl (\<lambda>v x. v * 65536 + unat x) 0 (segments a)"

text \<open>\<open>u32::from(Ipv4Addr)\<close> and \<open>u128::from(Ipv6Addr)\<close>, big-endian.\<close>

definition ipv4_u32 :: "ipv4_addr \<Rightarrow> u32" where
  "ipv4_u32 a = of_nat (ipv4_nat a)"

definition ipv6_u128 :: "ipv6_addr \<Rightarrow> u128" where
  "ipv6_u128 a = of_nat (ipv6_nat a)"

lemma length_segments [simp]: "length (segments a) = 8"
  by (cases a) simp

lemma ipv6_of_segments_Some: "length xs = 8 \<Longrightarrow> \<exists>a. ipv6_of_segments xs = Some a \<and> segments a = xs"
  by (auto simp: numeral_eq_Suc length_Suc_conv)

lemma ipv6_of_segments_segments [simp]: "ipv6_of_segments (segments a) = Some a"
  by (cases a) simp

lemma u8_bound: "unat (x :: u8) < 256"
  using unsigned_less [of x] by simp

lemma u16_bound: "unat (x :: u16) < 65536"
  using unsigned_less [of x] by simp

lemma foldl_positional_bound:
  assumes "\<And>x. x \<in> set xs \<Longrightarrow> f x < (b::nat)" and "v < b ^ n"
  shows "foldl (\<lambda>v x. v * b + f x) v xs < b ^ (n + length xs)"
  using assms
proof (induction xs arbitrary: v n)
  case (Cons x xs)
  have "v * b + f x < b ^ Suc n"
  proof -
    have "v * b + f x < (v + 1) * b" using Cons.prems(1) [of x] by simp
    also have "\<dots> \<le> b ^ n * b" using Cons.prems(2) by (intro mult_right_mono) auto
    finally show ?thesis by (simp add: mult.commute)
  qed
  with Cons.IH [of "v * b + f x" "Suc n"] Cons.prems(1) show ?case by simp
qed simp

lemma positional_eq:
  assumes "A * b + x = B * b + y" and "x < b" and "y < (b::nat)"
  shows "A = B \<and> x = y"
proof -
  have "A = (A * b + x) div b" and "x = (A * b + x) mod b"
    using assms(2) by simp_all
  moreover have "B = (B * b + y) div b" and "y = (B * b + y) mod b"
    using assms(3) by simp_all
  ultimately show ?thesis
    using assms(1) by metis
qed

lemma foldl_positional_inj:
  assumes "\<And>x. f x < (b::nat)"
  shows "length xs = length ys \<Longrightarrow>
     foldl (\<lambda>v x. v * b + f x) v xs = foldl (\<lambda>v x. v * b + f x) v ys \<Longrightarrow> map f xs = map f ys"
proof (induction xs arbitrary: ys rule: rev_induct)
  case (snoc x xs)
  then obtain y zs where ys: "ys = zs @ [y]"
    by (cases ys rule: rev_cases) auto
  with snoc.prems have "foldl (\<lambda>v x. v * b + f x) v xs * b + f x
      = foldl (\<lambda>v x. v * b + f x) v zs * b + f y"
    by simp
  then have "foldl (\<lambda>v x. v * b + f x) v xs = foldl (\<lambda>v x. v * b + f x) v zs \<and> f x = f y"
    by (rule positional_eq) (rule assms)+
  with snoc ys show ?case by simp
qed simp

lemma ipv4_nat_inj: "ipv4_nat a = ipv4_nat b \<longleftrightarrow> a = b"
proof
  assume "ipv4_nat a = ipv4_nat b"
  then have "map unat (octets a) = map unat (octets b)"
    unfolding ipv4_nat_def
    by (rule foldl_positional_inj [OF u8_bound, rotated]) (cases a; cases b; simp)
  then show "a = b"
    by (cases a; cases b) (simp add: word_unat_eq_iff)
qed simp

lemma ipv6_nat_inj: "ipv6_nat a = ipv6_nat b \<longleftrightarrow> a = b"
proof
  assume "ipv6_nat a = ipv6_nat b"
  then have "map unat (segments a) = map unat (segments b)"
    unfolding ipv6_nat_def
    by (rule foldl_positional_inj [OF u16_bound, rotated]) simp
  then show "a = b"
    by (cases a; cases b) (simp add: word_unat_eq_iff)
qed simp

lemma ipv4_nat_bound: "ipv4_nat a < 2 ^ 32"
  using foldl_positional_bound [of "octets a" unat 256 0 0] u8_bound
  by (cases a) (simp add: ipv4_nat_def)

lemma ipv6_nat_bound: "ipv6_nat a < 2 ^ 128"
  using foldl_positional_bound [of "segments a" unat 65536 0 0] u16_bound
  by (simp add: ipv6_nat_def)

lemma unat_ipv4_u32 [simp]: "unat (ipv4_u32 a) = ipv4_nat a"
  using ipv4_nat_bound [of a] by (simp add: ipv4_u32_def unat_of_nat)

lemma unat_ipv6_u128 [simp]: "unat (ipv6_u128 a) = ipv6_nat a"
  using ipv6_nat_bound [of a] by (simp add: ipv6_u128_def unat_of_nat)

definition ipv4_is_loopback :: "ipv4_addr \<Rightarrow> bool" where
  "ipv4_is_loopback a \<longleftrightarrow> octets a ! 0 = 127"

definition ipv4_is_multicast :: "ipv4_addr \<Rightarrow> bool" where
  "ipv4_is_multicast a \<longleftrightarrow> 224 \<le> octets a ! 0 \<and> octets a ! 0 \<le> 239"

definition ipv4_broadcast :: ipv4_addr where
  "ipv4_broadcast = Ipv4Addr 255 255 255 255"

definition ipv6_loopback :: ipv6_addr where
  "ipv6_loopback = Ipv6Addr 0 0 0 0 0 0 0 1"

definition ipv6_is_loopback :: "ipv6_addr \<Rightarrow> bool" where
  "ipv6_is_loopback a \<longleftrightarrow> a = ipv6_loopback"

text \<open>\<open>is_multicast\<close>: the first segment masked with \<open>0xff00\<close> is \<open>0xff00\<close>.\<close>

definition ipv6_is_multicast :: "ipv6_addr \<Rightarrow> bool" where
  "ipv6_is_multicast a \<longleftrightarrow> unat (segments a ! 0) div 256 = 255"

text \<open>A segment is two big-endian octets.\<close>

definition segment_octets :: "u16 \<Rightarrow> u8 \<times> u8" where
  "segment_octets s = (of_nat (unat s div 256), of_nat (unat s mod 256))"

definition octets_segment :: "u8 \<Rightarrow> u8 \<Rightarrow> u16" where
  "octets_segment a b = of_nat (unat a * 256 + unat b)"

fun to_ipv4_mapped :: "ipv6_addr \<Rightarrow> ipv4_addr option" where
  "to_ipv4_mapped (Ipv6Addr a b c d e f g h) =
     (if a = 0 \<and> b = 0 \<and> c = 0 \<and> d = 0 \<and> e = 0 \<and> f = 0xffff
      then (case segment_octets g of (p, q) \<Rightarrow>
            case segment_octets h of (r, s) \<Rightarrow> Some (Ipv4Addr p q r s))
      else None)"

section \<open>Printing\<close>

definition show_u8 :: "u8 \<Rightarrow> bytes" where
  "show_u8 x = show_nat (unat x)"

fun show_ipv4 :: "ipv4_addr \<Rightarrow> bytes" where
  "show_ipv4 (Ipv4Addr a b c d) =
     show_u8 a @ ''.'' @ show_u8 b @ ''.'' @ show_u8 c @ ''.'' @ show_u8 d"

text \<open>The first longest run of zero segments, as (start, length); a later run of the same
  length does not replace an earlier one.\<close>

fun zero_span :: "u16 list \<Rightarrow> nat \<Rightarrow> nat \<times> nat \<Rightarrow> nat \<times> nat \<Rightarrow> nat \<times> nat" where
  "zero_span [] i cur longest = longest"
| "zero_span (x # xs) i cur longest =
     (if x = 0 then
        let cur' = (if snd cur = 0 then (i, 1) else (fst cur, snd cur + 1))
        in zero_span xs (Suc i) cur' (if snd longest < snd cur' then cur' else longest)
      else zero_span xs (Suc i) (0, 0) longest)"

fun show_segments :: "u16 list \<Rightarrow> bytes" where
  "show_segments [] = []"
| "show_segments [x] = show_hex (unat x)"
| "show_segments (x # y # xs) = show_hex (unat x) @ '':'' @ show_segments (y # xs)"

definition show_ipv6 :: "ipv6_addr \<Rightarrow> bytes" where
  "show_ipv6 a =
     (case to_ipv4_mapped a of
        Some v4 \<Rightarrow> ''::ffff:'' @ show_ipv4 v4
      | None \<Rightarrow>
          (let ss = segments a; (start, len) = zero_span ss 0 (0, 0) (0, 0)
           in if 1 < len
              then show_segments (take start ss) @ ''::'' @ show_segments (drop (start + len) ss)
              else show_segments ss))"

primrec show_ip :: "ip_addr \<Rightarrow> bytes" where
  "show_ip (V4 a) = show_ipv4 a"
| "show_ip (V6 a) = show_ipv6 a"

section \<open>Parsing\<close>

type_synonym 'a reader = "bytes \<Rightarrow> ('a \<times> bytes) option"

definition read_given_char :: "char \<Rightarrow> unit reader" where
  "read_given_char c s = (case s of [] \<Rightarrow> None | x # xs \<Rightarrow> if x = c then Some ((), xs) else None)"

text \<open>\<open>read_number(radix, Some(max_digits), allow_zero_prefix)\<close> into a type of largest value
  \<open>bound\<close>; the program's callers use radix 10 and radix 16.\<close>

definition read_dec :: "nat \<Rightarrow> nat \<Rightarrow> nat reader" where
  "read_dec max_digits bound s =
     (let ds = takeWhile is_ascii_digit s
      in if ds = [] \<or> max_digits < length ds \<or> (hd ds = CHR ''0'' \<and> 1 < length ds)
            \<or> bound < dec_value ds
         then None else Some (dec_value ds, drop (length ds) s))"

definition read_hex :: "nat \<Rightarrow> nat reader" where
  "read_hex max_digits s =
     (let ds = takeWhile is_ascii_hexdigit s
      in if ds = [] \<or> max_digits < length ds
         then None else Some (hex_value_of ds, drop (length ds) s))"

definition read_separator :: "char \<Rightarrow> nat \<Rightarrow> 'a reader \<Rightarrow> 'a reader" where
  "read_separator c i r s =
     (if i = 0 then r s
      else case read_given_char c s of None \<Rightarrow> None | Some (_, t) \<Rightarrow> r t)"

fun read_octets :: "nat \<Rightarrow> nat \<Rightarrow> u8 list reader" where
  "read_octets i 0 s = Some ([], s)"
| "read_octets i (Suc n) s =
     (case read_separator (CHR ''.'') i (read_dec 3 255) s of
        None \<Rightarrow> None
      | Some (x, t) \<Rightarrow>
          (case read_octets (Suc i) n t of
             None \<Rightarrow> None
           | Some (xs, u) \<Rightarrow> Some (of_nat x # xs, u)))"

text \<open>The same equation without patterns on the counter, for evaluation with binary numbers.\<close>

lemma read_octets_code [code]:
  "read_octets i n s =
     (if n = 0 then Some ([], s)
      else
        case read_separator (CHR ''.'') i (read_dec 3 255) s of
          None \<Rightarrow> None
        | Some (x, t) \<Rightarrow>
            (case read_octets (Suc i) (n - 1) t of
               None \<Rightarrow> None
             | Some (xs, u) \<Rightarrow> Some (of_nat x # xs, u)))"
  by (cases n) (simp_all split: option.split)

definition read_ipv4 :: "ipv4_addr reader" where
  "read_ipv4 s =
     (case read_octets 0 4 s of
        Some ([a, b, c, d], t) \<Rightarrow> Some (Ipv4Addr a b c d, t)
      | _ \<Rightarrow> None)"

text \<open>\<open>read_groups\<close>: at most \<open>limit\<close> groups from index \<open>i\<close> on, the last two of which may be
  an embedded IPv4 address.\<close>

function read_groups :: "nat \<Rightarrow> nat \<Rightarrow> bytes \<Rightarrow> u16 list \<times> bool \<times> bytes" where
  "read_groups limit i s =
     (if limit \<le> i then ([], False, s)
      else case (if i < limit - 1 then read_separator (CHR '':'') i read_ipv4 s else None) of
             Some (Ipv4Addr a b c d, t) \<Rightarrow> ([octets_segment a b, octets_segment c d], True, t)
           | None \<Rightarrow>
               (case read_separator (CHR '':'') i (read_hex 4) s of
                  None \<Rightarrow> ([], False, s)
                | Some (g, t) \<Rightarrow>
                    (case read_groups limit (Suc i) t of
                       (gs, v4, u) \<Rightarrow> (of_nat g # gs, v4, u))))"
  by pat_completeness auto
termination
  by (relation "measure (\<lambda>(limit, i, s). limit - i)") auto

declare read_groups.simps [simp del]

definition read_ipv6 :: "ipv6_addr reader" where
  "read_ipv6 s =
     (case read_groups 8 0 s of
        (head, head_v4, t) \<Rightarrow>
          if length head = 8 then map_option (\<lambda>a. (a, t)) (ipv6_of_segments head)
          else if head_v4 then None
          else
            (case read_given_char (CHR '':'') t of
               None \<Rightarrow> None
             | Some (_, t1) \<Rightarrow>
                 (case read_given_char (CHR '':'') t1 of
                    None \<Rightarrow> None
                  | Some (_, t2) \<Rightarrow>
                      (case read_groups (8 - (length head + 1)) 0 t2 of
                         (tail, _, t3) \<Rightarrow>
                           map_option (\<lambda>a. (a, t3))
                             (ipv6_of_segments
                                (head @ replicate (8 - length head - length tail) 0 @ tail))))))"

definition parse_std_ipv4 :: "bytes \<Rightarrow> ipv4_addr option" where
  "parse_std_ipv4 s =
     (if 15 < length s then None
      else case read_ipv4 s of Some (a, []) \<Rightarrow> Some a | _ \<Rightarrow> None)"

definition parse_std_ipv6 :: "bytes \<Rightarrow> ipv6_addr option" where
  "parse_std_ipv6 s = (case read_ipv6 s of Some (a, []) \<Rightarrow> Some a | _ \<Rightarrow> None)"

end
