(* ===== verification/Registry.thy ===== *)
theory Registry
  imports Ip_Addr
begin

text \<open>
  The reviewed IANA special-purpose boundary (\<open>proxy/src/connect/public/registry.rs\<close>): the two
  registry tables, longest-prefix selection, and the decision whether an address is globally
  reachable. The lemmas turn masked comparison into division, and longest-prefix selection into
  a statement about the entries that contain the address; from these follow exact
  characterisations of the addresses the proxy may dial.
\<close>

unbundle bit_operations_syntax

datatype registry_flag = FlagTrue | FlagFalse | Indeterminate

abbreviation TT :: registry_flag where "TT \<equiv> FlagTrue"
abbreviation FF :: registry_flag where "FF \<equiv> FlagFalse"
abbreviation NN :: registry_flag where "NN \<equiv> Indeterminate"

record ipv4_entry =
  v4_network :: ipv4_addr
  v4_prefix :: nat
  v4_destination :: registry_flag
  v4_forwardable :: registry_flag
  v4_globally_reachable :: registry_flag

record ipv6_entry =
  v6_network :: ipv6_addr
  v6_prefix :: nat
  v6_destination :: registry_flag
  v6_forwardable :: registry_flag
  v6_globally_reachable :: registry_flag

definition three_true :: "registry_flag \<Rightarrow> registry_flag \<Rightarrow> registry_flag \<Rightarrow> bool" where
  "three_true destination forwardable globally_reachable \<longleftrightarrow>
     destination = FlagTrue \<and> forwardable = FlagTrue \<and> globally_reachable = FlagTrue"

definition v4_eligible :: "ipv4_entry \<Rightarrow> bool" where
  "v4_eligible e = three_true (v4_destination e) (v4_forwardable e) (v4_globally_reachable e)"

definition v6_eligible :: "ipv6_entry \<Rightarrow> bool" where
  "v6_eligible e = three_true (v6_destination e) (v6_forwardable e) (v6_globally_reachable e)"

fun v4 :: "u8 \<times> u8 \<times> u8 \<times> u8 \<Rightarrow> nat \<Rightarrow> registry_flag \<Rightarrow> registry_flag \<Rightarrow> registry_flag \<Rightarrow> ipv4_entry" where
  "v4 (a, b, c, d) p x y z =
     \<lparr>v4_network = Ipv4Addr a b c d, v4_prefix = p,
      v4_destination = x, v4_forwardable = y, v4_globally_reachable = z\<rparr>"

fun v6 :: "u16 \<times> u16 \<times> u16 \<times> u16 \<times> u16 \<times> u16 \<times> u16 \<times> u16 \<Rightarrow> nat \<Rightarrow>
             registry_flag \<Rightarrow> registry_flag \<Rightarrow> registry_flag \<Rightarrow> ipv6_entry" where
  "v6 (a, b, c, d, e, f, g, h) p x y z =
     \<lparr>v6_network = Ipv6Addr a b c d e f g h, v6_prefix = p,
      v6_destination = x, v6_forwardable = y, v6_globally_reachable = z\<rparr>"

definition ipv4_special_purpose :: "ipv4_entry list" where
  "ipv4_special_purpose =
    [v4 (0, 0, 0, 0) 8 FF FF FF,
     v4 (0, 0, 0, 0) 32 FF FF FF,
     v4 (10, 0, 0, 0) 8 TT TT FF,
     v4 (100, 64, 0, 0) 10 TT TT FF,
     v4 (127, 0, 0, 0) 8 FF FF FF,
     v4 (169, 254, 0, 0) 16 TT FF FF,
     v4 (172, 16, 0, 0) 12 TT TT FF,
     v4 (192, 0, 0, 0) 24 FF FF FF,
     v4 (192, 0, 0, 0) 29 TT TT FF,
     v4 (192, 0, 0, 8) 32 FF FF FF,
     v4 (192, 0, 0, 9) 32 TT TT TT,
     v4 (192, 0, 0, 10) 32 TT TT TT,
     v4 (192, 0, 0, 170) 32 FF FF FF,
     v4 (192, 0, 0, 171) 32 FF FF FF,
     v4 (192, 0, 2, 0) 24 FF FF FF,
     v4 (192, 31, 196, 0) 24 TT TT TT,
     v4 (192, 52, 193, 0) 24 TT TT TT,
     v4 (192, 88, 99, 0) 24 NN NN NN,
     v4 (192, 88, 99, 2) 32 TT TT FF,
     v4 (192, 168, 0, 0) 16 TT TT FF,
     v4 (192, 175, 48, 0) 24 TT TT TT,
     v4 (198, 18, 0, 0) 15 TT TT FF,
     v4 (198, 51, 100, 0) 24 FF FF FF,
     v4 (203, 0, 113, 0) 24 FF FF FF,
     v4 (240, 0, 0, 0) 4 FF FF FF,
     v4 (255, 255, 255, 255) 32 TT FF FF]"

definition ipv6_special_purpose :: "ipv6_entry list" where
  "ipv6_special_purpose =
    [v6 (0, 0, 0, 0, 0, 0, 0, 1) 128 FF FF FF,
     v6 (0, 0, 0, 0, 0, 0, 0, 0) 128 FF FF FF,
     v6 (0, 0, 0, 0, 0, 0xffff, 0, 0) 96 FF FF FF,
     v6 (0x64, 0xff9b, 0, 0, 0, 0, 0, 0) 96 TT TT TT,
     v6 (0x64, 0xff9b, 1, 0, 0, 0, 0, 0) 48 TT TT FF,
     v6 (0x100, 0, 0, 0, 0, 0, 0, 0) 64 TT TT FF,
     v6 (0x100, 0, 0, 1, 0, 0, 0, 0) 64 TT FF FF,
     v6 (0x2001, 0, 0, 0, 0, 0, 0, 0) 23 FF FF FF,
     v6 (0x2001, 0, 0, 0, 0, 0, 0, 0) 32 TT TT NN,
     v6 (0x2001, 1, 0, 0, 0, 0, 0, 1) 128 TT TT TT,
     v6 (0x2001, 1, 0, 0, 0, 0, 0, 2) 128 TT TT TT,
     v6 (0x2001, 1, 0, 0, 0, 0, 0, 3) 128 TT TT TT,
     v6 (0x2001, 2, 0, 0, 0, 0, 0, 0) 48 TT TT FF,
     v6 (0x2001, 3, 0, 0, 0, 0, 0, 0) 32 TT TT TT,
     v6 (0x2001, 4, 0x112, 0, 0, 0, 0, 0) 48 TT TT TT,
     v6 (0x2001, 0x10, 0, 0, 0, 0, 0, 0) 28 NN NN NN,
     v6 (0x2001, 0x20, 0, 0, 0, 0, 0, 0) 28 TT TT TT,
     v6 (0x2001, 0x30, 0, 0, 0, 0, 0, 0) 28 TT TT TT,
     v6 (0x2001, 0xdb8, 0, 0, 0, 0, 0, 0) 32 FF FF FF,
     v6 (0x2002, 0, 0, 0, 0, 0, 0, 0) 16 TT TT NN,
     v6 (0x2620, 0x4f, 0x8000, 0, 0, 0, 0, 0) 48 TT TT TT,
     v6 (0x3fff, 0, 0, 0, 0, 0, 0, 0) 20 FF FF FF,
     v6 (0x5f00, 0, 0, 0, 0, 0, 0, 0) 16 TT TT FF,
     v6 (0xfc00, 0, 0, 0, 0, 0, 0, 0) 7 TT TT FF,
     v6 (0xfe80, 0, 0, 0, 0, 0, 0, 0) 10 TT FF FF]"

section \<open>Prefix membership and longest-prefix selection\<close>

definition ipv4_in_prefix :: "ipv4_addr \<Rightarrow> ipv4_addr \<Rightarrow> nat \<Rightarrow> bool" where
  "ipv4_in_prefix address network p =
     (let msk = (if p = 0 then 0 else push_bit (32 - p) (- 1 :: u32))
      in ipv4_u32 address AND msk = ipv4_u32 network AND msk)"

definition ipv6_in_prefix :: "ipv6_addr \<Rightarrow> ipv6_addr \<Rightarrow> nat \<Rightarrow> bool" where
  "ipv6_in_prefix address network p =
     (let msk = (if p = 0 then 0 else push_bit (128 - p) (- 1 :: u128))
      in ipv6_u128 address AND msk = ipv6_u128 network AND msk)"

text \<open>\<open>Iterator::max_by_key\<close>: the last of the elements whose key is largest.\<close>

definition max_by_key :: "('a \<Rightarrow> nat) \<Rightarrow> 'a list \<Rightarrow> 'a option" where
  "max_by_key f xs =
     foldl (\<lambda>acc x. case acc of None \<Rightarrow> Some x
                    | Some y \<Rightarrow> if f y \<le> f x then Some x else Some y) None xs"

definition most_specific_v4 :: "ipv4_addr \<Rightarrow> ipv4_entry option" where
  "most_specific_v4 address =
     max_by_key v4_prefix
       (filter (\<lambda>e. ipv4_in_prefix address (v4_network e) (v4_prefix e)) ipv4_special_purpose)"

definition most_specific_v6 :: "ipv6_addr \<Rightarrow> ipv6_entry option" where
  "most_specific_v6 address =
     max_by_key v6_prefix
       (filter (\<lambda>e. ipv6_in_prefix address (v6_network e) (v6_prefix e)) ipv6_special_purpose)"

definition ipv4_is_global :: "ipv4_addr \<Rightarrow> bool" where
  "ipv4_is_global address =
     (if ipv4_is_multicast address \<or> address = ipv4_broadcast then False
      else case most_specific_v4 address of None \<Rightarrow> True | Some e \<Rightarrow> v4_eligible e)"

definition ipv6_is_global :: "ipv6_addr \<Rightarrow> bool" where
  "ipv6_is_global address =
     (if ipv6_is_multicast address \<or> to_ipv4_mapped address \<noteq> None then False
      else
        (let special = most_specific_v6 address
         in if ipv6_in_prefix address (Ipv6Addr 0x2000 0 0 0 0 0 0 0) 3
            then (case special of None \<Rightarrow> True | Some e \<Rightarrow> v6_eligible e)
            else (case special of None \<Rightarrow> False | Some e \<Rightarrow> v6_eligible e)))"

section \<open>Masks are division\<close>

lemma mask_eq_drop_bit:
  fixes x y :: "'a::len word"
  shows "x AND NOT (mask k) = y AND NOT (mask k) \<longleftrightarrow> drop_bit k x = drop_bit k y"
proof
  assume *: "x AND NOT (mask k) = y AND NOT (mask k)"
  show "drop_bit k x = drop_bit k y"
  proof (rule bit_eqI)
    fix n
    have "bit (x AND NOT (mask k)) (k + n) = bit (y AND NOT (mask k)) (k + n)"
      by (simp only: *)
    then show "bit (drop_bit k x) n = bit (drop_bit k y) n"
      by (cases "k + n < LENGTH('a)")
        (auto simp: bit_and_iff bit_not_iff bit_mask_iff bit_drop_bit_eq dest: bit_imp_le_length)
  qed
next
  assume *: "drop_bit k x = drop_bit k y"
  show "x AND NOT (mask k) = y AND NOT (mask k)"
  proof (rule bit_eqI)
    fix n
    have "bit (drop_bit k x) (n - k) = bit (drop_bit k y) (n - k)"
      by (simp only: *)
    then show "bit (x AND NOT (mask k)) n = bit (y AND NOT (mask k)) n"
      by (auto simp: bit_and_iff bit_not_iff bit_mask_iff bit_drop_bit_eq)
  qed
qed

lemma mask_eq_div:
  fixes x y :: "'a::len word"
  shows "x AND NOT (mask k) = y AND NOT (mask k) \<longleftrightarrow> unat x div 2 ^ k = unat y div 2 ^ k"
  by (simp only: mask_eq_drop_bit word_unat_eq_iff [of "drop_bit k x"] unat_drop_bit_eq
      drop_bit_eq_div [where 'a = nat])

lemma ipv4_in_prefix_div:
  "ipv4_in_prefix a n p \<longleftrightarrow> ipv4_nat a div 2 ^ (32 - p) = ipv4_nat n div 2 ^ (32 - p)"
  using ipv4_nat_bound [of a] ipv4_nat_bound [of n]
  by (simp add: ipv4_in_prefix_def mask_eq_div)

lemma ipv6_in_prefix_div:
  "ipv6_in_prefix a n p \<longleftrightarrow> ipv6_nat a div 2 ^ (128 - p) = ipv6_nat n div 2 ^ (128 - p)"
  using ipv6_nat_bound [of a] ipv6_nat_bound [of n]
  by (simp add: ipv6_in_prefix_def mask_eq_div)

section \<open>Longest-prefix selection\<close>

lemma max_by_key_snoc:
  "max_by_key f (xs @ [x]) =
     (case max_by_key f xs of None \<Rightarrow> Some x
      | Some y \<Rightarrow> if f y \<le> f x then Some x else Some y)"
  by (simp add: max_by_key_def)

lemma max_by_key_Nil [simp]: "max_by_key f [] = None"
  by (simp add: max_by_key_def)

lemma max_by_key_None [simp]: "max_by_key f xs = None \<longleftrightarrow> xs = []"
  by (cases xs rule: rev_cases) (auto simp: max_by_key_snoc max_by_key_def split: option.splits)

lemma max_by_key_Some:
  "max_by_key f xs = Some x \<Longrightarrow> x \<in> set xs \<and> (\<forall>y \<in> set xs. f y \<le> f x)"
proof (induction xs arbitrary: x rule: rev_induct)
  case (snoc z xs)
  show ?case
  proof (cases "max_by_key f xs")
    case None
    with snoc.prems show ?thesis by (auto simp: max_by_key_snoc)
  next
    case (Some y)
    with snoc show ?thesis
      by (fastforce simp: max_by_key_snoc split: if_splits)
  qed
qed (simp add: max_by_key_def)

text \<open>
  When ineligible and eligible entries that hold the same address never have the same prefix
  length, the selected entry is eligible exactly when every ineligible entry that holds the
  address is overridden by a longer eligible one.
\<close>

lemma max_by_key_good:
  assumes tie: "\<And>x y. x \<in> set xs \<Longrightarrow> y \<in> set xs \<Longrightarrow> f x = f y \<Longrightarrow> good x = good y"
  shows "(case max_by_key f xs of None \<Rightarrow> True | Some e \<Rightarrow> good e)
     \<longleftrightarrow> (\<forall>x \<in> set xs. \<not> good x \<longrightarrow> (\<exists>y \<in> set xs. good y \<and> f x < f y))"
proof (cases "max_by_key f xs")
  case None
  then show ?thesis by simp
next
  case (Some e)
  from max_by_key_Some [OF Some] have e: "e \<in> set xs" and top: "\<forall>y \<in> set xs. f y \<le> f e"
    by auto
  have "good e \<longleftrightarrow> (\<forall>x \<in> set xs. \<not> good x \<longrightarrow> (\<exists>y \<in> set xs. good y \<and> f x < f y))"
  proof
    assume "good e"
    then show "\<forall>x \<in> set xs. \<not> good x \<longrightarrow> (\<exists>y \<in> set xs. good y \<and> f x < f y)"
      using e top tie by (metis le_neq_implies_less)
  next
    assume "\<forall>x \<in> set xs. \<not> good x \<longrightarrow> (\<exists>y \<in> set xs. good y \<and> f x < f y)"
    then show "good e"
      using e top by (metis not_le)
  qed
  with Some show ?thesis by simp
qed

section \<open>The addresses that may be dialled\<close>

text \<open>
  The reference: closed address ranges that are reserved, and the two anycast addresses inside
  192.0.0.0/24 that the registry marks as globally reachable.
\<close>

definition ipv4_reserved :: "(ipv4_addr \<times> ipv4_addr) list" where
  "ipv4_reserved =
    [(Ipv4Addr 0 0 0 0, Ipv4Addr 0 255 255 255),
     (Ipv4Addr 10 0 0 0, Ipv4Addr 10 255 255 255),
     (Ipv4Addr 100 64 0 0, Ipv4Addr 100 127 255 255),
     (Ipv4Addr 127 0 0 0, Ipv4Addr 127 255 255 255),
     (Ipv4Addr 169 254 0 0, Ipv4Addr 169 254 255 255),
     (Ipv4Addr 172 16 0 0, Ipv4Addr 172 31 255 255),
     (Ipv4Addr 192 0 0 0, Ipv4Addr 192 0 0 255),
     (Ipv4Addr 192 0 2 0, Ipv4Addr 192 0 2 255),
     (Ipv4Addr 192 88 99 0, Ipv4Addr 192 88 99 255),
     (Ipv4Addr 192 168 0 0, Ipv4Addr 192 168 255 255),
     (Ipv4Addr 198 18 0 0, Ipv4Addr 198 19 255 255),
     (Ipv4Addr 198 51 100 0, Ipv4Addr 198 51 100 255),
     (Ipv4Addr 203 0 113 0, Ipv4Addr 203 0 113 255),
     (Ipv4Addr 224 0 0 0, Ipv4Addr 239 255 255 255),
     (Ipv4Addr 240 0 0 0, Ipv4Addr 255 255 255 255)]"

definition ipv4_exceptions :: "ipv4_addr list" where
  "ipv4_exceptions = [Ipv4Addr 192 0 0 9, Ipv4Addr 192 0 0 10]"

definition ipv4_between :: "ipv4_addr \<Rightarrow> ipv4_addr \<Rightarrow> ipv4_addr \<Rightarrow> bool" where
  "ipv4_between lo a hi \<longleftrightarrow> ipv4_nat lo \<le> ipv4_nat a \<and> ipv4_nat a \<le> ipv4_nat hi"

definition ipv4_outside_reserved :: "ipv4_addr \<Rightarrow> bool" where
  "ipv4_outside_reserved a \<longleftrightarrow>
     a \<in> set ipv4_exceptions \<or> (\<forall>(lo, hi) \<in> set ipv4_reserved. \<not> ipv4_between lo a hi)"

lemma ipv4_nat_Ipv4Addr:
  "ipv4_nat (Ipv4Addr a b c d) = ((unat a * 256 + unat b) * 256 + unat c) * 256 + unat d"
  by (simp add: ipv4_nat_def)

text \<open>
  An entry as (prefix length, network number, eligible): an address is in the entry's network
  when its leading bits, as a number, are the network number. Entries of one table differ in
  prefix length or network number, so the longest entry that holds an address is unique.
\<close>

definition holds_prefix :: "nat \<Rightarrow> nat \<Rightarrow> nat \<times> nat \<times> bool \<Rightarrow> bool" where
  "holds_prefix w n t \<longleftrightarrow> n div 2 ^ (w - fst t) = fst (snd t)"

lemma longest_prefix_eligible:
  assumes "distinct (map (\<lambda>t. (fst t, fst (snd t))) (map summary T))"
  shows "(case max_by_key (\<lambda>e. fst (summary e)) (filter (\<lambda>e. holds_prefix w n (summary e)) T) of
            None \<Rightarrow> True | Some e \<Rightarrow> snd (snd (summary e)))
     \<longleftrightarrow> (\<forall>t \<in> set (map summary T). holds_prefix w n t \<longrightarrow> \<not> snd (snd t) \<longrightarrow>
           (\<exists>u \<in> set (map summary T). holds_prefix w n u \<and> snd (snd u) \<and> fst t < fst u))"
proof -
  have tie: "snd (snd (summary x)) = snd (snd (summary y))"
    if "x \<in> set (filter (\<lambda>e. holds_prefix w n (summary e)) T)"
      and "y \<in> set (filter (\<lambda>e. holds_prefix w n (summary e)) T)"
      and "fst (summary x) = fst (summary y)" for x y
  proof -
    from that have "(fst (summary x), fst (snd (summary x))) = (fst (summary y), fst (snd (summary y)))"
      by (auto simp: holds_prefix_def)
    moreover have "inj_on (\<lambda>t. (fst t, fst (snd t))) (set (map summary T))"
      using assms by (simp only: distinct_map)
    ultimately have "summary x = summary y"
      using that by (auto dest: inj_onD)
    then show ?thesis by simp
  qed
  show ?thesis
    by (subst max_by_key_good [where good = "\<lambda>e. snd (snd (summary e))", OF tie]) auto
qed

text \<open>An entry that overrides another is nested in it, which closed network numbers decide.\<close>

definition overrides :: "nat \<times> nat \<times> bool \<Rightarrow> nat \<times> nat \<times> bool \<Rightarrow> bool" where
  "overrides u t \<longleftrightarrow>
     snd (snd u) \<and> fst t < fst u \<and> fst (snd u) div 2 ^ (fst u - fst t) = fst (snd t)"

lemma nested_prefix:
  assumes "holds_prefix w n t" and "holds_prefix w n u" and "fst t < fst u" and "fst u \<le> w"
  shows "fst (snd u) div 2 ^ (fst u - fst t) = fst (snd t)"
proof -
  have "fst (snd u) div 2 ^ (fst u - fst t) = n div 2 ^ (w - fst u) div 2 ^ (fst u - fst t)"
    using assms(2) by (simp add: holds_prefix_def)
  also have "\<dots> = n div 2 ^ ((w - fst u) + (fst u - fst t))"
    by (simp add: div_mult2_eq power_add)
  also have "(w - fst u) + (fst u - fst t) = w - fst t"
    using assms(3,4) by simp
  finally show ?thesis
    using assms(1) by (simp add: holds_prefix_def)
qed

lemma longest_prefix_overrides:
  assumes "distinct (map (\<lambda>t. (fst t, fst (snd t))) (map summary T))"
    and "\<forall>t \<in> set (map summary T). fst t \<le> w"
  shows "(case max_by_key (\<lambda>e. fst (summary e)) (filter (\<lambda>e. holds_prefix w n (summary e)) T) of
            None \<Rightarrow> True | Some e \<Rightarrow> snd (snd (summary e)))
     \<longleftrightarrow> (\<forall>t \<in> set (map summary T). \<not> snd (snd t) \<longrightarrow> holds_prefix w n t \<longrightarrow>
           (\<exists>u \<in> set (map summary T). overrides u t \<and> holds_prefix w n u))"
proof -
  have "holds_prefix w n t \<Longrightarrow>
      (holds_prefix w n u \<and> snd (snd u) \<and> fst t < fst u) = (overrides u t \<and> holds_prefix w n u)"
    if "u \<in> set (map summary T)" for t u
    using nested_prefix [of w n t u] assms(2) that by (auto simp: overrides_def)
  then show ?thesis
    unfolding longest_prefix_eligible [OF assms(1)]
    by (intro ball_cong refl iffI impI) blast+
qed

definition v4_summary :: "ipv4_entry \<Rightarrow> nat \<times> nat \<times> bool" where
  "v4_summary e =
     (v4_prefix e, ipv4_nat (v4_network e) div 2 ^ (32 - v4_prefix e), v4_eligible e)"

lemma v4_summaries:
  "map v4_summary ipv4_special_purpose =
     [(8, 0, False),
      (32, 0, False),
      (8, 10, False),
      (10, 401, False),
      (8, 127, False),
      (16, 43518, False),
      (12, 2753, False),
      (24, 12582912, False),
      (29, 402653184, False),
      (32, 3221225480, False),
      (32, 3221225481, True),
      (32, 3221225482, True),
      (32, 3221225642, False),
      (32, 3221225643, False),
      (24, 12582914, False),
      (24, 12591044, True),
      (24, 12596417, True),
      (24, 12605539, False),
      (32, 3227017986, False),
      (16, 49320, False),
      (24, 12627760, True),
      (15, 25353, False),
      (24, 12989284, False),
      (24, 13303921, False),
      (4, 15, False),
      (32, 4294967295, False)]"
  by (simp add: ipv4_special_purpose_def v4_summary_def v4_eligible_def three_true_def
      ipv4_nat_Ipv4Addr)

lemma v4_summaries_distinct:
  "distinct (map (\<lambda>t. (fst t, fst (snd t))) (map v4_summary ipv4_special_purpose))"
  by (simp add: v4_summaries)

lemma ipv4_selected_eligible:
  "(case most_specific_v4 a of None \<Rightarrow> True | Some e \<Rightarrow> v4_eligible e) \<longleftrightarrow>
     (\<forall>t \<in> set (map v4_summary ipv4_special_purpose). \<not> snd (snd t) \<longrightarrow>
        holds_prefix 32 (ipv4_nat a) t \<longrightarrow>
          (\<exists>u \<in> set (map v4_summary ipv4_special_purpose).
             overrides u t \<and> holds_prefix 32 (ipv4_nat a) u))"
proof -
  have "\<forall>t \<in> set (map v4_summary ipv4_special_purpose). fst t \<le> 32"
    by (simp add: v4_summaries)
  from longest_prefix_overrides [OF v4_summaries_distinct this, of "ipv4_nat a"]
  show ?thesis
    by (simp add: most_specific_v4_def ipv4_in_prefix_div holds_prefix_def v4_summary_def
      cong: option.case_cong)
qed

lemma div_eq_range: "0 < (k::nat) \<Longrightarrow> n div k = b \<longleftrightarrow> b * k \<le> n \<and> n < (b + 1) * k"
proof
  assume "0 < k" and b: "n div k = b"
  have "b * k + n mod k = n"
    using div_mult_mod_eq [of n k] b by simp
  moreover have "n mod k < k"
    using \<open>0 < k\<close> by simp
  moreover have "(b + 1) * k = b * k + k"
    by simp
  ultimately show "b * k \<le> n \<and> n < (b + 1) * k"
    by linarith
qed (auto intro: div_nat_eqI simp: mult.commute)

text \<open>
  Membership in a network as a half-open range of numbers. The predicate stays folded in the
  proofs below, so that they are propositional but for the inclusion of one range in another.
\<close>

definition range_out :: "nat \<Rightarrow> nat \<Rightarrow> nat \<Rightarrow> bool" where
  "range_out l h n \<longleftrightarrow> n < l \<or> h \<le> n"

lemma range_out_mono: "range_out l h n \<Longrightarrow> l \<le> l' \<Longrightarrow> h' \<le> h \<Longrightarrow> range_out l' h' n"
  by (auto simp: range_out_def)

lemma range_out_single: "range_out k (Suc k) n \<longleftrightarrow> n \<noteq> k"
  by (auto simp: range_out_def)

lemma holds_prefix_range:
  "holds_prefix w n (p, b, g) \<longleftrightarrow> \<not> range_out (b * 2 ^ (w - p)) ((b + 1) * 2 ^ (w - p)) n"
  by (auto simp: holds_prefix_def range_out_def div_eq_range)

lemma ipv4_between_range:
  "ipv4_between lo a hi \<longleftrightarrow> \<not> range_out (ipv4_nat lo) (Suc (ipv4_nat hi)) (ipv4_nat a)"
  by (auto simp: ipv4_between_def range_out_def)

lemma ipv4_is_multicast_range:
  "ipv4_is_multicast a \<longleftrightarrow> \<not> range_out 3758096384 4026531840 (ipv4_nat a)"
proof (cases a)
  case (Ipv4Addr p q r s)
  have "unat q < 256" and "unat r < 256" and "unat s < 256"
    by (rule u8_bound)+
  with Ipv4Addr show ?thesis
    by (simp add: ipv4_is_multicast_def ipv4_nat_Ipv4Addr word_le_nat_alt range_out_def) linarith
qed

lemma ipv4_broadcast_range: "a = ipv4_broadcast \<longleftrightarrow> \<not> range_out 4294967295 4294967296 (ipv4_nat a)"
  by (auto simp: ipv4_broadcast_def ipv4_nat_Ipv4Addr range_out_def simp flip: ipv4_nat_inj)

lemma ipv4_is_global_ranges:
  assumes n: "n = ipv4_nat a"
  shows "ipv4_is_global a \<longleftrightarrow>
     range_out 3758096384 4026531840 n \<and> range_out 4294967295 4294967296 n \<and>
     (\<forall>t \<in> set (map v4_summary ipv4_special_purpose). \<not> snd (snd t) \<longrightarrow> holds_prefix 32 n t \<longrightarrow>
        (\<exists>u \<in> set (map v4_summary ipv4_special_purpose). overrides u t \<and> holds_prefix 32 n u))"
  unfolding n ipv4_selected_eligible [symmetric]
  by (auto simp: ipv4_is_global_def ipv4_is_multicast_range ipv4_broadcast_range)

lemma ipv4_is_global_outside: "ipv4_is_global a \<longleftrightarrow> ipv4_outside_reserved a"
proof -
  define n where "n = ipv4_nat a"
  note unfold_all = ipv4_is_global_ranges [OF n_def] v4_summaries ipv4_outside_reserved_def
      ipv4_exceptions_def ipv4_reserved_def ipv4_between_range
  note eval = holds_prefix_range overrides_def ipv4_nat_Ipv4Addr
  show ?thesis
  proof (cases "n = 3221225481 \<or> n = 3221225482")
    case True
    then show ?thesis
      unfolding unfold_all
      by (auto simp: eval range_out_def simp flip: ipv4_nat_inj n_def)
  next
    case False
    then have "range_out 3221225481 3221225482 n" and "range_out 3221225482 3221225483 n"
      by (auto simp: range_out_def)
    with False show ?thesis
      unfolding unfold_all
      by (simp add: eval flip: ipv4_nat_inj n_def)
        (intro iffI; elim conjE; intro conjI;
          (assumption | (rule range_out_mono, assumption, (simp; fail), (simp; fail))))
  qed
qed

text \<open>C27: an IPv4 address is accepted for a public dial exactly when it lies outside the reserved
  ranges (or is one of the two globally reachable anycast addresses inside 192.0.0.0/24).\<close>

theorem ipv4_is_global_iff: "ipv4_is_global a \<longleftrightarrow> ipv4_outside_reserved a"
  by (rule ipv4_is_global_outside)

section \<open>IPv6\<close>

lemma ipv6_nat_Ipv6Addr:
  "ipv6_nat (Ipv6Addr a b c d e f g h) =
     ((((((unat a * 65536 + unat b) * 65536 + unat c) * 65536 + unat d) * 65536 + unat e) * 65536
        + unat f) * 65536 + unat g) * 65536 + unat h"
  by (simp add: ipv6_nat_def)

definition v6_summary :: "ipv6_entry \<Rightarrow> nat \<times> nat \<times> bool" where
  "v6_summary e =
     (v6_prefix e, ipv6_nat (v6_network e) div 2 ^ (128 - v6_prefix e), v6_eligible e)"

lemma v6_summaries:
  "map v6_summary ipv6_special_purpose =
     [(128, 1, False),
      (128, 0, False),
      (96, 65535, False),
      (96, 122099644659926101980610560, True),
      (48, 433785077761, False),
      (64, 72057594037927936, False),
      (64, 72057594037927937, False),
      (23, 1048704, False),
      (32, 536936448, False),
      (128, 42540488241204005274814694018844196865, True),
      (128, 42540488241204005274814694018844196866, True),
      (128, 42540488241204005274814694018844196867, True),
      (48, 35188667187200, False),
      (32, 536936451, True),
      (48, 35188667318546, True),
      (28, 33558529, False),
      (28, 33558530, True),
      (28, 33558531, True),
      (32, 536939960, False),
      (16, 8194, False),
      (48, 41918886019072, True),
      (20, 262128, False),
      (16, 24320, False),
      (7, 126, False),
      (10, 1018, False)]"
  by (simp add: ipv6_special_purpose_def v6_summary_def v6_eligible_def three_true_def
      ipv6_nat_Ipv6Addr)

lemma v6_summaries_distinct:
  "distinct (map (\<lambda>t. (fst t, fst (snd t))) (map v6_summary ipv6_special_purpose))"
  by (simp add: v6_summaries)

lemma ipv6_selected_eligible:
  "(case most_specific_v6 a of None \<Rightarrow> True | Some e \<Rightarrow> v6_eligible e) \<longleftrightarrow>
     (\<forall>t \<in> set (map v6_summary ipv6_special_purpose). \<not> snd (snd t) \<longrightarrow>
        holds_prefix 128 (ipv6_nat a) t \<longrightarrow>
          (\<exists>u \<in> set (map v6_summary ipv6_special_purpose).
             overrides u t \<and> holds_prefix 128 (ipv6_nat a) u))"
proof -
  have "\<forall>t \<in> set (map v6_summary ipv6_special_purpose). fst t \<le> 128"
    by (simp add: v6_summaries)
  from longest_prefix_overrides [OF v6_summaries_distinct this, of "ipv6_nat a"]
  show ?thesis
    by (simp add: most_specific_v6_def ipv6_in_prefix_div holds_prefix_def v6_summary_def
      cong: option.case_cong)
qed

lemma most_specific_v6_holds:
  assumes "most_specific_v6 a = Some e"
  shows "holds_prefix 128 (ipv6_nat a) (v6_summary e) \<and> v6_summary e \<in> set (map v6_summary ipv6_special_purpose)"
  using max_by_key_Some [OF assms [unfolded most_specific_v6_def]]
  by (simp add: holds_prefix_def v6_summary_def ipv6_in_prefix_div)

lemma ipv6_is_multicast_range:
  "ipv6_is_multicast a \<longleftrightarrow> \<not> range_out 338953138925153547590470800371487866880
     340282366920938463463374607431768211456 (ipv6_nat a)"
proof (cases a)
  case (Ipv6Addr p q r s t u v w)
  have "unat p < 65536" "unat q < 65536" "unat r < 65536" "unat s < 65536" "unat t < 65536"
    "unat u < 65536" "unat v < 65536" "unat w < 65536"
    by (rule u16_bound)+
  with Ipv6Addr show ?thesis
    by (simp add: ipv6_is_multicast_def ipv6_nat_Ipv6Addr range_out_def div_eq_range) linarith
qed

lemma to_ipv4_mapped_range:
  "to_ipv4_mapped a \<noteq> None \<longleftrightarrow> \<not> range_out 281470681743360 281474976710656 (ipv6_nat a)"
proof (cases a)
  case (Ipv6Addr p q r s t u v w)
  define m where "m = foldl (\<lambda>v x. v * 65536 + unat x) 0 [p, q, r, s, t, u]"
  have "unat v < 65536" "unat w < 65536"
    by (rule u16_bound)+
  moreover have "ipv6_nat a = m * 4294967296 + (unat v * 65536 + unat w)"
    using Ipv6Addr by (simp add: ipv6_nat_Ipv6Addr m_def)
  ultimately have "\<not> range_out 281470681743360 281474976710656 (ipv6_nat a) \<longleftrightarrow> m = 65535"
    by (auto simp: range_out_def)
  also have "m = 65535 \<longleftrightarrow> [p, q, r, s, t, u] = [0, 0, 0, 0, 0, 0xffff]"
  proof
    assume "m = 65535"
    then have "map unat [p, q, r, s, t, u] = map unat [0, 0, 0, 0, 0, 0xffff :: u16]"
      by (intro foldl_positional_inj [OF u16_bound, where v = 0]) (simp_all add: m_def)
    then show "[p, q, r, s, t, u] = [0, 0, 0, 0, 0, 0xffff]"
      by (simp add: word_unat_eq_iff)
  qed (simp add: m_def)
  finally show ?thesis
    using Ipv6Addr by (simp split: prod.splits)
qed

text \<open>
  The reference: the NAT64 prefix 64:ff9b::/96, and global unicast space 2000::/3 without the
  IETF protocol assignments 2001::/23, the documentation prefixes and 6to4, but with the
  globally reachable assignments inside 2001::/23.
\<close>

definition ipv6_contains :: "ipv6_addr \<times> nat \<Rightarrow> ipv6_addr \<Rightarrow> bool" where
  "ipv6_contains net a \<longleftrightarrow>
     (let k = 2 ^ (128 - snd net); base = ipv6_nat (fst net)
      in base \<le> ipv6_nat a \<and> ipv6_nat a < base + k)"

definition ipv6_nat64 :: "ipv6_addr \<times> nat" where
  "ipv6_nat64 = (Ipv6Addr 0x64 0xff9b 0 0 0 0 0 0, 96)"

definition ipv6_global_unicast :: "ipv6_addr \<times> nat" where
  "ipv6_global_unicast = (Ipv6Addr 0x2000 0 0 0 0 0 0 0, 3)"

definition ipv6_reserved :: "(ipv6_addr \<times> nat) list" where
  "ipv6_reserved =
    [(Ipv6Addr 0x2001 0 0 0 0 0 0 0, 23),
     (Ipv6Addr 0x2001 0xdb8 0 0 0 0 0 0, 32),
     (Ipv6Addr 0x2002 0 0 0 0 0 0 0, 16),
     (Ipv6Addr 0x3fff 0 0 0 0 0 0 0, 20)]"

definition ipv6_exceptions :: "(ipv6_addr \<times> nat) list" where
  "ipv6_exceptions =
    [(Ipv6Addr 0x2001 1 0 0 0 0 0 1, 128),
     (Ipv6Addr 0x2001 1 0 0 0 0 0 2, 128),
     (Ipv6Addr 0x2001 1 0 0 0 0 0 3, 128),
     (Ipv6Addr 0x2001 3 0 0 0 0 0 0, 32),
     (Ipv6Addr 0x2001 4 0x112 0 0 0 0 0, 48),
     (Ipv6Addr 0x2001 0x20 0 0 0 0 0 0, 28),
     (Ipv6Addr 0x2001 0x30 0 0 0 0 0 0, 28)]"

definition ipv6_outside_reserved :: "ipv6_addr \<Rightarrow> bool" where
  "ipv6_outside_reserved a \<longleftrightarrow>
     ipv6_contains ipv6_nat64 a \<or>
     ipv6_contains ipv6_global_unicast a \<and>
       (list_ex (\<lambda>net. ipv6_contains net a) ipv6_exceptions \<or>
        list_all (\<lambda>net. \<not> ipv6_contains net a) ipv6_reserved)"

lemma ipv6_contains_range:
  "ipv6_contains (Ipv6Addr b c d e f g h i, p) a \<longleftrightarrow>
     \<not> range_out (ipv6_nat (Ipv6Addr b c d e f g h i))
          (ipv6_nat (Ipv6Addr b c d e f g h i) + 2 ^ (128 - p)) (ipv6_nat a)"
  by (auto simp: ipv6_contains_def range_out_def Let_def)

lemma range_out_disjoint: "\<not> range_out l h n \<Longrightarrow> h \<le> l' \<or> h' \<le> l \<Longrightarrow> range_out l' h' n"
  by (auto simp: range_out_def)

lemma ipv6_global_unicast_range:
  "ipv6_in_prefix a (Ipv6Addr 0x2000 0 0 0 0 0 0 0) 3 \<longleftrightarrow>
     \<not> range_out 42535295865117307932921825928971026432 85070591730234615865843651857942052864
         (ipv6_nat a)"
  by (auto simp: ipv6_in_prefix_div ipv6_nat_Ipv6Addr div_eq_range range_out_def)

lemma ipv6_is_global_unicast_case:
  assumes "ipv6_contains ipv6_global_unicast a"
  shows "ipv6_is_global a \<longleftrightarrow>
     list_ex (\<lambda>net. ipv6_contains net a) ipv6_exceptions \<or>
     list_all (\<lambda>net. \<not> ipv6_contains net a) ipv6_reserved"
proof -
  define n where "n = ipv6_nat a"
  have gu: "\<not> range_out 42535295865117307932921825928971026432 85070591730234615865843651857942052864 n"
    using assms
    by (simp add: ipv6_global_unicast_def ipv6_contains_range ipv6_nat_Ipv6Addr n_def)
  have "\<not> ipv6_is_multicast a" and "to_ipv4_mapped a = None"
    using range_out_disjoint [OF gu] to_ipv4_mapped_range [of a]
    by (auto simp: ipv6_is_multicast_range n_def)
  then have *: "ipv6_is_global a \<longleftrightarrow> (case most_specific_v6 a of None \<Rightarrow> True | Some e \<Rightarrow> v6_eligible e)"
    using gu by (simp add: ipv6_is_global_def ipv6_global_unicast_range n_def)
  show ?thesis
    unfolding * ipv6_selected_eligible v6_summaries ipv6_exceptions_def ipv6_reserved_def
    using gu
    by (simp add: holds_prefix_range overrides_def ipv6_contains_range ipv6_nat_Ipv6Addr flip: n_def)
     (safe; (assumption | (rule range_out_mono, assumption, (simp; fail), (simp; fail))
       | (rule range_out_disjoint, assumption, (simp; fail))))
qed

lemma ipv6_is_global_nat64_case:
  assumes "ipv6_contains ipv6_nat64 a"
  shows "ipv6_is_global a"
proof -
  define n where "n = ipv6_nat a"
  have nat64: "\<not> range_out 524413980667603649783483181312245760 524413980667603649783483185607213056 n"
    using assms by (simp add: ipv6_nat64_def ipv6_contains_range ipv6_nat_Ipv6Addr n_def)
  have "\<not> ipv6_is_multicast a" and "to_ipv4_mapped a = None"
    and out: "\<not> ipv6_in_prefix a (Ipv6Addr 0x2000 0 0 0 0 0 0 0) 3"
    using range_out_disjoint [OF nat64] to_ipv4_mapped_range [of a]
    by (auto simp: ipv6_is_multicast_range ipv6_global_unicast_range n_def)
  moreover have "most_specific_v6 a \<noteq> None"
  proof -
    have "v6 (0x64, 0xff9b, 0, 0, 0, 0, 0, 0) 96 TT TT TT \<in> set ipv6_special_purpose"
      by (simp add: ipv6_special_purpose_def)
    moreover have "ipv6_in_prefix a (Ipv6Addr 0x64 0xff9b 0 0 0 0 0 0) 96"
      using nat64 by (simp add: ipv6_in_prefix_div ipv6_nat_Ipv6Addr div_eq_range range_out_def n_def)
    ultimately show ?thesis
      unfolding most_specific_v6_def max_by_key_None filter_empty_conv by force
  qed
  moreover have "case most_specific_v6 a of None \<Rightarrow> True | Some e \<Rightarrow> v6_eligible e"
    unfolding ipv6_selected_eligible v6_summaries
    using nat64 range_out_disjoint [OF nat64]
    by (simp add: holds_prefix_range flip: n_def)
  ultimately show ?thesis
    by (auto simp: ipv6_is_global_def)
qed

lemma ipv6_not_global_elsewhere:
  assumes "ipv6_is_global a" and "\<not> ipv6_contains ipv6_global_unicast a"
  shows "ipv6_contains ipv6_nat64 a"
proof -
  define n where "n = ipv6_nat a"
  have gu: "range_out 42535295865117307932921825928971026432 85070591730234615865843651857942052864 n"
    using assms(2)
    by (simp add: ipv6_global_unicast_def ipv6_contains_range ipv6_nat_Ipv6Addr n_def)
  with assms(1) obtain e where e: "most_specific_v6 a = Some e" "v6_eligible e"
    by (auto simp: ipv6_is_global_def ipv6_global_unicast_range n_def Let_def split: if_splits option.splits)
  define t where "t = v6_summary e"
  have "holds_prefix 128 n t" and "t \<in> set (map v6_summary ipv6_special_purpose)" and "snd (snd t)"
    using most_specific_v6_holds [OF e(1)] e(2) by (simp_all add: n_def t_def v6_summary_def)
  moreover have "range_out l h n" if "42535295865117307932921825928971026432 \<le> l"
    and "h \<le> 85070591730234615865843651857942052864" for l h
    by (rule range_out_mono [OF gu that])
  ultimately have "\<not> range_out 524413980667603649783483181312245760 524413980667603649783483185607213056 n"
    unfolding v6_summaries by (auto simp: holds_prefix_range)
  then show ?thesis
    by (simp add: ipv6_nat64_def ipv6_contains_range ipv6_nat_Ipv6Addr n_def)
qed

lemma ipv6_is_global_outside: "ipv6_is_global a \<longleftrightarrow> ipv6_outside_reserved a"
  using ipv6_is_global_unicast_case ipv6_is_global_nat64_case ipv6_not_global_elsewhere
  by (cases "ipv6_contains ipv6_global_unicast a"; cases "ipv6_contains ipv6_nat64 a")
    (auto simp: ipv6_outside_reserved_def)

text \<open>C28: an IPv6 address is accepted for a public dial exactly when it lies in the NAT64 prefix or
  in global unicast space outside the reserved blocks.\<close>

theorem ipv6_is_global_iff: "ipv6_is_global a \<longleftrightarrow> ipv6_outside_reserved a"
  by (rule ipv6_is_global_outside)

end
