(* ===== verification/Domain_Name.thy ===== *)
theory Domain_Name
  imports Ip_Addr
begin

text \<open>
  The names of \<open>proxy/src/domain/policy.rs\<close>: policy modes, request host names
  (\<open>DomainName\<close>), stored policy names and patterns (\<open>PolicyDomain\<close>, \<open>DomainPattern\<close>) and
  policy entries, with their parsers. The lemmas give the normal form each parser produces,
  that stored entries have one spelling, and that pattern matching is matching of whole labels.
\<close>

section \<open>Modes\<close>

datatype mode = Enforce | Report | Open

primrec mode_as_str :: "mode \<Rightarrow> bytes" where
  "mode_as_str Enforce = ''enforce''"
| "mode_as_str Report = ''report''"
| "mode_as_str Open = ''open''"

definition mode_from_str :: "bytes \<Rightarrow> (mode, unit) result" where
  "mode_from_str value =
     (if value = ''enforce'' then Ok Enforce
      else if value = ''report'' then Ok Report
      else if value = ''open'' then Ok Open
      else Err ())"

section \<open>Names and patterns\<close>

datatype domain_name = DomainName (domain_str: bytes)
datatype policy_domain = PolicyDomain (policy_domain_str: bytes)
datatype domain_pattern = DomainPattern (pattern_domain: policy_domain)
datatype policy_entry = Domain domain_pattern | Ip ipv4_addr

definition valid_label :: "bytes \<Rightarrow> bool" where
  "valid_label label \<longleftrightarrow>
     label \<noteq> [] \<and> length label \<le> 63 \<and> \<not> starts_with ''-'' label \<and> \<not> ends_with ''-'' label
     \<and> list_all (\<lambda>b. is_ascii_alphanumeric b \<or> b = CHR ''-'') label"

definition valid_domain :: "bytes \<Rightarrow> bool" where
  "valid_domain value \<longleftrightarrow>
     is_ascii value \<and> length value \<le> 253 \<and> list_all valid_label (split_on (CHR ''.'') value)"

definition valid_policy_domain :: "bytes \<Rightarrow> bool" where
  "valid_policy_domain value \<longleftrightarrow>
     is_ascii value \<and> value \<noteq> []
     \<and> list_all (\<lambda>label. label \<noteq> []) (split_on (CHR ''.'') value)
     \<and> list_all (\<lambda>b. is_ascii_lowercase b \<or> is_ascii_digit b
                      \<or> b = CHR ''-'' \<or> b = CHR ''_'' \<or> b = CHR ''.'') value
     \<and> list_ex is_ascii_alphanumeric value"

definition domain_name_from_str :: "bytes \<Rightarrow> (domain_name, unit) result" where
  "domain_name_from_str value =
     (if value = [] \<or> trim value \<noteq> value then Err ()
      else
        (let value = (case strip_suffix ''.'' value of Some v \<Rightarrow> v | None \<Rightarrow> value)
         in if valid_domain value then Ok (DomainName (to_ascii_lowercase value)) else Err ()))"

definition policy_domain_from_str :: "bytes \<Rightarrow> (policy_domain, unit) result" where
  "policy_domain_from_str value =
     (if valid_policy_domain value then Ok (PolicyDomain value) else Err ())"

definition domain_pattern_from_str :: "bytes \<Rightarrow> (domain_pattern, unit) result" where
  "domain_pattern_from_str value =
     (let value = trim value;
          value = trim_matches_char (CHR ''.'')
                    (case strip_prefix ''*.'' value of Some v \<Rightarrow> v | None \<Rightarrow> value)
      in case policy_domain_from_str (to_ascii_lowercase value) of
           Ok d \<Rightarrow> Ok (DomainPattern d)
         | Err e \<Rightarrow> Err e)"

definition pattern_matches :: "domain_pattern \<Rightarrow> domain_name \<Rightarrow> bool" where
  "pattern_matches pat host \<longleftrightarrow>
     (let p = policy_domain_str (pattern_domain pat); h = domain_str host
      in h = p \<or> (case strip_suffix p h of Some pre \<Rightarrow> ends_with ''.'' pre | None \<Rightarrow> False))"

definition policy_entry_from_str :: "bytes \<Rightarrow> (policy_entry, unit) result" where
  "policy_entry_from_str value =
     (if \<not> valid_policy_domain value then Err ()
      else
        case parse_std_ipv4 value of
          Some address \<Rightarrow>
            if show_ipv4 address = value then Ok (Ip address)
            else (case domain_pattern_from_str value of Ok p \<Rightarrow> Ok (Domain p) | Err e \<Rightarrow> Err e)
        | None \<Rightarrow> (case domain_pattern_from_str value of Ok p \<Rightarrow> Ok (Domain p) | Err e \<Rightarrow> Err e))"

section \<open>Pattern matching is label matching\<close>

lemma pattern_matches_suffix:
  "pattern_matches (DomainPattern (PolicyDomain p)) name
     \<longleftrightarrow> suffix (split_on (CHR ''.'') p) (split_on (CHR ''.'') (domain_str name))"
proof -
  have "(case strip_suffix p (domain_str name) of Some pre \<Rightarrow> ends_with ''.'' pre | None \<Rightarrow> False)
      \<longleftrightarrow> (\<exists>x. domain_str name = x @ CHR ''.'' # p)"
    by (auto simp: strip_suffix_def ends_with_def suffix_def split: if_splits)
  then show ?thesis
    by (simp add: pattern_matches_def suffix_split_on Let_def)
qed

text \<open>
  C29: a policy pattern matches a host exactly when the pattern's labels are the last labels of
  the host name, so it covers the name and its subdomains and never a name that merely ends
  with the same characters.
\<close>

theorem pattern_matches_labels:
  "pattern_matches (DomainPattern (PolicyDomain p)) (DomainName h)
     \<longleftrightarrow> suffix (split_on (CHR ''.'') p) (split_on (CHR ''.'') h)"
  by (simp add: pattern_matches_suffix)

section \<open>Normal forms\<close>

lemma dot_dash_classes [simp]:
  "\<not> is_ascii_alphanumeric (CHR ''.'')" "\<not> is_ascii_alphanumeric (CHR ''-'')"
  "\<not> is_ascii_alphabetic (CHR ''.'')" "\<not> is_ascii_alphabetic (CHR ''-'')"
  by (simp_all add: byte_class_defs)

lemma split_on_lowercase:
  "split_on (CHR ''.'') (to_ascii_lowercase s) = map to_ascii_lowercase (split_on (CHR ''.'') s)"
proof (induction s)
  case (Cons x s)
  have "to_ascii_lower x = CHR ''.'' \<longleftrightarrow> x = CHR ''.''"
    by (rule to_ascii_lower_eq_iff) simp
  with Cons show ?case
    by (auto simp: to_ascii_lowercase_def split: list.splits)
qed (simp add: to_ascii_lowercase_def)

lemma valid_label_lowercase: "valid_label (to_ascii_lowercase l) = valid_label l"
proof (cases l rule: rev_cases)
  case (snoc xs z)
  have dash: "to_ascii_lower c = CHR ''-'' \<longleftrightarrow> c = CHR ''-''" for c
    by (rule to_ascii_lower_eq_iff) simp
  from snoc obtain x ys where "l = x # ys"
    by (metis neq_Nil_conv snoc_eq_iff_butlast)
  then show ?thesis
    using dash by (auto simp: valid_label_def starts_with_single ends_with_single
        to_ascii_lowercase_def last_map list.pred_map comp_def)
qed (simp add: valid_label_def to_ascii_lowercase_def)

lemma valid_domain_lowercase: "valid_domain (to_ascii_lowercase s) = valid_domain s"
  by (simp add: valid_domain_def split_on_lowercase list.pred_map comp_def valid_label_lowercase)

lemma valid_domain_nonempty: "valid_domain s \<Longrightarrow> s \<noteq> []"
  by (auto simp: valid_domain_def valid_label_def)

lemma hd_split_on: "s \<noteq> [] \<Longrightarrow> hd (split_on c s) \<noteq> [] \<Longrightarrow> hd s = hd (hd (split_on c s))"
  by (cases s) (auto split: list.splits)

lemma last_split_on: "last (split_on c s) \<noteq> [] \<Longrightarrow> s \<noteq> [] \<and> last s = last (last (split_on c s))"
proof -
  assume *: "last (split_on c s) \<noteq> []"
  obtain zs z where z: "split_on c s = zs @ [z]"
    by (metis rev_exhaust split_on_not_Nil)
  then have "s = join_with c (zs @ [z])"
    by (metis join_split)
  with z * show ?thesis
    by (cases "zs = []") (auto simp: join_with_append)
qed

lemma valid_label_ends:
  assumes "valid_label l"
  shows "l \<noteq> []" and "is_ascii_alphanumeric (hd l)" and "is_ascii_alphanumeric (last l)"
proof -
  have all: "\<forall>b \<in> set l. is_ascii_alphanumeric b \<or> b = CHR ''-''" and l: "l \<noteq> []"
    and "hd l \<noteq> CHR ''-''" and "last l \<noteq> CHR ''-''"
    using assms by (auto simp: valid_label_def starts_with_single ends_with_single list_all_iff)
  then show "l \<noteq> []" and "is_ascii_alphanumeric (hd l)" and "is_ascii_alphanumeric (last l)"
    by auto
qed

lemma valid_domain_ends:
  assumes "valid_domain s"
  shows "is_ascii_alphanumeric (hd s)" and "is_ascii_alphanumeric (last s)"
proof -
  have s: "s \<noteq> []" and labels: "\<forall>l \<in> set (split_on (CHR ''.'') s). valid_label l"
    using assms valid_domain_nonempty by (auto simp: valid_domain_def list_all_iff)
  then have "valid_label (hd (split_on (CHR ''.'') s))" and "valid_label (last (split_on (CHR ''.'') s))"
    by auto
  then show "is_ascii_alphanumeric (hd s)" and "is_ascii_alphanumeric (last s)"
    using hd_split_on [OF s, of "CHR ''.''"] last_split_on [of "CHR ''.''" s] valid_label_ends
    by metis+
qed

lemma alphanumeric_not_ws: "is_ascii_alphanumeric c \<Longrightarrow> \<not> is_ws1 c \<and> is_ascii_char c"
  by (auto simp: byte_class_defs is_ws1_def)

lemma trim_valid_domain: "valid_domain s \<Longrightarrow> trim s = s"
  by (rule trim_unspaced) (use valid_domain_ends alphanumeric_not_ws in blast)

definition normal_domain :: "domain_name \<Rightarrow> bool" where
  "normal_domain d \<longleftrightarrow> valid_domain (domain_str d) \<and> to_ascii_lowercase (domain_str d) = domain_str d"

lemma domain_name_from_str_normal:
  "domain_name_from_str s = Ok d \<Longrightarrow> normal_domain d"
  by (auto simp: domain_name_from_str_def normal_domain_def valid_domain_lowercase
      Let_def split: if_splits option.splits)

lemma domain_name_from_str_normal_id:
  assumes "normal_domain d"
  shows "domain_name_from_str (domain_str d) = Ok d"
proof -
  have valid: "valid_domain (domain_str d)" and lower: "to_ascii_lowercase (domain_str d) = domain_str d"
    using assms by (simp_all add: normal_domain_def)
  have "strip_suffix ''.'' (domain_str d) = None"
    using valid_domain_ends(2) [OF valid] by (auto simp: strip_suffix_def suffix_def)
  then show ?thesis
    using valid lower valid_domain_nonempty [OF valid] trim_valid_domain [OF valid]
    by (cases d) (simp add: domain_name_from_str_def)
qed

text \<open>
  What the host-name parser returns is a valid lower-case name without a trailing dot, and
  parsing the printed name gives the same name back.
\<close>

theorem domain_name_roundtrip:
  assumes "domain_name_from_str s = Ok d"
  shows "normal_domain d \<and> domain_name_from_str (domain_str d) = Ok d"
  using assms domain_name_from_str_normal domain_name_from_str_normal_id by blast

theorem domain_name_roundtrip_witness:
  "domain_name_from_str ''Docs.RS.'' = Ok (DomainName ''docs.rs'') \<and>
   domain_name_from_str ''docs.rs'' = Ok (DomainName ''docs.rs'')"
proof -
  have "domain_name_from_str ''Docs.RS.'' = Ok (DomainName ''docs.rs'')"
    by code_simp
  with domain_name_roundtrip [OF this] show ?thesis
    by simp
qed

section \<open>Stored entries have one spelling\<close>

lemma policy_byte_plain:
  "is_ascii_lowercase b \<or> is_ascii_digit b \<or> b = CHR ''-'' \<or> b = CHR ''_'' \<or> b = CHR ''.''
   \<Longrightarrow> \<not> is_ascii_uppercase b \<and> \<not> is_ws1 b \<and> is_ascii_char b \<and> b \<noteq> CHR ''*''"
  by (auto simp: byte_class_defs is_ws1_def)

lemma valid_policy_domain_plain:
  "valid_policy_domain s \<Longrightarrow> b \<in> set s \<Longrightarrow>
     \<not> is_ascii_uppercase b \<and> \<not> is_ws1 b \<and> is_ascii_char b \<and> b \<noteq> CHR ''*''"
  by (rule policy_byte_plain) (auto simp: valid_policy_domain_def list_all_iff)

lemma valid_policy_domain_no_outer_dot:
  assumes "valid_policy_domain s"
  shows "hd s \<noteq> CHR ''.'' \<and> last s \<noteq> CHR ''.''"
proof -
  have s: "s \<noteq> []" and labels: "\<forall>l \<in> set (split_on (CHR ''.'') s). l \<noteq> []"
    using assms by (auto simp: valid_policy_domain_def list_all_iff)
  then have h: "hd (split_on (CHR ''.'') s) \<noteq> []" and l: "last (split_on (CHR ''.'') s) \<noteq> []"
    by auto
  have "hd s \<in> set (hd (split_on (CHR ''.'') s))" and "last s \<in> set (last (split_on (CHR ''.'') s))"
    using hd_split_on [OF s h] last_split_on [OF l] h l by auto
  then show ?thesis
    by (metis hd_in_set last_in_set split_on_not_Nil split_on_pieces)
qed

lemma domain_pattern_from_str_valid:
  assumes "valid_policy_domain s"
  shows "domain_pattern_from_str s = Ok (DomainPattern (PolicyDomain s))"
proof -
  have s: "s \<noteq> []"
    using assms by (simp add: valid_policy_domain_def)
  have "trim s = s"
    using valid_policy_domain_plain [OF assms] s by (intro trim_unspaced) simp
  moreover have "strip_prefix ''*.'' s = None"
    using valid_policy_domain_plain [OF assms, of "CHR ''*''"] by (auto simp: strip_prefix_def prefix_def)
  moreover have "trim_matches_char (CHR ''.'') s = s"
    using valid_policy_domain_no_outer_dot [OF assms] by (intro trim_matches_char_id) simp
  moreover have "to_ascii_lowercase s = s"
    using valid_policy_domain_plain [OF assms]
    by (intro to_ascii_lowercase_id) (simp add: list_all_iff)
  ultimately show ?thesis
    using assms by (simp add: domain_pattern_from_str_def policy_domain_from_str_def)
qed

primrec show_policy_entry :: "policy_entry \<Rightarrow> bytes" where
  "show_policy_entry (Domain pat) = policy_domain_str (pattern_domain pat)"
| "show_policy_entry (Ip address) = show_ipv4 address"

lemma policy_entry_from_str_spelling:
  "policy_entry_from_str s = Ok e \<Longrightarrow> show_policy_entry e = s"
  by (auto simp: policy_entry_from_str_def domain_pattern_from_str_valid
      split: if_splits option.splits)

lemma policy_entry_from_str_valid:
  "is_ok (policy_entry_from_str s) \<longleftrightarrow> valid_policy_domain s"
  by (auto simp: policy_entry_from_str_def domain_pattern_from_str_valid split: option.splits)

lemma policy_entry_from_str_Ip:
  "policy_entry_from_str s = Ok (Ip a) \<longleftrightarrow>
     valid_policy_domain s \<and> parse_std_ipv4 s = Some a \<and> show_ipv4 a = s"
  by (auto simp: policy_entry_from_str_def domain_pattern_from_str_valid split: option.splits)

end
