(* ===== verification/Target.thy ===== *)
theory Target
  imports Domain_Name
begin

text \<open>
  Request targets and destination identities (\<open>proxy/src/domain/target.rs\<close>): loopback
  authorities with their parser and printer, the classification of a request target into the
  routes of the proxy, and the URI syntax checks. An HTTP method is its token. The accessors of
  the parsed \<open>hyper::Uri\<close> that \<open>classify_parsed\<close> reads are the fields of a record.
\<close>

section \<open>Ports and IPv4 literals\<close>

datatype authority_parse_error = InvalidHost | MissingPort | InvalidPort | NonLoopback

definition parse_port :: "bytes \<Rightarrow> (u16, authority_parse_error) result" where
  "parse_port value =
     (if value = [] then Err MissingPort
      else if \<not> list_all is_ascii_digit value then Err InvalidPort
      else case parse_uint 65535 value of
             Some port \<Rightarrow> if port \<noteq> 0 then Ok (of_nat port) else Err InvalidPort
           | None \<Rightarrow> Err InvalidPort)"

fun parse_octets :: "nat \<Rightarrow> bytes list \<Rightarrow> (u8 list \<times> bytes list) option" where
  "parse_octets 0 parts = Some ([], parts)"
| "parse_octets (Suc n) [] = None"
| "parse_octets (Suc n) (value # parts) =
     (if value = [] \<or> \<not> list_all is_ascii_digit value
         \<or> (1 < length value \<and> starts_with ''0'' value)
      then None
      else case parse_uint 255 value of
             None \<Rightarrow> None
           | Some x \<Rightarrow>
               (case parse_octets n parts of
                  None \<Rightarrow> None
                | Some (xs, rest) \<Rightarrow> Some (of_nat x # xs, rest)))"

text \<open>The same equation without patterns on the counter, for evaluation with binary numbers.\<close>

lemma parse_octets_code [code]:
  "parse_octets n parts =
     (if n = 0 then Some ([], parts)
      else
        case parts of
          [] \<Rightarrow> None
        | value # parts \<Rightarrow>
            if value = [] \<or> \<not> list_all is_ascii_digit value \<or> (1 < length value \<and> starts_with ''0'' value) then None
            else case parse_uint 255 value of
                   None \<Rightarrow> None
                 | Some x \<Rightarrow>
                     (case parse_octets (n - 1) parts of
                        None \<Rightarrow> None
                      | Some (xs, rest) \<Rightarrow> Some (of_nat x # xs, rest)))"
  by (cases "(n, parts)" rule: parse_octets.cases) (simp_all split: option.splits)

definition parse_ipv4 :: "bytes \<Rightarrow> ipv4_addr option" where
  "parse_ipv4 value =
     (case parse_octets 4 (split_on (CHR ''.'') value) of
        Some ([a, b, c, d], []) \<Rightarrow> Some (Ipv4Addr a b c d)
      | _ \<Rightarrow> None)"

section \<open>Loopback authorities\<close>

datatype loopback_host = Localhost | LoopbackIpv4 ipv4_addr | Ipv6Loopback

record loopback_authority =
  la_host :: loopback_host
  la_port :: u16

definition loopback_authority_from_str ::
    "bytes \<Rightarrow> (loopback_authority, authority_parse_error) result" where
  "loopback_authority_from_str input =
     (if input = [] \<or> trim input \<noteq> input \<or> \<not> is_ascii input then Err InvalidHost
      else
        case rsplit_once (CHR '':'') input of
          None \<Rightarrow> Err MissingPort
        | Some (host, port) \<Rightarrow>
            and_then (parse_port port) (\<lambda>port.
              if eq_ignore_ascii_case host ''localhost''
              then Ok \<lparr>la_host = Localhost, la_port = port\<rparr>
              else
                case Option.bind (strip_prefix ''['' host) (strip_suffix '']'') of
                  Some value \<Rightarrow>
                    (case parse_std_ipv6 value of
                       None \<Rightarrow> Err InvalidHost
                     | Some address \<Rightarrow>
                         if \<not> ipv6_is_loopback address then Err NonLoopback
                         else Ok \<lparr>la_host = Ipv6Loopback, la_port = port\<rparr>)
                | None \<Rightarrow>
                    (case parse_ipv4 host of
                       Some value \<Rightarrow>
                         if octets value ! 0 \<noteq> 127 then Err NonLoopback
                         else Ok \<lparr>la_host = LoopbackIpv4 value, la_port = port\<rparr>
                     | None \<Rightarrow> Err InvalidHost)))"

definition show_port :: "u16 \<Rightarrow> bytes" where
  "show_port p = show_nat (unat p)"

definition show_loopback_authority :: "loopback_authority \<Rightarrow> bytes" where
  "show_loopback_authority a =
     (case la_host a of
        Localhost \<Rightarrow> ''localhost:'' @ show_port (la_port a)
      | LoopbackIpv4 v \<Rightarrow> show_ipv4 v @ '':'' @ show_port (la_port a)
      | Ipv6Loopback \<Rightarrow> ''[::1]:'' @ show_port (la_port a))"

section \<open>Targets\<close>

datatype public_host = Dns domain_name | IpHost ip_addr

primrec show_public_host :: "public_host \<Rightarrow> bytes" where
  "show_public_host (Dns name) = domain_str name"
| "show_public_host (IpHost address) = show_ip address"

record direct_target =
  dt_path_and_query :: bytes

record public_target =
  pt_authority :: bytes
  pt_host :: public_host
  pt_ipv6_scope :: "bytes option"
  pt_port :: u16
  pt_explicit_port :: bool
  pt_path_and_query :: bytes

record local_target =
  lt_canonical_authority :: loopback_authority
  lt_explicit_port :: bool
  lt_path_and_query :: bytes

datatype target =
    Direct direct_target
  | Asterisk
  | PublicHttp public_target
  | LocalHttp local_target
  | PublicConnect public_target
  | LocalConnect local_target
  | HttpsAbsoluteRejected
  | Malformed

datatype request_kind = KindHttp | KindConnect
datatype absolute_scheme = SchemeHttp | SchemeHttps

datatype parsed_host = ParsedLocal loopback_host | ParsedPublic public_host

record parsed_authority =
  pa_host :: parsed_host
  pa_ipv6_scope :: "bytes option"
  pa_port :: u16
  pa_explicit_port :: bool

section \<open>URI syntax\<close>

definition uri_octet :: "char \<Rightarrow> bool" where
  "uri_octet b \<longleftrightarrow>
     is_ascii_alphanumeric b \<or>
     b \<in> set [CHR ''!'', CHR ''$'', CHR ''&'', APOSTROPHE, CHR ''('', CHR '')'', CHR ''*'',
             CHR ''+'', CHR '','', CHR ''-'', CHR ''.'', CHR ''/'', CHR '':'', CHR '';'',
             CHR ''='', CHR ''?'', CHR ''@'', CHR ''_'', CHR ''~'', CHR ''['', CHR '']'']"

fun valid_uri_octets :: "bytes \<Rightarrow> bool" where
  "valid_uri_octets [] = True"
| "valid_uri_octets (b # rest) =
     (if b = CHR ''%'' then
        (case rest of
           h # l # rest' \<Rightarrow> is_ascii_hexdigit h \<and> is_ascii_hexdigit l \<and> valid_uri_octets rest'
         | _ \<Rightarrow> False)
      else uri_octet b \<and> valid_uri_octets rest)"

definition valid_path_and_query :: "bytes \<Rightarrow> bool" where
  "valid_path_and_query value \<longleftrightarrow>
     CHR ''#'' \<notin> set value \<and> CHR ''['' \<notin> set value \<and> CHR '']'' \<notin> set value \<and> valid_uri_octets value"

definition valid_absolute_path_and_query :: "bytes \<Rightarrow> bool" where
  "valid_absolute_path_and_query value \<longleftrightarrow>
     (case value of [] \<Rightarrow> False | b # _ \<Rightarrow> b = CHR ''/'' \<or> b = CHR ''?'')
     \<and> valid_path_and_query value"

section \<open>Authorities\<close>

definition zone_octet :: "char \<Rightarrow> bool" where
  "zone_octet b \<longleftrightarrow>
     is_ascii_alphanumeric b \<or> b \<in> set [CHR ''-'', CHR ''.'', CHR ''_'', CHR ''~'']"

definition parse_ipv6_host :: "bytes \<Rightarrow> (ipv6_addr \<times> bytes option) option" where
  "parse_ipv6_host host =
     (case find_window ''%25'' host of
        None \<Rightarrow> map_option (\<lambda>a. (a, None)) (parse_std_ipv6 host)
      | Some i \<Rightarrow>
          (let address = take i host; zone = drop (i + 3) host
           in if zone = [] \<or> CHR ''%'' \<in> set zone \<or> \<not> list_all zone_octet zone then None
              else map_option (\<lambda>a. (a, Some zone)) (parse_std_ipv6 address)))"

definition parse_authority_port :: "bytes \<Rightarrow> u16 option \<Rightarrow> bool \<Rightarrow> (u16 \<times> bool) option" where
  "parse_authority_port rest default_port port_required =
     (case strip_prefix '':'' rest of
        Some port \<Rightarrow> map_option (\<lambda>p. (p, True)) (ok (parse_port port))
      | None \<Rightarrow>
          if rest = [] \<and> \<not> port_required then map_option (\<lambda>p. (p, False)) default_port
          else None)"

definition authority_octet_refused :: "char \<Rightarrow> bool" where
  "authority_octet_refused b \<longleftrightarrow>
     is_ascii_whitespace b \<or> is_ascii_control b
     \<or> b \<in> set [CHR ''@'', CHR ''/'', CHR ''?'', CHR ''#'']"

definition parse_bracketed :: "bytes \<Rightarrow> u16 option \<Rightarrow> bool \<Rightarrow> parsed_authority option" where
  "parse_bracketed value default_port port_required =
     Option.bind (position (\<lambda>b. b = CHR '']'') value) (\<lambda>close.
     Option.bind (parse_authority_port (drop (close + 1) value) default_port port_required)
       (\<lambda>(port, explicit_port).
     Option.bind (parse_ipv6_host (take close value)) (\<lambda>(address, ipv6_scope).
       Some \<lparr>pa_host =
               (if ipv6_scope = None \<and> ipv6_is_loopback address then ParsedLocal Ipv6Loopback
                else ParsedPublic (IpHost (V6 address))),
             pa_ipv6_scope = ipv6_scope, pa_port = port, pa_explicit_port = explicit_port\<rparr>)))"

definition parse_named :: "bytes \<Rightarrow> u16 \<Rightarrow> bool \<Rightarrow> parsed_authority option" where
  "parse_named host port explicit_port =
     (if host = [] then None
      else
        case parse_ipv4 host of
          Some a \<Rightarrow>
            Some \<lparr>pa_host = (if octets a ! 0 = 127 then ParsedLocal (LoopbackIpv4 a)
                             else ParsedPublic (IpHost (V4 a))),
                  pa_ipv6_scope = None, pa_port = port, pa_explicit_port = explicit_port\<rparr>
        | None \<Rightarrow>
            if list_all (\<lambda>b. is_ascii_digit b \<or> b = CHR ''.'') host then None
            else
              (case domain_name_from_str host of
                 Err _ \<Rightarrow> None
               | Ok domain \<Rightarrow>
                   Some \<lparr>pa_host = (if domain_str domain = ''localhost'' then ParsedLocal Localhost
                                    else ParsedPublic (Dns domain)),
                         pa_ipv6_scope = None, pa_port = port,
                         pa_explicit_port = explicit_port\<rparr>))"

definition parse_authority :: "bytes \<Rightarrow> u16 option \<Rightarrow> bool \<Rightarrow> parsed_authority option" where
  "parse_authority value default_port port_required =
     (if value = [] \<or> \<not> is_ascii value \<or> list_ex authority_octet_refused value then None
      else
        case strip_prefix ''['' value of
          Some value \<Rightarrow> parse_bracketed value default_port port_required
        | None \<Rightarrow>
            if CHR ''['' \<in> set value \<or> CHR '']'' \<in> set value
               \<or> 1 < length (filter (\<lambda>b. b = CHR '':'') value) then None
            else
              (case rsplit_once (CHR '':'') value of
                 Some (host, port) \<Rightarrow>
                   Option.bind (ok (parse_port port)) (\<lambda>p. parse_named host p True)
               | None \<Rightarrow>
                   if port_required then None
                   else Option.bind default_port (\<lambda>p. parse_named value p False)))"

definition canonical_public_authority ::
    "public_host \<Rightarrow> bytes option \<Rightarrow> u16 \<Rightarrow> bool \<Rightarrow> bytes" where
  "canonical_public_authority host ipv6_scope port explicit_port =
     (let host_text =
            (case host of
               Dns name \<Rightarrow> domain_str name
             | IpHost (V4 address) \<Rightarrow> show_ipv4 address
             | IpHost (V6 address) \<Rightarrow>
                 (case ipv6_scope of
                    None \<Rightarrow> ''['' @ show_ipv6 address @ '']''
                  | Some zone \<Rightarrow> ''['' @ show_ipv6 address @ ''%25'' @ zone @ '']''))
      in if explicit_port then host_text @ '':'' @ show_port port else host_text)"

section \<open>Classification\<close>

definition default_port_of :: "absolute_scheme \<Rightarrow> u16" where
  "default_port_of s = (case s of SchemeHttp \<Rightarrow> 80 | SchemeHttps \<Rightarrow> 443)"

definition classify_authority ::
    "bytes \<Rightarrow> absolute_scheme option \<Rightarrow> request_kind \<Rightarrow> bytes \<Rightarrow> target" where
  "classify_authority value scheme kind path_and_query =
     (case parse_authority value (map_option default_port_of scheme) (kind = KindConnect) of
        None \<Rightarrow> Malformed
      | Some parsed \<Rightarrow>
          if scheme = Some SchemeHttps then HttpsAbsoluteRejected
          else
            (case pa_host parsed of
               ParsedLocal host \<Rightarrow>
                 (let t = \<lparr>lt_canonical_authority = \<lparr>la_host = host, la_port = pa_port parsed\<rparr>,
                           lt_explicit_port = pa_explicit_port parsed,
                           lt_path_and_query = path_and_query\<rparr>
                  in case kind of KindHttp \<Rightarrow> LocalHttp t | KindConnect \<Rightarrow> LocalConnect t)
             | ParsedPublic host \<Rightarrow>
                 (let t = \<lparr>pt_authority =
                             canonical_public_authority host (pa_ipv6_scope parsed)
                               (pa_port parsed) (pa_explicit_port parsed),
                           pt_host = host, pt_ipv6_scope = pa_ipv6_scope parsed,
                           pt_port = pa_port parsed, pt_explicit_port = pa_explicit_port parsed,
                           pt_path_and_query = path_and_query\<rparr>
                  in case kind of KindHttp \<Rightarrow> PublicHttp t | KindConnect \<Rightarrow> PublicConnect t)))"

definition classify_connect :: "bytes \<Rightarrow> target" where
  "classify_connect raw_target =
     (if \<not> utf8_valid raw_target then Malformed
      else if raw_target = [] \<or> list_ex authority_octet_refused raw_target then Malformed
      else classify_authority raw_target None KindConnect [])"

definition scheme_of :: "bytes \<Rightarrow> absolute_scheme option" where
  "scheme_of scheme =
     (if eq_ignore_ascii_case scheme ''http'' then Some SchemeHttp
      else if eq_ignore_ascii_case scheme ''https'' then Some SchemeHttps
      else None)"

definition classify_absolute :: "bytes \<Rightarrow> target" where
  "classify_absolute raw_target =
     (if \<not> valid_uri_octets raw_target \<or> CHR ''#'' \<in> set raw_target then Malformed
      else
        case position (\<lambda>b. b = CHR '':'') raw_target of
          None \<Rightarrow> Malformed
        | Some colon \<Rightarrow>
            (let scheme = take colon raw_target
             in if scheme = [] \<or> \<not> is_ascii_alphabetic (hd scheme)
                   \<or> \<not> list_all (\<lambda>b. is_ascii_alphanumeric b
                                  \<or> b \<in> set [CHR ''+'', CHR ''-'', CHR ''.'']) scheme
                then Malformed
                else
                  case scheme_of scheme of
                    None \<Rightarrow> Malformed
                  | Some s \<Rightarrow>
                      (case strip_prefix ''//'' (drop (colon + 1) raw_target) of
                         None \<Rightarrow> Malformed
                       | Some remainder \<Rightarrow>
                           (let authority_end =
                                  (case position (\<lambda>b. b = CHR ''/'' \<or> b = CHR ''?'') remainder of
                                     Some i \<Rightarrow> i | None \<Rightarrow> length remainder);
                                authority = take authority_end remainder;
                                path_and_query = drop authority_end remainder
                            in if \<not> utf8_valid authority then Malformed
                               else if authority = []
                                       \<or> (path_and_query \<noteq> []
                                          \<and> \<not> valid_absolute_path_and_query path_and_query)
                               then Malformed
                               else classify_authority authority (Some s) KindHttp path_and_query))))"

definition classify :: "bytes \<Rightarrow> bytes \<Rightarrow> target" where
  "classify method raw_target =
     (if method = ''CONNECT'' then classify_connect raw_target
      else if raw_target = ''*'' then Asterisk
      else if starts_with ''/'' raw_target then
        (if valid_path_and_query raw_target then Direct \<lparr>dt_path_and_query = raw_target\<rparr>
         else Malformed)
      else classify_absolute raw_target)"

record parsed_uri =
  uri_scheme :: "bytes option"
  uri_authority :: "bytes option"
  uri_path_and_query :: "bytes option"

definition classify_parsed :: "bytes \<Rightarrow> parsed_uri \<Rightarrow> target" where
  "classify_parsed method uri =
     (if method = ''CONNECT'' then
        (case (uri_scheme uri, uri_authority uri, uri_path_and_query uri) of
           (None, Some authority, None) \<Rightarrow> classify method authority
         | _ \<Rightarrow> Malformed)
      else if uri_scheme uri = None \<and> uri_authority uri = None then
        (case uri_path_and_query uri of
           Some value \<Rightarrow> classify method value
         | None \<Rightarrow> Malformed)
      else
        case Option.bind (uri_scheme uri) scheme_of of
          None \<Rightarrow> Malformed
        | Some scheme \<Rightarrow>
            (case uri_authority uri of
               None \<Rightarrow> Malformed
             | Some authority \<Rightarrow>
                 (let path_and_query = (case uri_path_and_query uri of None \<Rightarrow> [] | Some v \<Rightarrow> v)
                  in if path_and_query \<noteq> [] \<and> \<not> valid_absolute_path_and_query path_and_query
                     then Malformed
                     else classify_authority authority (Some scheme) KindHttp path_and_query)))"

section \<open>Ports and IPv4 literals: one spelling each\<close>

lemma u16_of_nat_eq: "n \<le> 65535 \<Longrightarrow> unat (of_nat n :: u16) = n"
  by (simp add: unat_of_nat)

lemma u8_of_nat_eq: "n \<le> 255 \<Longrightarrow> unat (of_nat n :: u8) = n"
  by (simp add: unat_of_nat)

lemma parse_port_Ok:
  "parse_port v = Ok p \<longleftrightarrow>
     v \<noteq> [] \<and> list_all is_ascii_digit v \<and> 0 < dec_value v \<and> dec_value v \<le> 65535 \<and> p = of_nat (dec_value v)"
  by (auto simp: parse_port_def parse_uint_digits)

lemma parse_port_nonzero: "parse_port v = Ok p \<Longrightarrow> p \<noteq> 0"
  by (auto simp: parse_port_Ok word_unat_eq_iff u16_of_nat_eq)

lemma parse_port_not_zero [simp]: "parse_port v \<noteq> Ok 0"
  using parse_port_nonzero by blast

lemma parse_port_show_port: "p \<noteq> 0 \<Longrightarrow> parse_port (show_port p) = Ok p"
  using u16_bound [of p] by (simp add: parse_port_Ok show_port_def unat_gt_0 less_Suc_eq_le)

lemma canonical_octet:
  "canonical_digits v \<longleftrightarrow>
     \<not> (v = [] \<or> \<not> list_all is_ascii_digit v \<or> (1 < length v \<and> starts_with ''0'' v))"
  by (auto simp: canonical_digits_def starts_with_single)

lemma canonical_show_u8: "canonical_digits v \<and> dec_value v \<le> 255 \<and> x = of_nat (dec_value v) \<longleftrightarrow> v = show_u8 x"
  using u8_bound [of x]
  by (auto simp: show_u8_def show_nat_dec_value u8_of_nat_eq show_nat_canonical)

lemma parse_octets_Some:
  "parse_octets n parts = Some (xs, rest) \<longleftrightarrow> length xs = n \<and> parts = map show_u8 xs @ rest"
proof (induction n parts arbitrary: xs rule: parse_octets.induct)
  case (3 n v parts)
  show ?case
  proof (cases "canonical_digits v \<and> dec_value v \<le> 255")
    case True
    then have c: "\<not> (v = [] \<or> \<not> list_all is_ascii_digit v \<or> (1 < length v \<and> starts_with ''0'' v))"
      using canonical_octet by blast
    from True have u: "parse_uint 255 v = Some (dec_value v)"
      by (simp add: canonical_digits_def parse_uint_digits)
    from c u have step: "parse_octets (Suc n) (v # parts) =
        (case parse_octets n parts of None \<Rightarrow> None | Some (xs, rest) \<Rightarrow> Some (of_nat (dec_value v) # xs, rest))"
      by (auto simp del: neq0_conv)
    have "parse_octets (Suc n) (v # parts) = Some (xs, rest) \<longleftrightarrow>
        (\<exists>y ys. xs = y # ys \<and> y = of_nat (dec_value v) \<and> parse_octets n parts = Some (ys, rest))"
      unfolding step by (auto split: option.splits)
    moreover have "x = of_nat (dec_value v) \<longleftrightarrow> v = show_u8 x" for x
      using True canonical_show_u8 [of v x] by blast
    ultimately show ?thesis
      by (cases xs) (simp_all add: "3.IH" [OF c u] conj_ac)
  next
    case False
    then have "v \<noteq> show_u8 x" for x
      using canonical_show_u8 [of v x] by blast
    moreover have "parse_octets (Suc n) (v # parts) = None"
      using False canonical_octet [of v] by (auto simp: parse_uint_digits canonical_digits_def)
    ultimately show ?thesis
      by (cases xs) auto
  qed
qed auto

lemma dot_not_in_show_u8: "CHR ''.'' \<notin> set (show_u8 x)"
  by (simp add: show_u8_def show_nat_free is_ascii_digit_def)

lemma split_show_ipv4: "split_on (CHR ''.'') (show_ipv4 a) = map show_u8 (octets a)"
  by (cases a) (simp add: split_on_free_append split_on_free dot_not_in_show_u8)

lemma parse_ipv4_Some: "parse_ipv4 s = Some a \<longleftrightarrow> s = show_ipv4 a"
proof
  assume "parse_ipv4 s = Some a"
  then obtain x where "parse_octets 4 (split_on (CHR ''.'') s) = Some (x, [])" and "octets a = x"
    by (auto simp: parse_ipv4_def split: option.splits list.splits)
  then have "split_on (CHR ''.'') s = split_on (CHR ''.'') (show_ipv4 a)"
    by (simp add: parse_octets_Some split_show_ipv4)
  then show "s = show_ipv4 a"
    by (simp only: split_on_inj)
next
  assume s: "s = show_ipv4 a"
  have "parse_octets 4 (map show_u8 (octets a)) = Some (octets a, [])"
    by (simp add: parse_octets_Some) (cases a, simp)
  with s show "parse_ipv4 s = Some a"
    by (cases a) (simp add: parse_ipv4_def split_show_ipv4 del: show_ipv4.simps)
qed

lemma parse_ipv4_show [simp]: "parse_ipv4 (show_ipv4 a) = Some a"
  by (simp add: parse_ipv4_Some)

section \<open>Loopback authorities\<close>

definition valid_loopback_authority :: "loopback_authority \<Rightarrow> bool" where
  "valid_loopback_authority a \<longleftrightarrow>
     la_port a \<noteq> 0 \<and>
     (case la_host a of LoopbackIpv4 v \<Rightarrow> ipv4_is_loopback v | _ \<Rightarrow> True)"

lemma loopback_authority_from_str_valid:
  "loopback_authority_from_str s = Ok a \<Longrightarrow> valid_loopback_authority a"
  by (auto simp: loopback_authority_from_str_def valid_loopback_authority_def ipv4_is_loopback_def
      split: if_splits option.splits)

lemma digit_octet_plain: "is_ascii_digit c \<Longrightarrow> is_ascii_char c \<and> \<not> is_ws1 c"
  by (auto simp: byte_class_defs is_ws1_def)

lemma show_port_plain: "c \<in> set (show_port p) \<Longrightarrow> is_ascii_digit c"
  by (auto simp: show_port_def dest: show_nat_digit)

lemma show_port_not_Nil [simp]: "show_port p \<noteq> []"
  by (simp add: show_port_def)

lemma colon_not_in_show_port: "CHR '':'' \<notin> set (show_port p)"
  using show_port_plain by (fastforce simp: is_ascii_digit_def)

lemma rsplit_show_port:
  "rsplit_once (CHR '':'') (h @ CHR '':'' # show_port p) = Some (h, show_port p)"
  by (simp add: rsplit_once_Some colon_not_in_show_port)

lemma host_port_framing:
  assumes "h \<noteq> []" and "is_ascii h" and "\<not> is_ws1 (hd h)"
  shows "trim (h @ CHR '':'' # show_port p) = h @ CHR '':'' # show_port p"
    and "is_ascii (h @ CHR '':'' # show_port p)"
proof -
  have "last (show_port p) \<in> set (show_port p)" by simp
  then have "is_ascii_char (last (show_port p)) \<and> \<not> is_ws1 (last (show_port p))"
    using show_port_plain digit_octet_plain by blast
  then show "trim (h @ CHR '':'' # show_port p) = h @ CHR '':'' # show_port p"
    using assms by (intro trim_unspaced) (auto simp: is_ascii_def list_all_iff)
  show "is_ascii (h @ CHR '':'' # show_port p)"
    using assms show_port_plain digit_octet_plain
    by (auto simp: is_ascii_def list_all_iff is_ascii_char_def [of "CHR '':''"])
qed

lemma show_u8_digit: "c \<in> set (show_u8 x) \<Longrightarrow> is_ascii_digit c"
  by (auto simp: show_u8_def dest: show_nat_digit)

lemma show_u8_not_Nil [simp]: "show_u8 x \<noteq> []"
  by (simp add: show_u8_def)

lemma show_ipv4_hd: "is_ascii_digit (hd (show_ipv4 a))"
proof (cases a)
  case (Ipv4Addr p q r s)
  have "is_ascii_digit (hd (show_u8 p))"
    using show_u8_digit [OF hd_in_set [OF show_u8_not_Nil]] .
  with Ipv4Addr show ?thesis
    by simp
qed

lemma show_ipv4_not_Nil [simp]: "show_ipv4 a \<noteq> []"
  by (cases a) (simp add: show_u8_def)

lemma show_ipv4_chars: "c \<in> set (show_ipv4 a) \<Longrightarrow> is_ascii_digit c \<or> c = CHR ''.''"
  by (cases a) (auto dest: show_u8_digit)

lemma is_ascii_show_ipv4: "is_ascii (show_ipv4 a)"
  using show_ipv4_chars digit_octet_plain
  by (fastforce simp: is_ascii_def list_all_iff is_ascii_char_def [of "CHR ''.''"])

lemma show_ipv4_not_localhost: "\<not> eq_ignore_ascii_case (show_ipv4 a) ''localhost''"
proof
  assume "eq_ignore_ascii_case (show_ipv4 a) ''localhost''"
  then have "to_ascii_lower (hd (show_ipv4 a)) = CHR ''l''"
    by (cases "show_ipv4 a") (auto simp: eq_ignore_ascii_case_def to_ascii_lowercase_def
        to_ascii_lower_def [of "CHR ''l''"] is_ascii_uppercase_def)
  moreover have "is_ascii_digit (to_ascii_lower (hd (show_ipv4 a)))"
    by (simp add: show_ipv4_hd)
  ultimately show False
    by (simp add: is_ascii_digit_def)
qed

lemma parse_std_ipv6_loopback: "parse_std_ipv6 ''::1'' = Some ipv6_loopback"
  by code_simp

lemma parse_show_loopback_authority:
  assumes "valid_loopback_authority a"
  shows "loopback_authority_from_str (show_loopback_authority a) = Ok a"
proof (cases "la_host a")
  case Localhost
  moreover have "is_ascii ''localhost''"
    by (simp add: is_ascii_def is_ascii_char_def)
  ultimately show ?thesis
    using assms host_port_framing [of "''localhost''" "la_port a"] rsplit_show_port [of "''localhost''" "la_port a"]
    by (simp add: loopback_authority_from_str_def show_loopback_authority_def is_ws1_def
        valid_loopback_authority_def parse_port_show_port eq_ignore_ascii_case_def)
next
  case (LoopbackIpv4 v)
  have "\<not> is_ws1 (hd (show_ipv4 v))"
    using show_ipv4_hd digit_octet_plain by blast
  moreover have "hd (show_ipv4 v) \<noteq> CHR ''[''"
    using show_ipv4_hd [of v] by (auto simp: is_ascii_digit_def)
  then have "strip_prefix ''['' (show_ipv4 v) = None"
    by (auto simp: strip_prefix_def prefix_def)
  ultimately show ?thesis
    using assms LoopbackIpv4 host_port_framing [of "show_ipv4 v" "la_port a"] rsplit_show_port [of "show_ipv4 v" "la_port a"]
    by (simp add: loopback_authority_from_str_def show_loopback_authority_def
        is_ascii_show_ipv4 show_ipv4_not_localhost valid_loopback_authority_def
        parse_port_show_port ipv4_is_loopback_def)
next
  case Ipv6Loopback
  have "is_ascii ''[::1]''"
    by (simp add: is_ascii_def is_ascii_char_def)
  moreover have "\<not> eq_ignore_ascii_case ''[::1]'' ''localhost''"
    by (simp add: eq_ignore_ascii_case_def to_ascii_lowercase_def)
  moreover have "Option.bind (strip_prefix ''['' ''[::1]'') (strip_suffix '']'') = Some ''::1''"
    by (simp add: strip_prefix_def strip_suffix_Some)
  ultimately show ?thesis
    using assms Ipv6Loopback host_port_framing [of "''[::1]''" "la_port a"] rsplit_show_port [of "''[::1]''" "la_port a"]
    by (simp add: loopback_authority_from_str_def show_loopback_authority_def is_ws1_def
        valid_loopback_authority_def parse_port_show_port parse_std_ipv6_loopback
        ipv6_is_loopback_def)
qed

text \<open>
  A stored loopback authority has one canonical spelling: parsing what is printed gives the
  authority back.
\<close>

theorem loopback_authority_roundtrip:
  assumes "valid_loopback_authority a"
  shows "loopback_authority_from_str (show_loopback_authority a) = Ok a"
  using assms by (rule parse_show_loopback_authority)

theorem loopback_authority_roundtrip_witness:
  "loopback_authority_from_str ''127.0.0.1:80'' =
     Ok \<lparr>la_host = LoopbackIpv4 (Ipv4Addr 127 0 0 1), la_port = 80\<rparr>"
proof -
  let ?a = "\<lparr>la_host = LoopbackIpv4 (Ipv4Addr 127 0 0 1), la_port = 80\<rparr>"
  have "valid_loopback_authority ?a"
    by (simp add: valid_loopback_authority_def ipv4_is_loopback_def)
  moreover have "show_loopback_authority ?a = ''127.0.0.1:80''"
    by code_simp
  ultimately show ?thesis
    using loopback_authority_roundtrip [of ?a] by simp
qed

section \<open>Hosts of parsed authorities\<close>

text \<open>
  A public host is never a loopback identity. An IPv6 literal with a zone is public whatever
  its address is, and is refused when it is dialled.
\<close>

definition public_host_wf :: "public_host \<Rightarrow> bytes option \<Rightarrow> bool" where
  "public_host_wf host scope \<longleftrightarrow>
     (case host of
        Dns d \<Rightarrow> scope = None \<and> normal_domain d \<and> domain_str d \<noteq> ''localhost''
                 \<and> \<not> list_all (\<lambda>b. is_ascii_digit b \<or> b = CHR ''.'') (domain_str d)
      | IpHost (V4 a) \<Rightarrow> scope = None \<and> \<not> ipv4_is_loopback a
      | IpHost (V6 a) \<Rightarrow>
          (case scope of
             None \<Rightarrow> \<not> ipv6_is_loopback a
           | Some zone \<Rightarrow> zone \<noteq> [] \<and> list_all zone_octet zone))"

definition parsed_wf :: "parsed_authority \<Rightarrow> bool" where
  "parsed_wf p \<longleftrightarrow>
     (case pa_host p of
        ParsedLocal h \<Rightarrow> valid_loopback_authority \<lparr>la_host = h, la_port = pa_port p\<rparr>
      | ParsedPublic h \<Rightarrow> pa_port p \<noteq> 0 \<and> public_host_wf h (pa_ipv6_scope p))"

lemma dotted_digits_lowercase:
  "list_all (\<lambda>b. is_ascii_digit b \<or> b = CHR ''.'') (to_ascii_lowercase s)
     = list_all (\<lambda>b. is_ascii_digit b \<or> b = CHR ''.'') s"
proof -
  have "to_ascii_lower b = CHR ''.'' \<longleftrightarrow> b = CHR ''.''" for b
    by (rule to_ascii_lower_eq_iff) simp
  then show ?thesis
    by (simp add: to_ascii_lowercase_def list.pred_map comp_def)
qed

lemma domain_name_from_str_not_dotted:
  assumes "domain_name_from_str s = Ok d"
    and "\<not> list_all (\<lambda>b. is_ascii_digit b \<or> b = CHR ''.'') s"
  shows "\<not> list_all (\<lambda>b. is_ascii_digit b \<or> b = CHR ''.'') (domain_str d)"
  using assms
  by (auto simp: domain_name_from_str_def dotted_digits_lowercase strip_suffix_Some Let_def
      split: if_splits option.splits)

lemma parse_named_wf:
  assumes "parse_named host port explicit = Some p" and "port \<noteq> 0"
  shows "parsed_wf p \<and> pa_explicit_port p = explicit"
proof (cases "parse_ipv4 host")
  case (Some a)
  with assms show ?thesis
    by (auto simp: parse_named_def parsed_wf_def valid_loopback_authority_def public_host_wf_def
        ipv4_is_loopback_def split: if_splits)
next
  case None
  with assms obtain d where "domain_name_from_str host = Ok d"
    and "\<not> list_all (\<lambda>b. is_ascii_digit b \<or> b = CHR ''.'') host"
    and "p = \<lparr>pa_host = (if domain_str d = ''localhost'' then ParsedLocal Localhost
                          else ParsedPublic (Dns d)),
               pa_ipv6_scope = None, pa_port = port, pa_explicit_port = explicit\<rparr>"
    by (auto simp: parse_named_def split: if_splits result.splits)
  then show ?thesis
    using assms(2) domain_name_from_str_normal domain_name_from_str_not_dotted
    by (auto simp: parsed_wf_def valid_loopback_authority_def public_host_wf_def)
qed

lemma parse_authority_port_Some:
  assumes "parse_authority_port rest dflt required = Some (port, explicit)"
    and "dflt \<noteq> Some 0"
  shows "port \<noteq> 0 \<and> (required \<longrightarrow> explicit)"
  using assms by (auto simp: parse_authority_port_def split: option.splits if_splits)

lemma parse_ipv6_host_zone:
  "parse_ipv6_host host = Some (a, Some zone) \<Longrightarrow> zone \<noteq> [] \<and> list_all zone_octet zone"
  by (auto simp: parse_ipv6_host_def Let_def split: option.splits if_splits)

lemma parse_bracketed_wf:
  assumes "parse_bracketed value dflt required = Some p" and "dflt \<noteq> Some 0"
  shows "parsed_wf p \<and> (required \<longrightarrow> pa_explicit_port p)"
  using assms
  by (auto simp: parse_bracketed_def bind_eq_Some_conv parsed_wf_def valid_loopback_authority_def
      public_host_wf_def split: if_splits option.splits
      dest: parse_authority_port_Some parse_ipv6_host_zone)

lemma parse_authority_wf:
  assumes "parse_authority value dflt required = Some p" and "dflt \<noteq> Some 0"
  shows "parsed_wf p \<and> (required \<longrightarrow> pa_explicit_port p)"
proof -
  consider v where "parse_bracketed v dflt required = Some p"
    | host port where "port \<noteq> 0" "parse_named host port True = Some p"
    | host port where "port \<noteq> 0" "parse_named host port False = Some p" "\<not> required"
    using assms by (force simp: parse_authority_def bind_eq_Some_conv dest: parse_port_nonzero
        split: if_splits option.splits)
  then show ?thesis
    using assms(2) parse_bracketed_wf parse_named_wf by cases blast+
qed

section \<open>Classified targets\<close>

definition target_wf :: "target \<Rightarrow> bool" where
  "target_wf t \<longleftrightarrow>
     (case t of
        PublicHttp p \<Rightarrow> pt_port p \<noteq> 0 \<and> public_host_wf (pt_host p) (pt_ipv6_scope p)
      | PublicConnect p \<Rightarrow> pt_port p \<noteq> 0 \<and> public_host_wf (pt_host p) (pt_ipv6_scope p)
      | LocalHttp l \<Rightarrow> valid_loopback_authority (lt_canonical_authority l)
      | LocalConnect l \<Rightarrow> valid_loopback_authority (lt_canonical_authority l)
      | _ \<Rightarrow> True)"

lemma default_port_nonzero: "map_option default_port_of scheme \<noteq> Some 0"
  by (cases scheme) (auto simp: default_port_of_def split: absolute_scheme.splits)

lemma classify_authority_wf: "target_wf (classify_authority value scheme kind path)"
proof (cases "parse_authority value (map_option default_port_of scheme) (kind = KindConnect)")
  case (Some p)
  then have "parsed_wf p"
    using parse_authority_wf default_port_nonzero by blast
  with Some show ?thesis
    by (auto simp: classify_authority_def target_wf_def parsed_wf_def Let_def
        split: parsed_host.splits request_kind.splits)
qed (simp add: classify_authority_def target_wf_def)

lemma classify_absolute_cases:
  "classify_absolute raw = Malformed \<or>
   (\<exists>authority scheme path. (path = [] \<or> valid_absolute_path_and_query path) \<and>
      classify_absolute raw = classify_authority authority (Some scheme) KindHttp path)"
  unfolding classify_absolute_def Let_def
  by (simp del: drop_eq_Nil add: ex_disj_distrib split: option.split) blast

lemma classify_connect_cases:
  "classify_connect raw = Malformed \<or>
   classify_connect raw = classify_authority raw None KindConnect []"
  by (simp add: classify_connect_def)

lemma target_wf_Malformed [simp]: "target_wf Malformed" "target_wf Asterisk" "target_wf (Direct d)"
  by (simp_all add: target_wf_def)

lemma classify_wf: "target_wf (classify method raw)"
  using classify_absolute_cases [of raw] classify_connect_cases [of raw]
  by (auto simp: classify_def classify_authority_wf)

text \<open>
  C20: whatever the request line says, a target that is classified public names neither
  \<open>localhost\<close>, nor an IPv4 address of 127/8, nor an \<open>::1\<close> without a zone; a host name is a valid
  lower-case name that is not all digits and dots, a zone belongs to an IPv6 address only and is not
  empty, and the port is not 0. A local target carries a valid loopback authority. An \<open>::1\<close> with a
  zone and an IPv6 address that maps an IPv4 one are public targets here; it is the connector that
  refuses to dial them.
\<close>

theorem classify_separates_loopback:
  "target_wf (classify method raw) \<and> target_wf (classify_parsed method uri)"
proof
  show "target_wf (classify method raw)"
    by (rule classify_wf)
  show "target_wf (classify_parsed method uri)"
    by (auto simp: classify_parsed_def classify_wf classify_authority_wf Let_def
        split: option.split prod.split)
qed

definition method_route :: "bytes \<Rightarrow> target \<Rightarrow> bool" where
  "method_route method t \<longleftrightarrow>
     (case t of
        PublicConnect p \<Rightarrow>
          method = ''CONNECT'' \<and> pt_explicit_port p \<and> pt_path_and_query p = []
      | LocalConnect l \<Rightarrow>
          method = ''CONNECT'' \<and> lt_explicit_port l \<and> lt_path_and_query l = []
      | Malformed \<Rightarrow> True
      | _ \<Rightarrow> method \<noteq> ''CONNECT'')"

lemma classify_authority_http:
  "method \<noteq> ''CONNECT'' \<Longrightarrow> method_route method (classify_authority a s KindHttp path)"
  by (simp add: classify_authority_def method_route_def Let_def
      split: option.split parsed_host.split)

lemma classify_authority_connect:
  "method_route ''CONNECT'' (classify_authority a None KindConnect [])"
proof (cases "parse_authority a None True")
  case (Some p)
  then have "pa_explicit_port p"
    using parse_authority_wf by fastforce
  with Some show ?thesis
    by (simp add: classify_authority_def method_route_def Let_def split: parsed_host.split)
qed (simp add: classify_authority_def method_route_def)

text \<open>
  Tunnels come from CONNECT only: a CONNECT request is classified as a tunnel with an
  explicit port and an empty path, or refused, and no other method is classified as a tunnel.
\<close>

theorem classify_connect_only: "method_route method (classify method raw)"
proof (cases "method = ''CONNECT''")
  case True
  then show ?thesis
    using classify_connect_cases [of raw] classify_authority_connect [of raw]
    by (auto simp: classify_def method_route_def)
next
  case False
  then show ?thesis
    using classify_absolute_cases [of raw] classify_authority_http [OF False]
    by (auto simp: classify_def method_route_def)
qed

section \<open>No byte of a target can break the request line\<close>

definition visible :: "char \<Rightarrow> bool" where
  "visible c \<longleftrightarrow> 33 \<le> octet c \<and> octet c \<le> 126"

lemma alphanumeric_visible: "is_ascii_alphanumeric c \<Longrightarrow> visible c"
  by (auto simp: byte_class_defs visible_def)

lemma hexdigit_visible: "is_ascii_hexdigit c \<Longrightarrow> visible c"
  by (auto simp: byte_class_defs visible_def)

lemma digit_visible: "is_ascii_digit c \<Longrightarrow> visible c"
  by (simp add: alphanumeric_visible digit_is_alphanumeric)

lemma punctuation_visible [simp]:
  "visible (CHR ''.'')" "visible (CHR '':'')" "visible (CHR ''['')" "visible (CHR '']'')"
  "visible (CHR ''%'')" "visible (CHR ''-'')" "visible (CHR ''2'')" "visible (CHR ''5'')"
  by (simp_all add: visible_def)

lemma zone_octet_visible: "zone_octet c \<Longrightarrow> visible c"
  by (auto simp: zone_octet_def visible_def dest: alphanumeric_visible)

lemma valid_uri_octets_visible: "valid_uri_octets s \<Longrightarrow> c \<in> set s \<Longrightarrow> visible c"
proof (induction s rule: valid_uri_octets.induct)
  case (2 b rest)
  have "uri_octet x \<Longrightarrow> visible x" for x
    by (auto simp: uri_octet_def visible_def dest: alphanumeric_visible)
  with 2 show ?case
    by (auto split: if_splits list.splits dest: hexdigit_visible)
qed simp

lemma show_port_visible: "c \<in> set (show_port p) \<Longrightarrow> visible c"
  by (auto dest: show_port_plain digit_visible)

lemma show_ipv4_visible: "c \<in> set (show_ipv4 a) \<Longrightarrow> visible c"
  by (auto dest: show_ipv4_chars digit_visible)

lemma show_segments_visible: "c \<in> set (show_segments ss) \<Longrightarrow> visible c"
proof (induction ss rule: show_segments.induct)
  case (3 x y xs)
  then show ?case
    using show_hex_digits [of "unat x"] by (auto simp: list_all_iff dest: hexdigit_visible)
next
  case (2 x)
  then show ?case
    using show_hex_digits [of "unat x"] by (auto simp: list_all_iff dest: hexdigit_visible)
qed simp

lemma show_ipv6_visible: "c \<in> set (show_ipv6 a) \<Longrightarrow> visible c"
  by (auto simp: show_ipv6_def Let_def visible_def [of "CHR ''f''"]
      split: option.splits prod.splits if_splits dest: show_segments_visible show_ipv4_visible)

lemma normal_domain_chars:
  assumes "normal_domain d" and "c \<in> set (domain_str d)"
  shows "is_ascii_alphanumeric c \<or> c = CHR ''-'' \<or> c = CHR ''.''"
proof (cases "c = CHR ''.''")
  case False
  then obtain l where "l \<in> set (split_on (CHR ''.'') (domain_str d))" and "c \<in> set l"
    using assms(2) split_on_chars by blast
  then show ?thesis
    using assms(1) by (auto simp: normal_domain_def valid_domain_def valid_label_def list_all_iff)
qed simp

lemma public_authority_visible:
  assumes "public_host_wf host scope" and "c \<in> set (canonical_public_authority host scope port explicit)"
  shows "visible c"
  using assms
  by (auto simp: canonical_public_authority_def public_host_wf_def Let_def list_all_iff
      split: public_host.splits ip_addr.splits option.splits if_splits
      dest: normal_domain_chars alphanumeric_visible show_ipv4_visible show_ipv6_visible
        zone_octet_visible show_port_visible)

lemma loopback_authority_visible: "c \<in> set (show_loopback_authority a) \<Longrightarrow> visible c"
  by (auto simp: show_loopback_authority_def split: loopback_host.splits
      dest: show_ipv4_visible show_port_visible) (simp_all add: visible_def)

primrec target_text :: "target \<Rightarrow> bytes" where
  "target_text (Direct d) = dt_path_and_query d"
| "target_text Asterisk = ''*''"
| "target_text (PublicHttp p) = pt_authority p @ pt_path_and_query p"
| "target_text (LocalHttp l) =
     show_loopback_authority (lt_canonical_authority l) @ lt_path_and_query l"
| "target_text (PublicConnect p) = pt_authority p @ pt_path_and_query p"
| "target_text (LocalConnect l) =
     show_loopback_authority (lt_canonical_authority l) @ lt_path_and_query l"
| "target_text HttpsAbsoluteRejected = []"
| "target_text Malformed = []"

lemma valid_path_visible: "valid_path_and_query s \<Longrightarrow> c \<in> set s \<Longrightarrow> visible c"
  using valid_uri_octets_visible by (auto simp: valid_path_and_query_def)

lemma classify_authority_visible:
  assumes "path = [] \<or> valid_absolute_path_and_query path"
    and "c \<in> set (target_text (classify_authority a scheme kind path))"
  shows "visible c"
proof (cases "parse_authority a (map_option default_port_of scheme) (kind = KindConnect)")
  case (Some p)
  then have "parsed_wf p"
    using parse_authority_wf default_port_nonzero by blast
  moreover have "d \<in> set path \<Longrightarrow> visible d" for d
    using assms(1) valid_path_visible by (auto simp: valid_absolute_path_and_query_def)
  ultimately show ?thesis
    using Some assms(2)
    by (auto simp: classify_authority_def parsed_wf_def Let_def
        split: parsed_host.splits request_kind.splits if_splits
        dest: public_authority_visible loopback_authority_visible)
qed (use assms(2) in \<open>simp add: classify_authority_def\<close>)

text \<open>
  C21: every byte the proxy later writes for a classified target, the canonical authority and
  the path, is a visible ASCII character: no space, line break or control byte of a request
  target reaches an upstream request line.
\<close>

theorem classify_visible: "list_all visible (target_text (classify method raw))"
proof -
  have "visible c" if c: "c \<in> set (target_text (classify method raw))" for c
  proof -
    consider "c \<in> set (target_text (classify_connect raw))"
      | "c \<in> set (target_text (classify_absolute raw))" | "c = CHR ''*''"
      | "valid_path_and_query raw" "c \<in> set raw"
      using c by (auto simp: classify_def split: if_splits)
    then show ?thesis
      using classify_absolute_cases [of raw] classify_connect_cases [of raw]
        classify_authority_visible [of "[]"] classify_authority_visible valid_path_visible
      by cases (fastforce simp: visible_def)+
  qed
  then show ?thesis
    by (simp add: list_all_iff)
qed

end
