(* ===== verification/Policy.thy ===== *)
theory Policy
  imports Target
begin

text \<open>
  Policy snapshots and their loading (\<open>proxy/src/domain/policy.rs\<close> and
  \<open>proxy/src/domain/policy/reader.rs\<close>). The file system is a function from paths to what
  opening, inspecting and reading the file gives; a \<open>BTreeSet\<close> or \<open>HashSet\<close> is a set; an
  \<open>anyhow\<close> error is a value that names the failing step. Every live decision takes the file
  system it reads as an argument, because each one opens its files afresh.
\<close>

section \<open>Decisions\<close>

datatype policy_parse_error = PolicyParseError

record public_decision =
  pd_allowed :: bool
  pd_record_denial :: bool
  pd_effective_mode :: mode
  pd_invalid_input :: bool

record local_decision =
  ld_allowed :: bool
  ld_invalid_input :: bool

record public_policy_snapshot =
  ps_mode :: mode
  ps_entries :: "policy_entry set"

definition public_empty :: public_policy_snapshot where
  "public_empty = \<lparr>ps_mode = Enforce, ps_entries = {}\<rparr>"

definition public_matched :: "policy_entry set \<Rightarrow> public_host \<Rightarrow> bool" where
  "public_matched entries host =
     (case host of
        Dns name \<Rightarrow>
          (\<exists>entry \<in> entries. case entry of Domain pat \<Rightarrow> pattern_matches pat name | Ip _ \<Rightarrow> False)
      | IpHost (V4 address) \<Rightarrow> Ip address \<in> entries
      | IpHost (V6 _) \<Rightarrow> False)"

definition public_decide ::
    "public_policy_snapshot \<Rightarrow> public_host \<Rightarrow> bool \<Rightarrow> public_decision" where
  "public_decide s host invalid_input =
     (let matched = public_matched (ps_entries s) host
      in case ps_mode s of
           Enforce \<Rightarrow> \<lparr>pd_allowed = matched, pd_record_denial = \<not> matched,
                       pd_effective_mode = ps_mode s, pd_invalid_input = invalid_input\<rparr>
         | Report \<Rightarrow> \<lparr>pd_allowed = True, pd_record_denial = \<not> matched,
                      pd_effective_mode = ps_mode s, pd_invalid_input = invalid_input\<rparr>
         | Open \<Rightarrow> \<lparr>pd_allowed = True, pd_record_denial = False,
                    pd_effective_mode = ps_mode s, pd_invalid_input = invalid_input\<rparr>)"

record local_policy_snapshot =
  ls_authorities :: "loopback_authority set"

definition local_empty :: local_policy_snapshot where
  "local_empty = \<lparr>ls_authorities = {}\<rparr>"

definition local_decide ::
    "local_policy_snapshot \<Rightarrow> loopback_authority \<Rightarrow> bool \<Rightarrow> local_decision" where
  "local_decide s authority invalid_input =
     \<lparr>ld_allowed = (authority \<in> ls_authorities s), ld_invalid_input = invalid_input\<rparr>"

section \<open>Policy text\<close>

definition parse_mode :: "bytes \<Rightarrow> (mode, policy_parse_error) result" where
  "parse_mode contents =
     (if contents = ''enforce'' \<or> contents = ''enforce'' @ [LF] then Ok Enforce
      else if contents = ''report'' \<or> contents = ''report'' @ [LF] then Ok Report
      else if contents = ''open'' \<or> contents = ''open'' @ [LF] then Ok Open
      else Err PolicyParseError)"

definition strict_lines :: "bytes \<Rightarrow> (bytes list, policy_parse_error) result" where
  "strict_lines contents =
     (if contents = [] then Ok []
      else
        (let body = (case strip_suffix [LF] contents of Some b \<Rightarrow> b | None \<Rightarrow> contents)
         in if body = [] then Err PolicyParseError else Ok (split_on LF body)))"

definition parse_domain_layer :: "bytes \<Rightarrow> (policy_entry set, policy_parse_error) result" where
  "parse_domain_layer contents =
     and_then (strict_lines contents) (\<lambda>lines.
     and_then (map_err (\<lambda>_. PolicyParseError) (collect_results (map policy_entry_from_str lines)))
       (\<lambda>entries. Ok (set entries)))"

definition parse_local_line :: "bytes \<Rightarrow> (loopback_authority, policy_parse_error) result" where
  "parse_local_line line =
     and_then (map_err (\<lambda>_. PolicyParseError) (loopback_authority_from_str line)) (\<lambda>authority.
       if show_loopback_authority authority = line then Ok authority else Err PolicyParseError)"

definition parse_local_layer ::
    "bytes \<Rightarrow> (loopback_authority set, policy_parse_error) result" where
  "parse_local_layer contents =
     and_then (strict_lines contents) (\<lambda>lines.
     and_then (collect_results (map parse_local_line lines)) (\<lambda>authorities. Ok (set authorities)))"

definition is_canonical_local_authority :: "bytes \<Rightarrow> bool" where
  "is_canonical_local_authority value =
     (case loopback_authority_from_str value of
        Ok authority \<Rightarrow> show_loopback_authority authority = value
      | Err _ \<Rightarrow> False)"

definition first_invalid_line :: "bytes \<Rightarrow> (bytes \<Rightarrow> bool) \<Rightarrow> nat" where
  "first_invalid_line contents valid =
     (case Option.bind (ok (strict_lines contents)) (position (\<lambda>line. \<not> valid line)) of
        Some index \<Rightarrow> index + 1
      | None \<Rightarrow> 1)"

section \<open>Reading policy files\<close>

datatype policy_error =
    OpenError bytes bytes
  | InspectError bytes bytes
  | NotRegular bytes bytes
  | Exceeds1MiB bytes bytes
  | ReadError bytes bytes
  | NotUtf8 bytes bytes
  | MalformedPublicLayer nat bytes nat
  | MalformedLocalLayer nat bytes nat
  | MalformedMode bytes
  | NoPublicLayers

datatype opened_file =
    OpenFails
  | MetadataFails
  | Opened (of_is_file: bool) (of_len: nat) (of_contents: "bytes option")

type_synonym file_system = "bytes \<Rightarrow> opened_file"

definition MAX_POLICY_BYTES :: nat where
  "MAX_POLICY_BYTES = 1024 * 1024"

definition read_bounded_utf8 :: "file_system \<Rightarrow> bytes \<Rightarrow> bytes \<Rightarrow> (bytes, policy_error) result" where
  "read_bounded_utf8 fs path kind =
     (case fs path of
        OpenFails \<Rightarrow> Err (OpenError kind path)
      | MetadataFails \<Rightarrow> Err (InspectError kind path)
      | Opened is_file len contents \<Rightarrow>
          if \<not> is_file then Err (NotRegular kind path)
          else if MAX_POLICY_BYTES < len then Err (Exceeds1MiB kind path)
          else
            (case contents of
               None \<Rightarrow> Err (ReadError kind path)
             | Some text \<Rightarrow>
                 (let read = take (MAX_POLICY_BYTES + 1) text
                  in if MAX_POLICY_BYTES < length read then Err (Exceeds1MiB kind path)
                     else if utf8_valid read then Ok read
                     else Err (NotUtf8 kind path))))"

definition parse_domain_layer_at ::
    "bytes \<Rightarrow> bytes \<Rightarrow> nat \<Rightarrow> (policy_entry set, policy_error) result" where
  "parse_domain_layer_at contents path index =
     map_err (\<lambda>_. MalformedPublicLayer index path
                    (first_invalid_line contents (\<lambda>line. is_ok (policy_entry_from_str line))))
       (parse_domain_layer contents)"

definition parse_local_layer_at ::
    "bytes \<Rightarrow> bytes \<Rightarrow> nat \<Rightarrow> (loopback_authority set, policy_error) result" where
  "parse_local_layer_at contents path index =
     map_err (\<lambda>_. MalformedLocalLayer index path
                    (first_invalid_line contents is_canonical_local_authority))
       (parse_local_layer contents)"

fun extend_public_layers ::
    "file_system \<Rightarrow> nat \<Rightarrow> policy_entry set \<Rightarrow> bytes list \<Rightarrow> (policy_entry set, policy_error) result" where
  "extend_public_layers fs index entries [] = Ok entries"
| "extend_public_layers fs index entries (path # paths) =
     and_then (read_bounded_utf8 fs path ''public policy layer'') (\<lambda>contents.
     and_then (parse_domain_layer_at contents path index) (\<lambda>more.
       extend_public_layers fs (Suc index) (entries \<union> more) paths))"

fun extend_local_layers ::
    "file_system \<Rightarrow> nat \<Rightarrow> loopback_authority set \<Rightarrow> bytes list
       \<Rightarrow> (loopback_authority set, policy_error) result" where
  "extend_local_layers fs index authorities [] = Ok authorities"
| "extend_local_layers fs index authorities (path # paths) =
     and_then (read_bounded_utf8 fs path ''local policy layer'') (\<lambda>contents.
     and_then (parse_local_layer_at contents path index) (\<lambda>more.
       extend_local_layers fs (Suc index) (authorities \<union> more) paths))"

definition load_public_strict ::
    "file_system \<Rightarrow> bytes list \<Rightarrow> bytes \<Rightarrow> (public_policy_snapshot, policy_error) result" where
  "load_public_strict fs paths mode_path =
     (if paths = [] then Err NoPublicLayers
      else
        and_then (extend_public_layers fs 0 {} paths) (\<lambda>entries.
        and_then (read_bounded_utf8 fs mode_path ''policy mode'') (\<lambda>mode_contents.
        and_then (map_err (\<lambda>_. MalformedMode mode_path) (parse_mode mode_contents)) (\<lambda>mode.
          Ok \<lparr>ps_mode = mode, ps_entries = entries\<rparr>))))"

definition load_local_strict ::
    "file_system \<Rightarrow> bytes list \<Rightarrow> (local_policy_snapshot, policy_error) result" where
  "load_local_strict fs paths =
     and_then (extend_local_layers fs 0 {} paths) (\<lambda>authorities.
       Ok \<lparr>ls_authorities = authorities\<rparr>)"

definition decide_public_live ::
    "file_system \<Rightarrow> bytes list \<Rightarrow> bytes \<Rightarrow> public_host \<Rightarrow> public_decision" where
  "decide_public_live fs paths mode_path host =
     (case load_public_strict fs paths mode_path of
        Ok snapshot \<Rightarrow> public_decide snapshot host False
      | Err _ \<Rightarrow> public_decide public_empty host True)"

definition decide_local_live ::
    "file_system \<Rightarrow> bytes list \<Rightarrow> loopback_authority \<Rightarrow> local_decision" where
  "decide_local_live fs paths authority =
     (case load_local_strict fs paths of
        Ok snapshot \<Rightarrow> local_decide snapshot authority False
      | Err _ \<Rightarrow> local_decide local_empty authority True)"

definition effective_status_mode ::
    "file_system \<Rightarrow> bytes list \<Rightarrow> bytes \<Rightarrow> mode \<times> bytes option" where
  "effective_status_mode fs paths mode_path =
     (case load_public_strict fs paths mode_path of
        Ok snapshot \<Rightarrow> (ps_mode snapshot, None)
      | Err _ \<Rightarrow> (Enforce, Some ''invalid public policy; enforcing''))"

definition decide_public ::
    "file_system \<Rightarrow> bytes list \<Rightarrow> bytes \<Rightarrow> public_host \<Rightarrow> public_decision \<times> bytes option" where
  "decide_public fs paths mode_path host =
     (let decision = decide_public_live fs paths mode_path host
      in (decision,
          if pd_invalid_input decision then Some ''invalid public policy; enforcing'' else None))"

definition decide_local :: "file_system \<Rightarrow> bytes list \<Rightarrow> loopback_authority \<Rightarrow> bool" where
  "decide_local fs paths authority = ld_allowed (decide_local_live fs paths authority)"

section \<open>Layers of canonical lines\<close>

text \<open>
  Both layer parsers read lines in a format in which a value has one spelling. What a layer
  grants is then visible in its text.
\<close>

locale line_format =
  fixes parse :: "bytes \<Rightarrow> ('a, 'e) result"
    and spell :: "'a \<Rightarrow> bytes"
  assumes spelled: "parse line = Ok x \<Longrightarrow> spell x = line"
    and framed: "parse line = Ok x \<Longrightarrow> line \<noteq> [] \<and> LF \<notin> set line"
begin

lemma layer_member:
  assumes "collect_results (map parse lines) = Ok xs"
  shows "x \<in> set xs \<longleftrightarrow> spell x \<in> set lines \<and> parse (spell x) = Ok x"
proof -
  have m: "map parse lines = map Ok xs"
    using assms by (simp add: collect_results_eq_Ok)
  have "x \<in> set xs \<longleftrightarrow> Ok x \<in> set (map parse lines)"
    unfolding m by auto
  then show ?thesis
    using spelled by (auto simp: eq_commute)
qed

lemma layer_lines:
  assumes "collect_results (map parse lines) = Ok xs"
  shows "map spell xs = lines"
  using assms by (induction lines arbitrary: xs) (auto simp: collect_results_eq_Ok spelled)

lemma render_strict_lines:
  assumes "xs \<noteq> []" and "\<And>x. x \<in> set xs \<Longrightarrow> parse (spell x) = Ok x"
  shows "strict_lines (join_with LF (map spell xs) @ [LF]) = Ok (map spell xs)"
proof -
  have "\<forall>l \<in> set (map spell xs). LF \<notin> set l"
    using assms(2) framed by auto
  then have "split_on LF (join_with LF (map spell xs)) = map spell xs"
    using assms(1) by (intro split_join) auto
  moreover have "join_with LF (map spell xs) \<noteq> []"
    using assms framed by (cases xs rule: list.exhaust; cases "tl xs") fastforce+
  ultimately show ?thesis
    by (simp add: strict_lines_def)
qed

lemma render_layer:
  assumes "\<And>x. x \<in> set xs \<Longrightarrow> parse (spell x) = Ok x"
  shows "collect_results (map parse (map spell xs)) = Ok xs"
  using assms by (induction xs) auto

end

lemma policy_domain_framed: "valid_policy_domain line \<Longrightarrow> line \<noteq> [] \<and> LF \<notin> set line"
  by (auto simp: valid_policy_domain_def list_all_iff byte_class_defs dest!: bspec)

interpretation entry_lines: line_format policy_entry_from_str show_policy_entry
proof
  fix line x
  assume p: "policy_entry_from_str line = Ok x"
  then show "show_policy_entry x = line"
    by (rule policy_entry_from_str_spelling)
  from p have "is_ok (policy_entry_from_str line)" by simp
  then show "line \<noteq> [] \<and> LF \<notin> set line"
    using policy_domain_framed by (simp add: policy_entry_from_str_valid)
qed

lemma parse_local_line_Ok:
  "parse_local_line line = Ok a \<longleftrightarrow>
     loopback_authority_from_str line = Ok a \<and> show_loopback_authority a = line"
  by (auto simp: parse_local_line_def split: if_splits)

lemma show_loopback_not_Nil: "show_loopback_authority a \<noteq> []"
  by (simp add: show_loopback_authority_def split: loopback_host.split)

interpretation local_lines: line_format parse_local_line show_loopback_authority
proof
  fix line x
  assume "parse_local_line line = Ok x"
  then show "show_loopback_authority x = line" and "line \<noteq> [] \<and> LF \<notin> set line"
    using show_loopback_not_Nil loopback_authority_visible [of LF x]
    by (auto simp: parse_local_line_Ok visible_def)
qed

section \<open>What a policy file grants\<close>

definition readable :: "file_system \<Rightarrow> bytes \<Rightarrow> bytes \<Rightarrow> bool" where
  "readable fs path contents \<longleftrightarrow>
     (\<exists>len. fs path = Opened True len (Some contents) \<and> len \<le> MAX_POLICY_BYTES)
     \<and> length contents \<le> MAX_POLICY_BYTES \<and> utf8_valid contents"

lemma read_bounded_utf8_Ok:
  "read_bounded_utf8 fs path kind = Ok contents \<longleftrightarrow> readable fs path contents"
  by (cases "fs path") (auto simp: read_bounded_utf8_def readable_def Let_def not_le not_less
      split: option.splits if_splits)

lemma readable_unique: "readable fs path c \<Longrightarrow> readable fs path d \<Longrightarrow> c = d"
  by (auto simp: readable_def)

definition layer_of_lines :: "(bytes \<Rightarrow> bool) \<Rightarrow> bytes \<Rightarrow> bytes list \<Rightarrow> bool" where
  "layer_of_lines valid contents lines \<longleftrightarrow>
     strict_lines contents = Ok lines \<and> list_all valid lines"

definition canonical_entry :: "bytes \<Rightarrow> bool" where
  "canonical_entry line \<longleftrightarrow> is_ok (policy_entry_from_str line)"

lemma collect_results_total:
  "(\<exists>xs. collect_results (map f ls) = Ok xs) \<longleftrightarrow> list_all (\<lambda>l. is_ok (f l)) ls"
  by (induction ls) (auto simp: is_ok_iff collect_results_eq_Ok Cons_eq_map_conv)

lemma is_ok_local_line: "is_ok (parse_local_line line) = is_canonical_local_authority line"
  by (auto simp: parse_local_line_def is_canonical_local_authority_def
      and_then_eq_Ok is_ok_iff split: result.splits)

text \<open>
  A line of a public layer grants a host: a domain line by its labels, a line that spells an
  IPv4 address that address only.
\<close>

definition line_grants :: "public_host \<Rightarrow> bytes \<Rightarrow> bool" where
  "line_grants host line \<longleftrightarrow>
     (case host of
        Dns name \<Rightarrow>
          suffix (split_on (CHR ''.'') line) (split_on (CHR ''.'') (domain_str name))
          \<and> (\<forall>a. parse_std_ipv4 line = Some a \<longrightarrow> show_ipv4 a \<noteq> line)
      | IpHost (V4 a) \<Rightarrow> parse_std_ipv4 line = Some a \<and> show_ipv4 a = line
      | IpHost (V6 _) \<Rightarrow> False)"

lemma policy_entry_from_str_Domain:
  "policy_entry_from_str line = Ok (Domain pat) \<longleftrightarrow>
     valid_policy_domain line \<and> (\<forall>a. parse_std_ipv4 line = Some a \<longrightarrow> show_ipv4 a \<noteq> line)
     \<and> pat = DomainPattern (PolicyDomain line)"
  by (auto simp: policy_entry_from_str_def domain_pattern_from_str_valid split: option.splits)

lemma domain_entry_case:
  "(case e of Domain pat \<Rightarrow> f pat | Ip _ \<Rightarrow> False) \<longleftrightarrow> (\<exists>pat. e = Domain pat \<and> f pat)"
  by (cases e) auto

lemma public_matched_lines:
  assumes "collect_results (map policy_entry_from_str lines) = Ok xs"
  shows "public_matched (set xs) host \<longleftrightarrow> (\<exists>line \<in> set lines. line_grants host line)"
proof -
  have entry: "e \<in> set xs \<longleftrightarrow> (\<exists>line \<in> set lines. policy_entry_from_str line = Ok e)" for e
    using entry_lines.layer_member [OF assms] entry_lines.spelled by metis
  have valid: "valid_policy_domain line" if "line \<in> set lines" for line
    using assms that collect_results_total [of policy_entry_from_str lines]
    by (auto simp: list_all_iff policy_entry_from_str_valid)
  show ?thesis
  proof (cases host)
    case (Dns name)
    have "public_matched (set xs) host \<longleftrightarrow> (\<exists>pat. Domain pat \<in> set xs \<and> pattern_matches pat name)"
      using Dns by (auto simp: public_matched_def domain_entry_case)
    also have "\<dots> \<longleftrightarrow>
        (\<exists>line \<in> set lines. \<exists>pat. policy_entry_from_str line = Ok (Domain pat) \<and> pattern_matches pat name)"
      using entry by blast
    finally show ?thesis
      using Dns valid by (auto simp: policy_entry_from_str_Domain line_grants_def pattern_matches_suffix)
  next
    case (IpHost ip)
    then show ?thesis
      using valid by (cases ip) (auto simp: public_matched_def line_grants_def entry policy_entry_from_str_Ip)
  qed
qed

lemma parse_domain_layer_Ok:
  "parse_domain_layer c = Ok entries \<longleftrightarrow>
     (\<exists>lines xs. strict_lines c = Ok lines
        \<and> collect_results (map policy_entry_from_str lines) = Ok xs \<and> entries = set xs)"
  by (auto simp: parse_domain_layer_def)

lemma parse_local_layer_Ok:
  "parse_local_layer c = Ok authorities \<longleftrightarrow>
     (\<exists>lines xs. strict_lines c = Ok lines
        \<and> collect_results (map parse_local_line lines) = Ok xs \<and> authorities = set xs)"
  by (auto simp: parse_local_layer_def)

text \<open>A layer file is well formed when it is readable and every one of its lines is canonical.\<close>

definition layer_ok :: "file_system \<Rightarrow> (bytes \<Rightarrow> bool) \<Rightarrow> bytes \<Rightarrow> bool" where
  "layer_ok fs valid path \<longleftrightarrow>
     (\<exists>contents lines. readable fs path contents \<and> layer_of_lines valid contents lines)"

definition line_in_layer :: "file_system \<Rightarrow> bytes \<Rightarrow> bytes \<Rightarrow> bool" where
  "line_in_layer fs path line \<longleftrightarrow>
     (\<exists>contents lines. readable fs path contents \<and> strict_lines contents = Ok lines \<and> line \<in> set lines)"

lemma public_layer_loads:
  "(\<exists>contents entries. readable fs path contents \<and> parse_domain_layer contents = Ok entries)
     \<longleftrightarrow> layer_ok fs valid_policy_domain path"
  using collect_results_total [of policy_entry_from_str]
  by (auto simp: layer_ok_def layer_of_lines_def parse_domain_layer_Ok policy_entry_from_str_valid)

lemma line_in_layer_iff:
  assumes "readable fs path contents" and "strict_lines contents = Ok lines"
  shows "line_in_layer fs path line \<longleftrightarrow> line \<in> set lines"
proof
  assume "line_in_layer fs path line"
  then obtain c ls where "readable fs path c" "strict_lines c = Ok ls" "line \<in> set ls"
    by (auto simp: line_in_layer_def)
  with assms readable_unique [OF assms(1) this(1)] show "line \<in> set lines"
    by simp
qed (use assms in \<open>auto simp: line_in_layer_def\<close>)

lemma public_layer_matches:
  assumes "readable fs path contents" and "parse_domain_layer contents = Ok entries"
  shows "public_matched entries host \<longleftrightarrow> (\<exists>line. line_in_layer fs path line \<and> line_grants host line)"
proof -
  obtain lines xs where "strict_lines contents = Ok lines" "entries = set xs"
    and "collect_results (map policy_entry_from_str lines) = Ok xs"
    using assms(2) by (auto simp: parse_domain_layer_Ok)
  then show ?thesis
    using public_matched_lines line_in_layer_iff [OF assms(1)] by auto
qed

lemma public_matched_Un:
  "public_matched (a \<union> b) host \<longleftrightarrow> public_matched a host \<or> public_matched b host"
  by (auto simp: public_matched_def split: public_host.splits ip_addr.splits)

lemma public_matched_empty [simp]: "\<not> public_matched {} host"
  by (auto simp: public_matched_def split: public_host.splits ip_addr.splits)

lemma extend_public_layers_total:
  "(\<exists>entries. extend_public_layers fs i acc paths = Ok entries)
     \<longleftrightarrow> (\<forall>path \<in> set paths. layer_ok fs valid_policy_domain path)"
proof (induction paths arbitrary: i acc)
  case (Cons path paths)
  have "(\<exists>entries. extend_public_layers fs i acc (path # paths) = Ok entries) \<longleftrightarrow>
      (\<exists>contents more. readable fs path contents \<and> parse_domain_layer contents = Ok more
         \<and> (\<forall>path \<in> set paths. layer_ok fs valid_policy_domain path))"
    using Cons.IH by (simp add: read_bounded_utf8_Ok parse_domain_layer_at_def) blast
  then show ?case
    using public_layer_loads by auto
qed simp

lemma extend_public_layers_matches:
  "extend_public_layers fs i acc paths = Ok entries \<Longrightarrow>
   public_matched entries host \<longleftrightarrow>
     public_matched acc host \<or>
     (\<exists>path \<in> set paths. \<exists>line. line_in_layer fs path line \<and> line_grants host line)"
proof (induction paths arbitrary: i acc)
  case (Cons path paths)
  then obtain contents more where layer: "readable fs path contents" "parse_domain_layer contents = Ok more"
    and "extend_public_layers fs (Suc i) (acc \<union> more) paths = Ok entries"
    by (auto simp: read_bounded_utf8_Ok parse_domain_layer_at_def)
  from Cons.IH [OF this(3)] show ?case
    using public_layer_matches [OF layer, of host] by (auto simp: public_matched_Un)
qed simp

text \<open>The contract of the public policy, over the text of the files.\<close>

definition public_policy_valid :: "file_system \<Rightarrow> bytes list \<Rightarrow> bytes \<Rightarrow> bool" where
  "public_policy_valid fs paths mode_path \<longleftrightarrow>
     paths \<noteq> [] \<and> (\<forall>path \<in> set paths. layer_ok fs valid_policy_domain path) \<and>
     (\<exists>contents mode. readable fs mode_path contents \<and> parse_mode contents = Ok mode)"

definition policy_grants :: "file_system \<Rightarrow> bytes list \<Rightarrow> (bytes \<Rightarrow> bool) \<Rightarrow> bool" where
  "policy_grants fs paths grants \<longleftrightarrow>
     (\<exists>path \<in> set paths. \<exists>line. line_in_layer fs path line \<and> grants line)"

definition mode_in_force :: "file_system \<Rightarrow> bytes \<Rightarrow> mode \<Rightarrow> bool" where
  "mode_in_force fs mode_path mode \<longleftrightarrow>
     (\<exists>contents. readable fs mode_path contents \<and> parse_mode contents = Ok mode)"

definition public_policy_allows :: "file_system \<Rightarrow> bytes list \<Rightarrow> bytes \<Rightarrow> public_host \<Rightarrow> bool" where
  "public_policy_allows fs paths mode_path host \<longleftrightarrow>
     public_policy_valid fs paths mode_path \<and>
     (mode_in_force fs mode_path Enforce \<longrightarrow> policy_grants fs paths (line_grants host))"

lemma load_public_strict_Ok:
  assumes "load_public_strict fs paths mode_path = Ok snapshot"
  shows "public_policy_valid fs paths mode_path"
    and "mode_in_force fs mode_path mode \<longleftrightarrow> mode = ps_mode snapshot"
    and "public_matched (ps_entries snapshot) host \<longleftrightarrow> policy_grants fs paths (line_grants host)"
proof -
  obtain contents where load: "paths \<noteq> []"
    "extend_public_layers fs 0 {} paths = Ok (ps_entries snapshot)"
    "readable fs mode_path contents" "parse_mode contents = Ok (ps_mode snapshot)"
    using assms by (auto simp: load_public_strict_def read_bounded_utf8_Ok split: if_splits)
  show "public_policy_valid fs paths mode_path"
    unfolding public_policy_valid_def extend_public_layers_total [of fs 0 "{}", symmetric]
    by (intro conjI exI) (rule load)+
  have "readable fs mode_path c \<longleftrightarrow> c = contents" for c
    using load(3) readable_unique by blast
  then show "mode_in_force fs mode_path mode \<longleftrightarrow> mode = ps_mode snapshot"
    using load(4) by (auto simp: mode_in_force_def)
  show "public_matched (ps_entries snapshot) host \<longleftrightarrow> policy_grants fs paths (line_grants host)"
    using extend_public_layers_matches [OF load(2), of host] by (simp add: policy_grants_def)
qed

lemma load_public_strict_Err:
  assumes "load_public_strict fs paths mode_path = Err e"
  shows "\<not> public_policy_valid fs paths mode_path"
proof
  assume "public_policy_valid fs paths mode_path"
  then obtain entries contents mode where "paths \<noteq> []"
    and "extend_public_layers fs 0 {} paths = Ok entries" and "parse_mode contents = Ok mode"
    and "read_bounded_utf8 fs mode_path ''policy mode'' = Ok contents"
    unfolding public_policy_valid_def extend_public_layers_total [of fs 0 "{}", symmetric]
    by (auto simp: read_bounded_utf8_Ok)
  then show False
    using assms by (simp add: load_public_strict_def)
qed

lemma decide_public_live_iff:
  "(pd_allowed (decide_public_live fs paths mode_path host)
      \<longleftrightarrow> public_policy_allows fs paths mode_path host) \<and>
   (pd_invalid_input (decide_public_live fs paths mode_path host)
      \<longleftrightarrow> \<not> public_policy_valid fs paths mode_path)"
proof (cases "load_public_strict fs paths mode_path")
  case (Ok snapshot)
  then show ?thesis
    using load_public_strict_Ok [OF Ok]
    by (auto simp: public_policy_allows_def decide_public_live_def public_decide_def Let_def
        split: mode.splits)
next
  case (Err e)
  then show ?thesis
    using load_public_strict_Err [OF Err]
    by (simp add: public_policy_allows_def decide_public_live_def public_decide_def public_empty_def)
qed

text \<open>A request that is let through although nothing grants it, which only report mode does.\<close>

definition reported_only :: "file_system \<Rightarrow> bytes list \<Rightarrow> bytes \<Rightarrow> public_host \<Rightarrow> bool" where
  "reported_only fs paths mode_path host \<longleftrightarrow>
     mode_in_force fs mode_path Report \<and> \<not> policy_grants fs paths (line_grants host)"

lemma decide_public_live_record:
  assumes "pd_allowed (decide_public_live fs paths mode_path host)"
  shows "pd_record_denial (decide_public_live fs paths mode_path host) \<longleftrightarrow>
    reported_only fs paths mode_path host"
proof (cases "load_public_strict fs paths mode_path")
  case (Ok snapshot)
  then show ?thesis
    using assms load_public_strict_Ok(2) [OF Ok, of Report] load_public_strict_Ok(3) [OF Ok, of host]
    by (auto simp: decide_public_live_def public_decide_def Let_def reported_only_def split: mode.splits)
next
  case (Err e)
  then show ?thesis
    using assms by (simp add: decide_public_live_def public_decide_def public_empty_def public_matched_def
        split: public_host.splits ip_addr.splits)
qed

text \<open>
  C18: the proxy is default-deny and fails closed. A public host is allowed exactly when every
  layer is readable, at most 1 MiB of UTF-8 and made of canonical lines, the mode file names a
  mode, and either the mode does not enforce or some line of some layer grants the host; any
  unreadable or malformed file denies everything and is reported as invalid input.
\<close>

theorem public_live_allows_iff:
  "(pd_allowed (decide_public_live fs paths mode_path host)
      \<longleftrightarrow> public_policy_allows fs paths mode_path host) \<and>
   (pd_invalid_input (decide_public_live fs paths mode_path host)
      \<longleftrightarrow> \<not> public_policy_valid fs paths mode_path)"
  by (rule decide_public_live_iff)

section \<open>Local policy\<close>

lemma parse_local_line_valid:
  "parse_local_line line = Ok a \<longleftrightarrow> valid_loopback_authority a \<and> show_loopback_authority a = line"
  using loopback_authority_from_str_valid parse_show_loopback_authority
  by (auto simp: parse_local_line_Ok)

lemma local_layer_loads:
  "(\<exists>contents authorities. readable fs path contents \<and> parse_local_layer contents = Ok authorities)
     \<longleftrightarrow> layer_ok fs is_canonical_local_authority path"
  using collect_results_total [of parse_local_line]
  by (auto simp: layer_ok_def layer_of_lines_def parse_local_layer_Ok is_ok_local_line)

lemma local_layer_member:
  assumes "readable fs path contents" and "parse_local_layer contents = Ok authorities"
  shows "a \<in> authorities \<longleftrightarrow>
    valid_loopback_authority a \<and> line_in_layer fs path (show_loopback_authority a)"
proof -
  obtain lines xs where l: "strict_lines contents = Ok lines" "authorities = set xs"
    and xs: "collect_results (map parse_local_line lines) = Ok xs"
    using assms(2) by (auto simp: parse_local_layer_Ok)
  show ?thesis
    using local_lines.layer_member [OF xs, of a] l line_in_layer_iff [OF assms(1) l(1)]
    by (auto simp: parse_local_line_valid)
qed

lemma extend_local_layers_total:
  "(\<exists>authorities. extend_local_layers fs i acc paths = Ok authorities)
     \<longleftrightarrow> (\<forall>path \<in> set paths. layer_ok fs is_canonical_local_authority path)"
proof (induction paths arbitrary: i acc)
  case (Cons path paths)
  have "(\<exists>authorities. extend_local_layers fs i acc (path # paths) = Ok authorities) \<longleftrightarrow>
      (\<exists>contents more. readable fs path contents \<and> parse_local_layer contents = Ok more
         \<and> (\<forall>path \<in> set paths. layer_ok fs is_canonical_local_authority path))"
    using Cons.IH by (simp add: read_bounded_utf8_Ok parse_local_layer_at_def) blast
  then show ?case
    using local_layer_loads by auto
qed simp

lemma extend_local_layers_member:
  "extend_local_layers fs i acc paths = Ok authorities \<Longrightarrow>
   a \<in> authorities \<longleftrightarrow> a \<in> acc \<or> valid_loopback_authority a \<and>
     policy_grants fs paths (\<lambda>line. line = show_loopback_authority a)"
proof (induction paths arbitrary: i acc)
  case (Cons path paths)
  then obtain contents more where layer: "readable fs path contents" "parse_local_layer contents = Ok more"
    and "extend_local_layers fs (Suc i) (acc \<union> more) paths = Ok authorities"
    by (auto simp: read_bounded_utf8_Ok parse_local_layer_at_def)
  from Cons.IH [OF this(3)] show ?case
    using local_layer_member [OF layer, of a] by (auto simp: policy_grants_def)
qed (simp add: policy_grants_def)

definition local_policy_allows :: "file_system \<Rightarrow> bytes list \<Rightarrow> loopback_authority \<Rightarrow> bool" where
  "local_policy_allows fs paths a \<longleftrightarrow>
     (\<forall>path \<in> set paths. layer_ok fs is_canonical_local_authority path) \<and>
     valid_loopback_authority a \<and>
     policy_grants fs paths (\<lambda>line. line = show_loopback_authority a)"

lemma decide_local_iff:
  "decide_local fs paths a \<longleftrightarrow> local_policy_allows fs paths a"
proof (cases "extend_local_layers fs 0 {} paths")
  case (Ok authorities)
  then show ?thesis
    using extend_local_layers_member [OF Ok, of a] extend_local_layers_total [of fs 0 "{}" paths]
    by (auto simp: decide_local_def decide_local_live_def load_local_strict_def local_decide_def
        local_policy_allows_def)
next
  case (Err e)
  then have "\<not> (\<forall>path \<in> set paths. layer_ok fs is_canonical_local_authority path)"
    using extend_local_layers_total [of fs 0 "{}" paths] by auto
  then show ?thesis
    using Err by (auto simp: decide_local_def decide_local_live_def load_local_strict_def
        local_decide_def local_policy_allows_def local_empty_def)
qed

text \<open>
  C19: a local authority is allowed exactly when all local layers are readable and canonical and
  one of them contains the line the authority prints as; no mode opens local access.
\<close>

theorem local_live_allows_iff:
  "decide_local fs paths a \<longleftrightarrow> local_policy_allows fs paths a"
  by (rule decide_local_iff)

section \<open>Diagnostics and rendering of layers\<close>

text \<open>
  The line number in the diagnostic of a malformed public layer is that of its first
  invalid line: every line before it is a canonical entry.
\<close>

theorem malformed_layer_first_line:
  assumes "strict_lines contents = Ok lines"
    and "parse_domain_layer_at contents path index = Err e"
  shows "\<exists>n < length lines. e = MalformedPublicLayer index path (n + 1)
           \<and> \<not> canonical_entry (lines ! n) \<and> list_all canonical_entry (take n lines)"
proof -
  have "\<not> list_all canonical_entry lines"
    using assms collect_results_total [of policy_entry_from_str lines]
    by (auto simp: parse_domain_layer_at_def parse_domain_layer_def canonical_entry_def [abs_def]
        and_then_eq_Err)
  then obtain n where n: "position (\<lambda>line. \<not> canonical_entry line) lines = Some n"
    by (cases "position (\<lambda>line. \<not> canonical_entry line) lines") (auto simp: list_all_iff)
  have "e = MalformedPublicLayer index path (first_invalid_line contents canonical_entry)"
    using assms(2) unfolding parse_domain_layer_at_def canonical_entry_def
    by (cases "parse_domain_layer contents") auto
  moreover have "first_invalid_line contents canonical_entry = n + 1"
    using assms(1) n by (simp add: first_invalid_line_def)
  moreover have "n < length lines \<and> \<not> canonical_entry (lines ! n) \<and> list_all canonical_entry (take n lines)"
    using n by (auto simp: position_Some list_all_iff in_set_conv_nth)
  ultimately show ?thesis
    by blast
qed

theorem malformed_layer_first_line_witness:
  "\<exists>n < length [''docs.rs'', ''Bad'']. MalformedPublicLayer 0 ''p'' 2 = MalformedPublicLayer 0 ''p'' (n + 1)
     \<and> \<not> canonical_entry ([''docs.rs'', ''Bad''] ! n) \<and> list_all canonical_entry (take n [''docs.rs'', ''Bad''])"
proof -
  have "strict_lines (''docs.rs'' @ [LF] @ ''Bad'') = Ok [''docs.rs'', ''Bad'']"
    by code_simp
  moreover have "parse_domain_layer_at (''docs.rs'' @ [LF] @ ''Bad'') ''p'' 0 = Err (MalformedPublicLayer 0 ''p'' 2)"
    by code_simp
  ultimately show ?thesis
    by (rule malformed_layer_first_line)
qed

text \<open>
  A layer file written from valid entries, one per line with a final line break, is read
  back as exactly those entries.
\<close>

theorem domain_layer_roundtrip:
  assumes "entries \<noteq> []" and "\<forall>e \<in> set entries. policy_entry_from_str (show_policy_entry e) = Ok e"
  shows "parse_domain_layer (join_with LF (map show_policy_entry entries) @ [LF]) = Ok (set entries)"
  using assms entry_lines.render_strict_lines entry_lines.render_layer
  by (simp add: parse_domain_layer_def del: map_map)

theorem domain_layer_roundtrip_witness:
  "parse_domain_layer (''docs.rs'' @ [LF] @ ''8.8.8.8'' @ [LF]) =
     Ok {Domain (DomainPattern (PolicyDomain ''docs.rs'')), Ip (Ipv4Addr 8 8 8 8)}"
proof -
  let ?es = "[Domain (DomainPattern (PolicyDomain ''docs.rs'')), Ip (Ipv4Addr 8 8 8 8)]"
  have a: "policy_entry_from_str (show_policy_entry (Domain (DomainPattern (PolicyDomain ''docs.rs''))))
             = Ok (Domain (DomainPattern (PolicyDomain ''docs.rs'')))"
    by code_simp
  have b: "policy_entry_from_str (show_policy_entry (Ip (Ipv4Addr 8 8 8 8))) = Ok (Ip (Ipv4Addr 8 8 8 8))"
    by code_simp
  have t: "join_with LF (map show_policy_entry ?es) @ [LF] = ''docs.rs'' @ [LF] @ ''8.8.8.8'' @ [LF]"
    by code_simp
  show ?thesis
    using domain_layer_roundtrip [of ?es] a b unfolding t by simp
qed

end
