(* ===== verification/Headers.thy ===== *)
theory Headers
  imports Std_Num
begin

text \<open>
  The header rules of \<open>proxy/src/headers.rs\<close> and the interface of the \<open>http\<close> crate that the
  HTTP code calls. \<open>HeaderMap\<close>, \<open>HeaderName\<close>, \<open>HeaderValue\<close>, \<open>Method\<close>, \<open>StatusCode\<close> and
  \<open>Authority\<close> are not part of this repository: they are the fields of a record \<open>'h http_crate\<close>
  that the definitions take as an argument, and what the code relies on of their documented
  behaviour is the predicate \<open>header_laws\<close>. A header name is its lower-case bytes, a header
  value and a method are their bytes, a status code is its number.
\<close>

section \<open>The interface of the HTTP crate\<close>

datatype version = Http10 | Http11

record 'h http_crate =
  hm_new :: 'h
  hm_append :: "bytes \<Rightarrow> bytes \<Rightarrow> 'h \<Rightarrow> 'h"
  hm_insert :: "bytes \<Rightarrow> bytes \<Rightarrow> 'h \<Rightarrow> 'h"
  hm_remove :: "bytes \<Rightarrow> 'h \<Rightarrow> 'h"
  hm_get_all :: "'h \<Rightarrow> bytes \<Rightarrow> bytes list"
  hm_iter :: "'h \<Rightarrow> (bytes \<times> bytes) list"
  header_name_from_bytes :: "bytes \<Rightarrow> bytes option"
  header_value_from_bytes :: "bytes \<Rightarrow> bytes option"
  header_value_to_str :: "bytes \<Rightarrow> bytes option"
  method_from_bytes :: "bytes \<Rightarrow> bytes option"
  status_from_u16 :: "nat \<Rightarrow> nat option"
  canonical_reason :: "nat \<Rightarrow> bytes option"
  authority_is_valid :: "bytes \<Rightarrow> bool"

text \<open>
  Documented behaviour: \<open>get_all\<close> lists the values of a name in the order they were
  appended, \<open>remove\<close> drops all of them, \<open>insert\<close> replaces them, \<open>iter\<close> yields every name
  with each of its values in that order, names are normalised to lower case, values and
  methods keep their bytes.
\<close>

definition header_laws :: "'h http_crate \<Rightarrow> bool" where
  "header_laws H \<longleftrightarrow>
     (\<forall>m. hm_get_all H (hm_new H) m = []) \<and>
     (\<forall>n v h m. hm_get_all H (hm_append H n v h) m = hm_get_all H h m @ (if m = n then [v] else [])) \<and>
     (\<forall>n v h m. hm_get_all H (hm_insert H n v h) m = (if m = n then [v] else hm_get_all H h m)) \<and>
     (\<forall>n h m. hm_get_all H (hm_remove H n h) m = (if m = n then [] else hm_get_all H h m)) \<and>
     (\<forall>h m. map snd (filter (\<lambda>p. fst p = m) (hm_iter H h)) = hm_get_all H h m) \<and>
     (\<forall>b n. header_name_from_bytes H b = Some n \<longrightarrow> n = to_ascii_lowercase b) \<and>
     (\<forall>b v. header_value_from_bytes H b = Some v \<longrightarrow> v = b) \<and>
     (\<forall>b v. header_value_to_str H b = Some v \<longrightarrow> v = b \<and> is_ascii b) \<and>
     (\<forall>b m. method_from_bytes H b = Some m \<longrightarrow> m = b) \<and>
     (\<forall>c s. status_from_u16 H c = Some s \<longrightarrow> s = c)"

definition contains_key :: "'h http_crate \<Rightarrow> 'h \<Rightarrow> bytes \<Rightarrow> bool" where
  "contains_key H h n \<longleftrightarrow> hm_get_all H h n \<noteq> []"

lemma hm_laws:
  assumes "header_laws H"
  shows hm_get_all_new: "hm_get_all H (hm_new H) m = []"
    and hm_get_all_append:
      "hm_get_all H (hm_append H n v h) m = hm_get_all H h m @ (if m = n then [v] else [])"
    and hm_get_all_insert: "hm_get_all H (hm_insert H n v h) m = (if m = n then [v] else hm_get_all H h m)"
    and hm_get_all_remove: "hm_get_all H (hm_remove H n h) m = (if m = n then [] else hm_get_all H h m)"
    and hm_iter_get_all: "map snd (filter (\<lambda>p. fst p = m) (hm_iter H h)) = hm_get_all H h m"
    and header_name_lower: "header_name_from_bytes H b = Some n' \<Longrightarrow> n' = to_ascii_lowercase b"
    and header_value_same: "header_value_from_bytes H b = Some v' \<Longrightarrow> v' = b"
    and header_value_str: "header_value_to_str H b = Some v' \<Longrightarrow> v' = b \<and> is_ascii b"
    and method_same: "method_from_bytes H b = Some m' \<Longrightarrow> m' = b"
    and status_same: "status_from_u16 H c = Some s \<Longrightarrow> s = c"
  using assms unfolding header_laws_def by simp_all

lemma hm_iter_member:
  assumes "header_laws H"
  shows "(n, v) \<in> set (hm_iter H h) \<longleftrightarrow> v \<in> set (hm_get_all H h n)"
  unfolding hm_iter_get_all [OF assms, symmetric] by force

section \<open>Tokens\<close>

definition is_ows :: "char \<Rightarrow> bool" where
  "is_ows b \<longleftrightarrow> b = CHR '' '' \<or> b = TAB"

definition trim_ows :: "bytes \<Rightarrow> bytes" where
  "trim_ows value = rev (dropWhile is_ows (rev (dropWhile is_ows value)))"

definition token_octet :: "char \<Rightarrow> bool" where
  "token_octet b \<longleftrightarrow>
     is_ascii_alphanumeric b \<or>
     b \<in> set [CHR ''!'', CHR ''#'', CHR ''$'', CHR ''%'', CHR ''&'', APOSTROPHE, CHR ''*'',
             CHR ''+'', CHR ''-'', CHR ''.'', CHR ''^'', CHR ''_'', BACKTICK, CHR ''|'', CHR ''~'']"

definition valid_token :: "bytes \<Rightarrow> bool" where
  "valid_token value \<longleftrightarrow> value \<noteq> [] \<and> list_all token_octet value"

section \<open>Hop-by-hop fields\<close>

datatype header_error = HeaderError

definition FIXED_HOP_HEADERS :: "bytes list" where
  "FIXED_HOP_HEADERS =
     [''keep-alive'', ''proxy-connection'', ''proxy-authenticate'', ''proxy-authorization'',
      ''te'', ''trailer'', ''transfer-encoding'', ''upgrade'']"

definition nominated_name :: "'h http_crate \<Rightarrow> bytes \<Rightarrow> (bytes, header_error) result" where
  "nominated_name H part =
     (let name = trim_ows part
      in if \<not> valid_token name then Err HeaderError
         else ok_or HeaderError (header_name_from_bytes H name))"

definition connection_nominations :: "'h http_crate \<Rightarrow> 'h \<Rightarrow> (bytes list, header_error) result" where
  "connection_nominations H headers =
     collect_results
       (concat (map (\<lambda>value. map (nominated_name H) (split_on (CHR '','') value))
          (hm_get_all H headers ''connection'')))"

definition sanitize_hop_by_hop :: "'h http_crate \<Rightarrow> 'h \<Rightarrow> ('h, header_error) result" where
  "sanitize_hop_by_hop H headers =
     and_then (connection_nominations H headers) (\<lambda>nominated.
       Ok (fold (hm_remove H) FIXED_HOP_HEADERS
             (fold (hm_remove H) nominated (hm_remove H ''connection'' headers))))"

definition append_via :: "'h http_crate \<Rightarrow> 'h \<Rightarrow> version \<Rightarrow> 'h" where
  "append_via H headers received =
     hm_append H ''via''
       (case received of Http10 \<Rightarrow> ''1.0 vhrn'' | Http11 \<Rightarrow> ''1.1 vhrn'') headers"

section \<open>Lemmas\<close>

lemma hm_get_all_fold_remove:
  assumes "header_laws H"
  shows "hm_get_all H (fold (hm_remove H) ns h) m = (if m \<in> set ns then [] else hm_get_all H h m)"
  by (induction ns arbitrary: h) (auto simp: hm_get_all_remove [OF assms])

definition nominates :: "'h http_crate \<Rightarrow> 'h \<Rightarrow> bytes \<Rightarrow> bool" where
  "nominates H headers name \<longleftrightarrow>
     (\<exists>value \<in> set (hm_get_all H headers ''connection'').
        \<exists>part \<in> set (split_on (CHR '','') value). to_ascii_lowercase (trim_ows part) = name)"

lemma map_Ok_values:
  "map f xs = map Ok ys \<Longrightarrow> (\<And>x y. f x = Ok y \<Longrightarrow> y = g x) \<Longrightarrow> map g xs = ys"
  by (induction xs arbitrary: ys) (auto simp: Cons_eq_map_conv)

lemma connection_nominations_set:
  assumes "header_laws H" and "connection_nominations H headers = Ok names"
  shows "name \<in> set names \<longleftrightarrow> nominates H headers name"
proof -
  let ?parts = "concat (map (split_on (CHR '','')) (hm_get_all H headers ''connection''))"
  have parts: "map (nominated_name H) ?parts = map Ok names"
    using assms(2)
    by (simp add: connection_nominations_def collect_results_eq_Ok map_concat comp_def)
  have "nominated_name H part = Ok n \<Longrightarrow> n = to_ascii_lowercase (trim_ows part)" for part n
    using header_name_lower [OF assms(1)] by (auto simp: nominated_name_def Let_def split: if_splits)
  with parts have "map (\<lambda>part. to_ascii_lowercase (trim_ows part)) ?parts = names"
    by (rule map_Ok_values)
  then have names: "names = map (\<lambda>part. to_ascii_lowercase (trim_ows part)) ?parts"
    by (rule sym)
  show ?thesis
    unfolding names nominates_def by (simp add: image_iff bex_UN eq_commute)
qed

definition hop_field :: "'h http_crate \<Rightarrow> 'h \<Rightarrow> bytes \<Rightarrow> bool" where
  "hop_field H headers name \<longleftrightarrow>
     name = ''connection'' \<or> name \<in> set FIXED_HOP_HEADERS \<or> nominates H headers name"

lemma sanitize_get_all:
  assumes "header_laws H" and "sanitize_hop_by_hop H headers = Ok clean"
  shows "hm_get_all H clean name = (if hop_field H headers name then [] else hm_get_all H headers name)"
proof -
  obtain names where "connection_nominations H headers = Ok names"
    and "clean = fold (hm_remove H) FIXED_HOP_HEADERS
                   (fold (hm_remove H) names (hm_remove H ''connection'' headers))"
    using assms(2) by (auto simp: sanitize_hop_by_hop_def)
  then show ?thesis
    using assms(1) connection_nominations_set [OF assms(1)]
    by (simp add: hm_get_all_fold_remove hm_get_all_remove hop_field_def)
qed

text \<open>
  Forwarding drops every hop-by-hop field. After sanitising, no fixed hop field, no
  \<open>Connection\<close> field and no field that a \<open>Connection\<close> value nominates is left, and every other
  field keeps its values in order.
\<close>

theorem sanitize_removes_hop_fields:
  assumes "header_laws H" and "sanitize_hop_by_hop H headers = Ok clean"
  shows "hm_get_all H clean name =
           (if hop_field H headers name then [] else hm_get_all H headers name)"
  using assms by (rule sanitize_get_all)

section \<open>A reference instance\<close>

text \<open>
  An association list is a model of the interface: it satisfies the laws, so they are
  consistent, and the witnesses run on it.
\<close>

type_synonym field_list = "(bytes \<times> bytes) list"

definition list_crate :: "field_list http_crate" where
  "list_crate =
     \<lparr>hm_new = [],
      hm_append = (\<lambda>n v h. h @ [(n, v)]),
      hm_insert = (\<lambda>n v h. filter (\<lambda>p. fst p \<noteq> n) h @ [(n, v)]),
      hm_remove = (\<lambda>n h. filter (\<lambda>p. fst p \<noteq> n) h),
      hm_get_all = (\<lambda>h n. map snd (filter (\<lambda>p. fst p = n) h)),
      hm_iter = (\<lambda>h. h),
      header_name_from_bytes = (\<lambda>b. if valid_token b then Some (to_ascii_lowercase b) else None),
      header_value_from_bytes =
        (\<lambda>b. if list_all (\<lambda>c. c = TAB \<or> 32 \<le> octet c \<and> octet c \<noteq> 127) b then Some b else None),
      header_value_to_str =
        (\<lambda>b. if list_all (\<lambda>c. c = TAB \<or> 32 \<le> octet c \<and> octet c < 127) b then Some b else None),
      method_from_bytes = (\<lambda>b. if valid_token b then Some b else None),
      status_from_u16 = (\<lambda>c. if 100 \<le> c \<and> c < 1000 then Some c else None),
      canonical_reason = (\<lambda>c. if c = 100 then Some ''Continue'' else if c = 200 then Some ''OK''
                               else if c = 403 then Some ''Forbidden'' else None),
      authority_is_valid = (\<lambda>b. b \<noteq> [])\<rparr>"

lemma list_crate_laws: "header_laws list_crate"
proof -
  have "m \<noteq> n \<Longrightarrow> filter (\<lambda>x. fst x = m \<and> fst x \<noteq> n) h = filter (\<lambda>p. fst p = m) h"
    for m n and h :: field_list
    by (rule filter_cong) auto
  then show ?thesis
    by (auto simp: header_laws_def list_crate_def comp_def conj_commute is_ascii_def is_ascii_char_def
        list_all_iff split: if_splits)
qed

theorem sanitize_removes_hop_fields_witness:
  "hm_get_all list_crate [(''host'', ''a'')] ''x-secret'' = []"
proof -
  let ?h = "[(''host'', ''a''), (''connection'', ''X-Secret''), (''x-secret'', ''1''), (''te'', ''t'')]"
  have "sanitize_hop_by_hop list_crate ?h = Ok [(''host'', ''a'')]"
    by code_simp
  moreover have "hop_field list_crate ?h ''x-secret''"
    by code_simp
  ultimately show ?thesis
    using sanitize_removes_hop_fields [OF list_crate_laws] by simp
qed

end
