(* ===== verification/Http1_Head.thy ===== *)
theory Http1_Head
  imports Headers
begin

text \<open>
  The pure part of \<open>proxy/src/server/http1.rs\<close>: line endings, request and response heads, field
  lines, message framing (\<open>Content-Length\<close> and \<open>Transfer-Encoding\<close>), quoted lists and chunk
  sizes. A \<open>u64\<close> length is a 64-bit word with checked arithmetic, as in the code.
\<close>

section \<open>Limits and types\<close>

definition REQUEST_LINE_LIMIT :: nat where "REQUEST_LINE_LIMIT = 8 * 1024"
definition HEADER_SECTION_LIMIT :: nat where "HEADER_SECTION_LIMIT = 64 * 1024"
definition APPLICATION_BUFFER_LIMIT :: nat where "APPLICATION_BUFFER_LIMIT = 64 * 1024"
definition REQUEST_BODY_FRAME_LIMIT :: nat where
  "REQUEST_BODY_FRAME_LIMIT = APPLICATION_BUFFER_LIMIT div 2"
definition CHUNK_PREFIX_LIMIT :: nat where "CHUNK_PREFIX_LIMIT = 8 * 2 + 2"
definition RESPONSE_BODY_FRAME_LIMIT :: nat where
  "RESPONSE_BODY_FRAME_LIMIT = APPLICATION_BUFFER_LIMIT - CHUNK_PREFIX_LIMIT"
definition CONNECTION_BUFFER_LIMIT :: nat where
  "CONNECTION_BUFFER_LIMIT = REQUEST_LINE_LIMIT + HEADER_SECTION_LIMIT"
definition CHUNK_LINE_LIMIT :: nat where "CHUNK_LINE_LIMIT = REQUEST_LINE_LIMIT"

type_synonym u64 = "64 word"

datatype ingress_error = BadRequest | HeadersTooLarge | UnsupportedVersion | Incomplete

datatype body_framing = NoBody | ContentLength u64 | Chunked

datatype origin_error = OriginInvalid | OriginHeadersTooLarge | OriginIncomplete

datatype origin_body_framing =
  OriginNoBody | OriginContentLength u64 | OriginChunked | OriginCloseDelimited

datatype origin_transfer_coding = Absent | FinalChunked (has_prior: bool) | FinalNonChunked

record 'h origin_response_head =
  or_version :: version
  or_status :: nat
  or_headers :: 'h
  or_framing :: origin_body_framing
  or_transfer_coding :: origin_transfer_coding
  or_close :: bool

definition has_body :: "body_framing \<Rightarrow> bool" where
  "has_body f \<longleftrightarrow> \<not> (f = NoBody \<or> f = ContentLength 0)"

record 'h request_head =
  rh_method :: bytes
  rh_raw_target :: bytes
  rh_version :: version
  rh_headers :: 'h
  rh_framing :: body_framing
  rh_close :: bool
  rh_upgrade :: bool
  rh_expect :: bool

section \<open>Lines\<close>

definition bad_line_ending :: "bytes \<Rightarrow> nat \<Rightarrow> bool" where
  "bad_line_ending bs i \<longleftrightarrow>
     (bs ! i = LF \<and> (i = 0 \<or> bs ! (i - 1) \<noteq> CR)) \<or>
     (bs ! i = CR \<and> i + 1 < length bs \<and> bs ! (i + 1) \<noteq> LF)"

definition validate_line_endings :: "bytes \<Rightarrow> (unit, ingress_error) result" where
  "validate_line_endings bs =
     (if list_ex (bad_line_ending bs) [0..<length bs] then Err BadRequest else Ok ())"

definition validate_request_line_prefix :: "bytes \<Rightarrow> (unit, ingress_error) result" where
  "validate_request_line_prefix bs =
     (if list_ex (\<lambda>b. octet b < 32 \<or> 127 \<le> octet b) bs then Err BadRequest else Ok ())"

definition find_crlf :: "bytes \<Rightarrow> nat option" where
  "find_crlf bs = find_window CRLF bs"

definition request_line_is_head :: "bytes \<Rightarrow> bool" where
  "request_line_is_head bs \<longleftrightarrow> hd (split_on (CHR '' '') bs) = ''HEAD''"

definition find_head_end :: "bytes \<Rightarrow> nat \<Rightarrow> nat option" where
  "find_head_end bs request_line_len =
     (if request_line_len + 2 \<le> length bs \<and> take 2 (drop request_line_len bs) = CRLF
      then Some (request_line_len + 2)
      else map_option (\<lambda>index. request_line_len + index + 4)
             (find_window (CRLF @ CRLF) (drop request_line_len bs)))"

section \<open>Fields\<close>

definition append_field_line ::
    "'h http_crate \<Rightarrow> 'h \<Rightarrow> bytes \<Rightarrow> ('h, ingress_error) result" where
  "append_field_line H headers line =
     (if line \<noteq> [] \<and> is_ows (hd line) then Err BadRequest
      else
        case position (\<lambda>b. b = CHR '':'') line of
          None \<Rightarrow> Err BadRequest
        | Some colon \<Rightarrow>
            (let name = take colon line
             in if name = [] \<or> is_ascii_whitespace (last name) then Err BadRequest
                else
                  let value = trim_ows (drop (colon + 1) line)
                  in if list_ex (\<lambda>b. (octet b < 32 \<and> b \<noteq> TAB) \<or> octet b = 127) value
                     then Err BadRequest
                     else
                       and_then (ok_or BadRequest (header_name_from_bytes H name)) (\<lambda>name.
                       and_then (ok_or BadRequest (header_value_from_bytes H value)) (\<lambda>value.
                         Ok (hm_append H name value headers)))))"

function parse_field_lines ::
    "'h http_crate \<Rightarrow> 'h \<Rightarrow> bytes \<Rightarrow> ('h, ingress_error) result" where
  "parse_field_lines H headers remaining =
     (if remaining = [] then Ok headers
      else
        case find_crlf remaining of
          None \<Rightarrow> Err BadRequest
        | Some stop \<Rightarrow>
            (let line = take stop remaining; rest = drop (stop + 2) remaining
             in if line = [] then (if rest \<noteq> [] then Err BadRequest else Ok headers)
                else
                  case append_field_line H headers line of
                    Err e \<Rightarrow> Err e
                  | Ok headers \<Rightarrow> parse_field_lines H headers rest))"
  by pat_completeness auto
termination
  by (relation "measure (\<lambda>(H, headers, remaining). length remaining)") auto

declare parse_field_lines.simps [simp del]

definition parse_fields :: "'h http_crate \<Rightarrow> bytes \<Rightarrow> ('h, ingress_error) result" where
  "parse_fields H sec =
     (if \<not> ends_with CRLF sec then Err BadRequest
      else parse_field_lines H (hm_new H) sec)"

definition header_field_bytes :: "'h http_crate \<Rightarrow> 'h \<Rightarrow> nat" where
  "header_field_bytes H headers =
     sum_list (map (\<lambda>(name, value). length name + length value) (hm_iter H headers))"

section \<open>Quoted lists and tokens\<close>

fun split_quoted_from ::
    "char \<Rightarrow> bool \<Rightarrow> bool \<Rightarrow> bytes \<Rightarrow> bytes \<Rightarrow> (bytes list, ingress_error) result" where
  "split_quoted_from delimiter quoted escaped field [] =
     (if quoted \<or> escaped then Err BadRequest else Ok [field])"
| "split_quoted_from delimiter quoted escaped field (b # bs) =
     (if escaped then split_quoted_from delimiter quoted False (field @ [b]) bs
      else if quoted \<and> b = BACKSLASH then split_quoted_from delimiter quoted True (field @ [b]) bs
      else if b = DQUOTE then split_quoted_from delimiter (\<not> quoted) False (field @ [b]) bs
      else if b = delimiter \<and> \<not> quoted then
        (case split_quoted_from delimiter False False [] bs of
           Ok pieces \<Rightarrow> Ok (field # pieces)
         | Err e \<Rightarrow> Err e)
      else split_quoted_from delimiter quoted False (field @ [b]) bs)"

definition split_quoted :: "bytes \<Rightarrow> char \<Rightarrow> (bytes list, ingress_error) result" where
  "split_quoted value delimiter = split_quoted_from delimiter False False [] value"

definition quoted_octet :: "char \<Rightarrow> bool" where
  "quoted_octet b \<longleftrightarrow> b = TAB \<or> b = CHR '' '' \<or> (33 \<le> octet b \<and> octet b \<le> 126) \<or> 128 \<le> octet b"

fun valid_quoted_inner :: "bool \<Rightarrow> bytes \<Rightarrow> bool" where
  "valid_quoted_inner escaped [] = (\<not> escaped)"
| "valid_quoted_inner escaped (b # bs) =
     (if escaped then quoted_octet b \<and> valid_quoted_inner False bs
      else if b = BACKSLASH then valid_quoted_inner True bs
      else b \<noteq> DQUOTE \<and> quoted_octet b \<and> valid_quoted_inner False bs)"

definition valid_parameter_value :: "bytes \<Rightarrow> bool" where
  "valid_parameter_value value \<longleftrightarrow>
     valid_token value \<or>
     (case Option.bind (strip_prefix [DQUOTE] value) (strip_suffix [DQUOTE]) of
        Some inner \<Rightarrow> valid_quoted_inner False inner
      | None \<Rightarrow> False)"

definition transfer_coding_name :: "bytes \<Rightarrow> bytes" where
  "transfer_coding_name value = trim_ows (hd (split_on (CHR '';'') value))"

definition valid_coding_parameter :: "bytes \<Rightarrow> bool" where
  "valid_coding_parameter parameter \<longleftrightarrow>
     (case split_quoted (trim_ows parameter) (CHR ''='') of
        Ok [name, value] \<Rightarrow> valid_token (trim_ows name) \<and> valid_parameter_value (trim_ows value)
      | _ \<Rightarrow> False)"

definition valid_transfer_coding :: "bytes \<Rightarrow> bool" where
  "valid_transfer_coding value \<longleftrightarrow>
     (case split_quoted value (CHR '';'') of
        Ok (name # parameters) \<Rightarrow>
          valid_token (trim_ows name) \<and> list_all valid_coding_parameter parameters
      | _ \<Rightarrow> False)"

definition comma_token :: "bytes \<Rightarrow> (bytes, ingress_error) result" where
  "comma_token part = (let token = trim_ows part in if valid_token token then Ok token else Err BadRequest)"

definition comma_tokens ::
    "'h http_crate \<Rightarrow> 'h \<Rightarrow> bytes \<Rightarrow> (bytes list, ingress_error) result" where
  "comma_tokens H headers name =
     collect_results
       (concat (map (\<lambda>value. map comma_token (split_on (CHR '','') value)) (hm_get_all H headers name)))"

section \<open>Framing\<close>

definition content_digit :: "u64 \<Rightarrow> char \<Rightarrow> u64 option" where
  "content_digit = checked_digit 10 (\<lambda>digit. of_nat (octet digit - 48))"

fun content_length_members ::
    "u64 option \<Rightarrow> bytes list \<Rightarrow> (u64 option, ingress_error) result" where
  "content_length_members parsed [] = Ok parsed"
| "content_length_members parsed (part # parts) =
     (let member = trim_ows part
      in if member = [] \<or> \<not> list_all is_ascii_digit member then Err BadRequest
         else
           case try_fold content_digit 0 member of
             None \<Rightarrow> Err BadRequest
           | Some len \<Rightarrow>
               if parsed \<noteq> None \<and> parsed \<noteq> Some len then Err BadRequest
               else content_length_members (Some len) parts)"

definition parse_content_length :: "'h http_crate \<Rightarrow> 'h \<Rightarrow> (u64 option, ingress_error) result" where
  "parse_content_length H headers =
     content_length_members None
       (concat (map (split_on (CHR '','')) (hm_get_all H headers ''content-length'')))"

definition transfer_coding_values ::
    "'h http_crate \<Rightarrow> 'h \<Rightarrow> (bytes list, ingress_error) result" where
  "transfer_coding_values H headers =
     and_then
       (collect_results (map (\<lambda>value. split_quoted value (CHR '',''))
          (hm_get_all H headers ''transfer-encoding'')))
       (\<lambda>pieces. Ok (map trim_ows (concat pieces)))"

definition is_chunked_coding :: "bytes \<Rightarrow> bool" where
  "is_chunked_coding value \<longleftrightarrow> eq_ignore_ascii_case (transfer_coding_name value) ''chunked''"

definition parse_transfer_encoding :: "'h http_crate \<Rightarrow> 'h \<Rightarrow> (bool, ingress_error) result" where
  "parse_transfer_encoding H headers =
     and_then (transfer_coding_values H headers) (\<lambda>values.
       if values = [] then Ok False
       else if list_ex (\<lambda>v. \<not> valid_transfer_coding v) values
            \<or> \<not> is_chunked_coding (last values)
            \<or> list_ex is_chunked_coding (butlast values)
            \<or> list_ex (\<lambda>v. is_chunked_coding v \<and> CHR '';'' \<in> set v) values
       then Err BadRequest
       else Ok True)"

definition parse_origin_transfer_encoding ::
    "'h http_crate \<Rightarrow> 'h \<Rightarrow> (origin_transfer_coding, ingress_error) result" where
  "parse_origin_transfer_encoding H headers =
     and_then (transfer_coding_values H headers) (\<lambda>values.
       if values = [] then Ok Absent
       else if list_ex (\<lambda>v. \<not> valid_transfer_coding v) values then Err BadRequest
       else if list_ex is_chunked_coding (butlast values)
            \<or> list_ex (\<lambda>v. is_chunked_coding v \<and> CHR '';'' \<in> set v) values
       then Err BadRequest
       else Ok (if is_chunked_coding (last values) then FinalChunked (1 < length values)
                else FinalNonChunked))"

definition parse_framing :: "'h http_crate \<Rightarrow> 'h \<Rightarrow> (body_framing, ingress_error) result" where
  "parse_framing H headers =
     and_then (parse_content_length H headers) (\<lambda>content_length.
     and_then (parse_transfer_encoding H headers) (\<lambda>transfer_encoding.
       case (content_length, transfer_encoding) of
         (Some _, True) \<Rightarrow> Err BadRequest
       | (Some len, False) \<Rightarrow> Ok (ContentLength len)
       | (None, True) \<Rightarrow> Ok Chunked
       | (None, False) \<Rightarrow> Ok NoBody))"

section \<open>Request heads\<close>

definition host_value_ok :: "'h http_crate \<Rightarrow> bytes \<Rightarrow> bool" where
  "host_value_ok H host \<longleftrightarrow>
     (case header_value_to_str H host of
        None \<Rightarrow> False
      | Some value \<Rightarrow>
          \<not> (value = [] \<or> trim value \<noteq> value \<or> CHR '','' \<in> set value
             \<or> list_ex (\<lambda>b. is_ascii_whitespace b
                            \<or> b \<in> set [CHR ''@'', CHR ''/'', CHR ''?'', CHR ''#'']) value
             \<or> \<not> authority_is_valid H value))"

definition validate_host :: "'h http_crate \<Rightarrow> version \<Rightarrow> 'h \<Rightarrow> (unit, ingress_error) result" where
  "validate_host H version headers =
     (let hosts = hm_get_all H headers ''host''
      in if version = Http11 \<and> length hosts \<noteq> 1 then Err BadRequest
         else if list_all (host_value_ok H) hosts then Ok () else Err BadRequest)"

definition has_token :: "bytes \<Rightarrow> bytes list \<Rightarrow> bool" where
  "has_token name tokens \<longleftrightarrow> list_ex (\<lambda>token. eq_ignore_ascii_case token name) tokens"

definition connection_close :: "version \<Rightarrow> bytes list \<Rightarrow> bool" where
  "connection_close version tokens =
     (if version = Http10 then \<not> has_token ''keep-alive'' tokens else has_token ''close'' tokens)"

definition parse_version :: "bytes \<Rightarrow> (version, ingress_error) result" where
  "parse_version value =
     (if value = ''HTTP/1.0'' then Ok Http10
      else if value = ''HTTP/1.1'' then Ok Http11
      else if length value = 8 \<and> take 5 value = ''HTTP/'' \<and> is_ascii_digit (value ! 5)
              \<and> value ! 6 = CHR ''.'' \<and> is_ascii_digit (value ! 7)
      then Err UnsupportedVersion
      else Err BadRequest)"

definition field_at :: "bytes list \<Rightarrow> nat \<Rightarrow> (bytes, ingress_error) result" where
  "field_at parts i =
     (if i < length parts \<and> parts ! i \<noteq> [] then Ok (parts ! i) else Err BadRequest)"

definition parse_head ::
    "'h http_crate \<Rightarrow> bytes \<Rightarrow> bytes \<Rightarrow> ('h request_head, ingress_error) result" where
  "parse_head H request_line header_section =
     and_then (ok_or BadRequest (strip_suffix CRLF request_line)) (\<lambda>line.
       let parts = split_on (CHR '' '') line
       in if 3 < length parts then Err BadRequest
          else
            and_then (field_at parts 0) (\<lambda>method.
            and_then (ok_or BadRequest (method_from_bytes H method)) (\<lambda>method.
            and_then (field_at parts 1) (\<lambda>raw_target.
              if list_ex is_ascii_control raw_target then Err BadRequest
              else
                and_then (field_at parts 2) (\<lambda>version.
                and_then (parse_version version) (\<lambda>version.
                and_then (parse_fields H header_section) (\<lambda>headers.
                and_then (validate_host H version headers) (\<lambda>_.
                  if version = Http10 \<and> contains_key H headers ''transfer-encoding''
                  then Err BadRequest
                  else
                    and_then (parse_framing H headers) (\<lambda>framing.
                    and_then (comma_tokens H headers ''connection'') (\<lambda>tokens.
                      Ok \<lparr>rh_method = method, rh_raw_target = raw_target, rh_version = version,
                          rh_headers = headers, rh_framing = framing,
                          rh_close = connection_close version tokens,
                          rh_upgrade = (contains_key H headers ''upgrade''
                                        \<or> has_token ''upgrade'' tokens),
                          rh_expect = contains_key H headers ''expect''\<rparr>))))))))))"

section \<open>Response heads from origins\<close>

definition origin_map :: "('a, ingress_error) result \<Rightarrow> ('a, origin_error) result" where
  "origin_map r = map_err (\<lambda>_. OriginInvalid) r"

definition status_digit :: "16 word \<Rightarrow> char \<Rightarrow> 16 word" where
  "status_digit value digit = value * 10 + of_nat (octet digit - 48)"

definition is_informational :: "nat \<Rightarrow> bool" where
  "is_informational status \<longleftrightarrow> 100 \<le> status \<and> status < 200"

definition origin_status_line ::
    "'h http_crate \<Rightarrow> bytes \<Rightarrow> (version \<times> nat, origin_error) result" where
  "origin_status_line H status_line =
     and_then (ok_or OriginInvalid (strip_suffix CRLF status_line)) (\<lambda>line.
     and_then
       (case strip_prefix ''HTTP/1.0 '' line of
          Some value \<Rightarrow> Ok (Http10, value)
        | None \<Rightarrow>
            (case strip_prefix ''HTTP/1.1 '' line of
               Some value \<Rightarrow> Ok (Http11, value)
             | None \<Rightarrow> Err OriginInvalid))
       (\<lambda>(version, remainder).
          if length remainder < 4
             \<or> \<not> list_all is_ascii_digit (take 3 remainder)
             \<or> remainder ! 3 \<noteq> CHR '' ''
             \<or> list_ex (\<lambda>b. (octet b < 32 \<and> b \<noteq> TAB) \<or> octet b = 127) (drop 4 remainder)
          then Err OriginInvalid
          else
            (let status_number = unat (foldl status_digit 0 (take 3 remainder))
             in if 599 < status_number then Err OriginInvalid
                else
                  and_then (ok_or OriginInvalid (status_from_u16 H status_number)) (\<lambda>status.
                    Ok (version, status)))))"

definition origin_framing ::
    "bytes \<Rightarrow> nat \<Rightarrow> u64 option \<Rightarrow> origin_transfer_coding \<Rightarrow> bool \<Rightarrow> origin_body_framing \<times> bool" where
  "origin_framing request_method status content_length transfer_coding close =
     (if request_method = ''HEAD'' \<or> is_informational status \<or> status = 204 \<or> status = 304
      then (OriginNoBody, close)
      else
        case transfer_coding of
          FinalChunked _ \<Rightarrow> (OriginChunked, close)
        | FinalNonChunked \<Rightarrow> (OriginCloseDelimited, True)
        | Absent \<Rightarrow>
            (case content_length of
               Some len \<Rightarrow> (OriginContentLength len, close)
             | None \<Rightarrow> (OriginCloseDelimited, True)))"

definition parse_origin_response_head ::
    "'h http_crate \<Rightarrow> bytes \<Rightarrow> bytes \<Rightarrow> bytes \<Rightarrow> ('h origin_response_head, origin_error) result" where
  "parse_origin_response_head H status_line header_section request_method =
     and_then (origin_status_line H status_line) (\<lambda>(version, status).
     and_then (origin_map (parse_fields H header_section)) (\<lambda>headers.
     and_then (origin_map (parse_content_length H headers)) (\<lambda>content_length.
     and_then (origin_map (parse_origin_transfer_encoding H headers)) (\<lambda>transfer_coding.
       if version = Http10 \<and> transfer_coding \<noteq> Absent then Err OriginInvalid
       else if content_length \<noteq> None \<and> transfer_coding \<noteq> Absent then Err OriginInvalid
       else if (is_informational status \<or> status = 204)
               \<and> (content_length \<noteq> None \<or> transfer_coding \<noteq> Absent)
       then Err OriginInvalid
       else
         and_then (origin_map (comma_tokens H headers ''connection'')) (\<lambda>tokens.
           let (framing, close) =
                 origin_framing request_method status content_length transfer_coding
                   (connection_close version tokens)
           in Ok \<lparr>or_version = version, or_status = status, or_headers = headers,
                  or_framing = framing, or_transfer_coding = transfer_coding,
                  or_close = close\<rparr>)))))"

section \<open>Chunk sizes and trailers\<close>

definition hex_value :: "char \<Rightarrow> nat option" where
  "hex_value b =
     (if is_ascii_digit b then Some (octet b - 48)
      else if 97 \<le> octet b \<and> octet b \<le> 102 then Some (octet b - 97 + 10)
      else if 65 \<le> octet b \<and> octet b \<le> 70 then Some (octet b - 65 + 10)
      else None)"

definition valid_chunk_extension :: "bytes \<Rightarrow> bool" where
  "valid_chunk_extension extension \<longleftrightarrow>
     (let extension = trim_ows extension
      in extension \<noteq> [] \<and>
         (case split_quoted extension (CHR ''='') of
            Ok [name] \<Rightarrow> valid_token (trim_ows name)
          | Ok [name, value] \<Rightarrow>
              valid_token (trim_ows name) \<and> valid_parameter_value (trim_ows value)
          | _ \<Rightarrow> False))"

definition chunk_digit :: "u64 \<Rightarrow> char \<Rightarrow> u64 option" where
  "chunk_digit value digit =
     (case checked_mul value 16 of
        None \<Rightarrow> None
      | Some product \<Rightarrow>
          (case hex_value digit of
             None \<Rightarrow> None
           | Some d \<Rightarrow> checked_add product (of_nat d)))"

definition parse_chunk_size :: "bytes \<Rightarrow> (u64, ingress_error) result" where
  "parse_chunk_size line =
     and_then (split_quoted line (CHR '';'')) (\<lambda>parts.
       let size = (case parts of [] \<Rightarrow> [] | p # _ \<Rightarrow> p)
       in if size = [] \<or> \<not> list_all is_ascii_hexdigit size then Err BadRequest
          else if list_ex (\<lambda>e. \<not> valid_chunk_extension e) (tl parts) then Err BadRequest
          else ok_or BadRequest (try_fold chunk_digit 0 size))"

definition FORBIDDEN_TRAILERS :: "bytes list" where
  "FORBIDDEN_TRAILERS =
     [''connection'', ''content-length'', ''host'', ''proxy-authorization'', ''proxy-authenticate'',
      ''te'', ''trailer'', ''transfer-encoding'']"

definition validate_trailers :: "'h http_crate \<Rightarrow> 'h \<Rightarrow> (unit, ingress_error) result" where
  "validate_trailers H trailers =
     (if list_ex (\<lambda>(name, _). name \<in> set FORBIDDEN_TRAILERS) (hm_iter H trailers)
      then Err BadRequest else Ok ())"

section \<open>Lengths in words\<close>

lemma unat_u64_of_nat: "k < 2 ^ 64 \<Longrightarrow> unat (of_nat k :: u64) = k"
  by (simp add: unat_of_nat)

lemma u64_bound: "unat (n :: u64) < 2 ^ 64"
  using unat_less_pow [of n] by simp

lemma content_digit_value:
  assumes "is_ascii_digit c"
  shows "unat (of_nat (octet c - 48) :: u64) = digit_value c"
proof -
  have "octet c - 48 < 256"
    using octet_lt_256 [of c] by linarith
  then have "octet c - 48 < 2 ^ 64"
    by simp
  then show ?thesis
    by (simp only: unat_u64_of_nat digit_value_def)
qed

lemma foldl_dec_value:
  assumes "list_all is_ascii_digit s"
  shows "foldl (\<lambda>v c. v * Suc 9 + unat (of_nat (octet c - 48) :: u64)) v s
           = foldl (\<lambda>v c. v * 10 + digit_value c) v s"
  using assms by (induction s arbitrary: v) (auto simp: content_digit_value)

lemma try_fold_content_digit:
  assumes "list_all is_ascii_digit s"
  shows "try_fold content_digit 0 s = Some n \<longleftrightarrow> dec_value s = unat n"
proof -
  have "unat (10 :: u64) = Suc 9"
    by simp
  from try_fold_checked [OF this, of "\<lambda>digit. of_nat (octet digit - 48)" 0 s n] show ?thesis
    using foldl_dec_value [OF assms, of 0]
    by (simp add: content_digit_def dec_value_def)
qed

lemma u64_fits: "m < 2 ^ 64 \<longleftrightarrow> (\<exists>n::u64. m = unat n)"
  by (metis u64_bound unat_u64_of_nat)

lemma u64_unat_iff: "m = unat (n :: u64) \<longleftrightarrow> m < 2 ^ 64 \<and> n = of_nat m"
  using u64_bound [of n] by (auto simp: unat_u64_of_nat)

lemma content_length_value:
  assumes "list_all is_ascii_digit s"
  shows "try_fold content_digit 0 s =
           (if dec_value s < 2 ^ 64 then Some (of_nat (dec_value s)) else None)"
  using try_fold_content_digit [OF assms]
  by (cases "try_fold content_digit 0 s") (auto simp: u64_unat_iff simp del: len_of_numeral_defs)

section \<open>Content lengths\<close>

definition content_length_parts :: "'h http_crate \<Rightarrow> 'h \<Rightarrow> bytes list" where
  "content_length_parts H headers =
     map trim_ows (concat (map (split_on (CHR '','')) (hm_get_all H headers ''content-length'')))"

definition decimal_length :: "u64 \<Rightarrow> bytes \<Rightarrow> bool" where
  "decimal_length len member \<longleftrightarrow>
     member \<noteq> [] \<and> list_all is_ascii_digit member \<and> dec_value member = unat len"

text \<open>What the parsed length says about every member of every \<open>Content-Length\<close> field.\<close>

definition content_length_agrees :: "u64 option \<Rightarrow> bytes list \<Rightarrow> bool" where
  "content_length_agrees r members \<longleftrightarrow>
     (case r of None \<Rightarrow> members = [] | Some len \<Rightarrow> members \<noteq> [] \<and> list_all (decimal_length len) members)"

lemma content_length_members_Some:
  "content_length_members (Some len) parts = Ok r \<longleftrightarrow>
     r = Some len \<and> list_all (decimal_length len) (map trim_ows parts)"
proof (induction parts)
  case (Cons part parts)
  show ?case
  proof (cases "trim_ows part \<noteq> [] \<and> list_all is_ascii_digit (trim_ows part)")
    case True
    then show ?thesis
      using Cons by (auto simp: Let_def decimal_length_def content_length_value u64_unat_iff)
  qed (auto simp: Let_def decimal_length_def)
qed auto

lemma content_length_members_None:
  "content_length_members None parts = Ok r \<longleftrightarrow> content_length_agrees r (map trim_ows parts)"
proof (cases parts)
  case (Cons part rest)
  show ?thesis
  proof (cases "trim_ows part \<noteq> [] \<and> list_all is_ascii_digit (trim_ows part)")
    case True
    then show ?thesis
      using Cons
      by (auto simp: Let_def decimal_length_def content_length_agrees_def content_length_members_Some
          content_length_value u64_unat_iff split: option.splits)
  next
    case False
    then show ?thesis
      using Cons by (auto simp: Let_def decimal_length_def content_length_agrees_def split: option.splits)
  qed
qed (auto simp: content_length_agrees_def split: option.splits)

text \<open>
  A content length is accepted exactly when every member of every field is a nonempty
  digit string of one and the same value below 2^64: no sign, no wrap-around, and no two
  different lengths in one message.
\<close>

theorem parse_content_length_iff:
  "parse_content_length H headers = Ok r
     \<longleftrightarrow> content_length_agrees r (content_length_parts H headers)"
  by (simp add: parse_content_length_def content_length_members_None content_length_parts_def)

lemma parse_content_length_Ok:
  "parse_content_length H headers = Ok r \<Longrightarrow> content_length_agrees r (content_length_parts H headers)"
  by (simp add: parse_content_length_def content_length_members_None content_length_parts_def)

lemma content_length_parts_Nil:
  "content_length_parts H headers = [] \<longleftrightarrow> \<not> contains_key H headers ''content-length''"
  by (cases "hm_get_all H headers ''content-length''")
    (auto simp: content_length_parts_def contains_key_def)

section \<open>Quoted lists\<close>

lemma split_quoted_from_join:
  "split_quoted_from d q e field bs = Ok parts \<Longrightarrow> parts \<noteq> [] \<and> join_with d parts = field @ bs"
proof (induction d q e field bs arbitrary: parts rule: split_quoted_from.induct)
  case (2 d q e field b bs)
  then show ?case
    by (fastforce split: if_splits result.splits simp: neq_Nil_conv)
qed (auto split: if_splits)

lemma split_quoted_join:
  "split_quoted value d = Ok parts \<Longrightarrow> parts \<noteq> [] \<and> join_with d parts = value"
  by (auto simp: split_quoted_def dest: split_quoted_from_join)

lemma split_quoted_from_plain:
  "d \<notin> set s \<Longrightarrow> DQUOTE \<notin> set s \<Longrightarrow> split_quoted_from d False False field s = Ok [field @ s]"
  by (induction s arbitrary: field) auto

lemma split_quoted_plain:
  "d \<notin> set s \<Longrightarrow> DQUOTE \<notin> set s \<Longrightarrow> split_quoted s d = Ok [s]"
  by (simp add: split_quoted_def split_quoted_from_plain)

section \<open>Transfer codings\<close>

lemma transfer_coding_values_Nil:
  assumes "transfer_coding_values H headers = Ok values"
  shows "values = [] \<longleftrightarrow> \<not> contains_key H headers ''transfer-encoding''"
proof -
  obtain pieces where *: "map (\<lambda>v. split_quoted v (CHR '','')) (hm_get_all H headers ''transfer-encoding'') = map Ok pieces"
    and v: "values = map trim_ows (concat pieces)"
    using assms by (auto simp: transfer_coding_values_def collect_results_eq_Ok)
  have "p \<in> set pieces \<Longrightarrow> p \<noteq> []" for p
  proof -
    assume "p \<in> set pieces"
    then have "Ok p \<in> set (map (\<lambda>v. split_quoted v (CHR '','')) (hm_get_all H headers ''transfer-encoding''))"
      unfolding * by simp
    then obtain v where "split_quoted v (CHR '','') = Ok p"
      by auto
    then show "p \<noteq> []"
      using split_quoted_join by blast
  qed
  moreover have "hm_get_all H headers ''transfer-encoding'' = [] \<longleftrightarrow> pieces = []"
    using * by (metis Nil_is_map_conv)
  ultimately show ?thesis
    using v by (cases pieces) (auto simp: contains_key_def)
qed

lemma parse_transfer_encoding_Ok:
  "parse_transfer_encoding H headers = Ok r \<Longrightarrow> r = contains_key H headers ''transfer-encoding''"
  by (auto simp: parse_transfer_encoding_def dest: transfer_coding_values_Nil split: if_splits)

lemma parse_origin_transfer_encoding_Ok:
  "parse_origin_transfer_encoding H headers = Ok r \<Longrightarrow>
     r = Absent \<longleftrightarrow> \<not> contains_key H headers ''transfer-encoding''"
  by (auto simp: parse_origin_transfer_encoding_def dest: transfer_coding_values_Nil split: if_splits)

section \<open>One message, one framing\<close>

text \<open>
  The framing chosen for a request is determined by its header section without ambiguity:
  chunked exactly for a \<open>Transfer-Encoding\<close>, which then excludes any \<open>Content-Length\<close> and
  HTTP/1.0; a length exactly for agreeing \<open>Content-Length\<close> fields; and one \<open>Host\<close> in HTTP/1.1.
\<close>

definition unambiguous_request :: "'h http_crate \<Rightarrow> 'h request_head \<Rightarrow> bool" where
  "unambiguous_request H h \<longleftrightarrow>
     (let te = contains_key H (rh_headers h) ''transfer-encoding'';
          lengths = content_length_parts H (rh_headers h)
      in (rh_framing h = Chunked) = te
         \<and> \<not> (te \<and> (lengths \<noteq> [] \<or> rh_version h = Http10))
         \<and> (rh_framing h = NoBody) = (\<not> te \<and> lengths = [])
         \<and> (case rh_framing h of ContentLength n \<Rightarrow> list_all (decimal_length n) lengths | _ \<Rightarrow> True)
         \<and> \<not> (rh_version h = Http11 \<and> length (hm_get_all H (rh_headers h) ''host'') \<noteq> 1))"

lemma parse_framing_cases:
  assumes "parse_framing H headers = Ok f"
  shows "content_length_agrees (case f of ContentLength n \<Rightarrow> Some n | _ \<Rightarrow> None)
           (content_length_parts H headers)"
    and "(f = Chunked) = contains_key H headers ''transfer-encoding''"
  using assms
  by (auto simp: parse_framing_def dest!: parse_content_length_Ok parse_transfer_encoding_Ok
      split: option.splits bool.splits body_framing.splits)

text \<open>
  C30: no request is framed two ways, so none can smuggle a second request past the proxy:
  whatever head the parser accepts has an unambiguous framing.
\<close>

theorem parse_head_unambiguous:
  assumes "parse_head H request_line header_section = Ok h"
  shows "unambiguous_request H h"
proof -
  obtain headers framing where "parse_framing H headers = Ok framing"
    and "rh_headers h = headers" "rh_framing h = framing"
    and "\<not> (rh_version h = Http10 \<and> contains_key H headers ''transfer-encoding'')"
    and "\<not> (rh_version h = Http11 \<and> length (hm_get_all H headers ''host'') \<noteq> 1)"
    using assms by (auto simp: parse_head_def Let_def validate_host_def split: if_splits)
  then show ?thesis
    using parse_framing_cases [of H headers framing]
    by (auto simp: unambiguous_request_def Let_def content_length_agrees_def
        split: body_framing.splits)
qed

theorem parse_head_unambiguous_witness:
  "unambiguous_request list_crate
     \<lparr>rh_method = ''POST'', rh_raw_target = ''/'', rh_version = Http11,
      rh_headers = [(''host'', ''a''), (''content-length'', ''5'')],
      rh_framing = ContentLength 5, rh_close = False, rh_upgrade = False, rh_expect = False\<rparr>"
proof -
  have "parse_head list_crate (''POST / HTTP/1.1'' @ CRLF)
          (''Host: a'' @ CRLF @ ''Content-Length: 5'' @ CRLF @ CRLF) =
        Ok \<lparr>rh_method = ''POST'', rh_raw_target = ''/'', rh_version = Http11,
            rh_headers = [(''host'', ''a''), (''content-length'', ''5'')],
            rh_framing = ContentLength 5, rh_close = False, rh_upgrade = False, rh_expect = False\<rparr>"
    by code_simp
  then show ?thesis
    by (rule parse_head_unambiguous)
qed

section \<open>Responses of origins\<close>

definition unambiguous_response :: "'h http_crate \<Rightarrow> bytes \<Rightarrow> 'h origin_response_head \<Rightarrow> bool" where
  "unambiguous_response H request_method r \<longleftrightarrow>
     (let te = contains_key H (or_headers r) ''transfer-encoding'';
          lengths = content_length_parts H (or_headers r);
          bodyless = (request_method = ''HEAD'' \<or> is_informational (or_status r)
                      \<or> or_status r = 204 \<or> or_status r = 304)
      in \<not> (te \<and> (lengths \<noteq> [] \<or> or_version r = Http10))
         \<and> \<not> ((is_informational (or_status r) \<or> or_status r = 204) \<and> (te \<or> lengths \<noteq> []))
         \<and> (or_framing r = OriginNoBody) = bodyless
         \<and> (case or_framing r of
              OriginNoBody \<Rightarrow> True
            | OriginContentLength n \<Rightarrow> \<not> te \<and> lengths \<noteq> [] \<and> list_all (decimal_length n) lengths
            | OriginChunked \<Rightarrow> te
            | OriginCloseDelimited \<Rightarrow> or_close r \<and> lengths = []))"

text \<open>
  An origin response is framed one way: a response that carries both a length and a
  coding, a coding in HTTP/1.0, or a body header on a bodyless status is refused, a length is
  taken only from agreeing fields, and a body that ends with the connection closes it.
\<close>

theorem parse_origin_head_unambiguous:
  assumes "parse_origin_response_head H status_line header_section request_method = Ok r"
  shows "unambiguous_response H request_method r"
proof -
  obtain headers cl tc tokens where cl: "parse_content_length H headers = Ok cl"
    and tc: "parse_origin_transfer_encoding H headers = Ok tc" and "or_headers r = headers"
    and "\<not> (or_version r = Http10 \<and> tc \<noteq> Absent)" and "\<not> (cl \<noteq> None \<and> tc \<noteq> Absent)"
    and "\<not> ((is_informational (or_status r) \<or> or_status r = 204) \<and> (cl \<noteq> None \<or> tc \<noteq> Absent))"
    and "or_framing r = fst (origin_framing request_method (or_status r) cl tc (connection_close (or_version r) tokens))"
    and "or_close r = snd (origin_framing request_method (or_status r) cl tc (connection_close (or_version r) tokens))"
    using assms
    by (auto simp: parse_origin_response_head_def origin_map_def Let_def case_prod_beta split: if_splits)
  then show ?thesis
    using parse_content_length_Ok [OF cl] parse_origin_transfer_encoding_Ok [OF tc]
    by (auto simp: unambiguous_response_def Let_def origin_framing_def content_length_agrees_def
        split: if_splits option.splits origin_transfer_coding.splits)
qed

theorem parse_origin_head_unambiguous_witness:
  "unambiguous_response list_crate ''GET''
     \<lparr>or_version = Http11, or_status = 200, or_headers = [(''content-length'', ''7'')],
      or_framing = OriginContentLength 7, or_transfer_coding = Absent, or_close = False\<rparr>"
proof -
  have "parse_origin_response_head list_crate (''HTTP/1.1 200 OK'' @ CRLF)
          (''Content-Length: 7'' @ CRLF @ CRLF) ''GET'' =
        Ok \<lparr>or_version = Http11, or_status = 200, or_headers = [(''content-length'', ''7'')],
            or_framing = OriginContentLength 7, or_transfer_coding = Absent, or_close = False\<rparr>"
    by code_simp
  then show ?thesis
    by (rule parse_origin_head_unambiguous)
qed

section \<open>Chunk sizes\<close>

lemma hex_value_hexdigit:
  "is_ascii_hexdigit c \<Longrightarrow> hex_value c = Some (hex_digit_value c)"
  by (auto simp: hex_value_def hex_digit_value_def digit_value_def byte_class_defs)

lemma chunk_digit_checked:
  assumes "is_ascii_hexdigit c"
  shows "chunk_digit v c = checked_digit 16 (\<lambda>c. of_nat (hex_digit_value c)) v c"
  using assms by (simp add: chunk_digit_def checked_digit_def hex_value_hexdigit split: option.split)

lemma try_fold_chunk_digit:
  assumes "list_all is_ascii_hexdigit s"
  shows "try_fold chunk_digit v s = try_fold (checked_digit 16 (\<lambda>c. of_nat (hex_digit_value c))) v s"
  using assms by (induction s arbitrary: v) (auto simp: chunk_digit_checked split: option.split)

lemma hexdigit_word: "is_ascii_hexdigit c \<Longrightarrow> unat (of_nat (hex_digit_value c) :: u64) = hex_digit_value c"
  using hex_digit_value_less [of c] by (intro unat_u64_of_nat) simp

lemma foldl_hex_value:
  assumes "list_all is_ascii_hexdigit s"
  shows "foldl (\<lambda>v c. v * Suc 15 + unat (of_nat (hex_digit_value c) :: u64)) v s
           = foldl (\<lambda>v c. v * 16 + hex_digit_value c) v s"
  using assms by (induction s arbitrary: v) (auto simp: hexdigit_word)

lemma chunk_size_value:
  assumes "list_all is_ascii_hexdigit s"
  shows "try_fold chunk_digit 0 s =
           (if hex_value_of s < 2 ^ 64 then Some (of_nat (hex_value_of s)) else None)"
proof -
  have "unat (16 :: u64) = Suc 15"
    by simp
  from try_fold_checked [OF this, of "\<lambda>c. of_nat (hex_digit_value c)" 0 s]
  have "try_fold chunk_digit 0 s = Some n \<longleftrightarrow> hex_value_of s = unat n" for n
    using foldl_hex_value [OF assms, of 0]
    by (simp add: try_fold_chunk_digit [OF assms] hex_value_of_def)
  then show ?thesis
    by (cases "try_fold chunk_digit 0 s") (auto simp: u64_unat_iff)
qed

lemma hexdigit_plain:
  "is_ascii_hexdigit c \<Longrightarrow> c \<noteq> CHR '';'' \<and> c \<noteq> DQUOTE \<and> c \<noteq> CR \<and> c \<noteq> LF"
  by (auto simp: byte_class_defs)

lemma parse_chunk_size_digits:
  assumes "list_all is_ascii_hexdigit s" and "s \<noteq> []"
  shows "parse_chunk_size s =
    (if hex_value_of s < 2 ^ 64 then Ok (of_nat (hex_value_of s)) else Err BadRequest)"
proof -
  have "CHR '';'' \<notin> set s" and "DQUOTE \<notin> set s"
    using assms(1) hexdigit_plain by (auto simp: list_all_iff)
  then show ?thesis
    using assms by (simp add: parse_chunk_size_def split_quoted_plain chunk_size_value)
qed

lemma parse_chunk_size_show_hex: "parse_chunk_size (show_hex (unat n)) = Ok n"
  using u64_bound [of n] by (simp add: parse_chunk_size_digits)

text \<open>
  A chunk size that is accepted is the value of the hexadecimal digits before the
  extensions, with no wrap-around at 2^64.
\<close>

theorem parse_chunk_size_value:
  assumes "parse_chunk_size line = Ok n"
  shows "\<exists>size extensions. split_quoted line (CHR '';'') = Ok (size # extensions) \<and>
           size \<noteq> [] \<and> list_all is_ascii_hexdigit size \<and> hex_value_of size = unat n \<and>
           list_all valid_chunk_extension extensions"
proof -
  obtain parts where parts: "split_quoted line (CHR '';'') = Ok parts"
    using assms by (auto simp: parse_chunk_size_def)
  then obtain size extensions where "parts = size # extensions"
    using split_quoted_join [OF parts] by (cases parts) auto
  then show ?thesis
    using assms parts u64_unat_iff
    by (auto simp: parse_chunk_size_def Let_def chunk_size_value list_all_iff list_ex_iff
        split: if_splits)
qed

theorem parse_chunk_size_value_witness:
  "\<exists>size extensions. split_quoted ''1F;a=b'' (CHR '';'') = Ok (size # extensions) \<and>
     size \<noteq> [] \<and> list_all is_ascii_hexdigit size \<and> hex_value_of size = unat (31 :: u64) \<and>
     list_all valid_chunk_extension extensions"
proof -
  have "parse_chunk_size ''1F;a=b'' = Ok 31"
    by code_simp
  then show ?thesis
    by (rule parse_chunk_size_value)
qed

end
