(* ===== verification/Byte_Stream.thy ===== *)
theory Byte_Stream
  imports Http1_Head "HOL-Library.Code_Target_Nat"
begin

text \<open>
  The fixed-capacity read buffer that the downstream connection (\<open>server/http1.rs\<close>) and the
  origin reader (\<open>connect/origin_body.rs\<close>) both own: \<open>buffer[start..end]\<close> holds bytes read and
  not yet consumed. The socket is the sequence of results its \<open>read\<close> calls will give: a chunk
  of bytes (delivered in as many reads as the buffer size asks for) or an error, and end of
  file when the sequence is used up. The bytes of the buffer beyond \<open>end\<close> are never read, so
  the model keeps \<open>buffer[..end]\<close> only.
\<close>

section \<open>The socket\<close>

datatype read_event = ReadData bytes | ReadError

fun io_read :: "nat \<Rightarrow> read_event list \<Rightarrow> bytes option \<times> read_event list" where
  "io_read n [] = (Some [], [])"
| "io_read n (ReadError # events) = (None, events)"
| "io_read n (ReadData d # events) =
     (Some (take n d), if length d \<le> n then events else ReadData (drop n d) # events)"

fun script_data :: "read_event list \<Rightarrow> bytes" where
  "script_data [] = []"
| "script_data (ReadError # events) = script_data events"
| "script_data (ReadData d # events) = d @ script_data events"

text \<open>A read of no bytes is end of file, so a chunk is never empty.\<close>

definition script_ok :: "read_event list \<Rightarrow> bool" where
  "script_ok events \<longleftrightarrow> ReadData [] \<notin> set events"

lemma io_read_Some:
  assumes "io_read n events = (Some d, events')"
  shows "script_data events = d @ script_data events'" and "length d \<le> n"
    and "script_ok events \<Longrightarrow> script_ok events'"
    and "script_ok events \<Longrightarrow> 0 < n \<Longrightarrow> d = [] \<Longrightarrow> events = [] \<and> events' = []"
  using assms by (induction n events rule: io_read.induct) (auto simp: script_ok_def split: if_splits)

lemma io_read_None:
  assumes "io_read n events = (None, events')"
  shows "script_data events = script_data events'" and "ReadError \<in> set events"
    and "script_ok events \<Longrightarrow> script_ok events'"
  using assms by (induction n events rule: io_read.induct) (auto simp: script_ok_def)

section \<open>The buffer\<close>

record byte_buffer =
  bb_script :: "read_event list"
  bb_buffer :: bytes
  bb_start :: nat

definition bb_available :: "'a byte_buffer_scheme \<Rightarrow> bytes" where
  "bb_available b = drop (bb_start b) (bb_buffer b)"

text \<open>The bytes of the stream that are still to be consumed, buffered or not.\<close>

definition bb_pending :: "'a byte_buffer_scheme \<Rightarrow> bytes" where
  "bb_pending b = bb_available b @ script_data (bb_script b)"

definition bb_wf :: "'a byte_buffer_scheme \<Rightarrow> bool" where
  "bb_wf b \<longleftrightarrow> bb_start b \<le> length (bb_buffer b)
     \<and> length (bb_buffer b) \<le> CONNECTION_BUFFER_LIMIT \<and> script_ok (bb_script b)"

definition compact :: "'a byte_buffer_scheme \<Rightarrow> 'a byte_buffer_scheme" where
  "compact b =
     (if bb_start b = length (bb_buffer b) then b\<lparr>bb_buffer := [], bb_start := 0\<rparr>
      else if bb_start b \<noteq> 0 then b\<lparr>bb_buffer := drop (bb_start b) (bb_buffer b), bb_start := 0\<rparr>
      else b)"

definition consume :: "nat \<Rightarrow> 'a byte_buffer_scheme \<Rightarrow> 'a byte_buffer_scheme" where
  "consume n b = b\<lparr>bb_start := bb_start b + n\<rparr>"

text \<open>One \<open>read\<close> into \<open>buffer[end..read_end]\<close>; \<open>None\<close> is a read error.\<close>

definition read_into :: "nat \<Rightarrow> 'a byte_buffer_scheme \<Rightarrow> nat option \<times> 'a byte_buffer_scheme" where
  "read_into read_end b =
     (case io_read (read_end - length (bb_buffer b)) (bb_script b) of
        (None, events) \<Rightarrow> (None, b\<lparr>bb_script := events\<rparr>)
      | (Some d, events) \<Rightarrow>
          (Some (length d), b\<lparr>bb_script := events, bb_buffer := bb_buffer b @ d\<rparr>))"

definition read_more_until :: "nat \<Rightarrow> 'a byte_buffer_scheme \<Rightarrow> bool option \<times> 'a byte_buffer_scheme" where
  "read_more_until limit b =
     (if limit \<le> length (bb_buffer b) then (Some False, b)
      else
        (let read_end = min (min (length (bb_buffer b) + REQUEST_LINE_LIMIT) limit) CONNECTION_BUFFER_LIMIT
         in case read_into read_end b of
              (None, b) \<Rightarrow> (None, b)
            | (Some count, b) \<Rightarrow> (Some (count \<noteq> 0), b)))"

text \<open>One \<open>read\<close> into a fresh vector of \<open>maximum\<close> bytes, when nothing is buffered.\<close>

definition take_buffered :: "nat \<Rightarrow> 'a byte_buffer_scheme \<Rightarrow> bytes \<times> 'a byte_buffer_scheme" where
  "take_buffered maximum b =
     (let count = min maximum (length (bb_buffer b) - bb_start b)
      in (take count (bb_available b), consume count b))"

definition read_fresh ::
    "nat \<Rightarrow> 'a byte_buffer_scheme \<Rightarrow> bytes option option \<times> 'a byte_buffer_scheme" where
  "read_fresh maximum b =
     (let b = compact b
      in case io_read maximum (bb_script b) of
           (None, events) \<Rightarrow> (None, b\<lparr>bb_script := events\<rparr>)
         | (Some d, events) \<Rightarrow>
             (Some (if d = [] then None else Some d), b\<lparr>bb_script := events\<rparr>))"

section \<open>Lemmas on the buffer\<close>

lemma compact_simps [simp]:
  "bb_start (compact b) = 0"
  "bb_buffer (compact b) = bb_available b"
  "bb_script (compact b) = bb_script b"
  "byte_buffer.more (compact b) = byte_buffer.more b"
  by (auto simp: compact_def bb_available_def)

lemma bb_available_compact [simp]: "bb_available (compact b) = bb_available b"
  by (simp add: bb_available_def)

lemma bb_pending_compact [simp]: "bb_pending (compact b) = bb_pending b"
  by (simp add: bb_pending_def)

lemma bb_wf_compact [simp]: "bb_wf b \<Longrightarrow> bb_wf (compact b)"
  by (auto simp: bb_wf_def bb_available_def)

lemma bb_available_consume:
  "bb_available (consume n b) = drop n (bb_available b)"
  by (simp add: bb_available_def consume_def add.commute)

lemma bb_pending_consume:
  "n \<le> length (bb_available b) \<Longrightarrow> bb_pending b = take n (bb_available b) @ bb_pending (consume n b)"
  by (simp add: bb_pending_def bb_available_consume) (simp add: consume_def flip: append_assoc)

lemma bb_wf_consume: "bb_wf b \<Longrightarrow> n \<le> length (bb_available b) \<Longrightarrow> bb_wf (consume n b)"
  by (auto simp: bb_wf_def bb_available_def consume_def)

lemma consume_more [simp]:
  "byte_buffer.more (consume n b) = byte_buffer.more b" "bb_script (consume n b) = bb_script b"
  by (simp_all add: consume_def)

lemma read_into_Some:
  assumes "read_into read_end b = (Some count, b')" and "bb_wf b"
    and "read_end \<le> CONNECTION_BUFFER_LIMIT"
  shows "bb_pending b' = bb_pending b" and "bb_start b' = bb_start b"
    and "length (bb_buffer b') = length (bb_buffer b) + count"
    and "length (bb_buffer b') \<le> max read_end (length (bb_buffer b))"
    and "prefix (bb_available b) (bb_available b')" and "bb_wf b'"
    and "byte_buffer.more b' = byte_buffer.more b"
proof -
  obtain d events where io: "io_read (read_end - length (bb_buffer b)) (bb_script b) = (Some d, events)"
    and b': "b' = b\<lparr>bb_script := events, bb_buffer := bb_buffer b @ d\<rparr>" and "count = length d"
    using assms(1) by (auto simp: read_into_def split: prod.splits option.splits)
  moreover note io_read_Some [OF io]
  ultimately show "bb_pending b' = bb_pending b" and "bb_start b' = bb_start b"
    and "length (bb_buffer b') = length (bb_buffer b) + count"
    and "length (bb_buffer b') \<le> max read_end (length (bb_buffer b))"
    and "prefix (bb_available b) (bb_available b')" and "bb_wf b'"
    and "byte_buffer.more b' = byte_buffer.more b"
    using assms(2,3) by (auto simp: bb_pending_def bb_available_def bb_wf_def)
qed

lemma read_into_None:
  assumes "read_into read_end b = (None, b')" and "bb_wf b"
  shows "bb_wf b'" and "bb_pending b' = bb_pending b" and "ReadError \<in> set (bb_script b)"
proof -
  obtain events where io: "io_read (read_end - length (bb_buffer b)) (bb_script b) = (None, events)"
    and b': "b' = b\<lparr>bb_script := events\<rparr>"
    using assms(1) by (auto simp: read_into_def split: prod.splits option.splits)
  moreover note io_read_None [OF io]
  ultimately show "bb_wf b'" and "bb_pending b' = bb_pending b" and "ReadError \<in> set (bb_script b)"
    using assms(2) by (auto simp: bb_pending_def bb_available_def bb_wf_def)
qed

text \<open>
  A successful \<open>read_more_until\<close> appends at least one byte of the stream to the buffer and
  stays within the limit and the capacity; an unsuccessful one below both means the stream has
  ended.
\<close>

lemma read_more_until_True:
  assumes "read_more_until limit b = (Some True, b')" and "bb_wf b"
  shows "bb_pending b' = bb_pending b" and "bb_start b' = bb_start b"
    and "length (bb_buffer b) < length (bb_buffer b')" and "length (bb_buffer b') \<le> limit"
    and "prefix (bb_available b) (bb_available b')" and "bb_wf b'"
    and "byte_buffer.more b' = byte_buffer.more b"
proof -
  have l: "length (bb_buffer b) < limit" and cap: "length (bb_buffer b) \<le> CONNECTION_BUFFER_LIMIT"
    using assms by (auto simp: read_more_until_def bb_wf_def split: if_splits)
  let ?stop = "min (min (length (bb_buffer b) + REQUEST_LINE_LIMIT) limit) CONNECTION_BUFFER_LIMIT"
  obtain count where r: "read_into ?stop b = (Some count, b')" and "0 < count"
    using assms(1) l by (auto simp: read_more_until_def split: prod.splits option.splits)
  moreover note read_into_Some [OF r assms(2)]
  ultimately show "bb_pending b' = bb_pending b" and "bb_start b' = bb_start b"
    and "length (bb_buffer b) < length (bb_buffer b')" and "length (bb_buffer b') \<le> limit"
    and "prefix (bb_available b) (bb_available b')" and "bb_wf b'"
    and "byte_buffer.more b' = byte_buffer.more b"
    using l by auto
qed

lemma read_more_until_other:
  assumes "read_more_until limit b = (r, b')" and "r \<noteq> Some True" and "bb_wf b"
  shows "bb_wf b'" and "bb_pending b' = bb_pending b"
  using assms read_into_Some [of _ b _ b'] read_into_None [of _ b b']
  by (auto simp: read_more_until_def Let_def split: if_splits prod.splits option.splits)

lemma read_more_until_False:
  assumes "read_more_until limit b = (Some False, b')" and "bb_wf b"
    and "length (bb_buffer b) < limit" and "length (bb_buffer b) < CONNECTION_BUFFER_LIMIT"
  shows "bb_pending b = bb_available b"
proof -
  let ?n = "min (min (length (bb_buffer b) + REQUEST_LINE_LIMIT) limit) CONNECTION_BUFFER_LIMIT - length (bb_buffer b)"
  obtain d events where io: "io_read ?n (bb_script b) = (Some d, events)" and "d = []"
    using assms(1,3) by (auto simp: read_more_until_def read_into_def split: prod.splits option.splits)
  moreover have "0 < ?n"
    using assms(3,4) by (simp add: REQUEST_LINE_LIMIT_def)
  ultimately have "bb_script b = []"
    using io_read_Some(4) [OF io] assms(2) by (simp add: bb_wf_def)
  then show ?thesis
    by (simp add: bb_pending_def)
qed

lemma take_buffered_prefix:
  assumes "take_buffered maximum b = (d, b')" and "bb_wf b"
  shows "bb_pending b = d @ bb_pending b'" and "length d \<le> maximum" and "bb_wf b'"
    and "byte_buffer.more b' = byte_buffer.more b"
    and "bb_available b \<noteq> [] \<Longrightarrow> 0 < maximum \<Longrightarrow> d \<noteq> []"
proof -
  have n: "min maximum (length (bb_available b)) \<le> length (bb_available b)"
    by simp
  have d: "d = take (min maximum (length (bb_available b))) (bb_available b)"
    and b': "b' = consume (min maximum (length (bb_available b))) b"
    using assms(1) by (auto simp: take_buffered_def Let_def bb_available_def)
  show "bb_pending b = d @ bb_pending b'" and "bb_wf b'"
    using bb_pending_consume [OF n] bb_wf_consume [OF assms(2) n] d b' by simp_all
  show "length d \<le> maximum" and "byte_buffer.more b' = byte_buffer.more b"
    and "bb_available b \<noteq> [] \<Longrightarrow> 0 < maximum \<Longrightarrow> d \<noteq> []"
    using d b' by auto
qed

lemma read_fresh_Some:
  assumes "read_fresh maximum b = (Some r, b')" and "bb_wf b" and "bb_available b = []"
    and "0 < maximum"
  shows "bb_wf b'" and "byte_buffer.more b' = byte_buffer.more b"
    and "case r of Some d \<Rightarrow> bb_pending b = d @ bb_pending b' \<and> d \<noteq> [] \<and> length d \<le> maximum
         | None \<Rightarrow> bb_pending b = [] \<and> bb_pending b' = []"
proof -
  obtain d events where io: "io_read maximum (bb_script b) = (Some d, events)"
    and b': "b' = (compact b)\<lparr>bb_script := events\<rparr>" and "r = (if d = [] then None else Some d)"
    using assms(1) by (auto simp: read_fresh_def Let_def split: prod.splits option.splits)
  moreover note io_read_Some [OF io]
  moreover have "bb_buffer (compact b) = []"
    using assms(3) by simp
  ultimately show "bb_wf b'" and "byte_buffer.more b' = byte_buffer.more b"
    and "case r of Some d \<Rightarrow> bb_pending b = d @ bb_pending b' \<and> d \<noteq> [] \<and> length d \<le> maximum
         | None \<Rightarrow> bb_pending b = [] \<and> bb_pending b' = []"
    using assms(2-4) by (auto simp: bb_pending_def bb_available_def bb_wf_def)
qed

lemma read_fresh_None:
  assumes "read_fresh maximum b = (None, b')" and "bb_wf b"
  shows "bb_wf b'" and "bb_pending b' = bb_pending b"
  using assms io_read_None [of maximum "bb_script b"]
  by (auto simp: read_fresh_def Let_def bb_pending_def bb_available_def bb_wf_def
      split: prod.splits option.splits)

lemma read_more_until_grows:
  assumes "read_more_until limit b = (Some True, b')"
  shows "bb_start b' = bb_start b" and "length (bb_buffer b) < length (bb_buffer b')"
    and "length (bb_buffer b') \<le> limit"
proof -
  have l: "length (bb_buffer b) < limit"
    using assms by (auto simp: read_more_until_def split: if_splits)
  let ?n = "min (min (length (bb_buffer b) + REQUEST_LINE_LIMIT) limit) CONNECTION_BUFFER_LIMIT - length (bb_buffer b)"
  obtain d events where io: "io_read ?n (bb_script b) = (Some d, events)" and "d \<noteq> []"
    and "b' = b\<lparr>bb_script := events, bb_buffer := bb_buffer b @ d\<rparr>"
    using assms l by (auto simp: read_more_until_def read_into_def split: prod.splits option.splits)
  moreover have "length d \<le> ?n"
    using io_read_Some(2) [OF io] .
  ultimately show "bb_start b' = bb_start b" and "length (bb_buffer b) < length (bb_buffer b')"
    and "length (bb_buffer b') \<le> limit"
    using l by auto
qed

lemma read_more_until_measure:
  assumes "(Some True, b') = read_more_until limit b"
  shows "bb_start b' = bb_start b \<and> length (bb_buffer b) < length (bb_buffer b')
    \<and> length (bb_buffer b') \<le> limit"
  using read_more_until_grows [OF assms [symmetric]] by simp

lemma read_into_grows:
  assumes "read_into read_end b = (Some count, b')"
  shows "bb_start b' = bb_start b" and "length (bb_buffer b') = length (bb_buffer b) + count"
  using assms by (auto simp: read_into_def split: prod.splits option.splits)

lemma read_into_measure:
  "(Some count, b') = read_into read_end b \<Longrightarrow>
     bb_start b' = bb_start b \<and> length (bb_buffer b') = length (bb_buffer b) + count"
  using read_into_grows by (metis)

section \<open>Reading lines, delimiters and header sections\<close>

text \<open>
  The loops below are written once: the downstream side and the origin side of the source have
  the same loops and differ in the error they map each failure to.
\<close>

datatype stream_error = StreamBad | StreamTooLarge | StreamEnded

definition endings_ok :: "bytes \<Rightarrow> bool" where
  "endings_ok bs \<longleftrightarrow> is_ok (validate_line_endings bs)"

definition validated_end :: "nat option \<Rightarrow> bytes \<Rightarrow> nat" where
  "validated_end line_end available =
     (case line_end of Some e \<Rightarrow> e + 2 | None \<Rightarrow> length available)"

function read_crlf_line ::
    "nat \<Rightarrow> 'a byte_buffer_scheme \<Rightarrow> (bytes, stream_error) result \<times> 'a byte_buffer_scheme" where
  "read_crlf_line limit b =
     (let available = bb_available b; line_end = find_crlf available
      in if \<not> endings_ok (take (validated_end line_end available) available) then (Err StreamBad, b)
         else
           case line_end of
             Some e \<Rightarrow>
               if limit < e + 2 then (Err StreamBad, b)
               else (Ok (take e available), consume (e + 2) b)
           | None \<Rightarrow>
               if limit \<le> length available then (Err StreamBad, b)
               else
                 (case read_more_until limit (compact b) of
                    (Some True, b) \<Rightarrow> read_crlf_line limit b
                  | (_, b) \<Rightarrow> (Err StreamEnded, b)))"
  by pat_completeness auto
termination
  by (relation "measure (\<lambda>(limit, b). limit - length (bb_available b))")
    (auto simp: bb_available_def dest!: read_more_until_measure)

declare read_crlf_line.simps [simp del]

function read_header_section ::
    "nat \<Rightarrow> 'a byte_buffer_scheme \<Rightarrow> (nat, stream_error) result \<times> 'a byte_buffer_scheme" where
  "read_header_section line_len b =
     (let available = bb_available b; found_end = find_head_end available line_len;
          validated = (case found_end of Some e \<Rightarrow> e | None \<Rightarrow> length available)
      in if \<not> endings_ok (take validated available) then (Err StreamBad, b)
         else
           case found_end of
             Some e \<Rightarrow> if HEADER_SECTION_LIMIT < e - line_len then (Err StreamTooLarge, b) else (Ok e, b)
           | None \<Rightarrow>
               if HEADER_SECTION_LIMIT \<le> length available - line_len then (Err StreamTooLarge, b)
               else
                 (case read_more_until (bb_start b + line_len + HEADER_SECTION_LIMIT) b of
                    (Some True, b) \<Rightarrow> read_header_section line_len b
                  | (_, b) \<Rightarrow> (Err StreamEnded, b)))"
  by pat_completeness auto
termination
  by (relation "measure (\<lambda>(line_len, b). bb_start b + line_len + HEADER_SECTION_LIMIT - length (bb_buffer b))")
    (auto dest!: read_more_until_measure)

declare read_header_section.simps [simp del]

text \<open>
  The status line of an origin response; the request line has its own loop. On success the
  result is the length of the line with its line ending.
\<close>

function read_first_line ::
    "'a byte_buffer_scheme \<Rightarrow> (nat, stream_error) result \<times> 'a byte_buffer_scheme" where
  "read_first_line b =
     (let available = bb_available b; line_end = find_crlf available
      in if \<not> endings_ok (take (validated_end line_end available) available) then (Err StreamBad, b)
         else
           case line_end of
             Some e \<Rightarrow> if REQUEST_LINE_LIMIT < e + 2 then (Err StreamBad, b) else (Ok (e + 2), b)
           | None \<Rightarrow>
               if REQUEST_LINE_LIMIT \<le> length available then (Err StreamBad, b)
               else
                 (case read_more_until (bb_start b + REQUEST_LINE_LIMIT) b of
                    (Some True, b) \<Rightarrow> read_first_line b
                  | (_, b) \<Rightarrow> (Err StreamEnded, b)))"
  by pat_completeness auto
termination
  by (relation "measure (\<lambda>b. bb_start b + REQUEST_LINE_LIMIT - length (bb_buffer b))")
    (auto dest!: read_more_until_measure)

declare read_first_line.simps [simp del]

function read_trailer_lines ::
    "'h http_crate \<Rightarrow> 'h \<Rightarrow> nat \<Rightarrow> 'a byte_buffer_scheme
       \<Rightarrow> (unit, stream_error) result \<times> 'h \<times> nat \<times> 'a byte_buffer_scheme" where
  "read_trailer_lines H headers raw_octets b =
     (let available = bb_available b; line_end = find_crlf available
      in if \<not> endings_ok (take (validated_end line_end available) available)
         then (Err StreamBad, headers, raw_octets, b)
         else
           case line_end of
             Some e \<Rightarrow>
               if HEADER_SECTION_LIMIT < raw_octets + (e + 2)
               then (Err StreamTooLarge, headers, raw_octets, b)
               else
                 (let raw_octets = raw_octets + (e + 2); b = consume (e + 2) b
                  in if e = 0 then (Ok (), headers, raw_octets, b)
                     else
                       case append_field_line H headers (take e available) of
                         Err _ \<Rightarrow> (Err StreamBad, headers, raw_octets, b)
                       | Ok headers \<Rightarrow> read_trailer_lines H headers raw_octets b)
           | None \<Rightarrow>
               if HEADER_SECTION_LIMIT \<le> raw_octets + length available
               then (Err StreamTooLarge, headers, raw_octets, b)
               else
                 (case read_more_until (HEADER_SECTION_LIMIT - raw_octets) (compact b) of
                    (Some True, b) \<Rightarrow> read_trailer_lines H headers raw_octets b
                  | (_, b) \<Rightarrow> (Err StreamEnded, headers, raw_octets, b)))"
  by pat_completeness auto
termination
  by (relation "measures [\<lambda>(H, headers, raw, b). HEADER_SECTION_LIMIT - raw,
                          \<lambda>(H, headers, raw, b). HEADER_SECTION_LIMIT - length (bb_available b)]")
    (auto simp: bb_available_def dest!: read_more_until_measure)

declare read_trailer_lines.simps [simp del]

section \<open>The first line of a stream\<close>

lemma find_window_append: "find_window w s = Some i \<Longrightarrow> find_window w (s @ t) = Some i"
proof (induction w s arbitrary: i rule: find_window.induct)
  case (1 w)
  then show ?case by (cases t) (auto split: if_splits)
next
  case (2 w x xs)
  show ?case
  proof (cases "prefix w (x # xs)")
    case True
    then show ?thesis
      using 2 prefix_prefix [of w "x # xs" t] by auto
  next
    case False
    with 2 obtain j where j: "find_window w xs = Some j" and i: "i = Suc j"
      by auto
    then have "length w \<le> length xs"
      using find_window_Some [OF j] by simp
    with False have "\<not> prefix w (x # xs @ t)"
      by (metis append_Cons length_Cons le_SucI prefix_length_prefix prefixI)
    with 2(1) False i j show ?thesis
      by simp
  qed
qed

lemma find_window_take:
  "find_window w s = Some i \<Longrightarrow> find_window w (take (i + length w) s) = Some i"
proof (induction w s arbitrary: i rule: find_window.induct)
  case (2 w x xs)
  show ?case
  proof (cases "prefix w (x # xs)")
    case True
    then have "take (length w) (x # xs) = w"
      by (auto simp: prefix_def)
    then show ?thesis
      using 2 True by (cases w) auto
  next
    case False
    with 2 obtain j where j: "find_window w xs = Some j" and i: "i = Suc j"
      by auto
    have "\<not> prefix w (x # take (j + length w) xs)"
      using False prefix_order.trans [of w "x # take (j + length w) xs" "x # xs"] take_is_prefix by auto
    with 2 False i j show ?thesis
      by simp
  qed
qed (auto split: if_splits)

definition crlf_free :: "bytes \<Rightarrow> bool" where
  "crlf_free line \<longleftrightarrow> find_crlf (line @ CRLF) = Some (length line)"

lemma find_crlf_Some:
  assumes "find_crlf s = Some e"
  shows "s = take e s @ CRLF @ drop (e + 2) s" and "crlf_free (take e s)" and "e + 2 \<le> length s"
proof -
  obtain t where s: "s = take e s @ CRLF @ t" and len: "e + 2 \<le> length s"
    using find_window_Some [OF assms [unfolded find_crlf_def]] by auto
  then have "take (e + 2) s = take e s @ CRLF"
    by (metis (no_types, lifting) append.assoc append_eq_conv_conj length_append length_take
        list.size(3,4) min.absorb2 add_leD1 numeral_2_eq_2 add_Suc_right add_0_right)
  then show "s = take e s @ CRLF @ drop (e + 2) s" and "crlf_free (take e s)"
    using find_window_take [OF assms [unfolded find_crlf_def]] len
    by (simp_all add: crlf_free_def find_crlf_def) (metis append.assoc append_Cons append_Nil append_take_drop_id)
  show "e + 2 \<le> length s"
    by (rule len)
qed

lemma find_crlf_line: "crlf_free line \<Longrightarrow> find_crlf (line @ CRLF @ rest) = Some (length line)"
  using find_window_append [of CRLF "line @ CRLF"] by (simp add: crlf_free_def find_crlf_def)

lemma first_line_unique:
  assumes "line @ CRLF @ rest = line' @ CRLF @ rest'" and "crlf_free line" and "crlf_free line'"
  shows "line = line' \<and> rest = rest'"
proof -
  have "length line = length line'"
    using find_crlf_line [OF assms(2), of rest] find_crlf_line [OF assms(3), of rest'] assms(1) by simp
  then show ?thesis
    using assms(1) by simp
qed

lemma read_crlf_line_Ok:
  assumes "read_crlf_line limit b = (Ok line, b')" and "bb_wf b"
  shows "bb_pending b = line @ CRLF @ bb_pending b' \<and> crlf_free line \<and> length line + 2 \<le> limit
    \<and> endings_ok (line @ CRLF) \<and> bb_wf b' \<and> byte_buffer.more b' = byte_buffer.more b"
  using assms
proof (induction limit b rule: read_crlf_line.induct)
  case (1 limit b)
  show ?case
  proof (cases "find_crlf (bb_available b)")
    case (Some e)
    note e = find_crlf_Some [OF Some]
    have line: "line = take e (bb_available b)" and b': "b' = consume (e + 2) b" and l: "e + 2 \<le> limit"
      and ok: "endings_ok (take (e + 2) (bb_available b))"
      using "1.prems"(1) Some by (auto simp: read_crlf_line.simps [of limit b] validated_end_def Let_def split: if_splits)
    have t: "take (e + 2) (bb_available b) = line @ CRLF"
      using e(1,3) line by (metis (no_types, lifting) append.assoc append_eq_conv_conj length_append
          length_take list.size(3,4) min.absorb2 add_leD1 numeral_2_eq_2 add_Suc_right add_0_right)
    have "length line = e"
      using e(3) line by simp
    then show ?thesis
      using e l ok t line b' bb_pending_consume [of "e + 2" b] bb_wf_consume [OF "1.prems"(2) e(3)] by simp
  next
    case None
    then obtain c where more: "read_more_until limit (compact b) = (Some True, c)"
      and rec: "read_crlf_line limit c = (Ok line, b')"
      using "1.prems"(1)
      by (auto simp: read_crlf_line.simps [of limit b] Let_def split: if_splits prod.splits option.splits bool.splits)
    note m = read_more_until_True [OF more bb_wf_compact [OF "1.prems"(2)]]
    have "bb_pending c = line @ CRLF @ bb_pending b' \<and> crlf_free line \<and> length line + 2 \<le> limit
      \<and> endings_ok (line @ CRLF) \<and> bb_wf b' \<and> byte_buffer.more b' = byte_buffer.more c"
      using "1.IH" None more rec m "1.prems"(1)
      by (auto simp: read_crlf_line.simps [of limit b] Let_def split: if_splits)
    then show ?thesis
      using m by simp
  qed
qed

text \<open>The line ends at the first line ending; what is in front of it was checked.\<close>

definition first_line_of :: "bytes \<Rightarrow> nat \<Rightarrow> bool" where
  "first_line_of available n \<longleftrightarrow>
     2 \<le> n \<and> n \<le> REQUEST_LINE_LIMIT \<and> find_crlf available = Some (n - 2) \<and> endings_ok (take n available)"

lemma read_first_line_Ok:
  assumes "read_first_line b = (Ok n, b')" and "bb_wf b"
  shows "bb_pending b' = bb_pending b \<and> first_line_of (bb_available b') n \<and> bb_wf b'
    \<and> bb_start b' = bb_start b \<and> prefix (bb_available b) (bb_available b')
    \<and> byte_buffer.more b' = byte_buffer.more b"
  using assms
proof (induction b rule: read_first_line.induct)
  case (1 b)
  show ?case
  proof (cases "find_crlf (bb_available b)")
    case (Some e)
    then show ?thesis
      using "1.prems" by (auto simp: read_first_line.simps [of b] validated_end_def first_line_of_def Let_def
          split: if_splits)
  next
    case None
    then obtain c where more: "read_more_until (bb_start b + REQUEST_LINE_LIMIT) b = (Some True, c)"
      and rec: "read_first_line c = (Ok n, b')"
      using "1.prems"(1)
      by (auto simp: read_first_line.simps [of b] Let_def split: if_splits prod.splits option.splits bool.splits)
    note m = read_more_until_True [OF more "1.prems"(2)]
    have "bb_pending b' = bb_pending c \<and> first_line_of (bb_available b') n \<and> bb_wf b'
        \<and> bb_start b' = bb_start c \<and> prefix (bb_available c) (bb_available b')
        \<and> byte_buffer.more b' = byte_buffer.more c"
      using "1.IH" None more rec m "1.prems"(1)
      by (auto simp: read_first_line.simps [of b] Let_def split: if_splits)
    then show ?thesis
      using m prefix_order.trans by auto
  qed
qed

lemma find_head_end_le:
  assumes "find_head_end bs n = Some e" and "n \<le> length bs"
  shows "n < e \<and> e \<le> length bs"
  using assms
  by (auto simp: find_head_end_def split: if_splits dest: find_window_Some)

lemma read_header_section_Ok:
  assumes "read_header_section n b = (Ok e, b')" and "bb_wf b" and "n \<le> length (bb_available b)"
  shows "bb_pending b' = bb_pending b \<and> find_head_end (bb_available b') n = Some e
    \<and> e - n \<le> HEADER_SECTION_LIMIT \<and> n < e \<and> e \<le> length (bb_available b')
    \<and> endings_ok (take e (bb_available b')) \<and> bb_wf b' \<and> bb_start b' = bb_start b
    \<and> prefix (bb_available b) (bb_available b') \<and> byte_buffer.more b' = byte_buffer.more b"
  using assms
proof (induction n b rule: read_header_section.induct)
  case (1 n b)
  show ?case
  proof (cases "find_head_end (bb_available b) n")
    case (Some x)
    then show ?thesis
      using "1.prems" find_head_end_le [OF Some "1.prems"(3)]
      by (auto simp: read_header_section.simps [of n b] Let_def split: if_splits)
  next
    case None
    then obtain c where more: "read_more_until (bb_start b + n + HEADER_SECTION_LIMIT) b = (Some True, c)"
      and rec: "read_header_section n c = (Ok e, b')"
      using "1.prems"(1)
      by (auto simp: read_header_section.simps [of n b] Let_def split: if_splits prod.splits option.splits bool.splits)
    note m = read_more_until_True [OF more "1.prems"(2)]
    have "n \<le> length (bb_available c)"
      using m(5) "1.prems"(3) prefix_length_le by fastforce
    then have "bb_pending b' = bb_pending c \<and> find_head_end (bb_available b') n = Some e
        \<and> e - n \<le> HEADER_SECTION_LIMIT \<and> n < e \<and> e \<le> length (bb_available b')
        \<and> endings_ok (take e (bb_available b')) \<and> bb_wf b' \<and> bb_start b' = bb_start c
        \<and> prefix (bb_available c) (bb_available b') \<and> byte_buffer.more b' = byte_buffer.more c"
      using "1.IH" None more rec m "1.prems"(1)
      by (auto simp: read_header_section.simps [of n b] Let_def split: if_splits)
    then show ?thesis
      using m prefix_order.trans by auto
  qed
qed

section \<open>Trailer sections\<close>

inductive trailer_section :: "'h http_crate \<Rightarrow> 'h \<Rightarrow> bytes \<Rightarrow> 'h \<Rightarrow> bytes \<Rightarrow> bool" for H where
  last_line: "trailer_section H headers (CRLF @ rest) headers rest"
| field_line: "crlf_free line \<Longrightarrow> line \<noteq> [] \<Longrightarrow> append_field_line H headers line = Ok headers' \<Longrightarrow>
    trailer_section H headers' s result rest \<Longrightarrow>
    trailer_section H headers (line @ CRLF @ s) result rest"

lemma crlf_free_Nil [simp]: "crlf_free []"
  by (simp add: crlf_free_def find_crlf_def)

lemma trailer_section_unique:
  "trailer_section H headers s r rest \<Longrightarrow> trailer_section H headers s r' rest' \<Longrightarrow> r = r' \<and> rest = rest'"
proof (induction arbitrary: r' rest' rule: trailer_section.induct)
  case (last_line headers rest)
  from last_line show ?case
  proof (cases rule: trailer_section.cases)
    case (field_line line headers' s)
    then show ?thesis
      using first_line_unique [of "[]" rest line s] by simp
  qed simp
next
  case (field_line line headers headers' s result rest)
  from field_line.prems show ?case
  proof (cases rule: trailer_section.cases)
    case last_line
    then show ?thesis
      using first_line_unique [of line s "[]" rest'] field_line.hyps by simp
  next
    case (field_line line2 headers2 s2)
    then have "line = line2 \<and> s = s2"
      using first_line_unique [of line s line2 s2] \<open>crlf_free line\<close> by simp
    then show ?thesis
      using field_line field_line.hyps \<open>append_field_line H headers line = Ok headers'\<close>
        \<open>\<And>r' rest'. trailer_section H headers' s r' rest' \<Longrightarrow> result = r' \<and> rest = rest'\<close>
      by simp
  qed
qed

lemma read_trailer_lines_Ok:
  assumes "read_trailer_lines H headers raw b = (Ok (), headers', raw', b')" and "bb_wf b"
  shows "trailer_section H headers (bb_pending b) headers' (bb_pending b') \<and> bb_wf b'
    \<and> byte_buffer.more b' = byte_buffer.more b"
  using assms
proof (induction H headers raw b rule: read_trailer_lines.induct)
  case (1 H headers raw b)
  show ?case
  proof (cases "find_crlf (bb_available b)")
    case (Some e)
    note e = find_crlf_Some [OF Some]
    have p: "bb_pending b = take e (bb_available b) @ CRLF @ bb_pending (consume (e + 2) b)"
      using e(1) by (simp add: bb_pending_def bb_available_consume)
    have w: "bb_wf (consume (e + 2) b)"
      using bb_wf_consume [OF "1.prems"(2) e(3)] .
    show ?thesis
    proof (cases "e = 0")
      case True
      then show ?thesis
        using "1.prems"(1) Some p w trailer_section.last_line
        by (auto simp: read_trailer_lines.simps [of H headers raw b] validated_end_def Let_def split: if_splits)
    next
      case False
      then obtain h where app: "append_field_line H headers (take e (bb_available b)) = Ok h"
        and rec: "read_trailer_lines H h (raw + (e + 2)) (consume (e + 2) b) = (Ok (), headers', raw', b')"
        using "1.prems"(1) Some
        by (auto simp: read_trailer_lines.simps [of H headers raw b] validated_end_def Let_def
            split: if_splits result.splits)
      have "trailer_section H h (bb_pending (consume (e + 2) b)) headers' (bb_pending b') \<and> bb_wf b'
          \<and> byte_buffer.more b' = byte_buffer.more (consume (e + 2) b)"
        using "1.IH"(2) "1.prems"(1) Some False app rec w
        by (auto simp: read_trailer_lines.simps [of H headers raw b] Let_def split: if_splits)
      moreover have "take e (bb_available b) \<noteq> []"
        using False e(3) by auto
      ultimately show ?thesis
        using p e(2) app trailer_section.field_line by (metis consume_more(1))
    qed
  next
    case None
    then obtain c where more: "read_more_until (HEADER_SECTION_LIMIT - raw) (compact b) = (Some True, c)"
      and rec: "read_trailer_lines H headers raw c = (Ok (), headers', raw', b')"
      using "1.prems"(1)
      by (auto simp: read_trailer_lines.simps [of H headers raw b] Let_def
          split: if_splits prod.splits option.splits bool.splits)
    note m = read_more_until_True [OF more bb_wf_compact [OF "1.prems"(2)]]
    have "trailer_section H headers (bb_pending c) headers' (bb_pending b') \<and> bb_wf b'
        \<and> byte_buffer.more b' = byte_buffer.more c"
      using "1.IH"(1) None more rec m "1.prems"(1)
      by (auto simp: read_trailer_lines.simps [of H headers raw b] Let_def split: if_splits)
    then show ?thesis
      using m by simp
  qed
qed

end
