(* ===== verification/Body_Spec.thy ===== *)
theory Body_Spec
  imports Byte_Stream
begin

text \<open>
  What decoding a message body means, over the bytes of the stream: an abstract phase, the
  relation \<open>body_of\<close> between a phase, a stream, the data of the body and the rest of the
  stream, and the contract of a decoder (locale \<open>body_decoder\<close>). The request decoder and the
  origin decoder of the proxy are both interpretations of the contract, so they agree with
  each other on where a body ends, whatever the sizes of the reads.
\<close>

datatype body_phase =
    P_Done
  | P_Fixed nat
  | P_Size
  | P_Data nat
  | P_End
  | P_Trailers
  | P_Close

inductive body_of :: "'h http_crate \<Rightarrow> body_phase \<Rightarrow> bytes \<Rightarrow> bytes \<Rightarrow> bytes \<Rightarrow> bool" for H where
  complete: "body_of H P_Done s [] s"
| fixed: "length d = n \<Longrightarrow> body_of H (P_Fixed n) (d @ s) d s"
| chunk_size: "crlf_free line \<Longrightarrow> parse_chunk_size line = Ok len \<Longrightarrow> len \<noteq> 0 \<Longrightarrow>
    body_of H (P_Data (unat len)) s data rest \<Longrightarrow> body_of H P_Size (line @ CRLF @ s) data rest"
| last_size: "crlf_free line \<Longrightarrow> parse_chunk_size line = Ok 0 \<Longrightarrow>
    body_of H P_Trailers s data rest \<Longrightarrow> body_of H P_Size (line @ CRLF @ s) data rest"
| data: "length d = n \<Longrightarrow> body_of H P_End s data rest \<Longrightarrow> body_of H (P_Data n) (d @ s) (d @ data) rest"
| end_of_chunk: "body_of H P_Size s data rest \<Longrightarrow> body_of H P_End (CRLF @ s) data rest"
| trailers: "trailer_section H (hm_new H) s result rest \<Longrightarrow> body_of H P_Trailers s [] rest"
| close: "body_of H P_Close s s []"

inductive_cases body_of_DoneE: "body_of H P_Done s d r"
inductive_cases body_of_FixedE: "body_of H (P_Fixed n) s d r"
inductive_cases body_of_SizeE: "body_of H P_Size s d r"
inductive_cases body_of_DataE: "body_of H (P_Data n) s d r"
inductive_cases body_of_EndE: "body_of H P_End s d r"
inductive_cases body_of_TrailersE: "body_of H P_Trailers s d r"
inductive_cases body_of_CloseE: "body_of H P_Close s d r"

lemma body_of_unique:
  "body_of H p s d r \<Longrightarrow> body_of H p s d' r' \<Longrightarrow> d = d' \<and> r = r'"
proof (induction arbitrary: d' r' rule: body_of.induct)
  case (complete s)
  then show ?case by (auto elim: body_of_DoneE)
next
  case (fixed d n s)
  then show ?case by (auto elim!: body_of_FixedE)
next
  case (chunk_size line len s data rest)
  note outer_hyps = chunk_size.hyps and outer_IH = chunk_size.IH
  from chunk_size.prems show ?case
  proof cases
    case (chunk_size line2 len2 s2)
    have same: "line2 = line \<and> s2 = s"
      using first_line_unique [of line2 s2 line s] chunk_size(1,2) outer_hyps(1) by simp
    then have "len2 = len"
      using chunk_size(3) outer_hyps(2) by simp
    then show ?thesis
      using outer_IH [of d' r'] chunk_size(5) same by simp
  next
    case (last_size line2 s2)
    have "line2 = line"
      using first_line_unique [of line2 s2 line s] last_size(1,2) outer_hyps(1) by simp
    then show ?thesis
      using last_size(3) outer_hyps(2,3) by simp
  qed
next
  case (last_size line s data rest)
  note outer_hyps = last_size.hyps and outer_IH = last_size.IH
  from last_size.prems show ?case
  proof cases
    case (chunk_size line2 len2 s2)
    have "line2 = line"
      using first_line_unique [of line2 s2 line s] chunk_size(1,2) outer_hyps(1) by simp
    then show ?thesis
      using chunk_size(3,4) outer_hyps(2) by simp
  next
    case (last_size line2 s2)
    have "line2 = line \<and> s2 = s"
      using first_line_unique [of line2 s2 line s] last_size(1,2) outer_hyps(1) by simp
    then show ?thesis
      using outer_IH [of d' r'] last_size(4) by simp
  qed
next
  case (data d n s data rest)
  note outer_hyps = data.hyps and outer_IH = data.IH
  from data.prems show ?case
  proof cases
    case (data d2 s2 data2)
    then have "d2 = d" and "s2 = s"
      using outer_hyps(1) by simp_all
    then show ?thesis
      using data(2,4) outer_IH [of data2 r'] by simp
  qed
next
  case (end_of_chunk s data rest)
  from end_of_chunk.prems have "body_of H P_Size s d' r'"
    by (rule body_of_EndE) simp
  then show ?case
    by (rule end_of_chunk.IH)
next
  case (trailers s result rest)
  from trailers.prems obtain result' where "trailer_section H (hm_new H) s result' r'" and "d' = []"
    by (rule body_of_TrailersE)
  then show ?case
    using trailer_section_unique [OF trailers.hyps] by simp
next
  case (close s)
  then show ?case by (auto elim: body_of_CloseE)
qed

section \<open>Decoders\<close>

datatype 'h body_frame = DataFrame bytes | TrailersFrame 'h

type_synonym ('s, 'h, 'e) decoder_step = "'s \<Rightarrow> ('h body_frame option, 'e) result \<times> 's"

text \<open>Reading frames until the decoder reports the end of the body.\<close>

inductive drains :: "('s, 'h, 'e) decoder_step \<Rightarrow> 's \<Rightarrow> bytes \<Rightarrow> 's \<Rightarrow> bool" for "next" where
  finished: "next s = (Ok None, s') \<Longrightarrow> drains next s [] s'"
| data_frame: "next s = (Ok (Some (DataFrame d)), s1) \<Longrightarrow> drains next s1 data s' \<Longrightarrow>
    drains next s (d @ data) s'"
| trailers_frame: "next s = (Ok (Some (TrailersFrame t)), s1) \<Longrightarrow> drains next s1 data s' \<Longrightarrow>
    drains next s data s'"

text \<open>
  \<open>extends\<close> says what one frame contributes: whatever the rest of the body decodes to from the
  state after it, the body from the state before it is the frame's data followed by that.
\<close>

definition extends ::
    "'h http_crate \<Rightarrow> body_phase \<times> bytes \<Rightarrow> bytes \<Rightarrow> body_phase \<times> bytes \<Rightarrow> bool" where
  "extends H before d after \<longleftrightarrow>
     (\<forall>data rest. body_of H (fst after) (snd after) data rest \<longrightarrow>
        body_of H (fst before) (snd before) (d @ data) rest)"

lemma extends_refl: "extends H x [] x"
  by (simp add: extends_def)

lemma extends_trans: "extends H x d y \<Longrightarrow> extends H y e z \<Longrightarrow> extends H x (d @ e) z"
  by (simp add: extends_def)

lemma extends_step: "extends H x [] y \<Longrightarrow> extends H y d z \<Longrightarrow> extends H x d z"
  using extends_trans by fastforce

lemma extends_fixed: "n = length d + m \<Longrightarrow> extends H (P_Fixed n, d @ s) d (P_Fixed m, s)"
  by (auto simp: extends_def elim!: body_of_FixedE)
    (metis append.assoc body_of.fixed length_append)

lemma extends_fixed_0: "extends H (P_Fixed 0, s) [] (P_Done, s)"
  using body_of.fixed [of "[]" 0 H] by (auto simp: extends_def elim!: body_of_DoneE)

lemma extends_size:
  "crlf_free line \<Longrightarrow> parse_chunk_size line = Ok len \<Longrightarrow>
     extends H (P_Size, line @ CRLF @ s) [] (if len = 0 then P_Trailers else P_Data (unat len), s)"
  using body_of.chunk_size body_of.last_size by (fastforce simp: extends_def)

lemma extends_data: "n = length d + m \<Longrightarrow> extends H (P_Data n, d @ s) d (P_Data m, s)"
proof -
  assume n: "n = length d + m"
  have "body_of H (P_Data n) (d @ s) (d @ data) rest" if b: "body_of H (P_Data m) s data rest" for data rest
    using b
  proof cases
    case (data e s' data')
    then show ?thesis
      using n body_of.data [of "d @ e" n H s' data' rest] by simp
  qed
  then show ?thesis
    by (simp add: extends_def)
qed

lemma extends_data_end: "length d = n \<Longrightarrow> extends H (P_Data n, d @ s) d (P_End, s)"
  by (auto simp: extends_def intro: body_of.data)

lemma extends_end: "extends H (P_End, CRLF @ s) [] (P_Size, s)"
  using body_of.end_of_chunk by (fastforce simp: extends_def)

lemma extends_trailers:
  "trailer_section H (hm_new H) s result rest \<Longrightarrow> extends H (P_Trailers, s) [] (P_Done, rest)"
  by (auto simp: extends_def elim!: body_of_DoneE intro: body_of.trailers)

lemma extends_close: "extends H (P_Close, d @ s) d (P_Close, s)"
  by (auto simp: extends_def elim!: body_of_CloseE intro: body_of.close)

lemma extends_close_end: "extends H (P_Close, []) [] (P_Done, [])"
  by (auto simp: extends_def elim!: body_of_DoneE intro: body_of.close)

section \<open>The contract of a decoder\<close>

locale body_decoder =
  fixes H :: "'h http_crate"
    and "next" :: "('s, 'h, 'e) decoder_step"
    and view :: "'s \<Rightarrow> body_phase \<times> bytes"
    and wf :: "'s \<Rightarrow> bool"
  assumes data_law: "next s = (Ok (Some (DataFrame d)), s') \<Longrightarrow> wf s \<Longrightarrow>
      wf s' \<and> extends H (view s) d (view s') \<and> d \<noteq> []"
    and trailers_law: "next s = (Ok (Some (TrailersFrame t)), s') \<Longrightarrow> wf s \<Longrightarrow>
      wf s' \<and> extends H (view s) [] (view s') \<and> fst (view s') = P_Done"
    and end_law: "next s = (Ok None, s') \<Longrightarrow> wf s \<Longrightarrow>
      wf s' \<and> extends H (view s) [] (view s') \<and> fst (view s') = P_Done"
begin

lemma drains_body:
  assumes "drains next s data s'" and "wf s"
  shows "wf s' \<and> body_of H (fst (view s)) (snd (view s)) data (snd (view s'))"
  using assms
proof (induction rule: drains.induct)
  case (finished s s')
  then have "extends H (view s) [] (view s')" and "fst (view s') = P_Done" and "wf s'"
    using end_law by auto
  then show ?case
    using body_of.complete [of H "snd (view s')"] by (auto simp: extends_def)
next
  case (data_frame s d s1 data s')
  then show ?case
    using data_law [OF data_frame.hyps(1)] by (auto simp: extends_def)
next
  case (trailers_frame s t s1 data s')
  then show ?case
    using trailers_law [OF trailers_frame.hyps(1)] by (fastforce simp: extends_def)
qed

lemma drains_agree:
  assumes "drains next s data s'" and "drains next t data' t'" and "wf s" and "wf t"
    and "view s = view t"
  shows "data = data' \<and> snd (view s') = snd (view t')"
  using drains_body [OF assms(1,3)] drains_body [OF assms(2,4)] assms(5) body_of_unique by metis

end

end
