(* ===== verification/Http1_Connection.thy ===== *)
theory Http1_Connection
  imports Body_Spec
begin

text \<open>
  The downstream connection of \<open>proxy/src/server/http1.rs\<close>: reading a request head, the streaming
  request-body decoder, and the hand-over of unread bytes to a CONNECT tunnel. The connection
  is the read buffer of \<open>Byte_Stream\<close> with the connection's own fields; the monitor that polls
  the operating system for a closed peer is not modelled.
\<close>

record http1_connection = byte_buffer +
  cn_request_is_head :: bool
  cn_prefetched_error :: "(ingress_error \<times> bool) option"

definition http1_connection_new :: "read_event list \<Rightarrow> http1_connection" where
  "http1_connection_new io =
     \<lparr>bb_script = io, bb_buffer = [], bb_start = 0, cn_request_is_head = False,
      cn_prefetched_error = None\<rparr>"

primrec ingress_of :: "stream_error \<Rightarrow> ingress_error" where
  "ingress_of StreamBad = BadRequest"
| "ingress_of StreamTooLarge = HeadersTooLarge"
| "ingress_of StreamEnded = Incomplete"

section \<open>Heads\<close>

definition wait_for_head_start ::
    "http1_connection \<Rightarrow> (bool, ingress_error) result \<times> http1_connection" where
  "wait_for_head_start c =
     (if bb_start c \<noteq> length (bb_buffer c) then (Ok True, c)
      else
        case read_into 1 (compact c) of
          (None, c) \<Rightarrow> (Err Incomplete, c)
        | (Some count, c) \<Rightarrow> (Ok (count \<noteq> 0), c))"

function read_request_line ::
    "http1_connection \<Rightarrow> (nat option, ingress_error) result \<times> http1_connection" where
  "read_request_line c =
     (let available = bb_available c; line_end = find_crlf available;
          prefix_end = (case line_end of
             Some e \<Rightarrow> e
           | None \<Rightarrow> length available - (if ends_with [CR] available then 1 else 0))
      in if \<not> endings_ok (take (validated_end line_end available) available) then (Err BadRequest, c)
         else
           case validate_request_line_prefix (take prefix_end available) of
             Err e \<Rightarrow> (Err e, c)
           | Ok _ \<Rightarrow>
               (case line_end of
                  Some e \<Rightarrow>
                    if REQUEST_LINE_LIMIT < e + 2 then (Err BadRequest, c)
                    else (Ok (Some (e + 2)),
                          c\<lparr>cn_request_is_head := request_line_is_head (take (e + 2) available)\<rparr>)
                | None \<Rightarrow>
                    if REQUEST_LINE_LIMIT \<le> length available then (Err BadRequest, c)
                    else
                      (case read_more_until (bb_start c + REQUEST_LINE_LIMIT) c of
                         (Some True, c) \<Rightarrow> read_request_line c
                       | (Some False, c) \<Rightarrow>
                           (if available = [] then Ok None else Err Incomplete, c)
                       | (None, c) \<Rightarrow> (Err Incomplete, c))))"
  by pat_completeness auto
termination
  by (relation "measure (\<lambda>c. bb_start c + REQUEST_LINE_LIMIT - length (bb_buffer c))")
    (auto dest!: read_more_until_measure)

declare read_request_line.simps [simp del]

definition read_head ::
    "'h http_crate \<Rightarrow> http1_connection
       \<Rightarrow> ('h request_head option, ingress_error) result \<times> http1_connection" where
  "read_head H c =
     (case cn_prefetched_error c of
        Some (error, request_is_head) \<Rightarrow>
          (Err error, c\<lparr>cn_prefetched_error := None, cn_request_is_head := request_is_head\<rparr>)
      | None \<Rightarrow>
          (case read_request_line ((compact c)\<lparr>cn_request_is_head := False\<rparr>) of
             (Err e, c) \<Rightarrow> (Err e, c)
           | (Ok None, c) \<Rightarrow> (Ok None, c)
           | (Ok (Some request_line_end), c) \<Rightarrow>
               (case read_header_section request_line_end c of
                  (Err e, c) \<Rightarrow> (Err (ingress_of e), c)
                | (Ok head_end, c) \<Rightarrow>
                    (case parse_head H (take request_line_end (bb_available c))
                            (drop request_line_end (take head_end (bb_available c))) of
                       Err e \<Rightarrow> (Err e, c)
                     | Ok head \<Rightarrow> (Ok (Some head), consume head_end c)))))"

section \<open>Bodies\<close>

definition read_body_data ::
    "nat \<Rightarrow> 'a byte_buffer_scheme \<Rightarrow> (bytes option, ingress_error) result \<times> 'a byte_buffer_scheme" where
  "read_body_data maximum c =
     (if length (bb_buffer c) - bb_start c \<noteq> 0
      then (case take_buffered maximum c of (data, c) \<Rightarrow> (Ok (Some data), c))
      else
        case read_fresh (min maximum REQUEST_BODY_FRAME_LIMIT) c of
          (None, c) \<Rightarrow> (Err Incomplete, c)
        | (Some data, c) \<Rightarrow> (Ok data, c))"

function ensure_buffered ::
    "nat \<Rightarrow> 'a byte_buffer_scheme \<Rightarrow> (unit, ingress_error) result \<times> 'a byte_buffer_scheme" where
  "ensure_buffered count c =
     (if length (bb_buffer c) - bb_start c < count then
        (let c = compact c;
             read_end = min (min (length (bb_buffer c) + APPLICATION_BUFFER_LIMIT) count)
                          CONNECTION_BUFFER_LIMIT
         in case read_into read_end c of
              (None, c) \<Rightarrow> (Err Incomplete, c)
            | (Some read, c) \<Rightarrow>
                if read = 0 then (Err Incomplete, c) else ensure_buffered count c)
      else (Ok (), c))"
  by pat_completeness auto
termination
  by (relation "measure (\<lambda>(count, c). count - length (bb_available c))")
    (auto simp: bb_available_def dest!: read_into_measure)

declare ensure_buffered.simps [simp del]

definition read_body_line ::
    "'a byte_buffer_scheme \<Rightarrow> nat \<Rightarrow> (bytes, ingress_error) result \<times> 'a byte_buffer_scheme" where
  "read_body_line c limit = (case read_crlf_line limit c of (r, c) \<Rightarrow> (map_err ingress_of r, c))"

datatype decoder_state =
    DecComplete
  | DecFixed u64
  | DecChunkSize
  | DecChunkData u64
  | DecChunkDataEnd
  | DecTrailers

record 'h body_decoder_state =
  bd_state :: decoder_state
  bd_trailer_headers :: 'h
  bd_trailer_octets :: nat

definition body_decoder_new :: "'h http_crate \<Rightarrow> body_framing \<Rightarrow> 'h body_decoder_state" where
  "body_decoder_new H framing =
     \<lparr>bd_state = (case framing of
                    NoBody \<Rightarrow> DecComplete
                  | ContentLength remaining \<Rightarrow> DecFixed remaining
                  | Chunked \<Rightarrow> DecChunkSize),
      bd_trailer_headers = hm_new H, bd_trailer_octets = 0\<rparr>"

definition buffered_bytes :: "'h http_crate \<Rightarrow> 'h body_decoder_state \<Rightarrow> nat" where
  "buffered_bytes H d = header_field_bytes H (bd_trailer_headers d)"

definition read_body_trailers ::
    "'h http_crate \<Rightarrow> 'h body_decoder_state \<Rightarrow> 'a byte_buffer_scheme
       \<Rightarrow> (unit, ingress_error) result \<times> 'h body_decoder_state \<times> 'a byte_buffer_scheme" where
  "read_body_trailers H d c =
     (case read_trailer_lines H (bd_trailer_headers d) (bd_trailer_octets d) c of
        (r, headers, octets, c) \<Rightarrow>
          (map_err ingress_of r,
           d\<lparr>bd_trailer_headers := headers, bd_trailer_octets := octets\<rparr>, c))"

definition data_limit :: "u64 \<Rightarrow> nat" where
  "data_limit remaining = min (unat remaining) REQUEST_BODY_FRAME_LIMIT"

primrec decoder_rank :: "decoder_state \<Rightarrow> nat" where
  "decoder_rank DecComplete = 0"
| "decoder_rank (DecFixed n) = 1"
| "decoder_rank DecTrailers = 1"
| "decoder_rank (DecChunkData n) = 1"
| "decoder_rank DecChunkSize = 2"
| "decoder_rank DecChunkDataEnd = 3"

function next_frame ::
    "'h http_crate \<Rightarrow> 'h body_decoder_state \<Rightarrow> 'a byte_buffer_scheme
       \<Rightarrow> ('h body_frame option, ingress_error) result \<times> 'h body_decoder_state \<times> 'a byte_buffer_scheme" where
  "next_frame H d c =
     (case bd_state d of
        DecComplete \<Rightarrow> (Ok None, d, c)
      | DecFixed remaining \<Rightarrow>
          if remaining = 0 then next_frame H (d\<lparr>bd_state := DecComplete\<rparr>) c
          else
            (case read_body_data (data_limit remaining) c of
               (Err e, c) \<Rightarrow> (Err e, d, c)
             | (Ok None, c) \<Rightarrow> (Err Incomplete, d, c)
             | (Ok (Some data), c) \<Rightarrow>
                 (Ok (Some (DataFrame data)),
                  d\<lparr>bd_state := DecFixed (remaining - of_nat (length data))\<rparr>, c))
      | DecChunkSize \<Rightarrow>
          (case read_body_line c CHUNK_LINE_LIMIT of
             (Err e, c) \<Rightarrow> (Err e, d, c)
           | (Ok line, c) \<Rightarrow>
               (case parse_chunk_size line of
                  Err e \<Rightarrow> (Err e, d, c)
                | Ok len \<Rightarrow>
                    next_frame H (d\<lparr>bd_state := if len = 0 then DecTrailers else DecChunkData len\<rparr>) c))
      | DecChunkData remaining \<Rightarrow>
          (case read_body_data (data_limit remaining) c of
             (Err e, c) \<Rightarrow> (Err e, d, c)
           | (Ok None, c) \<Rightarrow> (Err Incomplete, d, c)
           | (Ok (Some data), c) \<Rightarrow>
               (let remaining = remaining - of_nat (length data)
                in (Ok (Some (DataFrame data)),
                    d\<lparr>bd_state := if remaining = 0 then DecChunkDataEnd else DecChunkData remaining\<rparr>, c)))
      | DecChunkDataEnd \<Rightarrow>
          (case ensure_buffered 2 c of
             (Err e, c) \<Rightarrow> (Err e, d, c)
           | (Ok _, c) \<Rightarrow>
               if take 2 (bb_available c) \<noteq> CRLF then (Err BadRequest, d, c)
               else next_frame H (d\<lparr>bd_state := DecChunkSize\<rparr>) (consume 2 c))
      | DecTrailers \<Rightarrow>
          (case read_body_trailers H d c of
             (Err e, d, c) \<Rightarrow> (Err e, d, c)
           | (Ok _, d, c) \<Rightarrow>
               (case validate_trailers H (bd_trailer_headers d) of
                  Err e \<Rightarrow> (Err e, d, c)
                | Ok _ \<Rightarrow>
                    (let trailers = bd_trailer_headers d;
                         d = d\<lparr>bd_state := DecComplete, bd_trailer_headers := hm_new H\<rparr>
                     in if hm_iter H trailers = [] then (Ok None, d, c)
                        else (Ok (Some (TrailersFrame trailers)), d, c)))))"
  by pat_completeness auto
termination
  by (relation "measure (\<lambda>(H, d, c). decoder_rank (bd_state d))") auto

declare next_frame.simps [simp del]

section \<open>Tunnel hand-over\<close>

record buffered_io =
  bi_io :: "read_event list"
  bi_prefix :: bytes
  bi_offset :: nat

definition into_buffered_io :: "http1_connection \<Rightarrow> buffered_io" where
  "into_buffered_io c = \<lparr>bi_io = bb_script c, bi_prefix = bb_available c, bi_offset = 0\<rparr>"

definition into_parts :: "buffered_io \<Rightarrow> read_event list \<times> bytes" where
  "into_parts b = (bi_io b, drop (bi_offset b) (bi_prefix b))"

definition poll_read :: "nat \<Rightarrow> buffered_io \<Rightarrow> bytes option \<times> buffered_io" where
  "poll_read remaining b =
     (if bi_offset b < length (bi_prefix b) then
        (let count = min (length (bi_prefix b) - bi_offset b) remaining
         in (Some (take count (drop (bi_offset b) (bi_prefix b))), b\<lparr>bi_offset := bi_offset b + count\<rparr>))
      else
        case io_read remaining (bi_io b) of (r, events) \<Rightarrow> (r, b\<lparr>bi_io := events\<rparr>))"

section \<open>The request decoder meets the contract\<close>

lemma read_body_data_Some:
  assumes "read_body_data maximum c = (Ok (Some d), c')" and "bb_wf c" and "0 < maximum"
  shows "bb_pending c = d @ bb_pending c' \<and> d \<noteq> [] \<and> length d \<le> maximum
    \<and> length d \<le> max REQUEST_BODY_FRAME_LIMIT (length (bb_available c)) \<and> bb_wf c'"
proof (cases "bb_available c = []")
  case True
  have "0 < min maximum REQUEST_BODY_FRAME_LIMIT"
    using assms(3) by (simp add: REQUEST_BODY_FRAME_LIMIT_def APPLICATION_BUFFER_LIMIT_def)
  moreover have "read_fresh (min maximum REQUEST_BODY_FRAME_LIMIT) c = (Some (Some d), c')"
    using assms(1) True by (auto simp: read_body_data_def bb_available_def split: prod.splits option.splits if_splits)
  ultimately show ?thesis
    using read_fresh_Some [OF _ assms(2) True] by fastforce
next
  case False
  then have "take_buffered maximum c = (d, c')"
    using assms(1) by (auto simp: read_body_data_def bb_available_def split: prod.splits if_splits)
  then show ?thesis
    using take_buffered_prefix [OF _ assms(2)] False assms(3)
    by (metis (no_types, lifting) bb_pending_def le_max_iff_disj length_take min.cobounded1
        nat_le_linear take_buffered_def fst_conv min.cobounded2 bb_available_def length_drop)
qed

lemma ensure_buffered_Ok:
  assumes "ensure_buffered count c = (Ok (), c')" and "bb_wf c"
  shows "bb_pending c' = bb_pending c \<and> count \<le> length (bb_available c') \<and> bb_wf c'"
  using assms
proof (induction count c rule: ensure_buffered.induct)
  case (1 count c)
  let ?stop = "min (min (length (bb_buffer (compact c)) + APPLICATION_BUFFER_LIMIT) count) CONNECTION_BUFFER_LIMIT"
  show ?case
  proof (cases "length (bb_buffer c) - bb_start c < count")
    case True
    then obtain n x where read: "read_into ?stop (compact c) = (Some n, x)" and "n \<noteq> 0"
      and rec: "ensure_buffered count x = (Ok (), c')"
      using "1.prems"(1)
      by (auto simp: ensure_buffered.simps [of count c] Let_def split: if_splits prod.splits option.splits)
    note m = read_into_Some [OF read bb_wf_compact [OF "1.prems"(2)]]
    have "bb_pending c' = bb_pending x \<and> count \<le> length (bb_available c') \<and> bb_wf c'"
      using "1.IH" [OF True refl refl read [symmetric] refl \<open>n \<noteq> 0\<close> rec] m(6) by simp
    then show ?thesis
      using m by simp
  next
    case False
    then show ?thesis
      using "1.prems" by (simp add: ensure_buffered.simps [of count c] bb_available_def)
  qed
qed

primrec decoder_phase :: "decoder_state \<Rightarrow> body_phase" where
  "decoder_phase DecComplete = P_Done"
| "decoder_phase (DecFixed n) = P_Fixed (unat n)"
| "decoder_phase DecChunkSize = P_Size"
| "decoder_phase (DecChunkData n) = P_Data (unat n)"
| "decoder_phase DecChunkDataEnd = P_End"
| "decoder_phase DecTrailers = P_Trailers"

type_synonym ('h, 'a) request_body = "'h body_decoder_state \<times> 'a byte_buffer_scheme"

fun request_step :: "'h http_crate \<Rightarrow> (('h, 'a) request_body, 'h, ingress_error) decoder_step" where
  "request_step H (d, c) = (case next_frame H d c of (r, d, c) \<Rightarrow> (r, (d, c)))"

fun request_view :: "('h, 'a) request_body \<Rightarrow> body_phase \<times> bytes" where
  "request_view (d, c) = (decoder_phase (bd_state d), bb_pending c)"

text \<open>Chunk data states are entered with a nonzero size, and trailers start from an empty map.\<close>

fun request_wf :: "'h http_crate \<Rightarrow> ('h, 'a) request_body \<Rightarrow> bool" where
  "request_wf H (d, c) \<longleftrightarrow>
     bb_wf c \<and> bd_trailer_headers d = hm_new H \<and> bd_state d \<noteq> DecChunkData 0"

lemma unat_remaining:
  assumes "length d \<le> unat (n :: u64)"
  shows "unat n = length d + unat (n - of_nat (length d))"
proof -
  have "unat (of_nat (length d) :: u64) = length d"
    using assms u64_bound [of n] by (intro unat_u64_of_nat) linarith
  then show ?thesis
    using assms by (simp add: unat_sub word_le_nat_alt)
qed

lemma data_limit_pos: "n \<noteq> 0 \<Longrightarrow> 0 < data_limit n"
  by (simp add: data_limit_def REQUEST_BODY_FRAME_LIMIT_def APPLICATION_BUFFER_LIMIT_def unat_gt_0)

lemma read_body_data_limit:
  assumes "read_body_data (data_limit n) c = (Ok (Some x), c')" and "bb_wf c" and "n \<noteq> 0"
  shows "bb_pending c = x @ bb_pending c'" and "x \<noteq> []" and "bb_wf c'"
    and "unat n = length x + unat (n - of_nat (length x))"
proof -
  have *: "bb_pending c = x @ bb_pending c' \<and> x \<noteq> [] \<and> length x \<le> data_limit n \<and> bb_wf c'"
    using read_body_data_Some [OF assms(1,2) data_limit_pos [OF assms(3)]] by simp
  then show "bb_pending c = x @ bb_pending c'" and "x \<noteq> []" and "bb_wf c'"
    by simp_all
  show "unat n = length x + unat (n - of_nat (length x))"
    using * by (intro unat_remaining) (simp add: data_limit_def)
qed

definition frame_law ::
    "'h http_crate \<Rightarrow> body_phase \<times> bytes \<Rightarrow> 'h body_frame option \<Rightarrow> body_phase \<times> bytes \<Rightarrow> bool" where
  "frame_law H before r after \<longleftrightarrow>
     (case r of
        Some (DataFrame x) \<Rightarrow> extends H before x after \<and> x \<noteq> []
      | _ \<Rightarrow> extends H before [] after \<and> fst after = P_Done)"

lemma frame_law_step:
  "extends H x [] y \<Longrightarrow> frame_law H y r z \<Longrightarrow> frame_law H x r z"
  by (auto simp: frame_law_def split: option.splits body_frame.splits intro: extends_step)

lemma next_frame_law:
  assumes "next_frame H d c = (Ok r, d', c')" and "request_wf H (d, c)"
  shows "request_wf H (d', c') \<and> frame_law H (request_view (d, c)) r (request_view (d', c'))"
  using assms
proof (induction H d c rule: next_frame.induct)
  case (1 H d c)
  have wf: "bb_wf c" and tr: "bd_trailer_headers d = hm_new H"
    using "1.prems"(2) by simp_all
  note step = "1.prems"(1) [unfolded next_frame.simps [of H d c]]
  show ?case
  proof (cases "bd_state d")
    case DecComplete
    then show ?thesis
      using step "1.prems"(2) by (auto simp: frame_law_def extends_refl)
  next
    case (DecFixed n)
    show ?thesis
    proof (cases "n = 0")
      case True
      then show ?thesis
        using step DecFixed "1.IH"(1) "1.prems"(2) extends_fixed_0 [of H "bb_pending c"]
        by (auto intro: frame_law_step)
    next
      case False
      then obtain x where read: "read_body_data (data_limit n) c = (Ok (Some x), c')"
        and "r = Some (DataFrame x)" and "d' = d\<lparr>bd_state := DecFixed (n - of_nat (length x))\<rparr>"
        using step DecFixed by (auto split: prod.splits result.splits option.splits)
      then show ?thesis
        using read_body_data_limit [OF read wf False] DecFixed tr
        by (simp add: frame_law_def extends_fixed)
    qed
  next
    case (DecChunkData n)
    have n: "n \<noteq> 0"
      using "1.prems"(2) DecChunkData by auto
    let ?m = "\<lambda>x. n - of_nat (length x)"
    obtain x where read: "read_body_data (data_limit n) c = (Ok (Some x), c')"
      and "r = Some (DataFrame x)"
      and "d' = d\<lparr>bd_state := if ?m x = 0 then DecChunkDataEnd else DecChunkData (?m x)\<rparr>"
      using step DecChunkData by (auto simp: Let_def split: prod.splits result.splits option.splits)
    then show ?thesis
      using read_body_data_limit [OF read wf n] DecChunkData tr
      by (auto simp: frame_law_def extends_data extends_data_end)
  next
    case DecChunkSize
    then obtain line len x where line: "read_body_line c CHUNK_LINE_LIMIT = (Ok line, x)"
      and len: "parse_chunk_size line = Ok len"
      and rec: "next_frame H (d\<lparr>bd_state := if len = 0 then DecTrailers else DecChunkData len\<rparr>) x
                  = (Ok r, d', c')"
      using step by (auto split: prod.splits result.splits)
    have "read_crlf_line CHUNK_LINE_LIMIT c = (Ok line, x)"
      using line by (auto simp: read_body_line_def split: prod.splits)
    from read_crlf_line_Ok [OF this wf] have p: "bb_pending c = line @ CRLF @ bb_pending x"
      and "crlf_free line" and wfx: "bb_wf x"
      by simp_all
    then have "extends H (request_view (d, c)) []
        (request_view (d\<lparr>bd_state := if len = 0 then DecTrailers else DecChunkData len\<rparr>, x))"
      using extends_size [OF _ len, of H "bb_pending x"] DecChunkSize by auto
    then show ?thesis
      using "1.IH"(2) [OF DecChunkSize line [symmetric] refl len rec] tr wfx
      by (auto intro: frame_law_step)
  next
    case DecChunkDataEnd
    then obtain x where ens: "ensure_buffered 2 c = (Ok (), x)" and crlf: "take 2 (bb_available x) = CRLF"
      and rec: "next_frame H (d\<lparr>bd_state := DecChunkSize\<rparr>) (consume 2 x) = (Ok r, d', c')"
      using step by (auto split: prod.splits result.splits if_splits)
    note e = ensure_buffered_Ok [OF ens wf]
    have "bb_pending c = CRLF @ bb_pending (consume 2 x)"
      using e bb_pending_consume [of 2 x] crlf by simp
    then have "extends H (request_view (d, c)) [] (request_view (d\<lparr>bd_state := DecChunkSize\<rparr>, consume 2 x))"
      using extends_end [of H] DecChunkDataEnd by simp
    moreover have "bb_wf (consume 2 x)"
      using e bb_wf_consume by blast
    ultimately show ?thesis
      using "1.IH"(3) DecChunkDataEnd ens crlf rec tr by (auto intro: frame_law_step)
  next
    case DecTrailers
    then obtain d1 where t: "read_body_trailers H d c = (Ok (), d1, c')"
      and d': "d' = d1\<lparr>bd_state := DecComplete, bd_trailer_headers := hm_new H\<rparr>"
      and r: "r = None \<or> (\<exists>h. r = Some (TrailersFrame h))"
      using step by (auto simp: Let_def split: prod.splits result.splits if_splits)
    then obtain h o' where "read_trailer_lines H (hm_new H) (bd_trailer_octets d) c = (Ok (), h, o', c')"
      using tr by (auto simp: read_body_trailers_def split: prod.splits)
    from read_trailer_lines_Ok [OF this wf] show ?thesis
      using DecTrailers d' r extends_trailers by (auto simp: frame_law_def)
  qed
qed

interpretation request_body:
  body_decoder H "request_step H :: (('h, 'a) request_body, 'h, ingress_error) decoder_step"
    request_view "request_wf H"
  for H :: "'h http_crate"
proof
  fix s s' :: "('h, 'a) request_body" and d t
  show "request_step H s = (Ok (Some (DataFrame d)), s') \<Longrightarrow> request_wf H s \<Longrightarrow>
      request_wf H s' \<and> extends H (request_view s) d (request_view s') \<and> d \<noteq> []"
    using next_frame_law [of H "fst s" "snd s" _ "fst s'" "snd s'"]
    by (cases s) (auto simp: frame_law_def split: prod.splits)
  show "request_step H s = (Ok (Some (TrailersFrame t)), s') \<Longrightarrow> request_wf H s \<Longrightarrow>
      request_wf H s' \<and> extends H (request_view s) [] (request_view s') \<and> fst (request_view s') = P_Done"
    using next_frame_law [of H "fst s" "snd s" _ "fst s'" "snd s'"]
    by (cases s) (auto simp: frame_law_def split: prod.splits)
  show "request_step H s = (Ok None, s') \<Longrightarrow> request_wf H s \<Longrightarrow>
      request_wf H s' \<and> extends H (request_view s) [] (request_view s') \<and> fst (request_view s') = P_Done"
    using next_frame_law [of H "fst s" "snd s" _ "fst s'" "snd s'"]
    by (cases s) (auto simp: frame_law_def split: prod.splits)
qed

primrec framing_phase :: "body_framing \<Rightarrow> body_phase" where
  "framing_phase NoBody = P_Done"
| "framing_phase (ContentLength n) = P_Fixed (unat n)"
| "framing_phase Chunked = P_Size"

lemma decoder_phase_new [simp]:
  "decoder_phase (bd_state (body_decoder_new H framing)) = framing_phase framing"
  by (cases framing) (simp_all add: body_decoder_new_def)

lemma request_view_new:
  "request_view (body_decoder_new H framing, c) = (framing_phase framing, bb_pending c)"
  by (cases framing) (simp_all add: body_decoder_new_def)

lemma request_wf_new: "bb_wf c \<Longrightarrow> request_wf H (body_decoder_new H framing, c)"
  by (cases framing) (simp_all add: body_decoder_new_def)

text \<open>
  C31: the request body ends where the protocol says. What the decoder delivers until it
  reports the end of the body is the body of the byte stream in the sense of the abstract
  relation, and the unread bytes that it leaves are exactly the bytes after that body, so the
  next request on the connection starts at the right place.
\<close>

theorem request_body_exact:
  assumes "drains (request_step H) (body_decoder_new H framing, c) data (d', c')" and "bb_wf c"
  shows "body_of H (framing_phase framing) (bb_pending c) data (bb_pending c') \<and> bb_wf c'"
  using request_body.drains_body [OF assms(1) request_wf_new [OF assms(2)]]
  by (simp add: request_view_new)

text \<open>A chunked request that arrives in three reads, followed by the next request.\<close>

definition example_chunked :: http1_connection where
  "example_chunked = http1_connection_new
     [ReadData (''5'' @ CRLF @ ''hel''), ReadData (''lo'' @ CRLF @ ''0'' @ [CR]),
      ReadData ([LF] @ CRLF @ ''GET'')]"

lemma example_chunked_drains:
  "\<exists>d' c'. drains (request_step list_crate) (body_decoder_new list_crate Chunked, example_chunked)
     ''hello'' (d', c') \<and> bb_pending c' = ''GET''"
proof -
  let ?step = "request_step list_crate"
  obtain s1 where s1: "?step (body_decoder_new list_crate Chunked, example_chunked)
      = (Ok (Some (DataFrame ''hel'')), s1)"
    and s2: "?step s1 = (Ok (Some (DataFrame ''lo'')), snd (?step s1))"
    and s3: "?step (snd (?step s1)) = (Ok None, snd (?step (snd (?step s1))))"
    and p: "bb_pending (snd (snd (?step (snd (?step s1))))) = ''GET''"
    by (atomize_elim, intro exI [of _ "snd (?step (body_decoder_new list_crate Chunked, example_chunked))"])
      code_simp
  have "drains ?step (body_decoder_new list_crate Chunked, example_chunked) (''hel'' @ ''lo'' @ [])
      (snd (?step (snd (?step s1))))"
    by (rule drains.data_frame, rule s1, rule drains.data_frame, rule s2, rule drains.finished, rule s3)
  then show ?thesis
    using p by (metis append_Nil2 append.simps prod.collapse)
qed

lemma example_chunked_wf: "bb_wf example_chunked"
  by (simp add: example_chunked_def http1_connection_new_def bb_wf_def script_ok_def)

theorem request_body_exact_witness:
  "\<exists>c'. body_of list_crate P_Size (bb_pending example_chunked) ''hello'' (bb_pending c')
     \<and> bb_pending (c' :: http1_connection) = ''GET''"
proof -
  obtain d' c' where drains: "drains (request_step list_crate)
      (body_decoder_new list_crate Chunked, example_chunked) ''hello'' (d', c')"
    and "bb_pending c' = ''GET''"
    using example_chunked_drains by blast
  with request_body_exact [OF drains example_chunked_wf] show ?thesis
    by (intro exI [of _ c']) simp
qed

text \<open>
  The split of the same bytes into reads does not matter. Two connections that hold the
  same stream, buffered and read differently, and that both reach the end of the body, deliver
  the same data and leave the same bytes unread: a peer cannot make two readers of one stream
  disagree about its messages by timing its writes.
\<close>

theorem request_body_independent_of_reads:
  assumes "drains (request_step H) (body_decoder_new H framing, c1) data1 (d1, c1')"
    and "drains (request_step H) (body_decoder_new H framing, c2) data2 (d2, c2')"
    and "bb_wf c1" and "bb_wf c2" and "bb_pending c1 = bb_pending c2"
  shows "data1 = data2 \<and> bb_pending c1' = bb_pending c2'"
  using request_body.drains_body [OF assms(1) request_wf_new [OF assms(3)]]
    request_body.drains_body [OF assms(2) request_wf_new [OF assms(4)]] assms(5)
    body_of_unique [of H "framing_phase framing" "bb_pending c1" data1 "bb_pending c1'" data2 "bb_pending c2'"]
  by simp

definition example_chunked_whole :: http1_connection where
  "example_chunked_whole = http1_connection_new
     [ReadData (''5'' @ CRLF @ ''hello'' @ CRLF @ ''0'' @ CRLF @ CRLF @ ''GET'')]"

theorem request_body_independent_of_reads_witness:
  "\<exists>c1' c2'. drains (request_step list_crate) (body_decoder_new list_crate Chunked, example_chunked)
       ''hello'' c1'
     \<and> drains (request_step list_crate) (body_decoder_new list_crate Chunked, example_chunked_whole)
       ''hello'' c2'
     \<and> bb_pending (snd c1') = bb_pending (snd c2')"
proof -
  let ?step = "request_step list_crate"
  let ?s = "(body_decoder_new list_crate Chunked, example_chunked_whole)"
  obtain d1 c1 where one: "drains ?step (body_decoder_new list_crate Chunked, example_chunked) ''hello'' (d1, c1)"
    using example_chunked_drains by blast
  have s1: "?step ?s = (Ok (Some (DataFrame ''hello'')), snd (?step ?s))"
    and s2: "?step (snd (?step ?s)) = (Ok None, snd (?step (snd (?step ?s))))"
    by code_simp+
  have "drains ?step ?s (''hello'' @ []) (snd (?step (snd (?step ?s))))"
    by (rule drains.data_frame, rule s1, rule drains.finished, rule s2)
  then obtain d2 c2 where two: "drains ?step ?s ''hello'' (d2, c2)"
    by (metis append_Nil2 prod.collapse)
  have "bb_wf example_chunked_whole" and "bb_pending example_chunked = bb_pending example_chunked_whole"
    by (simp_all add: example_chunked_def example_chunked_whole_def http1_connection_new_def bb_wf_def
        script_ok_def bb_pending_def bb_available_def)
  with request_body_independent_of_reads [OF one two example_chunked_wf]
  have "bb_pending c1 = bb_pending c2"
    by simp
  with one two show ?thesis
    by (intro exI [of _ "(d1, c1)"] exI [of _ "(d2, c2)"]) simp
qed

section \<open>Reading heads\<close>

lemma find_head_end_append:
  assumes "find_head_end s n = Some e" and "n \<le> length s"
  shows "find_head_end (s @ t) n = Some e"
proof (cases "n + 2 \<le> length s \<and> take 2 (drop n s) = CRLF")
  case True
  then show ?thesis
    using assms by (simp add: find_head_end_def)
next
  case False
  then obtain i where i: "find_window (CRLF @ CRLF) (drop n s) = Some i" and e: "e = n + i + 4"
    using assms(1) by (auto simp: find_head_end_def)
  then have "4 \<le> length (drop n s)"
    using find_window_Some [OF i] by auto
  then have "take 2 (drop n (s @ t)) = take 2 (drop n s)" and "n + 2 \<le> length s"
    by auto
  then show ?thesis
    using False i e find_window_append [OF i, of t] by (simp add: find_head_end_def)
qed

text \<open>The head of a stream: the first line and the header section up to the first blank line.\<close>

definition head_of :: "bytes \<Rightarrow> bytes \<Rightarrow> bytes \<Rightarrow> bool" where
  "head_of stream line sec \<longleftrightarrow>
     prefix (line @ sec) stream \<and> find_crlf stream = Some (length line - 2)
     \<and> 2 \<le> length line \<and> find_head_end stream (length line) = Some (length (line @ sec))
     \<and> length line \<le> REQUEST_LINE_LIMIT \<and> length sec \<le> HEADER_SECTION_LIMIT"

lemma head_of_unique:
  "head_of stream line sec \<Longrightarrow> head_of stream line' sec' \<Longrightarrow> line = line' \<and> sec = sec'"
  unfolding head_of_def prefix_def
  by (metis (no_types, lifting) append_eq_append_conv diff_diff_cancel diff_is_0_eq' append.assoc
      le_add_diff_inverse2 length_append nat_le_linear option.inject add_left_cancel)

lemma read_request_line_Ok:
  assumes "read_request_line c = (Ok (Some n), c')" and "bb_wf c"
  shows "bb_pending c' = bb_pending c \<and> first_line_of (bb_available c') n \<and> bb_wf c'
    \<and> bb_start c' = bb_start c \<and> cn_request_is_head c' = request_line_is_head (take n (bb_available c'))"
  using assms
proof (induction c rule: read_request_line.induct)
  case (1 c)
  note step = "1.prems"(1) [unfolded read_request_line.simps [of c] Let_def]
  show ?case
  proof (cases "find_crlf (bb_available c)")
    case (Some e)
    then show ?thesis
      using step "1.prems"(2)
      by (auto simp: validated_end_def first_line_of_def bb_available_def bb_pending_def bb_wf_def
          split: if_splits result.splits)
  next
    case None
    then obtain x where more: "read_more_until (bb_start c + REQUEST_LINE_LIMIT) c = (Some True, x)"
      and rec: "read_request_line x = (Ok (Some n), c')"
      using step by (auto split: if_splits prod.splits option.splits bool.splits result.splits)
    note m = read_more_until_True [OF more "1.prems"(2)]
    have "bb_pending c' = bb_pending x \<and> first_line_of (bb_available c') n \<and> bb_wf c'
        \<and> bb_start c' = bb_start x \<and> cn_request_is_head c' = request_line_is_head (take n (bb_available c'))"
      using "1.IH" None more rec m step by (auto split: if_splits result.splits)
    then show ?thesis
      using m by simp
  qed
qed

lemma find_crlf_prefix:
  "find_crlf s = Some e \<Longrightarrow> prefix s stream \<Longrightarrow> find_crlf stream = Some e"
  by (auto simp: prefix_def find_crlf_def find_window_append)

lemma head_of_available:
  assumes "first_line_of available n" and "find_head_end available n = Some e" and "e \<le> length available"
    and "e - n \<le> HEADER_SECTION_LIMIT" and "n < e"
  shows "head_of (available @ rest) (take n available) (drop n (take e available))"
proof -
  have n: "n \<le> length available" and "2 \<le> n" "n \<le> REQUEST_LINE_LIMIT" "find_crlf available = Some (n - 2)"
    using assms by (auto simp: first_line_of_def)
  moreover have "take n available @ drop n (take e available) = take e available"
    using assms(5) by (metis append_take_drop_id min.strict_order_iff take_take)
  moreover have "prefix (take e available) (available @ rest)"
    using take_is_prefix prefix_prefix by blast
  ultimately show ?thesis
    using assms find_head_end_append [OF assms(2) n, of rest] find_crlf_prefix [of available "n - 2" "available @ rest"]
    by (auto simp: head_of_def)
qed

lemma read_first_line_len: "first_line_of available n \<Longrightarrow> n \<le> length available"
  using find_crlf_Some(3) by (fastforce simp: first_line_of_def)

lemma read_head_cases:
  assumes "read_head H c = (Ok (Some head), c')" and "bb_wf c"
  shows "\<exists>line sec. head_of (bb_pending c) line sec \<and> parse_head H line sec = Ok head
    \<and> bb_pending c = line @ sec @ bb_pending c' \<and> bb_wf c'
    \<and> cn_request_is_head c' = request_line_is_head line"
proof -
  obtain n c1 e c2 where first: "read_request_line ((compact c)\<lparr>cn_request_is_head := False\<rparr>) = (Ok (Some n), c1)"
    and sec: "read_header_section n c1 = (Ok e, c2)"
    and parse: "parse_head H (take n (bb_available c2)) (drop n (take e (bb_available c2))) = Ok head"
    and c': "c' = consume e c2"
    using assms(1) by (auto simp: read_head_def split: option.splits prod.splits result.splits)
  have "bb_wf ((compact c)\<lparr>cn_request_is_head := False\<rparr>)"
    using bb_wf_compact [OF assms(2)] by (simp add: bb_wf_def)
  note l = read_request_line_Ok [OF first this]
  have "bb_pending ((compact c)\<lparr>cn_request_is_head := False\<rparr>) = bb_pending c"
    by (simp add: bb_pending_def bb_available_def)
  then have p1: "bb_pending c1 = bb_pending c"
    using l by simp
  have n: "n \<le> length (bb_available c1)"
    using l read_first_line_len by blast
  have s: "bb_pending c2 = bb_pending c1" "find_head_end (bb_available c2) n = Some e"
    "e - n \<le> HEADER_SECTION_LIMIT" "n < e" "e \<le> length (bb_available c2)" "bb_wf c2"
    "prefix (bb_available c1) (bb_available c2)" "byte_buffer.more c2 = byte_buffer.more c1"
    using read_header_section_Ok [OF sec _ n] l by auto
  have line: "take n (bb_available c2) = take n (bb_available c1)"
    using s(7) n by (auto simp: prefix_def)
  have first2: "first_line_of (bb_available c2) n"
    using l find_crlf_prefix [OF _ s(7)] line by (auto simp: first_line_of_def)
  have "cn_request_is_head c' = cn_request_is_head c1"
    using s(8) c' by (cases c1; cases c2) (simp add: consume_def)
  moreover have "bb_pending c = take e (bb_available c2) @ bb_pending c'"
    using bb_pending_consume [OF s(5)] p1 s(1) c' by simp
  moreover have "take e (bb_available c2) = take n (bb_available c2) @ drop n (take e (bb_available c2))"
    using s(4) by (metis append_take_drop_id min.strict_order_iff take_take)
  moreover have "head_of (bb_pending c) (take n (bb_available c2)) (drop n (take e (bb_available c2)))"
    using head_of_available [OF first2 s(2,5,3,4)]
    unfolding p1 [symmetric] s(1) [symmetric] bb_pending_def [of c2] .
  ultimately show ?thesis
    using parse bb_wf_consume [OF s(6,5)] c' l line
    by (intro exI [of _ "take n (bb_available c2)"] exI [of _ "drop n (take e (bb_available c2))"]) simp
qed

text \<open>
  A request head that is accepted is the first line and the header section of the byte
  stream, both within their limits, parsed as a whole; the connection keeps every byte after
  it, and remembers whether the method was HEAD. The buffer never outgrows its capacity.
\<close>

theorem read_head_exact:
  assumes "read_head H c = (Ok (Some head), c')" and "bb_wf c"
  shows "\<exists>line sec. head_of (bb_pending c) line sec \<and> parse_head H line sec = Ok head
    \<and> bb_pending c = line @ sec @ bb_pending c' \<and> bb_wf c'
    \<and> cn_request_is_head c' = request_line_is_head line"
  using assms by (rule read_head_cases)

definition example_head :: http1_connection where
  "example_head = http1_connection_new
     [ReadData (''GET / HT''), ReadData (''TP/1.1'' @ CRLF @ ''Host: a'' @ [CR]),
      ReadData ([LF] @ CRLF @ ''rest'')]"

theorem read_head_exact_witness:
  "\<exists>head line sec. \<exists>c' :: http1_connection. head_of (bb_pending example_head) line sec
     \<and> parse_head list_crate line sec = Ok head
     \<and> bb_pending example_head = line @ sec @ bb_pending c' \<and> bb_pending c' = ''rest''
     \<and> \<not> cn_request_is_head c'"
proof -
  have "case read_head list_crate example_head of
      (Ok (Some head), c') \<Rightarrow> bb_pending c' = ''rest'' \<and> \<not> cn_request_is_head c' | _ \<Rightarrow> False"
    by code_simp
  then obtain head c' where *: "read_head list_crate example_head = (Ok (Some head), c')"
    and "bb_pending c' = ''rest''" and "\<not> cn_request_is_head c'"
    by (auto split: prod.splits result.splits option.splits)
  moreover have "bb_wf example_head"
    by (simp add: example_head_def http1_connection_new_def bb_wf_def script_ok_def)
  moreover from read_head_exact [OF * this] obtain line sec where
    "head_of (bb_pending example_head) line sec \<and> parse_head list_crate line sec = Ok head
      \<and> bb_pending example_head = line @ sec @ bb_pending c'"
    by blast
  ultimately show ?thesis
    by blast
qed

end
