(* ===== verification/Pool.thy ===== *)
theory Pool
  imports Prelude
begin

text \<open>
  The bounded pool of idle connections (\<open>proxy/src/connect/pool.rs\<close>). A \<open>HashMap\<close> is a list of
  key-value pairs with distinct keys, in the arbitrary order in which it is iterated; the mutex
  makes each operation one step; the clock readings of an operation are its arguments. The
  interface that the origin connections rely on is the locale \<open>idle_pool\<close>.
\<close>

section \<open>State and operations\<close>

record 'v pool_entry =
  pe_value :: 'v
  pe_idle_since :: nat
  pe_sequence :: "64 word"

record ('k, 'v) pool_state =
  po_entries :: "('k \<times> 'v pool_entry) list"
  po_next_sequence :: "64 word"
  po_closed :: bool

record ('k, 'v) idle_pool_data = "('k, 'v) pool_state" +
  po_capacity :: nat
  po_lifetime :: nat

definition IDLE_POOL_CAPACITY :: nat where "IDLE_POOL_CAPACITY = 64"
definition IDLE_POOL_LIFETIME :: nat where "IDLE_POOL_LIFETIME = 60"

definition pool_build :: "nat \<Rightarrow> nat \<Rightarrow> ('k, 'v) idle_pool_data" where
  "pool_build capacity lifetime =
     \<lparr>po_entries = [], po_next_sequence = 0, po_closed = False,
      po_capacity = capacity, po_lifetime = lifetime\<rparr>"

definition pool_new :: "('k, 'v) idle_pool_data" where
  "pool_new = pool_build IDLE_POOL_CAPACITY IDLE_POOL_LIFETIME"

definition remove_key :: "'k \<Rightarrow> ('k \<times> 'e) list \<Rightarrow> ('k \<times> 'e) list" where
  "remove_key key entries = filter (\<lambda>p. fst p \<noteq> key) entries"

definition prune_locked :: "nat \<Rightarrow> ('k, 'v) idle_pool_data \<Rightarrow> ('k, 'v) idle_pool_data" where
  "prune_locked now pool =
     pool\<lparr>po_entries := filter (\<lambda>(_, e). now - pe_idle_since e < po_lifetime pool) (po_entries pool)\<rparr>"

definition take_if_reusable ::
    "nat \<Rightarrow> 'k \<Rightarrow> ('v \<Rightarrow> bool) \<Rightarrow> ('k, 'v) idle_pool_data \<Rightarrow> 'v option \<times> ('k, 'v) idle_pool_data" where
  "take_if_reusable now key reusable pool =
     (let pool = prune_locked now pool
      in if po_closed pool then (None, pool)
         else
           case map_of (po_entries pool) key of
             None \<Rightarrow> (None, pool)
           | Some entry \<Rightarrow>
               (if reusable (pe_value entry) then Some (pe_value entry) else None,
                pool\<lparr>po_entries := remove_key key (po_entries pool)\<rparr>))"

definition oldest_key :: "('k \<times> 'v pool_entry) list \<Rightarrow> 'k option" where
  "oldest_key entries =
     (case entries of
        [] \<Rightarrow> None
      | p # ps \<Rightarrow>
          Some (fst (foldl (\<lambda>best q. if pe_sequence (snd q) < pe_sequence (snd best) then q else best) p ps)))"

lemma oldest_key_in: "oldest_key entries = Some key \<Longrightarrow> key \<in> fst ` set entries"
proof -
  have *: "foldl (\<lambda>best q. if pe_sequence (snd q) < pe_sequence (snd best) then q else best) p ps \<in> set (p # ps)"
    for p and ps :: "('k \<times> 'v pool_entry) list"
  proof (induction ps arbitrary: p)
    case (Cons q ps)
    from Cons [of q] Cons [of p] show ?case
      by auto
  qed simp
  assume "oldest_key entries = Some key"
  then obtain p ps where "entries = p # ps"
    and "key = fst (foldl (\<lambda>best q. if pe_sequence (snd q) < pe_sequence (snd best) then q else best) p ps)"
    by (auto simp: oldest_key_def split: list.splits)
  then show "key \<in> fst ` set entries"
    using * [of p ps] by (simp only: image_eqI)
qed

lemma length_remove_key: "key \<in> fst ` set entries \<Longrightarrow> length (remove_key key entries) < length entries"
  by (auto simp: remove_key_def intro!: length_filter_less)

function evict :: "nat \<Rightarrow> ('k \<times> 'v pool_entry) list \<Rightarrow> ('k \<times> 'v pool_entry) list" where
  "evict capacity entries =
     (if length entries \<le> capacity then entries
      else
        case oldest_key entries of
          None \<Rightarrow> entries
        | Some oldest \<Rightarrow> evict capacity (remove_key oldest entries))"
  by pat_completeness auto
termination
  by (relation "measure (\<lambda>(capacity, entries). length entries)")
    (auto intro: length_remove_key oldest_key_in)

declare evict.simps [simp del]

definition put_if_reusable ::
    "nat \<Rightarrow> 'k \<Rightarrow> 'v \<Rightarrow> ('v \<Rightarrow> bool) \<Rightarrow> ('k, 'v) idle_pool_data \<Rightarrow> ('k, 'v) idle_pool_data" where
  "put_if_reusable now key v reusable pool =
     (if \<not> reusable v then pool
      else
        (let pool = prune_locked now pool
         in if po_closed pool then pool
            else
              (let entry = \<lparr>pe_value = v, pe_idle_since = now, pe_sequence = po_next_sequence pool\<rparr>
               in pool\<lparr>po_next_sequence := po_next_sequence pool + 1,
                       po_entries := evict (po_capacity pool)
                                       ((key, entry) # remove_key key (po_entries pool))\<rparr>)))"

definition pool_prune :: "nat \<Rightarrow> ('k, 'v) idle_pool_data \<Rightarrow> ('k, 'v) idle_pool_data" where
  "pool_prune now pool = prune_locked now pool"

definition pool_close :: "('k, 'v) idle_pool_data \<Rightarrow> ('k, 'v) idle_pool_data" where
  "pool_close pool = pool\<lparr>po_closed := True, po_entries := []\<rparr>"

section \<open>The interface\<close>

datatype ('k, 'v) pool_event = Took 'k 'v | TookNothing 'k | PutIn 'k 'v | Tidied

text \<open>
  What the clients rely on: \<open>held\<close> is what a pool would give back. Taking gives a held value of
  the key that is reusable now and gives it up; putting adds at most that value, if it is
  reusable; nothing else adds values.
\<close>

inductive history :: "('s \<Rightarrow> 'e \<Rightarrow> 's \<Rightarrow> bool) \<Rightarrow> 's \<Rightarrow> 'e list \<Rightarrow> 's \<Rightarrow> bool" for step where
  start: "history step s [] s"
| more: "history step s es s1 \<Longrightarrow> step s1 e s' \<Longrightarrow> history step s (es @ [e]) s'"

lemma history_invariant:
  assumes "history step s es s'" and "I s" and "\<And>s e s'. I s \<Longrightarrow> step s e s' \<Longrightarrow> I s'"
  shows "I s'"
  using assms(1,2) by (induction rule: history.induct) (auto intro: assms(3))

locale idle_pool =
  fixes held :: "'s \<Rightarrow> ('k \<times> 'v) set"
    and step :: "('v \<Rightarrow> bool) \<Rightarrow> 's \<Rightarrow> ('k, 'v) pool_event \<Rightarrow> 's \<Rightarrow> bool"
    and usable :: "'v \<Rightarrow> bool"
  assumes took: "step usable s (Took k v) s' \<Longrightarrow>
      (k, v) \<in> held s \<and> usable v \<and> held s' \<subseteq> {p \<in> held s. fst p \<noteq> k}"
    and took_nothing: "step usable s (TookNothing k) s' \<Longrightarrow> held s' \<subseteq> held s"
    and putin: "step usable s (PutIn k v) s' \<Longrightarrow>
      held s' \<subseteq> (if usable v then insert (k, v) (held s) else held s)"
    and tidied: "step usable s Tidied s' \<Longrightarrow> held s' \<subseteq> held s"
begin

lemma held_was_put:
  "history (step usable) s es s' \<Longrightarrow> held s = {} \<Longrightarrow> (k, v) \<in> held s' \<Longrightarrow> PutIn k v \<in> set es \<and> usable v"
proof (induction rule: history.induct)
  case (more s es s1 e s')
  show ?case
  proof (cases "(k, v) \<in> held s1")
    case True
    then show ?thesis
      using more by simp
  next
    case False
    with more obtain k' v' where e: "e = PutIn k' v'"
      by (cases e) (auto dest: took took_nothing tidied)
    then show ?thesis
      using putin [of s1 k' v' s'] more False by (auto split: if_splits)
  qed
qed simp

lemma taken_was_put:
  assumes "history (step usable) s es s1" and "held s = {}" and "step usable s1 (Took k v) s'"
  shows "PutIn k v \<in> set es \<and> usable v"
  using held_was_put [OF assms(1,2)] took [OF assms(3)] by blast

end

section \<open>The pool provides the interface\<close>

definition pool_held :: "('k, 'v) idle_pool_data \<Rightarrow> ('k \<times> 'v) set" where
  "pool_held pool = (\<lambda>(k, e). (k, pe_value e)) ` set (po_entries pool)"

inductive pool_step ::
    "('v \<Rightarrow> bool) \<Rightarrow> ('k, 'v) idle_pool_data \<Rightarrow> ('k, 'v) pool_event \<Rightarrow> ('k, 'v) idle_pool_data \<Rightarrow> bool" where
  take_some: "take_if_reusable now k usable p = (Some v, p') \<Longrightarrow> pool_step usable p (Took k v) p'"
| take_none: "take_if_reusable now k usable p = (None, p') \<Longrightarrow> pool_step usable p (TookNothing k) p'"
| put: "p' = put_if_reusable now k v usable p \<Longrightarrow> pool_step usable p (PutIn k v) p'"
| prune: "p' = pool_prune now p \<Longrightarrow> pool_step usable p Tidied p'"
| close: "p' = pool_close p \<Longrightarrow> pool_step usable p Tidied p'"

inductive_cases pool_step_TookE: "pool_step usable p (Took k v) p'"
inductive_cases pool_step_NothingE: "pool_step usable p (TookNothing k) p'"
inductive_cases pool_step_PutE: "pool_step usable p (PutIn k v) p'"
inductive_cases pool_step_TidiedE: "pool_step usable p Tidied p'"

lemma prune_locked_simps [simp]:
  "po_closed (prune_locked now p) = po_closed p"
  "po_capacity (prune_locked now p) = po_capacity p"
  "po_lifetime (prune_locked now p) = po_lifetime p"
  "set (po_entries (prune_locked now p)) =
     {(k, e) \<in> set (po_entries p). now - pe_idle_since e < po_lifetime p}"
  by (auto simp: prune_locked_def)

lemma set_remove_key [simp]: "set (remove_key k es) = {p \<in> set es. fst p \<noteq> k}"
  by (auto simp: remove_key_def)

lemma evict_subset: "set (evict capacity es) \<subseteq> set es"
proof (induction capacity es rule: evict.induct)
  case (1 capacity es)
  show ?case
  proof (cases "length es \<le> capacity")
    case False
    then show ?thesis
      using 1 by (subst evict.simps) (auto split: option.splits)
  qed (simp add: evict.simps [of capacity es])
qed

lemma evict_length: "length (evict capacity es) \<le> capacity"
proof (induction capacity es rule: evict.induct)
  case (1 capacity es)
  show ?case
  proof (cases "length es \<le> capacity")
    case False
    then obtain k where "oldest_key es = Some k"
      by (cases es) (auto simp: oldest_key_def)
    then show ?thesis
      using 1 [OF False] False by (simp add: evict.simps [of capacity es])
  qed (simp add: evict.simps [of capacity es])
qed

lemma take_Some:
  assumes "take_if_reusable now k usable p = (Some v, p')"
  shows "\<exists>e. (k, e) \<in> set (po_entries p) \<and> now - pe_idle_since e < po_lifetime p \<and> v = pe_value e
    \<and> usable v" and "pool_held p' \<subseteq> {q \<in> pool_held p. fst q \<noteq> k}" and "\<not> po_closed p"
  using assms
  by (auto simp: take_if_reusable_def Let_def pool_held_def split: if_splits option.splits
      dest!: map_of_SomeD)

lemma pool_held_prune: "pool_held (prune_locked now p) \<subseteq> pool_held p"
  by (auto simp: pool_held_def)

lemma take_None_held:
  "take_if_reusable now k usable p = (None, p') \<Longrightarrow> pool_held p' \<subseteq> pool_held p"
  by (auto simp: take_if_reusable_def Let_def pool_held_def split: if_splits option.splits)

lemma put_held:
  "pool_held (put_if_reusable now k v usable p) \<subseteq>
     (if usable v then insert (k, v) (pool_held p) else pool_held p)"
proof (cases "usable v \<and> \<not> po_closed p")
  case True
  let ?entry = "(k, \<lparr>pe_value = v, pe_idle_since = now, pe_sequence = po_next_sequence (prune_locked now p)\<rparr>)"
  have "set (po_entries (put_if_reusable now k v usable p))
      \<subseteq> set (?entry # remove_key k (po_entries (prune_locked now p)))"
    using True evict_subset [of "po_capacity p" "?entry # remove_key k (po_entries (prune_locked now p))"]
    by (simp add: put_if_reusable_def Let_def del: set_remove_key)
  then show ?thesis
    using True by (auto simp: pool_held_def)
qed (auto simp: put_if_reusable_def Let_def pool_held_def)

interpretation connection_pool: idle_pool pool_held pool_step usable for usable :: "'v \<Rightarrow> bool"
proof
  fix s s' :: "('k, 'v) idle_pool_data" and k v
  show "pool_step usable s (Took k v) s' \<Longrightarrow>
      (k, v) \<in> pool_held s \<and> usable v \<and> pool_held s' \<subseteq> {p \<in> pool_held s. fst p \<noteq> k}"
    by (erule pool_step_TookE) (frule take_Some(1), drule take_Some(2), force simp: pool_held_def)
  show "pool_step usable s (TookNothing k) s' \<Longrightarrow> pool_held s' \<subseteq> pool_held s"
    by (erule pool_step_NothingE) (rule take_None_held)
  show "pool_step usable s (PutIn k v) s' \<Longrightarrow> pool_held s' \<subseteq>
      (if usable v then insert (k, v) (pool_held s) else pool_held s)"
    by (erule pool_step_PutE) (simp only: put_held)
  show "pool_step usable s Tidied s' \<Longrightarrow> pool_held s' \<subseteq> pool_held s"
    using pool_held_prune by (elim pool_step_TidiedE) (auto simp: pool_prune_def pool_close_def pool_held_def)
qed

section \<open>Properties of the pool\<close>

text \<open>
  Connections are not invented or shared: what a take returns was put into the pool under
  the same key before, is reusable at that moment, has been idle for less than the lifetime,
  and is no longer in the pool afterwards; a closed pool returns nothing.
\<close>

theorem pool_take_was_put:
  assumes "history (pool_step usable) (pool_build capacity lifetime) es p"
    and "take_if_reusable now k usable p = (Some v, p')"
  shows "PutIn k v \<in> set es \<and> usable v \<and> \<not> po_closed p \<and> k \<notin> fst ` pool_held p' \<and>
    (\<exists>e. (k, e) \<in> set (po_entries p) \<and> v = pe_value e \<and> now - pe_idle_since e < po_lifetime p)"
proof -
  have "pool_held (pool_build capacity lifetime) = {}"
    by (simp add: pool_held_def pool_build_def)
  then have "PutIn k v \<in> set es \<and> usable v"
    using connection_pool.taken_was_put [OF assms(1)] pool_step.take_some [OF assms(2)] by blast
  then show ?thesis
    using take_Some [OF assms(2)] by force
qed

lemma pool_step_bounded:
  "pool_step usable p e p' \<Longrightarrow>
     length (po_entries p) \<le> po_capacity p \<and> (po_closed p \<longrightarrow> po_entries p = []) \<Longrightarrow>
     po_capacity p' = po_capacity p \<and> (po_closed p \<longrightarrow> po_closed p') \<and>
     length (po_entries p') \<le> po_capacity p' \<and> (po_closed p' \<longrightarrow> po_entries p' = [])"
proof (induction rule: pool_step.induct)
  case (take_some now k usable p v p')
  then show ?case
    by (auto simp: take_if_reusable_def Let_def prune_locked_def remove_key_def
        split: if_splits option.splits intro: order_trans [OF length_filter_le])
next
  case (take_none now k usable p p')
  then show ?case
    by (auto simp: take_if_reusable_def Let_def prune_locked_def remove_key_def
        split: if_splits option.splits intro: order_trans [OF length_filter_le])
next
  case (put p' now k v usable p)
  then show ?case
    by (auto simp: put_if_reusable_def Let_def evict_length prune_locked_def)
next
  case (prune p' now p)
  then show ?case
    by (auto simp: pool_prune_def prune_locked_def intro: order_trans [OF length_filter_le])
qed (auto simp: pool_close_def)

text \<open>
  C34: whatever happens to the pool, it never holds more connections than its capacity, and
  once it is closed it holds none.
\<close>

theorem pool_bounded:
  assumes "history (pool_step usable) (pool_build capacity lifetime) es p"
  shows "length (po_entries p) \<le> capacity \<and> (po_closed p \<longrightarrow> po_entries p = [])"
proof -
  let ?I = "\<lambda>q. po_capacity q = capacity \<and> length (po_entries q) \<le> po_capacity q
    \<and> (po_closed q \<longrightarrow> po_entries q = [])"
  have "?I p"
  proof (rule history_invariant [OF assms, of ?I])
    show "?I (pool_build capacity lifetime)"
      by (simp add: pool_build_def)
  qed (use pool_step_bounded in blast)
  then show ?thesis
    by auto
qed

text \<open>Two puts into a pool of one place and a take of the second.\<close>

lemma example_pool_history:
  "history (pool_step (\<lambda>_. True)) (pool_build 1 60 :: (nat, nat) idle_pool_data) [PutIn 1 10, PutIn 2 20]
     (put_if_reusable 5 2 20 (\<lambda>_. True) (put_if_reusable 3 1 10 (\<lambda>_. True) (pool_build 1 60)))"
proof -
  have "history (pool_step (\<lambda>_. True)) p ([] @ [PutIn 1 10]) (put_if_reusable 3 1 10 (\<lambda>_. True) p)"
    for p :: "(nat, nat) idle_pool_data"
    by (rule history.more [OF history.start], rule pool_step.put, rule refl)
  note one = this
  have "history (pool_step (\<lambda>_. True)) (pool_build 1 60 :: (nat, nat) idle_pool_data)
     (([] @ [PutIn 1 10]) @ [PutIn 2 20])
     (put_if_reusable 5 2 20 (\<lambda>_. True) (put_if_reusable 3 1 10 (\<lambda>_. True) (pool_build 1 60)))"
    by (rule history.more [OF one], rule pool_step.put, rule refl)
  then show ?thesis
    by simp
qed

theorem pool_take_was_put_witness:
  "PutIn 2 20 \<in> set [PutIn 1 (10 :: nat), PutIn (2 :: nat) 20]"
proof -
  let ?p = "put_if_reusable 5 2 20 (\<lambda>_. True) (put_if_reusable 3 1 10 (\<lambda>_. True) (pool_build 1 60))
              :: (nat, nat) idle_pool_data"
  have "take_if_reusable 9 2 (\<lambda>_. True) ?p = (Some 20, snd (take_if_reusable 9 2 (\<lambda>_. True) ?p))"
    by code_simp
  from pool_take_was_put [OF example_pool_history this] show ?thesis
    by blast
qed

theorem pool_bounded_witness:
  "length (po_entries (put_if_reusable 5 2 20 (\<lambda>_. True)
      (put_if_reusable 3 1 10 (\<lambda>_. True) (pool_build 1 60 :: (nat, nat) idle_pool_data)))) \<le> 1"
  using pool_bounded [OF example_pool_history] by simp

end
