(* ===== verification/Origin_Body.thy ===== *)
theory Origin_Body
  imports Http1_Connection Pool
begin

text \<open>
  The origin side of \<open>proxy/src/connect/origin_body.rs\<close>: reading a response head, the streaming
  response-body decoder, and the body that owns the checked-out connection and gives it back to
  the idle pool. The reader is the buffer of \<open>Byte_Stream\<close>, whose loops the origin side has word
  for word with its own errors. An origin stream is split and reunited without a change of its
  state, so a reader and an \<open>HttpOrigin\<close> are the same value here. The counters that exist in
  test builds only are left out.
\<close>

type_synonym origin_reader = byte_buffer

definition http_origin_new :: "read_event list \<Rightarrow> origin_reader" where
  "http_origin_new io = \<lparr>bb_script = io, bb_buffer = [], bb_start = 0\<rparr>"

primrec origin_of :: "stream_error \<Rightarrow> origin_error" where
  "origin_of StreamBad = OriginInvalid"
| "origin_of StreamTooLarge = OriginHeadersTooLarge"
| "origin_of StreamEnded = OriginIncomplete"

section \<open>Reading\<close>

definition read_response_head ::
    "'h http_crate \<Rightarrow> bytes \<Rightarrow> 'a byte_buffer_scheme
       \<Rightarrow> ('h origin_response_head, origin_error) result \<times> 'a byte_buffer_scheme" where
  "read_response_head H request_method r =
     (case read_first_line (compact r) of
        (Err e, r) \<Rightarrow> (Err (origin_of e), r)
      | (Ok status_end, r) \<Rightarrow>
          (case read_header_section status_end r of
             (Err e, r) \<Rightarrow> (Err (origin_of e), r)
           | (Ok head_end, r) \<Rightarrow>
               (case parse_origin_response_head H (take status_end (bb_available r))
                       (drop status_end (take head_end (bb_available r))) request_method of
                  Err e \<Rightarrow> (Err e, r)
                | Ok head \<Rightarrow> (Ok head, consume head_end r))))"

definition read_data ::
    "nat \<Rightarrow> 'a byte_buffer_scheme \<Rightarrow> (bytes option, origin_error) result \<times> 'a byte_buffer_scheme" where
  "read_data maximum r =
     (let maximum = min maximum RESPONSE_BODY_FRAME_LIMIT
      in if bb_start r \<noteq> length (bb_buffer r)
         then (case take_buffered (min maximum APPLICATION_BUFFER_LIMIT) r of
                 (data, r) \<Rightarrow> (Ok (Some data), r))
         else
           case read_fresh (min maximum APPLICATION_BUFFER_LIMIT) r of
             (None, r) \<Rightarrow> (Err OriginIncomplete, r)
           | (Some data, r) \<Rightarrow> (Ok data, r))"

function fill_delimiter ::
    "'a byte_buffer_scheme \<Rightarrow> (unit, origin_error) result \<times> 'a byte_buffer_scheme" where
  "fill_delimiter r =
     (if length (bb_buffer r) - bb_start r < 2 then
        (case read_into 2 (compact r) of
           (None, r) \<Rightarrow> (Err OriginIncomplete, r)
         | (Some read, r) \<Rightarrow> if read = 0 then (Err OriginIncomplete, r) else fill_delimiter r)
      else (Ok (), r))"
  by pat_completeness auto
termination
  by (relation "measure (\<lambda>r. 2 - length (bb_available r))")
    (auto simp: bb_available_def dest!: read_into_measure)

declare fill_delimiter.simps [simp del]

definition read_exact_delimiter ::
    "'a byte_buffer_scheme \<Rightarrow> (unit, origin_error) result \<times> 'a byte_buffer_scheme" where
  "read_exact_delimiter r =
     (case fill_delimiter r of
        (Err e, r) \<Rightarrow> (Err e, r)
      | (Ok _, r) \<Rightarrow>
          if take 2 (bb_available r) \<noteq> CRLF then (Err OriginInvalid, r) else (Ok (), consume 2 r))"

definition read_line ::
    "nat \<Rightarrow> 'a byte_buffer_scheme \<Rightarrow> (bytes, origin_error) result \<times> 'a byte_buffer_scheme" where
  "read_line limit r = (case read_crlf_line limit r of (x, r) \<Rightarrow> (map_err origin_of x, r))"

definition FORBIDDEN_ORIGIN_TRAILERS :: "bytes list" where
  "FORBIDDEN_ORIGIN_TRAILERS =
     [''connection'', ''content-length'', ''host'', ''keep-alive'', ''proxy-authenticate'',
      ''proxy-authorization'', ''proxy-connection'', ''te'', ''trailer'', ''transfer-encoding'',
      ''upgrade'', ''via'']"

definition validate_origin_trailers :: "'h http_crate \<Rightarrow> 'h \<Rightarrow> (unit, origin_error) result" where
  "validate_origin_trailers H trailers =
     (if list_ex (\<lambda>(name, _). name \<in> set FORBIDDEN_ORIGIN_TRAILERS) (hm_iter H trailers)
      then Err OriginInvalid else Ok ())"

definition read_trailers ::
    "'h http_crate \<Rightarrow> 'a byte_buffer_scheme \<Rightarrow> ('h, origin_error) result \<times> 'a byte_buffer_scheme" where
  "read_trailers H r =
     (case read_trailer_lines H (hm_new H) 0 r of
        (Err e, _, _, r) \<Rightarrow> (Err (origin_of e), r)
      | (Ok _, headers, _, r) \<Rightarrow>
          (and_then (validate_origin_trailers H headers) (\<lambda>_.
             map_err (\<lambda>_. OriginInvalid) (sanitize_hop_by_hop H headers)), r))"

section \<open>The decoder\<close>

datatype origin_state =
    OrgComplete
  | OrgFixed u64
  | OrgChunkSize
  | OrgChunkData u64
  | OrgChunkDataEnd
  | OrgTrailers
  | OrgCloseDelimited

record origin_decoder =
  od_state :: origin_state
  od_trailer_nominations :: "bytes list"

definition origin_decoder_new :: "origin_body_framing \<Rightarrow> bytes list \<Rightarrow> origin_decoder" where
  "origin_decoder_new framing trailer_nominations =
     \<lparr>od_state = (case framing of
                    OriginNoBody \<Rightarrow> OrgComplete
                  | OriginContentLength remaining \<Rightarrow> OrgFixed remaining
                  | OriginChunked \<Rightarrow> OrgChunkSize
                  | OriginCloseDelimited \<Rightarrow> OrgCloseDelimited),
      od_trailer_nominations = trailer_nominations\<rparr>"

definition origin_data_limit :: "u64 \<Rightarrow> nat" where
  "origin_data_limit remaining = min (unat remaining) APPLICATION_BUFFER_LIMIT"

primrec origin_rank :: "origin_state \<Rightarrow> nat" where
  "origin_rank OrgComplete = 0"
| "origin_rank (OrgFixed n) = 1"
| "origin_rank OrgTrailers = 1"
| "origin_rank (OrgChunkData n) = 1"
| "origin_rank OrgCloseDelimited = 1"
| "origin_rank OrgChunkSize = 2"
| "origin_rank OrgChunkDataEnd = 3"

function origin_next_frame ::
    "'h http_crate \<Rightarrow> origin_decoder \<Rightarrow> 'a byte_buffer_scheme
       \<Rightarrow> ('h body_frame option, origin_error) result \<times> origin_decoder \<times> 'a byte_buffer_scheme" where
  "origin_next_frame H d r =
     (case od_state d of
        OrgComplete \<Rightarrow> (Ok None, d, r)
      | OrgFixed remaining \<Rightarrow>
          if remaining = 0 then origin_next_frame H (d\<lparr>od_state := OrgComplete\<rparr>) r
          else
            (case read_data (origin_data_limit remaining) r of
               (Err e, r) \<Rightarrow> (Err e, d, r)
             | (Ok None, r) \<Rightarrow> (Err OriginIncomplete, d, r)
             | (Ok (Some data), r) \<Rightarrow>
                 (Ok (Some (DataFrame data)),
                  d\<lparr>od_state := OrgFixed (remaining - of_nat (length data))\<rparr>, r))
      | OrgChunkSize \<Rightarrow>
          (case read_line REQUEST_LINE_LIMIT r of
             (Err e, r) \<Rightarrow> (Err e, d, r)
           | (Ok line, r) \<Rightarrow>
               (case parse_chunk_size line of
                  Err _ \<Rightarrow> (Err OriginInvalid, d, r)
                | Ok len \<Rightarrow>
                    origin_next_frame H
                      (d\<lparr>od_state := if len = 0 then OrgTrailers else OrgChunkData len\<rparr>) r))
      | OrgChunkData remaining \<Rightarrow>
          (case read_data (origin_data_limit remaining) r of
             (Err e, r) \<Rightarrow> (Err e, d, r)
           | (Ok None, r) \<Rightarrow> (Err OriginIncomplete, d, r)
           | (Ok (Some data), r) \<Rightarrow>
               (let remaining = remaining - of_nat (length data)
                in (Ok (Some (DataFrame data)),
                    d\<lparr>od_state := if remaining = 0 then OrgChunkDataEnd else OrgChunkData remaining\<rparr>, r)))
      | OrgChunkDataEnd \<Rightarrow>
          (case read_exact_delimiter r of
             (Err e, r) \<Rightarrow> (Err e, d, r)
           | (Ok _, r) \<Rightarrow> origin_next_frame H (d\<lparr>od_state := OrgChunkSize\<rparr>) r)
      | OrgTrailers \<Rightarrow>
          (case read_trailers H r of
             (Err e, r) \<Rightarrow> (Err e, d, r)
           | (Ok trailers, r) \<Rightarrow>
               (let trailers = fold (hm_remove H) (od_trailer_nominations d) trailers;
                    d = d\<lparr>od_state := OrgComplete\<rparr>
                in if hm_iter H trailers = [] then (Ok None, d, r)
                   else (Ok (Some (TrailersFrame trailers)), d, r)))
      | OrgCloseDelimited \<Rightarrow>
          (case read_data APPLICATION_BUFFER_LIMIT r of
             (Err e, r) \<Rightarrow> (Err e, d, r)
           | (Ok None, r) \<Rightarrow> (Ok None, d\<lparr>od_state := OrgComplete\<rparr>, r)
           | (Ok (Some data), r) \<Rightarrow> (Ok (Some (DataFrame data)), d, r)))"
  by pat_completeness auto
termination
  by (relation "measure (\<lambda>(H, d, r). origin_rank (od_state d))") auto

declare origin_next_frame.simps [simp del]

section \<open>The origin decoder meets the contract\<close>

lemma fill_delimiter_Ok:
  assumes "fill_delimiter r = (Ok (), r')" and "bb_wf r"
  shows "bb_pending r' = bb_pending r \<and> 2 \<le> length (bb_available r') \<and> bb_wf r'"
  using assms
proof (induction r rule: fill_delimiter.induct)
  case (1 r)
  show ?case
  proof (cases "length (bb_buffer r) - bb_start r < 2")
    case True
    then obtain n x where read: "read_into 2 (compact r) = (Some n, x)" and "n \<noteq> 0"
      and rec: "fill_delimiter x = (Ok (), r')"
      using "1.prems"(1)
      by (auto simp: fill_delimiter.simps [of r] split: if_splits prod.splits option.splits)
    have "2 \<le> CONNECTION_BUFFER_LIMIT"
      by (simp add: CONNECTION_BUFFER_LIMIT_def REQUEST_LINE_LIMIT_def)
    note m = read_into_Some [OF read bb_wf_compact [OF "1.prems"(2)] this]
    have "bb_pending r' = bb_pending x \<and> 2 \<le> length (bb_available r') \<and> bb_wf r'"
      using "1.IH" [OF True read [symmetric] refl \<open>n \<noteq> 0\<close> rec] m(6) by simp
    then show ?thesis
      using m by simp
  next
    case False
    then show ?thesis
      using "1.prems" by (simp add: fill_delimiter.simps [of r] bb_available_def)
  qed
qed

lemma read_exact_delimiter_Ok:
  assumes "read_exact_delimiter r = (Ok (), r')" and "bb_wf r"
  shows "bb_pending r = CRLF @ bb_pending r' \<and> bb_wf r'"
proof -
  obtain x where fill: "fill_delimiter r = (Ok (), x)" and "take 2 (bb_available x) = CRLF"
    and "r' = consume 2 x"
    using assms(1) by (auto simp: read_exact_delimiter_def split: prod.splits result.splits if_splits)
  then show ?thesis
    using fill_delimiter_Ok [OF fill assms(2)] bb_pending_consume [of 2 x] bb_wf_consume [of x 2] by simp
qed

lemma response_limit_pos: "0 < maximum \<Longrightarrow> 0 < min (min maximum RESPONSE_BODY_FRAME_LIMIT) APPLICATION_BUFFER_LIMIT"
  by (simp add: RESPONSE_BODY_FRAME_LIMIT_def APPLICATION_BUFFER_LIMIT_def CHUNK_PREFIX_LIMIT_def)

lemma read_data_Ok:
  assumes "read_data maximum r = (Ok x, r')" and "bb_wf r" and "0 < maximum"
  shows "bb_wf r' \<and> (case x of
      Some d \<Rightarrow> bb_pending r = d @ bb_pending r' \<and> d \<noteq> [] \<and> length d \<le> maximum
        \<and> length d \<le> RESPONSE_BODY_FRAME_LIMIT
    | None \<Rightarrow> bb_pending r = [] \<and> bb_pending r' = [])"
proof (cases "bb_available r = []")
  case True
  then have "bb_start r = length (bb_buffer r)"
    using assms(2) by (simp add: bb_available_def bb_wf_def)
  then have "read_fresh (min (min maximum RESPONSE_BODY_FRAME_LIMIT) APPLICATION_BUFFER_LIMIT) r = (Some x, r')"
    using assms(1) by (auto simp: read_data_def Let_def split: prod.splits option.splits)
  from read_fresh_Some [OF this assms(2) True response_limit_pos [OF assms(3)]] show ?thesis
    by (auto split: option.splits)
next
  case False
  then have "bb_start r \<noteq> length (bb_buffer r)"
    by (auto simp: bb_available_def)
  then obtain d where take: "take_buffered (min (min maximum RESPONSE_BODY_FRAME_LIMIT) APPLICATION_BUFFER_LIMIT) r = (d, r')"
    and "x = Some d"
    using assms(1) by (auto simp: read_data_def Let_def split: prod.splits)
  then show ?thesis
    using take_buffered_prefix [OF take assms(2)] response_limit_pos [OF assms(3)] False by auto
qed

lemma read_trailers_Ok:
  assumes "read_trailers H r = (Ok trailers, r')" and "bb_wf r"
  shows "\<exists>headers. trailer_section H (hm_new H) (bb_pending r) headers (bb_pending r')
    \<and> validate_origin_trailers H headers = Ok () \<and> sanitize_hop_by_hop H headers = Ok trailers \<and> bb_wf r'"
proof -
  obtain headers n where lines: "read_trailer_lines H (hm_new H) 0 r = (Ok (), headers, n, r')"
    and "validate_origin_trailers H headers = Ok ()" and "sanitize_hop_by_hop H headers = Ok trailers"
    using assms(1) by (auto simp: read_trailers_def split: prod.splits result.splits)
  then show ?thesis
    using read_trailer_lines_Ok [OF lines assms(2)] by blast
qed

primrec origin_phase :: "origin_state \<Rightarrow> body_phase" where
  "origin_phase OrgComplete = P_Done"
| "origin_phase (OrgFixed n) = P_Fixed (unat n)"
| "origin_phase OrgChunkSize = P_Size"
| "origin_phase (OrgChunkData n) = P_Data (unat n)"
| "origin_phase OrgChunkDataEnd = P_End"
| "origin_phase OrgTrailers = P_Trailers"
| "origin_phase OrgCloseDelimited = P_Close"

type_synonym 'a origin_body = "origin_decoder \<times> 'a byte_buffer_scheme"

fun origin_step :: "'h http_crate \<Rightarrow> ('a origin_body, 'h, origin_error) decoder_step" where
  "origin_step H (d, r) = (case origin_next_frame H d r of (x, d, r) \<Rightarrow> (x, (d, r)))"

fun origin_view :: "'a origin_body \<Rightarrow> body_phase \<times> bytes" where
  "origin_view (d, r) = (origin_phase (od_state d), bb_pending r)"

fun origin_wf :: "'a origin_body \<Rightarrow> bool" where
  "origin_wf (d, r) \<longleftrightarrow> bb_wf r \<and> od_state d \<noteq> OrgChunkData 0"

lemma read_data_limit:
  assumes "read_data (origin_data_limit n) r = (Ok (Some x), r')" and "bb_wf r" and "n \<noteq> 0"
  shows "bb_pending r = x @ bb_pending r'" and "x \<noteq> []" and "bb_wf r'"
    and "unat n = length x + unat (n - of_nat (length x))"
proof -
  have "0 < origin_data_limit n"
    using assms(3) by (simp add: origin_data_limit_def APPLICATION_BUFFER_LIMIT_def unat_gt_0)
  then have *: "bb_pending r = x @ bb_pending r' \<and> x \<noteq> [] \<and> length x \<le> origin_data_limit n \<and> bb_wf r'"
    using read_data_Ok [OF assms(1,2)] by simp
  then show "bb_pending r = x @ bb_pending r'" and "x \<noteq> []" and "bb_wf r'"
    by simp_all
  show "unat n = length x + unat (n - of_nat (length x))"
    using * by (intro unat_remaining) (simp add: origin_data_limit_def)
qed

lemma origin_next_frame_law:
  assumes "origin_next_frame H d r = (Ok x, d', r')" and "origin_wf (d, r)"
  shows "origin_wf (d', r') \<and> frame_law H (origin_view (d, r)) x (origin_view (d', r'))"
  using assms
proof (induction H d r rule: origin_next_frame.induct)
  case (1 H d r)
  have wf: "bb_wf r"
    using "1.prems"(2) by simp
  note step = "1.prems"(1) [unfolded origin_next_frame.simps [of H d r]]
  show ?case
  proof (cases "od_state d")
    case OrgComplete
    then show ?thesis
      using step "1.prems"(2) by (auto simp: frame_law_def extends_refl)
  next
    case (OrgFixed n)
    show ?thesis
    proof (cases "n = 0")
      case True
      then show ?thesis
        using step OrgFixed "1.IH"(1) "1.prems"(2) extends_fixed_0 [of H "bb_pending r"]
        by (auto intro: frame_law_step)
    next
      case False
      then obtain y where read: "read_data (origin_data_limit n) r = (Ok (Some y), r')"
        and "x = Some (DataFrame y)" and "d' = d\<lparr>od_state := OrgFixed (n - of_nat (length y))\<rparr>"
        using step OrgFixed by (auto split: prod.splits result.splits option.splits)
      then show ?thesis
        using read_data_limit [OF read wf False] OrgFixed by (simp add: frame_law_def extends_fixed)
    qed
  next
    case (OrgChunkData n)
    have n: "n \<noteq> 0"
      using "1.prems"(2) OrgChunkData by auto
    let ?m = "\<lambda>y. n - of_nat (length y)"
    obtain y where read: "read_data (origin_data_limit n) r = (Ok (Some y), r')"
      and "x = Some (DataFrame y)"
      and "d' = d\<lparr>od_state := if ?m y = 0 then OrgChunkDataEnd else OrgChunkData (?m y)\<rparr>"
      using step OrgChunkData by (auto simp: Let_def split: prod.splits result.splits option.splits)
    then show ?thesis
      using read_data_limit [OF read wf n] OrgChunkData
      by (auto simp: frame_law_def extends_data extends_data_end)
  next
    case OrgChunkSize
    then obtain line len y where line: "read_line REQUEST_LINE_LIMIT r = (Ok line, y)"
      and len: "parse_chunk_size line = Ok len"
      and rec: "origin_next_frame H (d\<lparr>od_state := if len = 0 then OrgTrailers else OrgChunkData len\<rparr>) y
                  = (Ok x, d', r')"
      using step by (auto split: prod.splits result.splits)
    have "read_crlf_line REQUEST_LINE_LIMIT r = (Ok line, y)"
      using line by (auto simp: read_line_def split: prod.splits)
    from read_crlf_line_Ok [OF this wf] have p: "bb_pending r = line @ CRLF @ bb_pending y"
      and "crlf_free line" and wfy: "bb_wf y"
      by simp_all
    then have "extends H (origin_view (d, r)) []
        (origin_view (d\<lparr>od_state := if len = 0 then OrgTrailers else OrgChunkData len\<rparr>, y))"
      using extends_size [OF _ len, of H "bb_pending y"] OrgChunkSize by auto
    then show ?thesis
      using "1.IH"(2) [OF OrgChunkSize line [symmetric] refl len rec] wfy
      by (auto intro: frame_law_step)
  next
    case OrgChunkDataEnd
    then obtain y where del: "read_exact_delimiter r = (Ok (), y)"
      and rec: "origin_next_frame H (d\<lparr>od_state := OrgChunkSize\<rparr>) y = (Ok x, d', r')"
      using step by (auto split: prod.splits result.splits)
    note e = read_exact_delimiter_Ok [OF del wf]
    then have "extends H (origin_view (d, r)) [] (origin_view (d\<lparr>od_state := OrgChunkSize\<rparr>, y))"
      using extends_end [of H] OrgChunkDataEnd by simp
    then show ?thesis
      using "1.IH"(3) [OF OrgChunkDataEnd del [symmetric] refl rec] e by (auto intro: frame_law_step)
  next
    case OrgTrailers
    then obtain trailers where t: "read_trailers H r = (Ok trailers, r')"
      and "d' = d\<lparr>od_state := OrgComplete\<rparr>" and "x = None \<or> (\<exists>h. x = Some (TrailersFrame h))"
      using step by (auto simp: Let_def split: prod.splits result.splits if_splits)
    then show ?thesis
      using read_trailers_Ok [OF t wf] OrgTrailers extends_trailers by (auto simp: frame_law_def)
  next
    case OrgCloseDelimited
    have "0 < APPLICATION_BUFFER_LIMIT"
      by (simp add: APPLICATION_BUFFER_LIMIT_def)
    note read = read_data_Ok [OF _ wf this]
    from OrgCloseDelimited step obtain y where y: "read_data APPLICATION_BUFFER_LIMIT r = (Ok y, r')"
      and "x = map_option DataFrame y" and "d' = (if y = None then d\<lparr>od_state := OrgComplete\<rparr> else d)"
      by (auto split: prod.splits result.splits option.splits)
    then show ?thesis
      using read [OF y] OrgCloseDelimited extends_close [of H _ "bb_pending r'"] extends_close_end [of H]
      by (auto simp: frame_law_def split: option.splits)
  qed
qed

interpretation origin_body:
  body_decoder H "origin_step H :: ('a origin_body, 'h, origin_error) decoder_step"
    origin_view origin_wf
  for H :: "'h http_crate"
proof
  fix s s' :: "'a origin_body" and d t
  show "origin_step H s = (Ok (Some (DataFrame d)), s') \<Longrightarrow> origin_wf s \<Longrightarrow>
      origin_wf s' \<and> extends H (origin_view s) d (origin_view s') \<and> d \<noteq> []"
    using origin_next_frame_law [of H "fst s" "snd s" _ "fst s'" "snd s'"]
    by (cases s) (auto simp: frame_law_def split: prod.splits)
  show "origin_step H s = (Ok (Some (TrailersFrame t)), s') \<Longrightarrow> origin_wf s \<Longrightarrow>
      origin_wf s' \<and> extends H (origin_view s) [] (origin_view s') \<and> fst (origin_view s') = P_Done"
    using origin_next_frame_law [of H "fst s" "snd s" _ "fst s'" "snd s'"]
    by (cases s) (auto simp: frame_law_def split: prod.splits)
  show "origin_step H s = (Ok None, s') \<Longrightarrow> origin_wf s \<Longrightarrow>
      origin_wf s' \<and> extends H (origin_view s) [] (origin_view s') \<and> fst (origin_view s') = P_Done"
    using origin_next_frame_law [of H "fst s" "snd s" _ "fst s'" "snd s'"]
    by (cases s) (auto simp: frame_law_def split: prod.splits)
qed

primrec origin_framing_phase :: "origin_body_framing \<Rightarrow> body_phase" where
  "origin_framing_phase OriginNoBody = P_Done"
| "origin_framing_phase (OriginContentLength n) = P_Fixed (unat n)"
| "origin_framing_phase OriginChunked = P_Size"
| "origin_framing_phase OriginCloseDelimited = P_Close"

lemma origin_decoder_new_state [simp]:
  "origin_phase (od_state (origin_decoder_new framing names)) = origin_framing_phase framing"
  "od_state (origin_decoder_new framing names) \<noteq> OrgChunkData 0"
  by (cases framing; simp add: origin_decoder_new_def)+

section \<open>Returning the connection\<close>

definition origin_reusable :: "'a byte_buffer_scheme \<Rightarrow> bool" where
  "origin_reusable origin \<longleftrightarrow> bb_start origin = length (bb_buffer origin)"

type_synonym 'k origin_pool = "('k, origin_reader) idle_pool_data"

definition take_origin :: "nat \<Rightarrow> 'k \<Rightarrow> 'k origin_pool \<Rightarrow> origin_reader option \<times> 'k origin_pool" where
  "take_origin now key pool = take_if_reusable now key origin_reusable pool"

text \<open>
  The state of a body that is being streamed. The reader and the writer are taken out of it by
  \<open>finish\<close> only, after which it is dropped, so a state that can be polled has both. The
  shutdown phase it watches is an input of each step: \<open>forced\<close> says that the forced phase is
  reached before the frame is complete.
\<close>

record 'k origin_body_state =
  ob_reader :: origin_reader
  ob_decoder :: origin_decoder
  ob_key :: 'k
  ob_poolable :: bool

datatype body_error = Cancelled | OriginFailed origin_error

definition finish :: "nat \<Rightarrow> 'k origin_body_state \<Rightarrow> 'k origin_pool \<Rightarrow> 'k origin_pool" where
  "finish now st pool =
     (if ob_poolable st then put_if_reusable now (ob_key st) (ob_reader st) origin_reusable pool
      else pool)"

definition advance ::
    "'h http_crate \<Rightarrow> nat \<Rightarrow> bool \<Rightarrow> 'k origin_body_state \<Rightarrow> 'k origin_pool
       \<Rightarrow> 'k origin_body_state option \<times> ('h body_frame option, body_error) result \<times> 'k origin_pool" where
  "advance H now forced st pool =
     (if forced then (None, Err Cancelled, pool)
      else
        case origin_next_frame H (ob_decoder st) (ob_reader st) of
          (result, decoder, reader) \<Rightarrow>
            (let st = st\<lparr>ob_reader := reader, ob_decoder := decoder\<rparr>
             in case result of
                  Ok (Some frame) \<Rightarrow> (Some st, Ok (Some frame), pool)
                | Ok None \<Rightarrow> (None, Ok None, finish now st pool)
                | Err error \<Rightarrow> (None, Err (OriginFailed error), pool)))"

text \<open>A body whose poll is pending is the same body, so only completed polls are steps.\<close>

datatype 'k streaming_body = StreamReady "'k origin_body_state" | StreamDone

record origin_body_config =
  oc_framing :: origin_body_framing
  oc_trailer_nominations :: "bytes list"
  oc_poolable :: bool

definition streaming_new ::
    "nat \<Rightarrow> origin_reader \<Rightarrow> 'k \<Rightarrow> 'k origin_pool \<Rightarrow> origin_body_config
       \<Rightarrow> 'k streaming_body \<times> 'k origin_pool" where
  "streaming_new now reader key pool config =
     (if oc_framing config = OriginNoBody
      then (StreamDone,
            if oc_poolable config then put_if_reusable now key reader origin_reusable pool else pool)
      else
        (StreamReady
           \<lparr>ob_reader = reader,
            ob_decoder = origin_decoder_new (oc_framing config) (oc_trailer_nominations config),
            ob_key = key, ob_poolable = oc_poolable config\<rparr>,
         pool))"

definition poll_frame ::
    "'h http_crate \<Rightarrow> nat \<Rightarrow> bool \<Rightarrow> 'k streaming_body \<Rightarrow> 'k origin_pool
       \<Rightarrow> ('h body_frame, body_error) result option \<times> 'k streaming_body \<times> 'k origin_pool" where
  "poll_frame H now forced body pool =
     (case body of
        StreamDone \<Rightarrow> (None, StreamDone, pool)
      | StreamReady st \<Rightarrow>
          (case advance H now forced st pool of
             (st, Ok (Some frame), pool) \<Rightarrow> (Some (Ok frame), StreamReady (the st), pool)
           | (_, Ok None, pool) \<Rightarrow> (None, StreamDone, pool)
           | (_, Err error, pool) \<Rightarrow> (Some (Err error), StreamDone, pool)))"

text \<open>A consumer polls a body at some times, and the shutdown phase changes as it may.\<close>

inductive streams ::
    "'h http_crate \<Rightarrow> 'k streaming_body \<Rightarrow> 'k origin_pool \<Rightarrow> ('h body_frame, body_error) result option list
       \<Rightarrow> 'k streaming_body \<Rightarrow> 'k origin_pool \<Rightarrow> bool" for H where
  idle: "streams H body pool [] body pool"
| poll: "poll_frame H now forced body pool = (x, body1, pool1) \<Longrightarrow>
    streams H body1 pool1 xs body' pool' \<Longrightarrow> streams H body pool (x # xs) body' pool'"

fun delivered :: "('h body_frame, 'e) result option list \<Rightarrow> bytes" where
  "delivered [] = []"
| "delivered (None # xs) = []"
| "delivered (Some (Ok (DataFrame d)) # xs) = d @ delivered xs"
| "delivered (_ # xs) = delivered xs"

definition returned_clean ::
    "'h http_crate \<Rightarrow> 'k origin_body_state \<Rightarrow> bytes \<Rightarrow> 'k \<Rightarrow> origin_reader \<Rightarrow> bool" where
  "returned_clean H st data k v \<longleftrightarrow>
     ob_poolable st \<and> k = ob_key st \<and> origin_reusable v \<and>
     body_of H (fst (origin_view (ob_decoder st, ob_reader st)))
       (snd (origin_view (ob_decoder st, ob_reader st))) data (bb_pending v)"

lemma finish_held:
  "(k, v) \<in> pool_held (finish now st pool) \<Longrightarrow> (k, v) \<notin> pool_held pool \<Longrightarrow>
     ob_poolable st \<and> k = ob_key st \<and> v = ob_reader st \<and> origin_reusable v"
  using put_held [of now "ob_key st" "ob_reader st" origin_reusable pool]
  by (auto simp: finish_def split: if_splits)

lemma streams_returned_clean:
  assumes "streams H body pool xs body' pool'" and "(k, v) \<in> pool_held pool'"
    and "(k, v) \<notin> pool_held pool"
  shows "case body of StreamDone \<Rightarrow> False
    | StreamReady st \<Rightarrow> origin_wf (ob_decoder st, ob_reader st) \<longrightarrow> returned_clean H st (delivered xs) k v"
  using assms
proof (induction rule: streams.induct)
  case (poll now forced body pool x body1 pool1 xs body' pool')
  show ?case
  proof (cases body)
    case StreamDone
    then show ?thesis
      using poll by (auto simp: poll_frame_def)
  next
    case (StreamReady st)
    have ?thesis if wf: "origin_wf (ob_decoder st, ob_reader st)"
    proof -
      obtain result decoder reader where
        frame: "origin_next_frame H (ob_decoder st) (ob_reader st) = (result, decoder, reader)"
        by (metis prod_cases3)
      let ?st = "st\<lparr>ob_reader := reader, ob_decoder := decoder\<rparr>"
      have live: "\<not> forced"
        using poll StreamReady by (auto simp: poll_frame_def advance_def)
      show ?thesis
      proof (cases result)
        case (Err e)
        then show ?thesis
          using poll StreamReady frame live by (auto simp: poll_frame_def advance_def Let_def)
      next
        case (Ok f)
        note law = origin_next_frame_law [OF frame [unfolded Ok] wf]
        show ?thesis
        proof (cases f)
          case None
          then have "x = None" and "body1 = StreamDone" and "pool1 = finish now ?st pool"
            using poll(1) StreamReady frame live Ok by (auto simp: poll_frame_def advance_def Let_def)
          moreover then have "(k, v) \<in> pool_held (finish now ?st pool)"
            using poll by (cases "(k, v) \<in> pool_held pool1") auto
          ultimately show ?thesis
            using finish_held [of k v now ?st pool] poll(5) StreamReady law None
              body_of.complete [of H "bb_pending reader"]
            by (auto simp: returned_clean_def frame_law_def extends_def)
        next
          case (Some g)
          then have "x = Some (Ok g)" and body1: "body1 = StreamReady ?st" and "pool1 = pool"
            using poll(1) StreamReady frame live Ok by (auto simp: poll_frame_def advance_def Let_def)
          moreover then have "returned_clean H ?st (delivered xs) k v"
            using poll law by simp
          ultimately show ?thesis
            using StreamReady law Some
            by (cases g) (auto simp: returned_clean_def frame_law_def extends_def)
        qed
      qed
    qed
    then show ?thesis
      using StreamReady by simp
  qed
qed simp

lemma streams_new_returned_clean:
  assumes "streaming_new now r key pool config = (body, pool1)"
    and "streams H body pool1 xs body' pool2" and "bb_wf r"
    and "(k, v) \<in> pool_held pool2" and "(k, v) \<notin> pool_held pool"
  shows "oc_poolable config \<and> k = key \<and> origin_reusable v \<and>
    body_of H (origin_framing_phase (oc_framing config)) (bb_pending r) (delivered xs) (bb_pending v)"
proof (cases "oc_framing config = OriginNoBody")
  case True
  then have body: "body = StreamDone"
    and pool1: "pool1 = (if oc_poolable config then put_if_reusable now key r origin_reusable pool else pool)"
    using assms(1) by (auto simp: streaming_new_def)
  then have "(k, v) \<in> pool_held pool1"
    using streams_returned_clean [OF assms(2,4)] by (cases "(k, v) \<in> pool_held pool1") auto
  then have "oc_poolable config \<and> k = key \<and> v = r \<and> origin_reusable v"
    using put_held [of now key r origin_reusable pool] assms(5) by (auto simp: pool1 split: if_splits)
  moreover have "delivered xs = []"
    using assms(2) by (cases rule: streams.cases) (auto simp: body poll_frame_def)
  ultimately show ?thesis
    using True body_of.complete [of H "bb_pending r"] by auto
next
  case False
  then show ?thesis
    using assms(1) streams_returned_clean [OF assms(2,4)] assms(3,5)
    by (auto simp: streaming_new_def returned_clean_def)
qed

section \<open>Properties\<close>

text \<open>
  The two decoders of the proxy agree. On the same bytes with the same framing, the
  decoder of request bodies and the decoder of response bodies, which are separate code, find
  the same data and the same end, however each of them splits the reads. A body that passes
  one side of the proxy cannot hide a second message from the other side.
\<close>

theorem decoders_agree:
  assumes "drains (request_step H) (body_decoder_new H framing, c) data1 (d1, c')"
    and "drains (origin_step H) (origin_decoder_new oframing names, r) data2 (d2, r')"
    and "framing_phase framing = origin_framing_phase oframing"
    and "bb_wf c" and "bb_wf r" and "bb_pending c = bb_pending r"
  shows "data1 = data2 \<and> bb_pending c' = bb_pending r'"
  using request_body.drains_body [OF assms(1) request_wf_new [OF assms(4)]]
    origin_body.drains_body [OF assms(2)] assms(3,5,6)
    body_of_unique [of H "framing_phase framing" "bb_pending c" data1 "bb_pending c'" data2 "bb_pending r'"]
  by simp

definition example_origin :: origin_reader where
  "example_origin = http_origin_new
     [ReadData (''5'' @ CRLF @ ''hello''), ReadData (CRLF @ ''0'' @ CRLF), ReadData (CRLF @ ''GET'')]"

lemma example_origin_drains:
  "\<exists>s. drains (origin_step list_crate) (origin_decoder_new OriginChunked [], example_origin) ''hello'' s"
proof -
  let ?step = "origin_step list_crate"
  let ?s = "(origin_decoder_new OriginChunked [], example_origin)"
  have s1: "?step ?s = (Ok (Some (DataFrame ''hello'')), snd (?step ?s))"
    and s2: "?step (snd (?step ?s)) = (Ok None, snd (?step (snd (?step ?s))))"
    by code_simp+
  have "drains ?step ?s (''hello'' @ []) (snd (?step (snd (?step ?s))))"
    by (rule drains.data_frame, rule s1, rule drains.finished, rule s2)
  then show ?thesis
    unfolding append_Nil2 by blast
qed

theorem decoders_agree_witness:
  "\<exists>c r. drains (request_step list_crate) (body_decoder_new list_crate Chunked, example_chunked) ''hello'' c
     \<and> drains (origin_step list_crate) (origin_decoder_new OriginChunked [], example_origin) ''hello'' r
     \<and> bb_pending (snd c) = bb_pending (snd r)"
proof -
  obtain d1 c1 where one: "drains (request_step list_crate)
      (body_decoder_new list_crate Chunked, example_chunked) ''hello'' (d1, c1)"
    using example_chunked_drains by blast
  obtain d2 r2 where two: "drains (origin_step list_crate)
      (origin_decoder_new OriginChunked [], example_origin) ''hello'' (d2, r2)"
    using example_origin_drains by (metis prod.collapse)
  have "bb_wf example_origin" and "bb_pending example_chunked = bb_pending example_origin"
    by (simp_all add: example_chunked_def http1_connection_new_def example_origin_def http_origin_new_def
        bb_wf_def script_ok_def bb_pending_def bb_available_def)
  with decoders_agree [OF one two _ example_chunked_wf] one two show ?thesis
    by (intro exI [of _ "(d1, c1)"] exI [of _ "(d2, r2)"]) simp
qed

text \<open>
  C37: the pool only ever gets clean connections back. Whatever polls a consumer makes and
  whenever the shutdown is forced, the one connection that a response can add to the pool is
  its own, under its own key, when the response allows reuse; then the body has been delivered
  completely, exactly as the bytes of the stream say, and no byte that was read is left in the
  reader to be taken for the next response.
\<close>

theorem pooled_origin_is_clean:
  assumes "streaming_new now r key pool config = (body, pool1)"
    and "streams H body pool1 xs body' pool2" and "bb_wf r"
    and "(k, v) \<in> pool_held pool2" and "(k, v) \<notin> pool_held pool"
  shows "oc_poolable config \<and> k = key \<and> origin_reusable v \<and>
    body_of H (origin_framing_phase (oc_framing config)) (bb_pending r) (delivered xs) (bb_pending v)"
  using assms by (rule streams_new_returned_clean)

lemma poll_frame_split:
  "poll_frame H now forced b p =
     (fst (poll_frame H now forced b p), fst (snd (poll_frame H now forced b p)),
      snd (snd (poll_frame H now forced b p)))"
  by simp

lemma pool_held_key: "map fst (po_entries p) = [k] \<Longrightarrow> \<exists>v. (k, v) \<in> pool_held p"
  by (force simp: pool_held_def map_eq_Cons_conv)

definition example_response :: origin_reader where
  "example_response = http_origin_new [ReadData ''hello'']"

definition example_config :: origin_body_config where
  "example_config = \<lparr>oc_framing = OriginContentLength 5, oc_trailer_nominations = [], oc_poolable = True\<rparr>"

theorem pooled_origin_is_clean_witness:
  "\<exists>v. body_of list_crate (P_Fixed 5) ''hello'' ''hello'' (bb_pending (v :: origin_reader)) \<and> origin_reusable v"
proof -
  let ?pool = "pool_build 4 60 :: nat origin_pool"
  let ?new = "streaming_new 1 example_response 7 ?pool example_config"
  let ?one = "poll_frame list_crate 2 False (fst ?new) (snd ?new)"
  let ?two = "poll_frame list_crate 3 False (fst (snd ?one)) (snd (snd ?one))"
  have run: "streams list_crate (fst ?new) (snd ?new) [fst ?one, fst ?two] (fst (snd ?two)) (snd (snd ?two))"
    using streams.poll [OF poll_frame_split streams.poll [OF poll_frame_split streams.idle]] .
  have "map fst (po_entries (snd (snd ?two))) = [7]"
    and one: "fst ?one = Some (Ok (DataFrame ''hello''))" and two: "fst ?two = None"
    by code_simp+
  from pool_held_key [OF this(1)] obtain v where v: "(7, v) \<in> pool_held (snd (snd ?two))" ..
  have empty: "(7, v) \<notin> pool_held ?pool"
    by (simp add: pool_held_def pool_build_def)
  have "bb_wf example_response" and p: "bb_pending example_response = ''hello''"
    by (simp_all add: example_response_def http_origin_new_def bb_wf_def script_ok_def bb_pending_def
        bb_available_def)
  from pooled_origin_is_clean [OF prod.collapse [symmetric] run this(1) v empty] show ?thesis
    unfolding one two p by (intro exI [of _ v]) (simp add: example_config_def)
qed

end
