(* ===== verification/Byte_Sink.thy ===== *)
theory Byte_Sink
  imports Body_Spec
begin

text \<open>
  The write side of a connection and the encoding of a body. A socket that is written to is the
  sequence of what its write calls will do, interleaved with the events of other parties that a
  writer may give way to: the shutdown phases, a departed peer, the end of one scheduler turn.
  When the sequence is used up every write is accepted whole. The response writer
  (\<open>server/response.rs\<close>) and the request writer (\<open>connect/forward.rs\<close>) share the encoding of
  chunks, and its lemma says that the encoding decodes to the body it encodes.
\<close>

section \<open>Writing\<close>

datatype sink_event = Accepts nat | WriteFails | ShutdownBegins | ShutdownForces | PeerClosed | Yielded

datatype write_error = WriteFailed | WriteZero | Interrupted sink_event | BodyFailed

record byte_sink =
  sk_events :: "sink_event list"
  sk_out :: bytes

text \<open>
  A biased select around a write: the first event of another party that the writer watches for
  is taken before the write; the ones it does not watch for pass unnoticed.
\<close>

fun give_way :: "sink_event list \<Rightarrow> sink_event list \<Rightarrow> sink_event option \<times> sink_event list" where
  "give_way watched [] = (None, [])"
| "give_way watched (Accepts n # events) = (None, Accepts n # events)"
| "give_way watched (WriteFails # events) = (None, WriteFails # events)"
| "give_way watched (e # events) =
     (if e \<in> set watched then (Some e, events) else give_way watched events)"

text \<open>One \<open>write\<close>: how many of the offered bytes were taken.\<close>

fun io_write :: "bytes \<Rightarrow> sink_event list \<Rightarrow> nat option \<times> sink_event list" where
  "io_write bs [] = (Some (length bs), [])"
| "io_write bs (Accepts n # events) = (Some (min n (length bs)), events)"
| "io_write bs (WriteFails # events) = (None, events)"
| "io_write bs (_ # events) = io_write bs events"

definition sink_write ::
    "sink_event list \<Rightarrow> bytes \<Rightarrow> 'a byte_sink_scheme \<Rightarrow> (nat, write_error) result \<times> 'a byte_sink_scheme" where
  "sink_write watched bs k =
     (case give_way watched (sk_events k) of
        (Some e, events) \<Rightarrow> (Err (Interrupted e), k\<lparr>sk_events := events\<rparr>)
      | (None, events) \<Rightarrow>
          (case io_write bs events of
             (None, events) \<Rightarrow> (Err WriteFailed, k\<lparr>sk_events := events\<rparr>)
           | (Some n, events) \<Rightarrow> (Ok n, k\<lparr>sk_events := events, sk_out := sk_out k @ take n bs\<rparr>)))"

lemma io_write_le: "io_write bs events = (Some n, events') \<Longrightarrow> n \<le> length bs"
  by (induction bs events rule: io_write.induct) auto

lemma sink_write_Ok:
  "sink_write watched bs k = (Ok n, k') \<Longrightarrow> n \<le> length bs \<and> sk_out k' = sk_out k @ take n bs"
  by (auto simp: sink_write_def dest: io_write_le split: prod.splits option.splits)

lemma sink_write_Err: "sink_write watched bs k = (Err e, k') \<Longrightarrow> sk_out k' = sk_out k"
  by (auto simp: sink_write_def split: prod.splits option.splits)

function write_all ::
    "sink_event list \<Rightarrow> bytes \<Rightarrow> 'a byte_sink_scheme \<Rightarrow> (unit, write_error) result \<times> 'a byte_sink_scheme" where
  "write_all watched bs k =
     (if bs = [] then (Ok (), k)
      else
        case sink_write watched bs k of
          (Err e, k) \<Rightarrow> (Err e, k)
        | (Ok n, k) \<Rightarrow> if n = 0 then (Err WriteZero, k) else write_all watched (drop n bs) k)"
  by pat_completeness auto
termination
  by (relation "measure (\<lambda>(watched, bs, k). length bs)") auto

declare write_all.simps [simp del]

lemma write_all_Ok: "write_all watched bs k = (Ok (), k') \<Longrightarrow> sk_out k' = sk_out k @ bs"
proof (induction watched bs k rule: write_all.induct)
  case (1 watched bs k)
  show ?case
  proof (cases "bs = []")
    case False
    then obtain n k1 where w: "sink_write watched bs k = (Ok n, k1)" and "n \<noteq> 0"
      and "write_all watched (drop n bs) k1 = (Ok (), k')"
      using "1.prems" by (auto simp: write_all.simps [of _ bs k] split: prod.splits result.splits if_splits)
    then show ?thesis
      using "1.IH" [OF False w [symmetric] refl \<open>n \<noteq> 0\<close>] sink_write_Ok [OF w] by simp
  qed (use 1 in \<open>simp add: write_all.simps\<close>)
qed

text \<open>A write that fails has written a proper prefix of the bytes.\<close>

lemma write_all_Err:
  "write_all watched bs k = (Err e, k') \<Longrightarrow> \<exists>p. strict_prefix p bs \<and> sk_out k' = sk_out k @ p"
proof (induction watched bs k rule: write_all.induct)
  case (1 watched bs k)
  have bs: "bs \<noteq> []"
    using "1.prems" by (auto simp: write_all.simps)
  obtain x k1 where w: "sink_write watched bs k = (x, k1)"
    by fastforce
  show ?case
  proof (cases "\<exists>n. x = Ok n \<and> n \<noteq> 0")
    case True
    then obtain n where x: "x = Ok n" "n \<noteq> 0"
      by blast
    with "1.prems" bs w have "write_all watched (drop n bs) k1 = (Err e, k')"
      by (simp add: write_all.simps [of _ bs k])
    then obtain p where p: "strict_prefix p (drop n bs)" and "sk_out k' = sk_out k1 @ p"
      using "1.IH" [OF bs w [symmetric] x] by blast
    moreover have "sk_out k1 = sk_out k @ take n bs"
      using sink_write_Ok w x by blast
    moreover have "strict_prefix (take n bs @ p) (take n bs @ drop n bs)"
      using p by (simp add: strict_prefix_def del: append_take_drop_id)
    ultimately show ?thesis
      by (intro exI [of _ "take n bs @ p"]) simp
  next
    case False
    then have "k' = k1"
      using "1.prems" bs w by (auto simp: write_all.simps [of _ bs k] split: result.splits if_splits)
    moreover have "sk_out k1 = sk_out k"
      using w False sink_write_Err [of watched bs k _ k1] sink_write_Ok [of watched bs k 0 k1]
      by (cases x) auto
    ultimately show ?thesis
      using bs by (intro exI [of _ "[]"]) (simp add: strict_prefix_def)
  qed
qed

text \<open>Writes one after the other, each awaited before the next.\<close>

fun write_parts ::
    "sink_event list \<Rightarrow> bytes list \<Rightarrow> 'a byte_sink_scheme \<Rightarrow> (unit, write_error) result \<times> 'a byte_sink_scheme" where
  "write_parts watched [] k = (Ok (), k)"
| "write_parts watched (bs # parts) k =
     (case write_all watched bs k of
        (Err e, k) \<Rightarrow> (Err e, k)
      | (Ok _, k) \<Rightarrow> write_parts watched parts k)"

lemma write_parts_Ok:
  "write_parts watched parts k = (Ok (), k') \<Longrightarrow> sk_out k' = sk_out k @ concat parts"
  by (induction watched parts k rule: write_parts.induct)
    (auto split: prod.splits result.splits dest: write_all_Ok)

lemma strict_prefix_append: "strict_prefix p s \<Longrightarrow> strict_prefix p (s @ t)"
  by (auto simp: strict_prefix_def prefix_def)

lemma strict_prefix_same: "strict_prefix (s @ p) (s @ t) \<longleftrightarrow> strict_prefix p t"
  by (simp add: strict_prefix_def)

lemma write_parts_Err:
  "write_parts watched parts k = (Err e, k') \<Longrightarrow>
     \<exists>p. strict_prefix p (concat parts) \<and> sk_out k' = sk_out k @ p"
proof (induction watched parts k rule: write_parts.induct)
  case (2 watched bs parts k)
  obtain x k1 where w: "write_all watched bs k = (x, k1)"
    by fastforce
  show ?case
  proof (cases x)
    case (Ok u)
    then obtain p where "strict_prefix p (concat parts)" and "sk_out k' = sk_out k1 @ p"
      using 2 w by fastforce
    moreover have "sk_out k1 = sk_out k @ bs"
      using w Ok by (auto dest: write_all_Ok)
    ultimately show ?thesis
      by (intro exI [of _ "bs @ p"]) (simp add: strict_prefix_same)
  next
    case (Err f)
    then show ?thesis
      using 2 w write_all_Err [of watched bs k f k1] strict_prefix_append by fastforce
  qed
qed simp

definition sink_flush ::
    "sink_event list \<Rightarrow> 'a byte_sink_scheme \<Rightarrow> (unit, write_error) result \<times> 'a byte_sink_scheme" where
  "sink_flush watched k =
     (case give_way watched (sk_events k) of
        (Some e, events) \<Rightarrow> (Err (Interrupted e), k\<lparr>sk_events := events\<rparr>)
      | (None, WriteFails # events) \<Rightarrow> (Err WriteFailed, k\<lparr>sk_events := events\<rparr>)
      | (None, events) \<Rightarrow> (Ok (), k\<lparr>sk_events := events\<rparr>))"

lemma sink_flush_out: "sink_flush watched k = (r, k') \<Longrightarrow> sk_out k' = sk_out k"
  by (auto simp: sink_flush_def split: prod.splits option.splits list.splits sink_event.splits)

section \<open>Encoding a body\<close>

definition encode_chunk :: "bytes \<Rightarrow> bytes" where
  "encode_chunk d = show_hex (length d) @ CRLF @ d @ CRLF"

definition serialize_fields :: "(bytes \<times> bytes) list \<Rightarrow> bytes" where
  "serialize_fields fs = concat (map (\<lambda>(name, v). name @ '': '' @ v @ CRLF) fs)"

lemma serialize_fields_simps [simp]:
  "serialize_fields [] = []"
  "serialize_fields ((name, v) # fs) = name @ '': '' @ v @ CRLF @ serialize_fields fs"
  by (simp_all add: serialize_fields_def)

definition encode_body :: "bytes list \<Rightarrow> (bytes \<times> bytes) list \<Rightarrow> bytes" where
  "encode_body chunks fs = concat (map encode_chunk chunks) @ ''0'' @ CRLF @ serialize_fields fs @ CRLF"

lemma crlf_free_no_CR:
  assumes "CR \<notin> set line"
  shows "crlf_free line"
proof -
  have "find_window CRLF (line @ CRLF) = Some (length line)"
    using assms by (induction line) (auto simp: numeral_2_eq_2)
  then show ?thesis
    by (simp add: crlf_free_def find_crlf_def)
qed

lemma crlf_free_show_hex: "crlf_free (show_hex n)"
proof (rule crlf_free_no_CR)
  show "CR \<notin> set (show_hex n)"
    using show_hex_digits [of n] by (auto simp: list_all_iff byte_class_defs)
qed

lemma parse_chunk_size_length:
  assumes "n < 2 ^ 64"
  shows "parse_chunk_size (show_hex n) = Ok (of_nat n)"
  using parse_chunk_size_show_hex [of "of_nat n"] unat_u64_of_nat [OF assms] by simp

lemma parse_chunk_size_zero: "parse_chunk_size ''0'' = Ok 0"
proof -
  have "show_hex 0 = ''0''"
    by code_simp
  then show ?thesis
    using parse_chunk_size_show_hex [of 0] by simp
qed

lemma body_of_encode_chunk:
  assumes "d \<noteq> []" and "length d < 2 ^ 64" and "body_of H P_Size s data rest"
  shows "body_of H P_Size (encode_chunk d @ s) (d @ data) rest"
proof -
  have len: "unat (of_nat (length d) :: u64) = length d"
    by (rule unat_u64_of_nat [OF assms(2)])
  then have nz: "(of_nat (length d) :: u64) \<noteq> 0"
    using assms(1) by (metis length_0_conv unat_0)
  have "body_of H (P_Data (unat (of_nat (length d) :: u64))) (d @ CRLF @ s) (d @ data) rest"
    using body_of.data [OF len [symmetric] body_of.end_of_chunk [OF assms(3)]] .
  from body_of.chunk_size [OF crlf_free_show_hex parse_chunk_size_length [OF assms(2)] nz this]
  show ?thesis
    by (simp add: encode_chunk_def)
qed

lemma body_of_encode:
  assumes "\<forall>d \<in> set chunks. d \<noteq> [] \<and> length d < 2 ^ 64"
    and "trailer_section H (hm_new H) (serialize_fields fs @ CRLF @ rest) result rest"
  shows "body_of H P_Size (encode_body chunks fs @ rest) (concat chunks) rest"
  using assms(1)
proof (induction chunks)
  case Nil
  have "crlf_free ''0''"
    by (rule crlf_free_no_CR) simp
  from body_of.last_size [OF this parse_chunk_size_zero body_of.trailers [OF assms(2)]] show ?case
    by (simp add: encode_body_def)
next
  case (Cons d chunks)
  then show ?case
    using body_of_encode_chunk [of d H "encode_body chunks fs @ rest"] by (simp add: encode_body_def)
qed

lemma body_of_encode_no_trailers:
  "\<forall>d \<in> set chunks. d \<noteq> [] \<and> length d < 2 ^ 64 \<Longrightarrow>
     body_of H P_Size (encode_body chunks [] @ rest) (concat chunks) rest"
  using trailer_section.last_line [of H "hm_new H" rest] by (intro body_of_encode) simp_all

text \<open>Bytes after a body that is not delimited by the end of the connection do not change it.\<close>

lemma trailer_section_append:
  "trailer_section H h s r rest \<Longrightarrow> trailer_section H h (s @ q) r (rest @ q)"
proof (induction rule: trailer_section.induct)
  case (last_line headers rest)
  then show ?case
    using trailer_section.last_line [of H headers "rest @ q"] by simp
next
  case (field_line line headers headers' s result rest)
  then show ?case
    using trailer_section.field_line [of line H headers headers' "s @ q" result "rest @ q"] by simp
qed

lemma body_of_append:
  "body_of H p s d r \<Longrightarrow> p \<noteq> P_Close \<Longrightarrow> body_of H p (s @ q) d (r @ q)"
proof (induction rule: body_of.induct)
  case (fixed d n s)
  then show ?case
    using body_of.fixed [of d n H "s @ q"] by simp
next
  case (chunk_size line len s data rest)
  then show ?case
    using body_of.chunk_size [of line len H "s @ q" data "rest @ q"] by simp
next
  case (last_size line s data rest)
  then show ?case
    using body_of.last_size [of line H "s @ q" data "rest @ q"] by simp
next
  case (data d n s data rest)
  then show ?case
    using body_of.data [of d n H "s @ q" data "rest @ q"] by simp
next
  case (end_of_chunk s data rest)
  then show ?case
    using body_of.end_of_chunk [of H "s @ q" data "rest @ q"] by simp
qed (auto intro: body_of.complete body_of.trailers trailer_section_append)

text \<open>A proper prefix of a body with nothing after it is not a body.\<close>

lemma body_of_strict_prefix:
  assumes "body_of H p s d []" and "p \<noteq> P_Close" and "strict_prefix t s"
  shows "\<not> body_of H p t d' r"
proof
  assume t: "body_of H p t d' r"
  obtain q where q: "s = t @ q" "q \<noteq> []"
    using assms(3) by (auto simp: strict_prefix_def prefix_def)
  then have "body_of H p s d' (r @ q)"
    using body_of_append [OF t assms(2), of q] by simp
  then show False
    using body_of_unique [OF assms(1)] q(2) by fastforce
qed

end
