(* ===== verification/Response.thy ===== *)
theory Response
  imports Byte_Sink
begin

text \<open>
  Responses of \<open>proxy/src/server/response.rs\<close>: the fixed answers to refused requests, the head
  that is written in front of a body, and the writer that streams a body with the chunked
  coding. The connection is its write side, a \<open>byte_sink\<close>; a body is the sequence of frames it
  will yield. The three ways to commit a head differ in what they give way to.
\<close>

section \<open>Failures\<close>

datatype proxy_failure =
    FailBadRequest
  | FailHeadersTooLarge
  | FailUnsupportedVersion
  | FailNotImplemented
  | FailPublicDenied bytes
  | FailLocalDenied bytes
  | FailHttpsRequiresConnect
  | FailReportLogUnavailable
  | FailServiceUnavailable
  | FailBadGateway
  | FailGatewayTimeout

definition MAX_GENERIC_BODY_BYTES :: nat where "MAX_GENERIC_BODY_BYTES = 1024"

definition TEXT_PLAIN :: bytes where "TEXT_PLAIN = ''text/plain; charset=utf-8''"

primrec representation :: "proxy_failure \<Rightarrow> nat \<times> bytes \<times> bool" where
  "representation FailBadRequest = (400, ''bad request'' @ [LF], True)"
| "representation FailHeadersTooLarge = (431, ''request header fields too large'' @ [LF], True)"
| "representation FailUnsupportedVersion = (505, ''HTTP version not supported'' @ [LF], True)"
| "representation FailNotImplemented = (501, ''not implemented'' @ [LF], True)"
| "representation (FailPublicDenied host) =
     (403, ''blocked by vhrn egress policy: '' @ host @ [LF], False)"
| "representation (FailLocalDenied authority) =
     (403, ''blocked by vhrn local policy: '' @ authority @ [LF], False)"
| "representation FailHttpsRequiresConnect = (400, ''HTTPS requires CONNECT'' @ [LF], True)"
| "representation FailReportLogUnavailable = (503, ''proxy temporarily unavailable'' @ [LF], True)"
| "representation FailServiceUnavailable = (503, ''proxy temporarily unavailable'' @ [LF], True)"
| "representation FailBadGateway = (502, ''bad gateway'' @ [LF], False)"
| "representation FailGatewayTimeout = (504, ''gateway timeout'' @ [LF], False)"

section \<open>Responses\<close>

text \<open>A frame of a body that is being written, or the error that the body ends with.\<close>

type_synonym 'h body_frames = "('h body_frame, unit) result list"

record 'h response =
  rs_status :: nat
  rs_headers :: 'h
  rs_body :: "'h body_frames"

definition full_body :: "bytes \<Rightarrow> 'h body_frames" where
  "full_body body = (if body = [] then [] else [Ok (DataFrame body)])"

definition bounded_line :: "bytes \<Rightarrow> bytes" where
  "bounded_line text =
     (if MAX_GENERIC_BODY_BYTES < length text \<or> \<not> ends_with [LF] text
         \<or> list_ex (\<lambda>c. c = CR \<or> c = LF) (take (length text - 1) text)
      then ''proxy error'' @ [LF] else text)"

definition failure :: "'h http_crate \<Rightarrow> proxy_failure \<Rightarrow> bool \<Rightarrow> 'h response" where
  "failure H fail head =
     (case representation fail of
        (status, text, close) \<Rightarrow>
          (let text = bounded_line text;
               body = (if head then [] else text);
               headers = hm_insert H ''content-type'' TEXT_PLAIN (hm_new H);
               headers = hm_insert H ''content-length'' (show_nat (length text)) headers;
               headers = (if close then hm_insert H ''connection'' ''close'' headers else headers)
           in \<lparr>rs_status = status, rs_headers = headers, rs_body = full_body body\<rparr>))"

definition fixed_response :: "'h http_crate \<Rightarrow> nat \<Rightarrow> bytes option \<Rightarrow> bytes \<Rightarrow> 'h response" where
  "fixed_response H status content_type body =
     \<lparr>rs_status = status,
      rs_headers = (case content_type of
          Some v \<Rightarrow> hm_insert H ''content-type'' v (hm_new H)
        | None \<Rightarrow> hm_new H),
      rs_body = full_body body\<rparr>"

definition represented :: "'h http_crate \<Rightarrow> nat \<Rightarrow> bytes option \<Rightarrow> bytes \<Rightarrow> bool \<Rightarrow> 'h response" where
  "represented H status content_type text head =
     (let body = (if head then [] else text);
          headers = (case content_type of
              Some v \<Rightarrow> hm_insert H ''content-type'' v (hm_new H)
            | None \<Rightarrow> hm_new H)
      in \<lparr>rs_status = status,
          rs_headers = hm_insert H ''content-length'' (show_nat (length text)) headers,
          rs_body = full_body body\<rparr>)"

text \<open>Extending the empty header map of a fresh response appends every field.\<close>

definition origin_response :: "'h http_crate \<Rightarrow> nat \<Rightarrow> 'h \<Rightarrow> 'h body_frames \<Rightarrow> bool \<Rightarrow> 'h response" where
  "origin_response H status headers body head =
     \<lparr>rs_status = status,
      rs_headers = fold (\<lambda>(n, v). hm_append H n v) (hm_iter H headers) (hm_new H),
      rs_body = (if head then [] else body)\<rparr>"

section \<open>Heads\<close>

definition wire_version :: "version \<Rightarrow> bytes" where
  "wire_version version = (case version of Http10 \<Rightarrow> ''HTTP/1.0'' | Http11 \<Rightarrow> ''HTTP/1.1'')"

definition serialize_head :: "'h http_crate \<Rightarrow> version \<Rightarrow> nat \<Rightarrow> 'h \<Rightarrow> bytes" where
  "serialize_head H version status headers =
     wire_version version @ '' '' @ show_nat status @ '' ''
       @ (case canonical_reason H status of Some r \<Rightarrow> r | None \<Rightarrow> []) @ CRLF
       @ serialize_fields (hm_iter H headers) @ CRLF"

definition header_first :: "'h http_crate \<Rightarrow> 'h \<Rightarrow> bytes \<Rightarrow> bytes option" where
  "header_first H h n = (case hm_get_all H h n of [] \<Rightarrow> None | v # _ \<Rightarrow> Some v)"

definition body_allowed :: "bytes \<Rightarrow> nat \<Rightarrow> bool" where
  "body_allowed request_method status \<longleftrightarrow>
     request_method \<noteq> ''HEAD'' \<and> \<not> is_informational status \<and> status \<noteq> 204 \<and> status \<noteq> 304"

text \<open>The head is returned as the headers it is serialised from.\<close>

definition prepare_response_head ::
    "'h http_crate \<Rightarrow> 'h response \<Rightarrow> version \<Rightarrow> bytes \<Rightarrow> bool \<Rightarrow> bool \<times> bool \<times> bool \<times> 'h" where
  "prepare_response_head H response version request_method close =
     (let headers = (if version = Http10 then hm_remove H ''transfer-encoding'' (rs_headers response)
                     else rs_headers response);
          close = (close \<or> (case header_first H headers ''connection'' of
                              Some v \<Rightarrow> eq_ignore_ascii_case v ''close'' | None \<Rightarrow> False));
          allowed = body_allowed request_method (rs_status response);
          chunked = (allowed \<and> \<not> contains_key H headers ''content-length'' \<and> version = Http11);
          (headers, close) =
            (if chunked then
               (if contains_key H headers ''transfer-encoding'' then headers
                else hm_insert H ''transfer-encoding'' ''chunked'' headers, close)
             else if allowed \<and> \<not> contains_key H headers ''content-length'' then (headers, True)
             else (headers, close));
          headers =
            (if close then hm_insert H ''connection'' ''close'' headers
             else if version = Http10 then hm_insert H ''connection'' ''keep-alive'' headers
             else headers)
      in (allowed, chunked, close, headers))"

definition write_informational ::
    "'h http_crate \<Rightarrow> nat \<Rightarrow> 'h \<Rightarrow> version \<Rightarrow> 'a byte_sink_scheme
       \<Rightarrow> (unit, write_error) result \<times> 'a byte_sink_scheme" where
  "write_informational H status headers version k =
     (case write_all [] (serialize_head H version status headers) k of
        (Err e, k) \<Rightarrow> (Err e, k)
      | (Ok _, k) \<Rightarrow> sink_flush [] k)"

section \<open>Chunk prefixes\<close>

text \<open>\<open>ChunkPrefix::new\<close> fills a buffer of \<open>CHUNK_PREFIX_LIMIT\<close> bytes from its end.\<close>

function chunk_prefix_from :: "nat \<Rightarrow> bytes \<Rightarrow> bytes" where
  "chunk_prefix_from len bs =
     (let digit = len mod 16;
          bs = (if digit < 10 then char_of (48 + digit) else char_of (97 + digit - 10)) # bs;
          len = len div 16
      in if len = 0 then bs else chunk_prefix_from len bs)"
  by pat_completeness auto
termination
  by (relation "measure (\<lambda>(len, bs). len)") auto

declare chunk_prefix_from.simps [simp del]

definition chunk_prefix :: "nat \<Rightarrow> bytes" where
  "chunk_prefix len = chunk_prefix_from len CRLF"

section \<open>Bodies\<close>

text \<open>
  The two body loops of the source differ in what they watch for: both give way to a departed
  peer while the body is not ready, the active one gives way to the forced shutdown at every
  point. \<open>watched\<close> is \<open>[]\<close> for the plain loop and \<open>[ShutdownForces]\<close> for the active one.
\<close>

definition field_parts :: "(bytes \<times> bytes) list \<Rightarrow> bytes list" where
  "field_parts fs = concat (map (\<lambda>(name, v). [name, '': '', v, CRLF]) fs)"

definition await_frame ::
    "sink_event list \<Rightarrow> 'a byte_sink_scheme \<Rightarrow> (unit, write_error) result \<times> 'a byte_sink_scheme" where
  "await_frame watched k =
     (case give_way (PeerClosed # watched) (sk_events k) of
        (Some e, events) \<Rightarrow> (Err (Interrupted e), k\<lparr>sk_events := events\<rparr>)
      | (None, events) \<Rightarrow> (Ok (), k\<lparr>sk_events := events\<rparr>))"

fun write_body ::
    "'h http_crate \<Rightarrow> sink_event list \<Rightarrow> bool \<Rightarrow> 'h body_frames \<Rightarrow> 'a byte_sink_scheme
       \<Rightarrow> (unit, write_error) result \<times> 'a byte_sink_scheme" where
  "write_body H watched chunked [] k =
     (case await_frame watched k of
        (Err e, k) \<Rightarrow> (Err e, k)
      | (Ok _, k) \<Rightarrow> if chunked then write_all watched (''0'' @ CRLF @ CRLF) k else (Ok (), k))"
| "write_body H watched chunked (frame # frames) k =
     (case await_frame watched k of
        (Err e, k) \<Rightarrow> (Err e, k)
      | (Ok _, k) \<Rightarrow>
          (case frame of
             Err _ \<Rightarrow> (Err BodyFailed, k)
           | Ok (DataFrame data) \<Rightarrow>
               if data \<noteq> [] \<and> chunked then
                 (case write_parts watched [chunk_prefix (length data), data, CRLF] k of
                    (Err e, k) \<Rightarrow> (Err e, k)
                  | (Ok _, k) \<Rightarrow> write_body H watched chunked frames k)
               else if data \<noteq> [] then
                 (case write_all watched data k of
                    (Err e, k) \<Rightarrow> (Err e, k)
                  | (Ok _, k) \<Rightarrow> write_body H watched chunked frames k)
               else write_body H watched chunked frames k
           | Ok (TrailersFrame trailers) \<Rightarrow>
               if chunked then
                 write_parts watched ([''0'' @ CRLF] @ field_parts (hm_iter H trailers) @ [CRLF]) k
               else write_body H watched chunked frames k))"

definition write_response_body where
  "write_response_body H chunked frames k = write_body H [] chunked frames k"

definition write_active_response_body where
  "write_active_response_body H chunked frames k = write_body H [ShutdownForces] chunked frames k"

section \<open>Whole responses\<close>

definition write_response ::
    "'h http_crate \<Rightarrow> 'h response \<Rightarrow> version \<Rightarrow> bytes \<Rightarrow> bool \<Rightarrow> 'a byte_sink_scheme
       \<Rightarrow> (bool, write_error) result \<times> 'a byte_sink_scheme" where
  "write_response H response version request_method close k =
     (case prepare_response_head H response version request_method close of
        (allowed, chunked, close, headers) \<Rightarrow>
          (case write_all [] (serialize_head H version (rs_status response) headers) k of
             (Err e, k) \<Rightarrow> (Err e, k)
           | (Ok _, k) \<Rightarrow>
               (case (if allowed then write_response_body H chunked (rs_body response) k else (Ok (), k)) of
                  (Err e, k) \<Rightarrow> (Err e, k)
                | (Ok _, k) \<Rightarrow>
                    (case sink_flush [] k of (Err e, k) \<Rightarrow> (Err e, k) | (Ok _, k) \<Rightarrow> (Ok close, k)))))"

text \<open>
  Committing a head: one write, given up without an error (\<open>Ok None\<close>) when the shutdown comes
  first or, for the prompt variant, when the write is not ready within one scheduler turn.
\<close>

definition commit_head ::
    "sink_event list \<Rightarrow> bytes \<Rightarrow> 'a byte_sink_scheme \<Rightarrow> (nat option, write_error) result \<times> 'a byte_sink_scheme" where
  "commit_head watched head k =
     (case sink_write watched head k of
        (Err (Interrupted _), k) \<Rightarrow> (Ok None, k)
      | (Err e, k) \<Rightarrow> (Err e, k)
      | (Ok written, k) \<Rightarrow> if written = 0 then (Err WriteZero, k) else (Ok (Some written), k))"

definition commit_head_before_drain where
  "commit_head_before_drain head k = commit_head [ShutdownBegins, ShutdownForces] head k"

definition commit_head_promptly where
  "commit_head_promptly head k = commit_head [ShutdownForces, Yielded] head k"

definition finish_committed_response ::
    "'h http_crate \<Rightarrow> bytes \<Rightarrow> nat \<Rightarrow> bool \<Rightarrow> bool \<Rightarrow> 'h body_frames \<Rightarrow> 'a byte_sink_scheme
       \<Rightarrow> (unit, write_error) result \<times> 'a byte_sink_scheme" where
  "finish_committed_response H head written allowed chunked body k =
     (case write_all [ShutdownForces] (drop written head) k of
        (Err e, k) \<Rightarrow> (Err e, k)
      | (Ok _, k) \<Rightarrow>
          (case (if allowed then write_active_response_body H chunked body k else (Ok (), k)) of
             (Err e, k) \<Rightarrow> (Err e, k)
           | (Ok _, k) \<Rightarrow> sink_flush [ShutdownForces] k))"

definition write_committed ::
    "'h http_crate \<Rightarrow> (bytes \<Rightarrow> 'a byte_sink_scheme \<Rightarrow> (nat option, write_error) result \<times> 'a byte_sink_scheme)
       \<Rightarrow> 'h response \<Rightarrow> version \<Rightarrow> bytes \<Rightarrow> bool \<Rightarrow> 'a byte_sink_scheme
       \<Rightarrow> (bool option, write_error) result \<times> 'a byte_sink_scheme" where
  "write_committed H commit response version request_method close k =
     (case prepare_response_head H response version request_method close of
        (allowed, chunked, close, headers) \<Rightarrow>
          (let head = serialize_head H version (rs_status response) headers
           in case commit head k of
                (Err e, k) \<Rightarrow> (Err e, k)
              | (Ok None, k) \<Rightarrow> (Ok None, k)
              | (Ok (Some written), k) \<Rightarrow>
                  (case finish_committed_response H head written allowed chunked (rs_body response) k of
                     (Err e, k) \<Rightarrow> (Err e, k)
                   | (Ok _, k) \<Rightarrow> (Ok (Some close), k))))"

definition write_response_drain_aware where
  "write_response_drain_aware H response version request_method close k =
     write_committed H commit_head_before_drain response version request_method close k"

definition write_response_prompt where
  "write_response_prompt H response version request_method close k =
     write_committed H commit_head_promptly response version request_method close k"

section \<open>What a body writer leaves on the wire\<close>

lemma chunk_prefix_from_show_hex: "chunk_prefix_from len bs = show_hex len @ bs"
proof (induction len bs rule: chunk_prefix_from.induct)
  case (1 len bs)
  have digit: "(if len mod 16 < 10 then char_of (48 + len mod 16) else char_of (97 + len mod 16 - 10))
      = hex_digit_char (len mod 16)"
    by (simp add: hex_digit_char_def)
  show ?case
  proof (cases "len div 16 = 0")
    case True
    then have "len < 16" and "len mod 16 = len"
      by (simp_all add: div_eq_0_iff)
    then show ?thesis
      by (simp add: chunk_prefix_from.simps [of len bs] show_hex.simps [of len] Let_def hex_digit_char_def)
  next
    case False
    then show ?thesis
      using 1 [OF refl refl refl False] digit
      by (simp add: chunk_prefix_from.simps [of len bs] show_hex.simps [of len] Let_def)
  qed
qed

lemma chunk_prefix_show_hex: "chunk_prefix len = show_hex len @ CRLF"
  by (simp add: chunk_prefix_def chunk_prefix_from_show_hex)

fun frame_chunks :: "'h body_frames \<Rightarrow> bytes list" where
  "frame_chunks (Ok (DataFrame d) # frames) =
     (if d = [] then frame_chunks frames else d # frame_chunks frames)"
| "frame_chunks _ = []"

fun frame_fields :: "'h http_crate \<Rightarrow> 'h body_frames \<Rightarrow> (bytes \<times> bytes) list" where
  "frame_fields H (Ok (DataFrame d) # frames) = frame_fields H frames"
| "frame_fields H (Ok (TrailersFrame t) # frames) = hm_iter H t"
| "frame_fields H _ = []"

lemma concat_field_parts: "concat (field_parts fs) = serialize_fields fs"
  by (induction fs) (auto simp: field_parts_def)

lemma await_frame_out: "await_frame watched k = (r, k') \<Longrightarrow> sk_out k' = sk_out k"
  by (auto simp: await_frame_def split: prod.splits option.splits)

lemma encode_body_Cons: "encode_body (d # ds) fs = encode_chunk d @ encode_body ds fs"
  by (simp add: encode_body_def)


definition wrote :: "(unit, write_error) result \<Rightarrow> bytes \<Rightarrow> bytes \<Rightarrow> bool" where
  "wrote r out whole \<longleftrightarrow> (case r of Ok _ \<Rightarrow> out = whole | Err _ \<Rightarrow> strict_prefix out whole)"

lemma wrote_nothing: "wrote (Err e) [] (encode_body ds fs)"
  by (simp add: wrote_def strict_prefix_def encode_body_def)

lemma wrote_append: "wrote r out whole \<Longrightarrow> wrote r (s @ out) (s @ whole)"
  by (auto simp: wrote_def strict_prefix_same split: result.splits)

lemma write_parts_wrote:
  "write_parts watched parts k = (r, k') \<Longrightarrow> \<exists>out. sk_out k' = sk_out k @ out \<and> wrote r out (concat parts)"
  using write_parts_Ok [of watched parts k k'] write_parts_Err [of watched parts k _ k']
  by (cases r) (auto simp: wrote_def)

lemma write_body_wrote:
  "write_body H watched True frames k = (r, k') \<Longrightarrow>
     \<exists>out. sk_out k' = sk_out k @ out \<and> wrote r out (encode_body (frame_chunks frames) (frame_fields H frames))"
proof (induction frames arbitrary: k)
  case Nil
  obtain x k1 where a: "await_frame watched k = (x, k1)"
    by fastforce
  note out = await_frame_out [OF a]
  show ?case
  proof (cases x)
    case (Ok u)
    then have "write_parts watched [''0'' @ CRLF @ CRLF] k1 = (r, k')"
      using Nil a by (auto split: prod.splits result.splits)
    from write_parts_wrote [OF this] show ?thesis
      using out by (auto simp: encode_body_def)
  next
    case (Err e)
    then show ?thesis
      using Nil a out wrote_nothing by auto
  qed
next
  case (Cons frame frames)
  obtain x k1 where a: "await_frame watched k = (x, k1)"
    by fastforce
  note out = await_frame_out [OF a]
  show ?case
  proof (cases x)
    case (Err e)
    then show ?thesis
      using Cons.prems a out wrote_nothing by auto
  next
    case (Ok u)
    note alive = this
    show ?thesis
    proof (cases frame)
      case (Err e)
      then show ?thesis
        using Cons.prems a alive out wrote_nothing by auto
    next
      case (Ok f)
      show ?thesis
      proof (cases f)
        case (TrailersFrame t)
        then have "write_parts watched ([''0'' @ CRLF] @ field_parts (hm_iter H t) @ [CRLF]) k1 = (r, k')"
          using Cons.prems a alive Ok by simp
        from write_parts_wrote [OF this] show ?thesis
          using out Ok TrailersFrame by (simp add: encode_body_def concat_field_parts)
      next
        case (DataFrame d)
        show ?thesis
        proof (cases "d = []")
          case True
          then show ?thesis
            using Cons.IH [of k1] Cons.prems a alive Ok DataFrame out by simp
        next
          case False
          obtain y k2 where p: "write_parts watched [chunk_prefix (length d), d, CRLF] k1 = (y, k2)"
            by fastforce
          have c: "concat [chunk_prefix (length d), d, CRLF] = encode_chunk d"
            by (simp add: chunk_prefix_show_hex encode_chunk_def)
          obtain o1 where o1: "sk_out k2 = sk_out k @ o1" "wrote y o1 (encode_chunk d)"
            using write_parts_wrote [OF p] out c by auto
          show ?thesis
          proof (cases y)
            case (Err e)
            then show ?thesis
              using Cons.prems a alive Ok DataFrame False p o1
              by (auto simp: wrote_def encode_body_Cons strict_prefix_append)
          next
            case (Ok u2)
            then have "write_body H watched True frames k2 = (r, k')"
              using Cons.prems a alive \<open>frame = Ok f\<close> DataFrame False p by simp
            then obtain o2 where o2: "sk_out k' = sk_out k2 @ o2"
              "wrote r o2 (encode_body (frame_chunks frames) (frame_fields H frames))"
              using Cons.IH by blast
            then show ?thesis
              using o1 Ok \<open>frame = Ok f\<close> DataFrame False wrote_append [OF o2(2), of "encode_chunk d"]
              by (intro exI [of _ "encode_chunk d @ o2"]) (auto simp: wrote_def encode_body_Cons)
          qed
        qed
      qed
    qed
  qed
qed

text \<open>
  Frames that can be sent: no frame is longer than a machine word counts, and the fields of
  the trailers are acceptable to a parser.
\<close>

definition sendable :: "'h http_crate \<Rightarrow> 'h body_frames \<Rightarrow> bool" where
  "sendable H frames \<longleftrightarrow>
     list_all (\<lambda>d. length d < 2 ^ 64) (frame_chunks frames) \<and>
     (\<exists>t. trailer_section H (hm_new H) (serialize_fields (frame_fields H frames) @ CRLF) t [])"

lemma frame_chunks_not_Nil: "d \<in> set (frame_chunks frames) \<Longrightarrow> d \<noteq> []"
  by (induction frames rule: frame_chunks.induct) (auto split: if_splits)

lemma sendable_body_of:
  assumes "sendable H frames"
  shows "body_of H P_Size (encode_body (frame_chunks frames) (frame_fields H frames) @ rest)
    (concat (frame_chunks frames)) rest"
proof -
  obtain t where "trailer_section H (hm_new H) (serialize_fields (frame_fields H frames) @ CRLF) t []"
    using assms by (auto simp: sendable_def)
  from trailer_section_append [OF this, of rest]
  have "trailer_section H (hm_new H) (serialize_fields (frame_fields H frames) @ CRLF @ rest) t rest"
    by simp
  moreover have "\<forall>d \<in> set (frame_chunks frames). d \<noteq> [] \<and> length d < 2 ^ 64"
    using assms frame_chunks_not_Nil by (auto simp: sendable_def list_all_iff)
  ultimately show ?thesis
    by (rule body_of_encode [rotated])
qed

text \<open>
  A chunked body arrives as it was sent, or visibly broken. When the writer succeeds,
  whatever the socket did with its writes, a reader of the connection finds exactly the data of
  the frames and starts the next message where it begins. When the writer fails at any point
  (the socket, the peer, the forced shutdown, the origin), what it has written is not a
  complete body for any reader, so a truncated response is never taken for a whole one.
\<close>

theorem chunked_body_whole_or_broken:
  assumes "write_body H watched True frames k = (r, k')" and "sendable H frames"
  shows "\<exists>out. sk_out k' = sk_out k @ out \<and>
    (case r of
       Ok _ \<Rightarrow> body_of H P_Size (out @ rest) (concat (frame_chunks frames)) rest
     | Err _ \<Rightarrow> \<not> body_of H P_Size out data rest)"
proof -
  let ?whole = "encode_body (frame_chunks frames) (frame_fields H frames)"
  obtain out where out: "sk_out k' = sk_out k @ out" and w: "wrote r out ?whole"
    using write_body_wrote [OF assms(1)] by blast
  have whole: "body_of H P_Size ?whole (concat (frame_chunks frames)) []"
    using sendable_body_of [OF assms(2), of "[]"] by simp
  show ?thesis
  proof (intro exI conjI)
    show "sk_out k' = sk_out k @ out"
      by (rule out)
    show "case r of Ok _ \<Rightarrow> body_of H P_Size (out @ rest) (concat (frame_chunks frames)) rest
      | Err _ \<Rightarrow> \<not> body_of H P_Size out data rest"
      using w sendable_body_of [OF assms(2), of rest] body_of_strict_prefix [OF whole]
      by (cases r) (auto simp: wrote_def)
  qed
qed

text \<open>A socket that takes three bytes at a time, and one that fails after the first chunk.\<close>

definition example_frames :: "field_list body_frames" where
  "example_frames = [Ok (DataFrame ''hello''), Ok (DataFrame []), Ok (TrailersFrame [(''x-sum'', ''1'')])]"

definition example_sink :: byte_sink where
  "example_sink = \<lparr>sk_events = [Accepts 3, Accepts 3, Accepts 3], sk_out = []\<rparr>"

lemma example_sendable: "sendable list_crate example_frames"
proof -
  have "append_field_line list_crate [] ''x-sum: 1'' = Ok [(''x-sum'', ''1'')]"
    and "find_crlf (''x-sum: 1'' @ CRLF) = Some (length ''x-sum: 1'')"
    by code_simp+
  then have "trailer_section list_crate [] (''x-sum: 1'' @ CRLF @ CRLF) [(''x-sum'', ''1'')] []"
    using trailer_section.last_line [of list_crate _ "[]"]
    by (intro trailer_section.field_line) (simp_all add: crlf_free_def)
  then show ?thesis
    by (auto simp: sendable_def example_frames_def list_crate_def)
qed

theorem chunked_body_whole_or_broken_witness:
  "body_of list_crate P_Size (''5'' @ CRLF @ ''hello'' @ CRLF @ ''0'' @ CRLF @ ''x-sum: 1'' @ CRLF @ CRLF @ ''next'')
     ''hello'' ''next''
   \<and> \<not> (\<exists>d r. body_of list_crate P_Size (''5'' @ CRLF @ ''hello'' @ CRLF) d r)"
proof -
  let ?bad = "example_sink\<lparr>sk_events := [Accepts 9, Accepts 9, Accepts 9, PeerClosed]\<rparr>"
  have "write_body list_crate [] True example_frames example_sink
      = (Ok (), snd (write_body list_crate [] True example_frames example_sink))"
    and one: "sk_out (snd (write_body list_crate [] True example_frames example_sink))
      = ''5'' @ CRLF @ ''hello'' @ CRLF @ ''0'' @ CRLF @ ''x-sum: 1'' @ CRLF @ CRLF"
    by code_simp+
  note good = chunked_body_whole_or_broken [OF this(1) example_sendable, of "''next''"]
  have "write_body list_crate [] True example_frames ?bad
      = (Err (Interrupted PeerClosed), snd (write_body list_crate [] True example_frames ?bad))"
    and two: "sk_out (snd (write_body list_crate [] True example_frames ?bad)) = ''5'' @ CRLF @ ''hello'' @ CRLF"
    by code_simp+
  note broken = chunked_body_whole_or_broken [OF this(1) example_sendable]
  have "concat (frame_chunks example_frames) = ''hello''" and "sk_out example_sink = []"
    by (simp_all add: example_frames_def example_sink_def)
  then show ?thesis
    using good broken unfolding one two by auto
qed

section \<open>Heads and failures\<close>

definition response_framed ::
    "'h http_crate \<Rightarrow> version \<Rightarrow> bool \<Rightarrow> bool \<Rightarrow> bool \<Rightarrow> 'h \<Rightarrow> bool" where
  "response_framed H version allowed chunked close headers \<longleftrightarrow>
     (chunked \<longrightarrow> allowed \<and> version = Http11 \<and> hm_get_all H headers ''content-length'' = []
        \<and> hm_get_all H headers ''transfer-encoding'' \<noteq> []) \<and>
     (version = Http10 \<longrightarrow> hm_get_all H headers ''transfer-encoding'' = []) \<and>
     (allowed \<and> \<not> chunked \<and> hm_get_all H headers ''content-length'' = [] \<longrightarrow> close) \<and>
     (close \<longrightarrow> hm_get_all H headers ''connection'' = [''close'']) \<and>
     (\<not> close \<and> version = Http10 \<longrightarrow> hm_get_all H headers ''connection'' = [''keep-alive''])"

lemma header_first_None: "header_first H h n = None \<longleftrightarrow> hm_get_all H h n = []"
  by (auto simp: header_first_def split: list.splits)

text \<open>
  A response head says how its body ends. The writer uses the chunked coding only for
  HTTP/1.1, with a \<open>Transfer-Encoding\<close> field and no \<open>Content-Length\<close>; an HTTP/1.0 client never
  sees a \<open>Transfer-Encoding\<close>; a body without a length that is not chunked is ended by closing
  the connection, and then the head says so; and the caller's wish to close is never dropped.
\<close>

theorem response_head_framed:
  assumes "header_laws H"
    and "prepare_response_head H response version request_method close = (allowed, chunked, close', headers)"
  shows "response_framed H version allowed chunked close' headers \<and> (close \<longrightarrow> close')
    \<and> allowed = body_allowed request_method (rs_status response)"
proof -
  note laws = hm_get_all_insert [OF assms(1)] hm_get_all_remove [OF assms(1)]
  show ?thesis
    using assms(2) unfolding prepare_response_head_def Let_def
    by (cases version; cases "body_allowed request_method (rs_status response)")
      (auto simp: response_framed_def contains_key_def laws header_first_def
        split: if_splits list.splits)
qed

definition example_200 :: "field_list response" where
  "example_200 = \<lparr>rs_status = 200, rs_headers = [(''transfer-encoding'', ''chunked'')],
     rs_body = example_frames\<rparr>"

theorem response_head_framed_witness:
  "response_framed list_crate Http10 True False True [(''connection'', ''close'')]"
proof -
  have "prepare_response_head list_crate example_200 Http10 ''GET'' False
      = (True, False, True, [(''connection'', ''close'')])"
    by code_simp
  from response_head_framed [OF list_crate_laws this] show ?thesis
    by simp
qed

definition one_line :: "bytes \<Rightarrow> bool" where
  "one_line text \<longleftrightarrow> (\<exists>t. text = t @ [LF] \<and> CR \<notin> set t \<and> LF \<notin> set t)"

lemma bounded_line_ok: "one_line (bounded_line text) \<and> length (bounded_line text) \<le> MAX_GENERIC_BODY_BYTES"
proof (cases "MAX_GENERIC_BODY_BYTES < length text \<or> \<not> ends_with [LF] text
    \<or> list_ex (\<lambda>c. c = CR \<or> c = LF) (take (length text - 1) text)")
  case True
  then show ?thesis
    by (auto simp: bounded_line_def one_line_def MAX_GENERIC_BODY_BYTES_def)
next
  case False
  then have "text = butlast text @ [LF]"
    by (auto simp: ends_with_single) (metis append_butlast_last_id)
  then show ?thesis
    using False by (auto simp: bounded_line_def one_line_def list_ex_iff butlast_conv_take)
qed

text \<open>
  A refusal is one bounded line. Whatever host or authority a refusal names, its body is
  a single line of at most 1024 bytes with no line ending inside, its \<open>Content-Length\<close> is the
  length of that line also when a HEAD request gets no body, and it carries one
  \<open>Content-Type\<close>.
\<close>

theorem failure_is_one_line:
  assumes "header_laws H"
  shows "\<exists>text. one_line text \<and> length text \<le> MAX_GENERIC_BODY_BYTES
    \<and> hm_get_all H (rs_headers (failure H fail head)) ''content-length'' = [show_nat (length text)]
    \<and> hm_get_all H (rs_headers (failure H fail head)) ''content-type'' = [TEXT_PLAIN]
    \<and> concat (frame_chunks (rs_body (failure H fail head))) = (if head then [] else text)"
proof -
  obtain status line close where r: "representation fail = (status, line, close)"
    by (metis prod_cases3)
  show ?thesis
    using bounded_line_ok [of line]
    by (intro exI [of _ "bounded_line line"])
      (auto simp: failure_def r Let_def full_body_def hm_get_all_insert [OF assms] hm_get_all_new [OF assms])
qed

theorem failure_is_one_line_witness:
  "\<exists>text. one_line text \<and> hm_get_all list_crate (rs_headers (failure list_crate
      (FailPublicDenied (''a'' @ [LF] @ ''b'')) False)) ''content-length'' = [show_nat (length text)]"
  using failure_is_one_line [OF list_crate_laws, of "FailPublicDenied (''a'' @ [LF] @ ''b'')" False]
  by blast

end
