(* ===== verification/Wire_Fields.thy ===== *)
theory Wire_Fields
  imports Byte_Sink
begin

text \<open>
  Header fields that survive the way over the wire: a field that the parser accepted is written
  as a line that the parser accepts again. The proxy forwards trailers with this in both
  directions. The documented behaviour of the \<open>http\<close> crate that it rests on, beyond
  \<open>header_laws\<close>, is that a header name is a token and that the name it is normalised to is
  itself accepted unchanged; an accepted value is accepted again by \<open>header_laws\<close>.
\<close>

definition header_name_laws :: "'h http_crate \<Rightarrow> bool" where
  "header_name_laws H \<longleftrightarrow>
     (\<forall>b n. header_name_from_bytes H b = Some n \<longrightarrow>
        valid_token n \<and> header_name_from_bytes H n = Some n)"

definition wire_field :: "'h http_crate \<Rightarrow> bytes \<Rightarrow> bytes \<Rightarrow> bool" where
  "wire_field H n v \<longleftrightarrow>
     valid_token n \<and> header_name_from_bytes H n = Some n \<and> trim_ows v = v \<and>
     \<not> list_ex (\<lambda>b. (octet b < 32 \<and> b \<noteq> TAB) \<or> octet b = 127) v \<and> header_value_from_bytes H v = Some v"

definition wire_fields :: "'h http_crate \<Rightarrow> 'h \<Rightarrow> bool" where
  "wire_fields H h \<longleftrightarrow> (\<forall>n. \<forall>v \<in> set (hm_get_all H h n). wire_field H n v)"

lemma dropWhile_twice [simp]: "dropWhile P (dropWhile P xs) = dropWhile P xs"
  by (induction xs) auto

lemma dropWhile_rev_dropWhile:
  "dropWhile P (rev (dropWhile P (rev (dropWhile P xs)))) = rev (dropWhile P (rev (dropWhile P xs)))"
proof (cases "dropWhile P xs")
  case (Cons y ys)
  then have y: "\<not> P y"
    by (metis hd_dropWhile list.distinct(1) list.sel(1))
  have "dropWhile P (rev (y # ys)) = dropWhile P (rev ys) @ [y] \<or>
      (\<exists>zs. dropWhile P (rev (y # ys)) = zs @ [y])"
    using y by (induction ys rule: rev_induct) auto
  then obtain zs where "dropWhile P (rev (y # ys)) = zs @ [y]"
    by auto
  then show ?thesis
    using y by (simp add: Cons)
next
  case Nil
  show ?thesis
    unfolding Nil by simp
qed

lemma trim_ows_idem [simp]: "trim_ows (trim_ows v) = trim_ows v"
  by (simp add: trim_ows_def dropWhile_rev_dropWhile)

lemma trim_ows_space: "trim_ows (CHR '' '' # v) = trim_ows v"
  by (simp add: trim_ows_def is_ows_def)

lemma token_octet_plain: "token_octet b \<Longrightarrow> 33 \<le> octet b \<and> octet b < 127 \<and> b \<noteq> CHR '':''"
  by (auto simp: token_octet_def byte_class_defs)

lemma valid_token_plain:
  assumes "valid_token n"
  shows "n \<noteq> []" and "b \<in> set n \<Longrightarrow> 33 \<le> octet b \<and> octet b < 127 \<and> b \<noteq> CHR '':''"
  using assms token_octet_plain by (auto simp: valid_token_def list_all_iff)

lemma position_append_mid:
  "\<forall>x \<in> set xs. \<not> P x \<Longrightarrow> P y \<Longrightarrow> position P (xs @ y # ys) = Some (length xs)"
  by (induction xs) auto

lemma append_field_line_wire:
  assumes "wire_field H n v"
  shows "append_field_line H h (n @ '': '' @ v) = Ok (hm_append H n v h)"
proof -
  have n: "n \<noteq> []" "\<And>b. b \<in> set n \<Longrightarrow> 33 \<le> octet b \<and> octet b < 127 \<and> b \<noteq> CHR '':''"
    using assms valid_token_plain by (auto simp: wire_field_def)
  have "position (\<lambda>b. b = CHR '':'') (n @ CHR '':'' # CHR '' '' # v) = Some (length n)"
    using n(2) by (intro position_append_mid) auto
  moreover have "\<not> is_ows (hd n)" and "\<not> is_ascii_whitespace (last n)"
    using n(1) n(2) [of "hd n"] n(2) [of "last n"] by (auto simp: is_ows_def is_ascii_whitespace_def)
  ultimately show ?thesis
    using assms n(1) by (simp add: append_field_line_def wire_field_def trim_ows_space Let_def)
qed

lemma wire_field_line_crlf_free:
  assumes "wire_field H n v"
  shows "crlf_free (n @ '': '' @ v)"
proof (rule crlf_free_no_CR)
  have "CR \<notin> set n"
    using assms valid_token_plain(2) [of n CR] by (auto simp: wire_field_def)
  moreover have "CR \<notin> set v"
    using assms by (auto simp: wire_field_def list_ex_iff)
  ultimately show "CR \<notin> set (n @ '': '' @ v)"
    by simp
qed

lemma trailer_section_wire_fields:
  assumes "list_all (\<lambda>(n, v). wire_field H n v) fs"
  shows "\<exists>t. trailer_section H h (serialize_fields fs @ CRLF @ rest) t rest"
  using assms
proof (induction fs arbitrary: h)
  case Nil
  then show ?case
    using trailer_section.last_line [of H h rest] by auto
next
  case (Cons f fs)
  obtain n v where f: "f = (n, v)"
    by fastforce
  then have w: "wire_field H n v"
    using Cons.prems by simp
  obtain t where "trailer_section H (hm_append H n v h) (serialize_fields fs @ CRLF @ rest) t rest"
    using Cons by fastforce
  from trailer_section.field_line [OF wire_field_line_crlf_free [OF w] _ append_field_line_wire [OF w] this]
  show ?case
    using f by auto
qed

lemma append_field_line_keeps_wire:
  assumes "append_field_line H h line = Ok h'" and "wire_fields H h" and "header_laws H"
    and "header_name_laws H"
  shows "wire_fields H h'"
proof -
  obtain name n v w where n: "header_name_from_bytes H name = Some n"
    and w: "header_value_from_bytes H (trim_ows v) = Some w"
    and ctl: "\<not> list_ex (\<lambda>b. (octet b < 32 \<and> b \<noteq> TAB) \<or> octet b = 127) (trim_ows v)"
    and h: "h' = hm_append H n w h"
    using assms(1) by (auto simp: append_field_line_def Let_def split: if_splits option.splits)
  have h': "h' = hm_append H n (trim_ows v) h" and v: "header_value_from_bytes H (trim_ows v) = Some (trim_ows v)"
    using header_value_same [OF assms(3) w] h w by simp_all
  have "wire_field H n (trim_ows v)"
    using n v ctl assms(4) by (auto simp: wire_field_def header_name_laws_def)
  then show ?thesis
    using assms(2,3) by (auto simp: wire_fields_def h' hm_get_all_append split: if_splits)
qed

lemma trailer_section_keeps_wire:
  assumes "trailer_section H h s t rest" and "wire_fields H h" and "header_laws H" and "header_name_laws H"
  shows "wire_fields H t"
  using assms(1,2)
  by (induction rule: trailer_section.induct) (auto intro: append_field_line_keeps_wire assms(3,4))

lemma wire_fields_new: "header_laws H \<Longrightarrow> wire_fields H (hm_new H)"
  by (simp add: wire_fields_def hm_get_all_new)

lemma wire_fields_remove: "header_laws H \<Longrightarrow> wire_fields H h \<Longrightarrow> wire_fields H (hm_remove H n h)"
  by (simp add: wire_fields_def hm_get_all_remove)

lemma wire_fields_fold_remove:
  "header_laws H \<Longrightarrow> wire_fields H h \<Longrightarrow> wire_fields H (fold (hm_remove H) ns h)"
  by (simp add: wire_fields_def hm_get_all_fold_remove)

lemma wire_fields_sanitize:
  "header_laws H \<Longrightarrow> wire_fields H h \<Longrightarrow> sanitize_hop_by_hop H h = Ok h' \<Longrightarrow> wire_fields H h'"
  by (auto simp: sanitize_hop_by_hop_def wire_fields_fold_remove wire_fields_remove)

lemma wire_fields_iter:
  "header_laws H \<Longrightarrow> wire_fields H h \<Longrightarrow> list_all (\<lambda>(n, v). wire_field H n v) (hm_iter H h)"
  by (auto simp: wire_fields_def list_all_iff hm_iter_member)

lemma trailer_section_iter:
  assumes "header_laws H" and "wire_fields H t"
  shows "\<exists>t'. trailer_section H h (serialize_fields (hm_iter H t) @ CRLF @ rest) t' rest"
  using trailer_section_wire_fields [OF wire_fields_iter [OF assms]] .

lemma list_crate_name_laws: "header_name_laws list_crate"
proof -
  have "token_octet (to_ascii_lower c)" if "token_octet c" for c
  proof (cases "is_ascii_uppercase c")
    case True
    then have "is_ascii_alphanumeric (to_ascii_lower c)"
      by (simp add: is_ascii_alphanumeric_def is_ascii_alphabetic_def [of c])
    then show ?thesis
      by (simp add: token_octet_def)
  qed (use that in \<open>simp add: to_ascii_lower_id\<close>)
  then have "valid_token (to_ascii_lowercase b)" if "valid_token b" for b
    using that by (auto simp: valid_token_def to_ascii_lowercase_def list_all_iff)
  then show ?thesis
    by (auto simp: header_name_laws_def list_crate_def split: if_splits)
qed

section \<open>Trailers that a decoder delivers\<close>

definition parsed_trailers :: "'h http_crate \<Rightarrow> 'h \<Rightarrow> bool" where
  "parsed_trailers H t \<longleftrightarrow> (\<exists>s rest. trailer_section H (hm_new H) s t rest)"

lemma parsed_trailers_wire:
  "parsed_trailers H t \<Longrightarrow> header_laws H \<Longrightarrow> header_name_laws H \<Longrightarrow> wire_fields H t"
  using trailer_section_keeps_wire wire_fields_new by (fastforce simp: parsed_trailers_def)

end
