(* ===== verification/Forward.thy ===== *)
theory Forward
  imports Origin_Body Response Wire_Fields
begin

text \<open>
  One exchange over a checked origin stream (\<open>proxy/src/connect/forward.rs\<close>): the request head
  that is sent upstream, the writer that re-encodes the request body in small steps, and the
  loop that waits for the response head while the body is still being sent. The select of the
  loop is resolved by a schedule: each entry names the branch that completes next. A branch
  that is dropped before it completes leaves the streams as they are: a reader keeps the bytes
  it has buffered, and a write that is not ready has written nothing.
\<close>

section \<open>Errors\<close>

datatype forward_error_kind = FwBadRequest | FwBadGateway | FwCancelled | FwClientDisconnected

record forward_error =
  fe_kind :: forward_error_kind
  fe_request_complete :: bool

definition forward_error :: "forward_error_kind \<Rightarrow> bool \<Rightarrow> forward_error" where
  "forward_error kind request_complete = \<lparr>fe_kind = kind, fe_request_complete = request_complete\<rparr>"

section \<open>The request head\<close>

definition request_path :: "bytes \<Rightarrow> bytes \<Rightarrow> bytes" where
  "request_path request_method path_and_query =
     (let path = (if request_method = ''OPTIONS'' \<and> path_and_query = [] then ''*''
                  else if path_and_query = [] then ''/''
                  else if hd path_and_query = CHR ''?'' then []
                  else path_and_query)
      in (if path = [] then ''/'' else []) @ (if path = [] then path_and_query else path))"

definition request_headers ::
    "'h http_crate \<Rightarrow> 'h request_head \<Rightarrow> bytes \<Rightarrow> ('h, unit) result" where
  "request_headers H head host =
     (let transfer_codings = hm_get_all H (rh_headers head) ''transfer-encoding''
      in and_then (map_err (\<lambda>_. ()) (sanitize_hop_by_hop H (rh_headers head))) (\<lambda>headers.
         let headers = (if rh_version head = Http10 then hm_remove H ''expect'' headers else headers);
             headers = fold (hm_remove H) [''host'', ''content-length'', ''transfer-encoding''] headers
         in and_then (ok_or () (header_value_from_bytes H host)) (\<lambda>host.
            let headers = append_via H (hm_insert H ''host'' host headers) (rh_version head)
            in case rh_framing head of
                 NoBody \<Rightarrow> Ok headers
               | ContentLength len \<Rightarrow>
                   and_then (ok_or () (header_value_from_bytes H (show_nat (unat len)))) (\<lambda>v.
                     Ok (hm_insert H ''content-length'' v headers))
               | Chunked \<Rightarrow>
                   Ok (fold (hm_append H ''transfer-encoding'') transfer_codings headers))))"

definition serialize_request_head ::
    "'h http_crate \<Rightarrow> 'h request_head \<Rightarrow> bytes \<Rightarrow> bytes \<Rightarrow> (bytes, unit) result" where
  "serialize_request_head H head path_and_query host =
     and_then (request_headers H head host) (\<lambda>headers.
       Ok (rh_method head @ '' '' @ request_path (rh_method head) path_and_query
           @ '' HTTP/1.1'' @ CRLF @ serialize_fields (hm_iter H headers) @ CRLF))"

definition write_kind :: "write_error \<Rightarrow> forward_error_kind" where
  "write_kind e =
     (case e of
        Interrupted PeerClosed \<Rightarrow> FwClientDisconnected
      | Interrupted _ \<Rightarrow> FwCancelled
      | _ \<Rightarrow> FwBadGateway)"

definition write_request_head ::
    "bytes \<Rightarrow> 'a byte_sink_scheme \<Rightarrow> (unit, forward_error) result \<times> 'a byte_sink_scheme" where
  "write_request_head request_head k =
     (let watched = [ShutdownBegins, ShutdownForces, PeerClosed]
      in case write_all watched request_head k of
           (Err e, k) \<Rightarrow> (Err (forward_error (write_kind e) False), k)
         | (Ok _, k) \<Rightarrow>
             (case sink_flush watched k of
                (Err e, k) \<Rightarrow> (Err (forward_error (write_kind e) False), k)
              | (Ok _, k) \<Rightarrow> (Ok (), k)))"

section \<open>The request writer\<close>

text \<open>
  \<open>PendingBytes\<close> distinguishes who owns the bytes of a pending write, not what they are.
\<close>

type_synonym fields_queue = "(bytes \<times> bytes) list"

datatype request_state =
    NeedFrame
  | ChunkData bytes
  | ChunkEnd
  | TrailerFields fields_queue
  | TrailerValuePrefix bytes fields_queue
  | TrailerValue bytes fields_queue
  | TrailerLineEnd fields_queue
  | Flush

definition fields_bytes :: "fields_queue \<Rightarrow> nat" where
  "fields_bytes fs = sum_list (map (\<lambda>(n, v). length n + length v) fs)"

primrec state_buffered_bytes :: "request_state \<Rightarrow> nat" where
  "state_buffered_bytes NeedFrame = 0"
| "state_buffered_bytes (ChunkData data) = length data"
| "state_buffered_bytes ChunkEnd = 0"
| "state_buffered_bytes (TrailerFields fs) = fields_bytes fs"
| "state_buffered_bytes (TrailerValuePrefix v fs) = length v + fields_bytes fs"
| "state_buffered_bytes (TrailerValue v fs) = length v + fields_bytes fs"
| "state_buffered_bytes (TrailerLineEnd fs) = fields_bytes fs"
| "state_buffered_bytes Flush = 0"

record pending_write =
  pw_bytes :: bytes
  pw_offset :: nat
  pw_next :: request_state

definition pending_buffered_bytes :: "pending_write \<Rightarrow> nat" where
  "pending_buffered_bytes p = length (pw_bytes p) - pw_offset p + state_buffered_bytes (pw_next p)"

record 'h request_writer =
  rw_decoder :: "'h body_decoder_state"
  rw_chunked :: bool
  rw_state :: request_state
  rw_pending :: "pending_write option"
  rw_trailer_nominations :: "bytes list"
  rw_complete :: bool

definition request_writer_new :: "'h http_crate \<Rightarrow> body_framing \<Rightarrow> bytes list \<Rightarrow> 'h request_writer" where
  "request_writer_new H framing trailer_nominations =
     \<lparr>rw_decoder = body_decoder_new H framing, rw_chunked = (framing = Chunked), rw_state = NeedFrame,
      rw_pending = None, rw_trailer_nominations = trailer_nominations, rw_complete = False\<rparr>"

definition waiting_on_upstream :: "'h request_writer \<Rightarrow> bool" where
  "waiting_on_upstream w \<longleftrightarrow> rw_pending w \<noteq> None \<or> rw_state w = Flush"

definition writer_buffered_bytes :: "'h http_crate \<Rightarrow> 'h request_writer \<Rightarrow> nat" where
  "writer_buffered_bytes H w =
     buffered_bytes H (rw_decoder w) + state_buffered_bytes (rw_state w)
       + (case rw_pending w of None \<Rightarrow> 0 | Some p \<Rightarrow> pending_buffered_bytes p)"

definition step_upstream ::
    "'h request_writer \<Rightarrow> 'a byte_sink_scheme
       \<Rightarrow> (unit, forward_error_kind) result \<times> 'h request_writer \<times> 'a byte_sink_scheme" where
  "step_upstream w k =
     (case rw_pending w of
        Some p \<Rightarrow>
          (case sink_write [] (drop (pw_offset p) (pw_bytes p)) k of
             (Err _, k) \<Rightarrow> (Err FwBadGateway, w, k)
           | (Ok written, k) \<Rightarrow>
               if written = 0 then (Err FwBadGateway, w, k)
               else
                 (let p = p\<lparr>pw_offset := pw_offset p + written\<rparr>
                  in if pw_offset p = length (pw_bytes p)
                     then (Ok (), w\<lparr>rw_pending := None, rw_state := pw_next p\<rparr>, k)
                     else (Ok (), w\<lparr>rw_pending := Some p\<rparr>, k)))
      | None \<Rightarrow>
          (case sink_flush [] k of
             (Err _, k) \<Rightarrow> (Err FwBadGateway, w, k)
           | (Ok _, k) \<Rightarrow> (Ok (), w\<lparr>rw_complete := True\<rparr>, k)))"

definition queue :: "bytes \<Rightarrow> request_state \<Rightarrow> 'h request_writer \<Rightarrow> 'h request_writer" where
  "queue bs next_state w = w\<lparr>rw_pending := Some \<lparr>pw_bytes = bs, pw_offset = 0, pw_next = next_state\<rparr>\<rparr>"

text \<open>
  \<open>std::mem::replace\<close> leaves \<open>NeedFrame\<close> in the state while the step runs; the \<open>Flush\<close> state is
  unreachable here, which the caller checks.
\<close>

definition step_downstream ::
    "'h http_crate \<Rightarrow> 'h request_writer \<Rightarrow> http1_connection
       \<Rightarrow> (unit, forward_error_kind) result \<times> 'h request_writer \<times> http1_connection" where
  "step_downstream H w c =
     (let state = rw_state w; w = w\<lparr>rw_state := NeedFrame\<rparr>
      in case state of
           NeedFrame \<Rightarrow>
             (case next_frame H (rw_decoder w) c of
                (Err _, d, c) \<Rightarrow> (Err FwBadRequest, w\<lparr>rw_decoder := d\<rparr>, c)
              | (Ok frame, d, c) \<Rightarrow>
                  (let w = w\<lparr>rw_decoder := d\<rparr>
                   in case frame of
                        Some (DataFrame data) \<Rightarrow>
                          if rw_chunked w
                          then (Ok (), queue (show_hex (length data) @ CRLF) (ChunkData data) w, c)
                          else (Ok (), queue data NeedFrame w, c)
                      | Some (TrailersFrame trailers) \<Rightarrow>
                          (case sanitize_hop_by_hop H trailers of
                             Err _ \<Rightarrow> (Err FwBadRequest, w, c)
                           | Ok trailers \<Rightarrow>
                               (let trailers = fold (hm_remove H) (rw_trailer_nominations w) trailers
                                in (Ok (), queue (''0'' @ CRLF) (TrailerFields (hm_iter H trailers)) w, c)))
                      | None \<Rightarrow>
                          if rw_chunked w then (Ok (), queue (''0'' @ CRLF @ CRLF) Flush w, c)
                          else (Ok (), w\<lparr>rw_state := Flush\<rparr>, c)))
         | ChunkData data \<Rightarrow> (Ok (), queue data ChunkEnd w, c)
         | ChunkEnd \<Rightarrow> (Ok (), queue CRLF NeedFrame w, c)
         | TrailerFields [] \<Rightarrow> (Ok (), queue CRLF Flush w, c)
         | TrailerFields ((name, v) # fs) \<Rightarrow> (Ok (), queue name (TrailerValuePrefix v fs) w, c)
         | TrailerValuePrefix v fs \<Rightarrow> (Ok (), queue '': '' (TrailerValue v fs) w, c)
         | TrailerValue v fs \<Rightarrow> (Ok (), queue v (TrailerLineEnd fs) w, c)
         | TrailerLineEnd fs \<Rightarrow> (Ok (), queue CRLF (TrailerFields fs) w, c)
         | Flush \<Rightarrow> (Ok (), w\<lparr>rw_state := Flush\<rparr>, c))"

section \<open>The exchange\<close>

datatype branch = TakeCancelled | TakeResponse | TakeProgress | TakePeerClosed

record 'h exchange =
  ex_downstream :: http1_connection
  ex_client :: byte_sink
  ex_reader :: origin_reader
  ex_writer :: byte_sink
  ex_request :: "'h request_writer"

text \<open>
  A branch that the select does not have in the current state does not complete, so it changes
  nothing. The result is \<open>Ok None\<close> for a step of the request and \<open>Ok (Some r)\<close> for a response.
\<close>

definition advance_exchange ::
    "'h http_crate \<Rightarrow> bytes \<Rightarrow> branch \<Rightarrow> 'h exchange
       \<Rightarrow> (('h origin_response_head, origin_error) result option, forward_error_kind) result \<times> 'h exchange" where
  "advance_exchange H request_method branch ex =
     (case branch of
        TakeCancelled \<Rightarrow> (Err FwCancelled, ex)
      | TakeResponse \<Rightarrow>
          (case read_response_head H request_method (ex_reader ex) of
             (response, reader) \<Rightarrow> (Ok (Some response), ex\<lparr>ex_reader := reader\<rparr>))
      | TakeProgress \<Rightarrow>
          if rw_complete (ex_request ex) then (Ok None, ex)
          else if waiting_on_upstream (ex_request ex) then
            (case step_upstream (ex_request ex) (ex_writer ex) of
               (r, w, k) \<Rightarrow> (and_then r (\<lambda>_. Ok None), ex\<lparr>ex_request := w, ex_writer := k\<rparr>))
          else
            (case step_downstream H (ex_request ex) (ex_downstream ex) of
               (r, w, c) \<Rightarrow> (and_then r (\<lambda>_. Ok None), ex\<lparr>ex_request := w, ex_downstream := c\<rparr>))
      | TakePeerClosed \<Rightarrow>
          if rw_complete (ex_request ex) \<or> waiting_on_upstream (ex_request ex)
          then (Err FwClientDisconnected, ex) else (Ok None, ex))"

text \<open>
  What the response head is turned into for the client: protocol switches are refused, hop
  fields are dropped, and transfer codings that precede the chunked one are kept for HTTP/1.1
  and refused for HTTP/1.0.
\<close>

definition check_response ::
    "'h http_crate \<Rightarrow> version \<Rightarrow> 'h origin_response_head \<Rightarrow> ('h \<times> bytes list, unit) result" where
  "check_response H version response =
     (if or_status response = 101 then Err ()
      else
        (let transfer_codings = hm_get_all H (or_headers response) ''transfer-encoding''
         in and_then (map_err (\<lambda>_. ()) (connection_nominations H (or_headers response))) (\<lambda>nominations.
            and_then (map_err (\<lambda>_. ()) (sanitize_hop_by_hop H (or_headers response))) (\<lambda>headers.
            and_then
              (if version = Http11 then
                 (let headers = fold (hm_append H ''transfer-encoding'') transfer_codings headers
                  in Ok (if or_transfer_coding response = FinalNonChunked \<and> or_framing response \<noteq> OriginNoBody
                         then hm_append H ''transfer-encoding'' ''chunked'' headers else headers))
               else if or_framing response \<noteq> OriginNoBody
                 \<and> or_transfer_coding response \<in> {FinalNonChunked, FinalChunked True} then Err ()
               else Ok headers) (\<lambda>headers.
            Ok (append_via H headers (or_version response), nominations))))))"

definition forward_informational ::
    "'h http_crate \<Rightarrow> nat \<Rightarrow> 'h \<Rightarrow> version \<Rightarrow> byte_sink \<Rightarrow> (unit, write_error) result \<times> byte_sink" where
  "forward_informational H status headers downstream_version k =
     (if downstream_version = Http10 then (Ok (), k)
      else write_informational H status headers downstream_version k)"

record ('h, 'k) forwarded =
  fw_status :: nat
  fw_headers :: 'h
  fw_body :: "'k streaming_body"
  fw_request_complete :: bool

definition response_poolable :: "bool \<Rightarrow> 'h origin_response_head \<Rightarrow> bool" where
  "response_poolable request_complete response \<longleftrightarrow>
     request_complete \<and> \<not> or_close response \<and> or_framing response \<noteq> OriginCloseDelimited"

text \<open>The loop runs along the schedule; \<open>None\<close> means that the schedule ended first.\<close>

fun exchange_loop ::
    "'h http_crate \<Rightarrow> nat \<Rightarrow> 'h request_head \<Rightarrow> 'k \<Rightarrow> 'k origin_pool \<Rightarrow> branch list \<Rightarrow> 'h exchange
       \<Rightarrow> (('h, 'k) forwarded, forward_error) result option \<times> 'h exchange \<times> 'k origin_pool" where
  "exchange_loop H now head key pool [] ex = (None, ex, pool)"
| "exchange_loop H now head key pool (branch # schedule) ex =
     (case advance_exchange H (rh_method head) branch ex of
        (Err kind, ex) \<Rightarrow> (Some (Err (forward_error kind (rw_complete (ex_request ex)))), ex, pool)
      | (Ok None, ex) \<Rightarrow> exchange_loop H now head key pool schedule ex
      | (Ok (Some response), ex) \<Rightarrow>
          (let complete = rw_complete (ex_request ex);
               bad = Some (Err (forward_error FwBadGateway complete))
           in case response of
                Err _ \<Rightarrow> (bad, ex, pool)
              | Ok response \<Rightarrow>
                  (case check_response H (rh_version head) response of
                     Err _ \<Rightarrow> (bad, ex, pool)
                   | Ok (headers, nominations) \<Rightarrow>
                       if is_informational (or_status response) then
                         (case forward_informational H (or_status response) headers (rh_version head)
                                 (ex_client ex) of
                            (Err _, k) \<Rightarrow>
                              (Some (Err (forward_error FwClientDisconnected complete)), ex\<lparr>ex_client := k\<rparr>, pool)
                          | (Ok _, k) \<Rightarrow>
                              exchange_loop H now head key pool schedule (ex\<lparr>ex_client := k\<rparr>))
                       else
                         (case streaming_new now (ex_reader ex) key pool
                                 \<lparr>oc_framing = or_framing response, oc_trailer_nominations = nominations,
                                  oc_poolable = response_poolable complete response\<rparr> of
                            (body, pool) \<Rightarrow>
                              (Some (Ok \<lparr>fw_status = or_status response, fw_headers = headers, fw_body = body,
                                         fw_request_complete = complete\<rparr>), ex, pool)))))"

definition exchange ::
    "'h http_crate \<Rightarrow> nat \<Rightarrow> http1_connection \<Rightarrow> byte_sink \<Rightarrow> 'h request_head \<Rightarrow> bytes \<Rightarrow> bytes
       \<Rightarrow> origin_reader \<Rightarrow> byte_sink \<Rightarrow> 'k \<Rightarrow> 'k origin_pool \<Rightarrow> branch list
       \<Rightarrow> (('h, 'k) forwarded, forward_error) result option \<times> 'h exchange \<times> 'k origin_pool" where
  "exchange H now downstream client head path_and_query host reader writer key pool schedule =
     (let start = (\<lambda>writer nominations.
            \<lparr>ex_downstream = downstream, ex_client = client, ex_reader = reader, ex_writer = writer,
             ex_request = request_writer_new H (rh_framing head) nominations\<rparr>);
          bad = Some (Err (forward_error FwBadRequest False))
      in case connection_nominations H (rh_headers head) of
           Err _ \<Rightarrow> (bad, start writer [], pool)
         | Ok nominations \<Rightarrow>
             (case serialize_request_head H head path_and_query host of
                Err _ \<Rightarrow> (bad, start writer nominations, pool)
              | Ok request_head \<Rightarrow>
                  (case write_request_head request_head writer of
                     (Err e, writer) \<Rightarrow> (Some (Err e), start writer nominations, pool)
                   | (Ok _, writer) \<Rightarrow>
                       exchange_loop H now head key pool schedule (start writer nominations))))"

section \<open>What the decoder hands to the writer\<close>

definition frame_fact :: "'h http_crate \<Rightarrow> 'h body_frame option \<Rightarrow> bool" where
  "frame_fact H r \<longleftrightarrow>
     (case r of
        Some (DataFrame x) \<Rightarrow> length x \<le> REQUEST_BODY_FRAME_LIMIT
      | Some (TrailersFrame t) \<Rightarrow> parsed_trailers H t
      | None \<Rightarrow> True)"

lemma read_body_data_length:
  assumes "read_body_data maximum c = (Ok (Some x), c')"
  shows "length x \<le> maximum"
  using assms io_read_Some(2)
  by (force simp: read_body_data_def take_buffered_def read_fresh_def Let_def
      split: if_splits prod.splits option.splits)

lemma data_limit_le: "data_limit n \<le> REQUEST_BODY_FRAME_LIMIT"
  by (simp add: data_limit_def)

lemma next_frame_fact:
  assumes "next_frame H d c = (Ok r, d', c')" and "request_wf H (d, c)"
  shows "frame_fact H r"
  using assms
proof (induction H d c rule: next_frame.induct)
  case (1 H d c)
  have wf: "bb_wf c" and tr: "bd_trailer_headers d = hm_new H"
    using "1.prems"(2) by simp_all
  note step = "1.prems"(1) [unfolded next_frame.simps [of H d c]]
  show ?case
  proof (cases "bd_state d")
    case DecComplete
    then show ?thesis
      using step by (auto simp: frame_fact_def)
  next
    case (DecFixed n)
    show ?thesis
    proof (cases "n = 0")
      case True
      then show ?thesis
        using step DecFixed "1.IH"(1) "1.prems"(2) by auto
    next
      case False
      then show ?thesis
        using step DecFixed read_body_data_length data_limit_le [of n] order_trans
        by (fastforce simp: frame_fact_def split: prod.splits result.splits option.splits)
    qed
  next
    case (DecChunkData n)
    then show ?thesis
      using step read_body_data_length data_limit_le [of n] order_trans
      by (fastforce simp: frame_fact_def Let_def split: prod.splits result.splits option.splits)
  next
    case DecChunkSize
    then obtain line len x where line: "read_body_line c CHUNK_LINE_LIMIT = (Ok line, x)"
      and len: "parse_chunk_size line = Ok len"
      and rec: "next_frame H (d\<lparr>bd_state := if len = 0 then DecTrailers else DecChunkData len\<rparr>) x
                  = (Ok r, d', c')"
      using step by (auto split: prod.splits result.splits)
    have "read_crlf_line CHUNK_LINE_LIMIT c = (Ok line, x)"
      using line by (auto simp: read_body_line_def split: prod.splits)
    then have "bb_wf x"
      using read_crlf_line_Ok wf by blast
    then show ?thesis
      using "1.IH"(2) [OF DecChunkSize line [symmetric] refl len rec] tr by auto
  next
    case DecChunkDataEnd
    then obtain x where ens: "ensure_buffered 2 c = (Ok (), x)" and crlf: "take 2 (bb_available x) = CRLF"
      and rec: "next_frame H (d\<lparr>bd_state := DecChunkSize\<rparr>) (consume 2 x) = (Ok r, d', c')"
      using step by (auto split: prod.splits result.splits if_splits)
    have "bb_wf (consume 2 x)"
      using ensure_buffered_Ok [OF ens wf] bb_wf_consume by blast
    then show ?thesis
      using "1.IH"(3) DecChunkDataEnd ens crlf rec tr by auto
  next
    case DecTrailers
    then obtain d1 where t: "read_body_trailers H d c = (Ok (), d1, c')"
      and r: "r = None \<or> r = Some (TrailersFrame (bd_trailer_headers d1))"
      using step by (auto simp: Let_def split: prod.splits result.splits if_splits)
    then obtain h o' where "read_trailer_lines H (hm_new H) (bd_trailer_octets d) c = (Ok (), h, o', c')"
      and "bd_trailer_headers d1 = h"
      using tr by (auto simp: read_body_trailers_def split: prod.splits)
    with read_trailer_lines_Ok [OF this(1) wf] have "parsed_trailers H (bd_trailer_headers d1)"
      unfolding parsed_trailers_def by blast
    then show ?thesis
      using r by (auto simp: frame_fact_def)
  qed
qed

text \<open>A body with a fixed length has no trailers.\<close>

definition fixed_phase :: "decoder_state \<Rightarrow> bool" where
  "fixed_phase st \<longleftrightarrow> st = DecComplete \<or> (\<exists>n. st = DecFixed n)"

lemma next_frame_fixed:
  assumes "next_frame H d c = (Ok r, d', c')" and "fixed_phase (bd_state d)"
  shows "fixed_phase (bd_state d') \<and> (case r of Some (TrailersFrame t) \<Rightarrow> False | _ \<Rightarrow> True)"
  using assms
proof (induction H d c rule: next_frame.induct)
  case (1 H d c)
  note step = "1.prems"(1) [unfolded next_frame.simps [of H d c]]
  show ?case
  proof (cases "bd_state d = DecComplete")
    case True
    then show ?thesis
      using step by (auto simp: fixed_phase_def)
  next
    case False
    then obtain n where n: "bd_state d = DecFixed n"
      using "1.prems"(2) by (auto simp: fixed_phase_def)
    show ?thesis
    proof (cases "n = 0")
      case True
      then have "next_frame H (d\<lparr>bd_state := DecComplete\<rparr>) c = (Ok r, d', c')"
        using step n by simp
      then show ?thesis
        using "1.IH"(1) n True by (simp add: fixed_phase_def)
    next
      case False
      then show ?thesis
        using step n by (auto simp: fixed_phase_def split: prod.splits result.splits option.splits)
    qed
  qed
qed

section \<open>The request writer refines the encoder\<close>

text \<open>
  The bytes that the writer has still to write for what it has taken from the decoder, and
  whether it is past the data of the body.
\<close>

primrec remaining :: "request_state \<Rightarrow> bytes" where
  "remaining NeedFrame = []"
| "remaining (ChunkData data) = data @ CRLF"
| "remaining ChunkEnd = CRLF"
| "remaining (TrailerFields fs) = serialize_fields fs @ CRLF"
| "remaining (TrailerValuePrefix v fs) = '': '' @ v @ CRLF @ serialize_fields fs @ CRLF"
| "remaining (TrailerValue v fs) = v @ CRLF @ serialize_fields fs @ CRLF"
| "remaining (TrailerLineEnd fs) = CRLF @ serialize_fields fs @ CRLF"
| "remaining Flush = []"

primrec in_tail :: "request_state \<Rightarrow> bool" where
  "in_tail NeedFrame = False"
| "in_tail (ChunkData data) = False"
| "in_tail ChunkEnd = False"
| "in_tail (TrailerFields fs) = True"
| "in_tail (TrailerValuePrefix v fs) = True"
| "in_tail (TrailerValue v fs) = True"
| "in_tail (TrailerLineEnd fs) = True"
| "in_tail Flush = True"

definition next_state :: "'h request_writer \<Rightarrow> request_state" where
  "next_state w = (case rw_pending w of Some p \<Rightarrow> pw_next p | None \<Rightarrow> rw_state w)"

definition unsent :: "'h request_writer \<Rightarrow> bytes" where
  "unsent w =
     (case rw_pending w of Some p \<Rightarrow> drop (pw_offset p) (pw_bytes p) | None \<Rightarrow> []) @ remaining (next_state w)"

text \<open>The abstract encoder: chunks and trailers for the chunked coding, the plain data otherwise.\<close>

definition encode_data :: "bool \<Rightarrow> bytes list \<Rightarrow> bytes" where
  "encode_data chunked ds = concat (map (if chunked then encode_chunk else id) ds)"

definition encode_request_body :: "bool \<Rightarrow> bytes list \<Rightarrow> fields_queue \<Rightarrow> bytes" where
  "encode_request_body chunked ds fs = (if chunked then encode_body ds fs else concat ds)"

lemma encode_data_snoc:
  "encode_data chunked (ds @ [d]) = encode_data chunked ds @ (if chunked then encode_chunk d else d)"
  by (simp add: encode_data_def)

lemma encode_request_body_data:
  "encode_request_body chunked ds fs =
     encode_data chunked ds @ (if chunked then ''0'' @ CRLF @ serialize_fields fs @ CRLF else [])"
  by (simp add: encode_request_body_def encode_data_def encode_body_def)

definition good_chunks :: "bytes list \<Rightarrow> bool" where
  "good_chunks ds \<longleftrightarrow> (\<forall>d \<in> set ds. d \<noteq> [] \<and> length d < 2 ^ 64)"

text \<open>
  What has been written and what is still unsent make up the encoding of the data that has been
  taken from the decoder, which is what the client's stream says.
\<close>

definition writer_data ::
    "'h http_crate \<Rightarrow> body_framing \<Rightarrow> bytes \<Rightarrow> body_phase \<times> bytes \<Rightarrow> request_state \<Rightarrow> bytes \<Rightarrow> bool" where
  "writer_data H framing stream view st out \<longleftrightarrow>
     (\<exists>ds. good_chunks ds \<and> extends H (framing_phase framing, stream) (concat ds) view \<and>
        (if in_tail st
         then fst view = P_Done \<and>
           (\<exists>fs. list_all (\<lambda>(n, v). wire_field H n v) fs \<and>
              out = encode_request_body (framing = Chunked) ds fs)
         else out = encode_data (framing = Chunked) ds))"

definition writer_inv ::
    "'h http_crate \<Rightarrow> body_framing \<Rightarrow> bytes \<Rightarrow> bytes \<Rightarrow> 'h request_writer \<Rightarrow> http1_connection \<Rightarrow> bool" where
  "writer_inv H framing stream out w c \<longleftrightarrow>
     request_wf H (rw_decoder w, c) \<and> rw_chunked w = (framing = Chunked) \<and>
     (framing \<noteq> Chunked \<longrightarrow> fixed_phase (bd_state (rw_decoder w))) \<and>
     (rw_complete w \<longrightarrow> rw_pending w = None \<and> rw_state w = Flush) \<and>
     writer_data H framing stream (request_view (rw_decoder w, c)) (next_state w) (out @ unsent w)"

lemma writer_inv_new:
  assumes "bb_wf c"
  shows "writer_inv H framing (bb_pending c) [] (request_writer_new H framing names) c"
proof -
  have "framing \<noteq> Chunked \<Longrightarrow> fixed_phase (bd_state (body_decoder_new H framing))"
    by (cases framing) (auto simp: body_decoder_new_def fixed_phase_def)
  moreover have "extends H (framing_phase framing, bb_pending c) []
      (request_view (body_decoder_new H framing, c))"
    by (simp add: request_view_new extends_refl)
  ultimately show ?thesis
    using assms request_wf_new [OF assms, of H framing]
    by (auto simp: writer_inv_def writer_data_def request_writer_new_def next_state_def unsent_def
        good_chunks_def encode_data_def intro!: exI [of _ "[]"])
qed

lemma step_upstream_inv:
  assumes "writer_inv H framing stream out w c" and "\<not> rw_complete w" and "waiting_on_upstream w"
    and "step_upstream w k = (r, w', k')"
  shows "\<exists>more. sk_out k' = sk_out k @ more \<and> writer_inv H framing stream (out @ more) w' c"
proof (cases "rw_pending w")
  case None
  then have "sk_out k' = sk_out k" and "w' = w \<or> w' = w\<lparr>rw_complete := True\<rparr>"
    using assms(4) sink_flush_out by (auto simp: step_upstream_def split: prod.splits result.splits)
  moreover have "rw_state w = Flush"
    using assms(3) None by (simp add: waiting_on_upstream_def)
  ultimately show ?thesis
    using assms(1) None by (intro exI [of _ "[]"]) (auto simp: writer_inv_def next_state_def unsent_def)
next
  case (Some p)
  obtain x k1 where x: "sink_write [] (drop (pw_offset p) (pw_bytes p)) k = (x, k1)"
    by fastforce
  show ?thesis
  proof (cases "\<exists>n. x = Ok n \<and> n \<noteq> 0")
    case False
    then have "k' = k1" and "w' = w"
      using assms(4) Some x by (auto simp: step_upstream_def split: result.splits if_splits)
    moreover have "sk_out k1 = sk_out k"
      using x False sink_write_Err [of "[]" _ k _ k1] sink_write_Ok [of "[]" _ k 0 k1] by (cases x) auto
    ultimately show ?thesis
      using assms(1) by (intro exI [of _ "[]"]) simp
  next
    case True
    then obtain n where n: "x = Ok n" "n \<noteq> 0"
      by blast
    let ?p = "p\<lparr>pw_offset := pw_offset p + n\<rparr>"
    note w = sink_write_Ok [OF x [unfolded n(1)]]
    have k': "k' = k1" and w': "w' = (if pw_offset ?p = length (pw_bytes p)
        then w\<lparr>rw_pending := None, rw_state := pw_next p\<rparr> else w\<lparr>rw_pending := Some ?p\<rparr>)"
      using assms(4) Some x n by (auto simp: step_upstream_def Let_def split: if_splits)
    have rest: "take n (drop (pw_offset p) (pw_bytes p)) @ drop (pw_offset ?p) (pw_bytes p)
        = drop (pw_offset p) (pw_bytes p)"
      by (metis add.commute append_take_drop_id drop_drop pending_write.select_convs(2)
          pending_write.simps(8) pending_write.surjective pending_write.update_convs(2))
    have next': "next_state w' = next_state w" and dec: "rw_decoder w' = rw_decoder w"
      and "rw_chunked w' = rw_chunked w" and "rw_complete w' = rw_complete w"
      using Some w' by (auto simp: next_state_def)
    moreover have "take n (drop (pw_offset p) (pw_bytes p)) @ unsent w' = unsent w"
    proof -
      have "unsent w' = drop (pw_offset ?p) (pw_bytes p) @ remaining (next_state w)"
        using next' w' Some by (auto simp: unsent_def next_state_def)
      then show ?thesis
        using rest Some by (simp add: unsent_def next_state_def)
    qed
    ultimately show ?thesis
      using assms(1,2) w k' by (intro exI [of _ "take n (drop (pw_offset p) (pw_bytes p))"])
        (auto simp: writer_inv_def)
  qed
qed

lemma queue_simps [simp]:
  "next_state (queue bs st w) = st"
  "unsent (queue bs st w) = bs @ remaining st"
  "rw_decoder (queue bs st w) = rw_decoder w"
  "rw_chunked (queue bs st w) = rw_chunked w"
  "rw_complete (queue bs st w) = rw_complete w"
  by (simp_all add: queue_def next_state_def unsent_def)

lemma writer_data_same:
  "writer_data H framing stream view st out \<Longrightarrow> in_tail st' = in_tail st \<Longrightarrow> out' = out \<Longrightarrow>
     writer_data H framing stream view st' out'"
  by (simp add: writer_data_def)

lemma writer_data_frame:
  assumes "writer_data H framing stream view NeedFrame out" and "extends H view d view'" and "d \<noteq> []"
    and "length d < 2 ^ 64" and "\<not> in_tail st"
    and "out' = out @ (if framing = Chunked then encode_chunk d else d)"
  shows "writer_data H framing stream view' st out'"
proof -
  obtain ds where "good_chunks ds" and "extends H (framing_phase framing, stream) (concat ds) view"
    and "out = encode_data (framing = Chunked) ds"
    using assms(1) by (auto simp: writer_data_def)
  moreover then have "extends H (framing_phase framing, stream) (concat (ds @ [d])) view'"
    using extends_trans assms(2) by fastforce
  ultimately show ?thesis
    using assms(3-6) unfolding writer_data_def
    by (intro exI [of _ "ds @ [d]"]) (auto simp: encode_data_snoc good_chunks_def)
qed

lemma writer_data_tail:
  assumes "writer_data H framing stream view NeedFrame out" and "extends H view [] view'"
    and "fst view' = P_Done" and "in_tail st" and "list_all (\<lambda>(n, v). wire_field H n v) fs"
    and "out' = out @ (if framing = Chunked then ''0'' @ CRLF @ serialize_fields fs @ CRLF else [])"
  shows "writer_data H framing stream view' st out'"
proof -
  obtain ds where "good_chunks ds" and "extends H (framing_phase framing, stream) (concat ds) view"
    and "out = encode_data (framing = Chunked) ds"
    using assms(1) by (auto simp: writer_data_def)
  moreover then have "extends H (framing_phase framing, stream) (concat ds) view'"
    using extends_trans [OF _ assms(2)] by fastforce
  ultimately show ?thesis
    using assms(3-6) unfolding writer_data_def
    by (intro exI [of _ ds]) (auto simp: encode_request_body_data)
qed

lemma body_frame_lt: "length d \<le> REQUEST_BODY_FRAME_LIMIT \<Longrightarrow> length d < 2 ^ 64"
  by (simp add: REQUEST_BODY_FRAME_LIMIT_def APPLICATION_BUFFER_LIMIT_def)

lemma step_need_frame_inv:
  assumes inv: "writer_inv H framing stream out w c" and idle: "rw_pending w = None" "rw_state w = NeedFrame"
    and laws: "header_laws H" "header_name_laws H"
    and step: "step_downstream H w c = (Ok (), w', c')"
  shows "writer_inv H framing stream out w' c'"
proof -
  have wf: "request_wf H (rw_decoder w, c)" and ch: "rw_chunked w = (framing = Chunked)"
    and fx: "framing \<noteq> Chunked \<longrightarrow> fixed_phase (bd_state (rw_decoder w))"
    and nc: "\<not> rw_complete w"
    and data: "writer_data H framing stream (request_view (rw_decoder w, c)) NeedFrame out"
    using inv idle by (auto simp: writer_inv_def next_state_def unsent_def)
  obtain r d where frame: "next_frame H (rw_decoder w) c = (Ok r, d, c')"
    using step idle by (auto simp: step_downstream_def Let_def split: prod.splits result.splits
        option.splits body_frame.splits if_splits)
  note law = next_frame_law [OF frame wf] and fact = next_frame_fact [OF frame wf]
  have fx': "framing \<noteq> Chunked \<longrightarrow> fixed_phase (bd_state d)"
    and no_trailers: "framing \<noteq> Chunked \<Longrightarrow> r = Some (TrailersFrame t) \<Longrightarrow> False" for t
    using next_frame_fixed [OF frame] fx by auto
  let ?w = "w\<lparr>rw_state := NeedFrame, rw_decoder := d\<rparr>"
  have base: "request_wf H (d, c')"
    using law by simp
  show ?thesis
  proof (cases r)
    case None
    then have w': "w' = (if framing = Chunked then queue (''0'' @ CRLF @ CRLF) Flush ?w else ?w\<lparr>rw_state := Flush\<rparr>)"
      using step idle frame ch by (auto simp: step_downstream_def)
    have "extends H (request_view (rw_decoder w, c)) [] (request_view (d, c'))"
      and "fst (request_view (d, c')) = P_Done"
      using law None by (auto simp: frame_law_def)
    from writer_data_tail [OF data this, of Flush "[]"]
    show ?thesis
      using w' base fx' ch nc idle by (auto simp: writer_inv_def next_state_def unsent_def queue_def)
  next
    case (Some f)
    show ?thesis
    proof (cases f)
      case (DataFrame x)
      then have w': "w' = (if framing = Chunked then queue (show_hex (length x) @ CRLF) (ChunkData x) ?w
          else queue x NeedFrame ?w)"
        using step idle frame ch Some by (auto simp: step_downstream_def)
      have "extends H (request_view (rw_decoder w, c)) x (request_view (d, c'))" and "x \<noteq> []"
        and "length x < 2 ^ 64"
        using law fact Some DataFrame body_frame_lt by (auto simp: frame_law_def frame_fact_def)
      note frame_data = writer_data_frame [OF data this]
      show ?thesis
        using w' base fx' ch nc frame_data [of "ChunkData x"] frame_data [of NeedFrame]
        by (auto simp: writer_inv_def queue_def next_state_def unsent_def encode_chunk_def)
    next
      case (TrailersFrame t)
      then have chunked: "framing = Chunked"
        using no_trailers Some by blast
      obtain t1 where san: "sanitize_hop_by_hop H t = Ok t1"
        and w': "w' = queue (''0'' @ CRLF)
          (TrailerFields (hm_iter H (fold (hm_remove H) (rw_trailer_nominations w) t1))) ?w"
        using step idle frame Some TrailersFrame
        by (auto simp: step_downstream_def Let_def split: result.splits)
      have "wire_fields H t"
        using fact Some TrailersFrame parsed_trailers_wire [OF _ laws] by (auto simp: frame_fact_def)
      then have wire: "list_all (\<lambda>(n, v). wire_field H n v)
          (hm_iter H (fold (hm_remove H) (rw_trailer_nominations w) t1))"
        using wire_fields_iter [OF laws(1) wire_fields_fold_remove [OF laws(1)
            wire_fields_sanitize [OF laws(1) _ san]]] by blast
      have "extends H (request_view (rw_decoder w, c)) [] (request_view (d, c'))"
        and "fst (request_view (d, c')) = P_Done"
        using law Some TrailersFrame by (auto simp: frame_law_def)
      from writer_data_tail [OF data this _ wire] show ?thesis
        using w' base fx' ch nc chunked by (auto simp: writer_inv_def queue_def next_state_def unsent_def)
    qed
  qed
qed

lemma step_downstream_inv:
  assumes inv: "writer_inv H framing stream out w c" and idle: "\<not> waiting_on_upstream w"
    and laws: "header_laws H" "header_name_laws H"
    and step: "step_downstream H w c = (Ok (), w', c')"
  shows "writer_inv H framing stream out w' c'"
proof (cases "rw_state w = NeedFrame")
  case True
  then show ?thesis
    using assms step_need_frame_inv by (auto simp: waiting_on_upstream_def)
next
  case False
  have pending: "rw_pending w = None" and "rw_state w \<noteq> Flush"
    using idle by (simp_all add: waiting_on_upstream_def)
  then have "c' = c \<and> rw_decoder w' = rw_decoder w \<and> rw_chunked w' = rw_chunked w
      \<and> rw_complete w' = rw_complete w \<and> in_tail (next_state w') = in_tail (next_state w)
      \<and> unsent w' = unsent w"
    using False step
    by (cases "rw_state w")
      (auto simp: step_downstream_def Let_def next_state_def unsent_def queue_def split: list.splits)
  moreover have "\<not> rw_complete w"
    using inv \<open>rw_state w \<noteq> Flush\<close> by (auto simp: writer_inv_def)
  moreover have "writer_data H framing stream (request_view (rw_decoder w, c)) (next_state w) (out @ unsent w)"
    using inv by (simp add: writer_inv_def)
  moreover from this have "writer_data H framing stream (request_view (rw_decoder w, c)) (next_state w') (out @ unsent w')"
    by (rule writer_data_same) (use calculation in simp_all)
  ultimately show ?thesis
    using inv unfolding writer_inv_def by metis
qed

text \<open>A writer that is complete has written the encoding of the client's body.\<close>

lemma writer_inv_complete:
  assumes "writer_inv H framing stream out w c" and "rw_complete w" and "header_laws H"
  shows "\<exists>data. body_of H (framing_phase framing) stream data (bb_pending c)
    \<and> body_of H (framing_phase framing) (out @ rest) data rest"
proof -
  have "next_state w = Flush" and "unsent w = []"
    using assms by (auto simp: writer_inv_def next_state_def unsent_def)
  then have "writer_data H framing stream (request_view (rw_decoder w, c)) Flush out"
    using assms(1) unfolding writer_inv_def by (metis append_Nil2)
  then obtain ds fs where ds: "good_chunks ds"
    and ext: "extends H (framing_phase framing, stream) (concat ds) (request_view (rw_decoder w, c))"
    and d: "fst (request_view (rw_decoder w, c)) = P_Done"
    and fs: "list_all (\<lambda>(n, v). wire_field H n v) fs"
    and enc: "out = encode_request_body (framing = Chunked) ds fs"
    by (auto simp: writer_data_def)
  have body: "body_of H (framing_phase framing) stream (concat ds) (bb_pending c)"
    using ext d body_of.complete [of H "bb_pending c"] unfolding extends_def
    by (metis append_Nil2 fst_conv request_view.simps snd_conv)
  have "body_of H (framing_phase framing) (out @ rest) (concat ds) rest"
  proof (cases framing)
    case NoBody
    then have "body_of H P_Done stream (concat ds) (bb_pending c)"
      using body by simp
    then have "concat ds = []"
      by (rule body_of_DoneE) simp
    then show ?thesis
      using body_of.complete [of H rest]
      by (simp only: enc NoBody encode_request_body_def framing_phase.simps body_framing.distinct if_False
          append_Nil)
  next
    case (ContentLength n)
    then have "body_of H (P_Fixed (unat n)) stream (concat ds) (bb_pending c)"
      using body by simp
    then have "length (concat ds) = unat n"
      by (rule body_of_FixedE) simp
    then show ?thesis
      using body_of.fixed [of "concat ds" "unat n" H rest] enc ContentLength
      by (simp add: encode_request_body_def)
  next
    case Chunked
    obtain t where "trailer_section H (hm_new H) (serialize_fields fs @ CRLF @ rest) t rest"
      using trailer_section_wire_fields [OF fs] by blast
    from body_of_encode [OF _ this] show ?thesis
      using ds enc Chunked by (simp add: good_chunks_def encode_request_body_def)
  qed
  with body show ?thesis
    by blast
qed

section \<open>The exchange keeps the invariant\<close>

definition exchange_inv :: "'h http_crate \<Rightarrow> body_framing \<Rightarrow> bytes \<Rightarrow> bytes \<Rightarrow> 'h exchange \<Rightarrow> bool" where
  "exchange_inv H framing stream head ex \<longleftrightarrow>
     (\<exists>out. sk_out (ex_writer ex) = head @ out \<and>
        writer_inv H framing stream out (ex_request ex) (ex_downstream ex))"

lemma advance_exchange_inv:
  assumes "exchange_inv H framing stream head ex" and "header_laws H" "header_name_laws H"
    and "advance_exchange H request_method branch ex = (Ok r, ex')"
  shows "exchange_inv H framing stream head ex'"
proof -
  obtain out where out: "sk_out (ex_writer ex) = head @ out"
    and inv: "writer_inv H framing stream out (ex_request ex) (ex_downstream ex)"
    using assms(1) by (auto simp: exchange_inv_def)
  show ?thesis
  proof (cases "branch = TakeProgress \<and> \<not> rw_complete (ex_request ex)")
    case False
    then have "ex_writer ex' = ex_writer ex \<and> ex_request ex' = ex_request ex
        \<and> ex_downstream ex' = ex_downstream ex"
      using assms(4) by (cases branch) (auto simp: advance_exchange_def split: prod.splits if_splits)
    then show ?thesis
      using assms(1) by (simp add: exchange_inv_def)
  next
    case True
    show ?thesis
    proof (cases "waiting_on_upstream (ex_request ex)")
      case up: True
      obtain x w k where step: "step_upstream (ex_request ex) (ex_writer ex) = (x, w, k)"
        by (metis prod_cases3)
      obtain more where "sk_out k = sk_out (ex_writer ex) @ more"
        and "writer_inv H framing stream (out @ more) w (ex_downstream ex)"
        using step_upstream_inv [OF inv _ up step] True by blast
      moreover have "ex' = ex\<lparr>ex_request := w, ex_writer := k\<rparr>"
        using assms(4) True up step by (auto simp: advance_exchange_def)
      ultimately show ?thesis
        using out by (auto simp: exchange_inv_def)
    next
      case down: False
      obtain w c where step: "step_downstream H (ex_request ex) (ex_downstream ex) = (Ok (), w, c)"
        and "ex' = ex\<lparr>ex_request := w, ex_downstream := c\<rparr>"
        using assms(4) True down by (auto simp: advance_exchange_def split: prod.splits)
      then show ?thesis
        using step_downstream_inv [OF inv down assms(2,3) step] out by (auto simp: exchange_inv_def)
    qed
  qed
qed

text \<open>What a forwarded response says about the exchange behind it.\<close>

definition exchange_done ::
    "'h http_crate \<Rightarrow> body_framing \<Rightarrow> bytes \<Rightarrow> bytes \<Rightarrow> ('h, 'k) forwarded \<Rightarrow> 'h exchange \<Rightarrow> bool" where
  "exchange_done H framing stream head f ex \<longleftrightarrow>
     exchange_inv H framing stream head ex \<and> \<not> is_informational (fw_status f) \<and>
     fw_request_complete f = rw_complete (ex_request ex) \<and>
     (\<forall>st. fw_body f = StreamReady st \<and> ob_poolable st \<longrightarrow> fw_request_complete f)"

lemma exchange_loop_done:
  assumes "exchange_loop H now head key pool schedule ex = (Some (Ok f), ex', pool')"
    and "exchange_inv H framing stream bs ex" and "header_laws H" "header_name_laws H"
  shows "exchange_done H framing stream bs f ex' \<and> (pool' = pool \<or> fw_request_complete f)"
  using assms(1,2)
proof (induction schedule arbitrary: ex)
  case Nil
  then show ?case by simp
next
  case (Cons branch schedule)
  obtain x ex1 where adv: "advance_exchange H (rh_method head) branch ex = (x, ex1)"
    by fastforce
  then obtain r where x: "x = Ok r"
    using Cons.prems(1) by (cases x) auto
  have inv: "exchange_inv H framing stream bs ex1"
    using advance_exchange_inv [OF Cons.prems(2) assms(3,4)] adv x by blast
  show ?case
  proof (cases r)
    case None
    then show ?thesis
      using Cons adv x inv by simp
  next
    case (Some response)
    then obtain rsp headers noms where rsp: "response = Ok rsp"
      and chk: "check_response H (rh_version head) rsp = Ok (headers, noms)"
      using Cons.prems(1) adv x by (auto simp: Let_def split: result.splits)
    show ?thesis
    proof (cases "is_informational (or_status rsp)")
      case True
      then obtain k where "exchange_loop H now head key pool schedule (ex1\<lparr>ex_client := k\<rparr>) = (Some (Ok f), ex', pool')"
        using Cons.prems(1) adv x Some rsp chk by (auto simp: Let_def split: result.splits prod.splits)
      moreover have "exchange_inv H framing stream bs (ex1\<lparr>ex_client := k\<rparr>)"
        using inv by (simp add: exchange_inv_def)
      ultimately show ?thesis
        using Cons.IH by blast
    next
      case False
      then show ?thesis
        using Cons.prems(1) adv x Some rsp chk inv
        by (auto simp: Let_def exchange_done_def streaming_new_def response_poolable_def
            split: prod.splits if_splits)
    qed
  qed
qed

lemma exchange_Ok:
  assumes "exchange H now downstream client head path_and_query host reader writer key pool schedule
      = (Some (Ok f), ex, pool')"
    and "header_laws H" "header_name_laws H" and "bb_wf downstream" and "sk_out writer = []"
  shows "\<exists>request_head. serialize_request_head H head path_and_query host = Ok request_head \<and>
    exchange_done H (rh_framing head) (bb_pending downstream) request_head f ex
    \<and> (pool' = pool \<or> fw_request_complete f)"
proof -
  obtain noms bs k where "serialize_request_head H head path_and_query host = Ok bs"
    and wr: "write_request_head bs writer = (Ok (), k)"
    and loop: "exchange_loop H now head key pool schedule
        \<lparr>ex_downstream = downstream, ex_client = client, ex_reader = reader, ex_writer = k,
         ex_request = request_writer_new H (rh_framing head) noms\<rparr> = (Some (Ok f), ex, pool')"
    using assms(1) by (auto simp: exchange_def Let_def split: result.splits prod.splits)
  have "sk_out k = bs"
    using wr assms(5)
    by (auto simp: write_request_head_def Let_def split: prod.splits result.splits
        dest!: write_all_Ok sink_flush_out)
  then have "exchange_inv H (rh_framing head) (bb_pending downstream) bs
      \<lparr>ex_downstream = downstream, ex_client = client, ex_reader = reader, ex_writer = k,
       ex_request = request_writer_new H (rh_framing head) noms\<rparr>"
    using writer_inv_new [OF assms(4)] by (auto simp: exchange_inv_def)
  from exchange_loop_done [OF loop this assms(2,3)] show ?thesis
    using \<open>serialize_request_head H head path_and_query host = Ok bs\<close> by blast
qed

text \<open>Once the request is complete, what was written is the head and the client's body.\<close>

lemma exchange_done_complete:
  assumes "exchange_done H framing stream head f ex" and "fw_request_complete f" and "header_laws H"
  shows "\<exists>out data. sk_out (ex_writer ex) = head @ out \<and>
    body_of H (framing_phase framing) stream data (bb_pending (ex_downstream ex)) \<and>
    body_of H (framing_phase framing) (out @ later) data later"
proof -
  obtain out where "sk_out (ex_writer ex) = head @ out"
    and inv: "writer_inv H framing stream out (ex_request ex) (ex_downstream ex)"
    and "rw_complete (ex_request ex)"
    using assms(1,2) by (auto simp: exchange_done_def exchange_inv_def)
  then show ?thesis
    using writer_inv_complete [OF inv _ assms(3), of later] by blast
qed

text \<open>An exchange that does not end with a response leaves the pool as it is.\<close>

lemma exchange_loop_pool:
  "exchange_loop H now head key pool schedule ex = (result, ex', pool') \<Longrightarrow>
     pool' = pool \<or> (\<exists>f. result = Some (Ok f))"
proof (induction schedule arbitrary: ex)
  case (Cons branch schedule)
  then show ?case
    by (auto simp: Let_def split: prod.splits result.splits option.splits if_splits)
qed simp

lemma exchange_pool:
  "exchange H now downstream client head path_and_query host reader writer key pool schedule
     = (result, ex, pool') \<Longrightarrow> pool' = pool \<or> (\<exists>f. result = Some (Ok f))"
  by (auto simp: exchange_def Let_def dest: exchange_loop_pool split: result.splits prod.splits)

lemma streams_not_poolable:
  assumes "streams H body pool xs body' pool'"
    and "\<And>st. body = StreamReady st \<Longrightarrow> \<not> ob_poolable st"
  shows "pool' = pool"
  using assms
proof (induction rule: streams.induct)
  case (poll now forced body pool x body1 pool1 xs body' pool')
  have "pool1 = pool \<and> (\<forall>st. body1 = StreamReady st \<longrightarrow> \<not> ob_poolable st)"
  proof (cases body)
    case (StreamReady st)
    then show ?thesis
      using poll(1,4) by (auto simp: poll_frame_def advance_def finish_def Let_def
          split: if_splits prod.splits result.splits option.splits)
  qed (use poll(1) in \<open>auto simp: poll_frame_def\<close>)
  then show ?case
    using poll by simp
qed simp

section \<open>The fields of the request head\<close>

definition upstream_fields :: "'h http_crate \<Rightarrow> 'h request_head \<Rightarrow> bytes \<Rightarrow> 'h \<Rightarrow> bool" where
  "upstream_fields H head host hs \<longleftrightarrow>
     hm_get_all H hs ''host'' = [host] \<and>
     hm_get_all H hs ''content-length'' =
       (case rh_framing head of ContentLength n \<Rightarrow> [show_nat (unat n)] | _ \<Rightarrow> []) \<and>
     hm_get_all H hs ''transfer-encoding'' =
       (if rh_framing head = Chunked then hm_get_all H (rh_headers head) ''transfer-encoding'' else []) \<and>
     (\<forall>name. name \<notin> {''host'', ''content-length'', ''transfer-encoding'', ''via''} \<longrightarrow>
        hm_get_all H hs name =
          (if hop_field H (rh_headers head) name \<or> rh_version head = Http10 \<and> name = ''expect'' then []
           else hm_get_all H (rh_headers head) name))"

lemma hm_get_all_fold_append:
  "header_laws H \<Longrightarrow>
     hm_get_all H (fold (hm_append H n) vs h) m = hm_get_all H h m @ (if m = n then vs else [])"
  by (induction vs arbitrary: h) (auto simp: hm_get_all_append)

lemma request_headers_fields:
  assumes "header_laws H" and "request_headers H head host = Ok hs"
  shows "upstream_fields H head host hs"
proof -
  obtain clean host' where clean: "sanitize_hop_by_hop H (rh_headers head) = Ok clean"
    and host: "header_value_from_bytes H host = Some host'"
    using assms(2) by (auto simp: request_headers_def Let_def)
  let ?expect = "if rh_version head = Http10 then hm_remove H ''expect'' clean else clean"
  let ?base = "append_via H (hm_insert H ''host'' host
      (fold (hm_remove H) [''host'', ''content-length'', ''transfer-encoding''] ?expect)) (rh_version head)"
  have host': "host' = host"
    using host header_value_same [OF assms(1)] by blast
  have len: "header_value_from_bytes H (show_nat n) = Some v \<Longrightarrow> v = show_nat n" for n v
    using header_value_same [OF assms(1)] by blast
  note laws = hm_get_all_append [OF assms(1)] hm_get_all_insert [OF assms(1)] hm_get_all_remove [OF assms(1)]
    hm_get_all_fold_append [OF assms(1)] sanitize_get_all [OF assms(1) clean]
  have base: "hm_get_all H ?base m =
      (if m = ''host'' then [host] else if m = ''content-length'' \<or> m = ''transfer-encoding'' then []
       else (if hop_field H (rh_headers head) m \<or> rh_version head = Http10 \<and> m = ''expect'' then []
             else hm_get_all H (rh_headers head) m)
         @ (if m = ''via'' then [case rh_version head of Http10 \<Rightarrow> ''1.0 vhrn'' | Http11 \<Rightarrow> ''1.1 vhrn''] else []))" for m
    by (auto simp: append_via_def laws)
  have hs: "hs = (case rh_framing head of
        NoBody \<Rightarrow> ?base
      | ContentLength n \<Rightarrow> hm_insert H ''content-length'' (show_nat (unat n)) ?base
      | Chunked \<Rightarrow> fold (hm_append H ''transfer-encoding'')
          (hm_get_all H (rh_headers head) ''transfer-encoding'') ?base)"
    using assms(2) clean host host'
    by (auto simp: request_headers_def Let_def split: body_framing.splits dest!: len)
  show ?thesis
    by (cases "rh_framing head") (auto simp: hs upstream_fields_def laws base simp del: fold.simps)
qed

section \<open>Properties\<close>

text \<open>
  C36: the origin gets the request that the client sent. Whatever the schedule of the exchange
  and whatever the partial writes of the sockets, when the exchange reports the request
  complete, the bytes written upstream are the serialised head followed by a body in the same
  framing that decodes to exactly the data the client's stream decodes to; whatever is sent on
  the same connection later starts where this body ends, and the client's next request is
  still unread. The step-wise writer is a refinement of the encoder of whole bodies.
\<close>

theorem forwarded_request_exact:
  assumes "exchange H now downstream client head path_and_query host reader writer key pool schedule
      = (Some (Ok f), ex, pool')"
    and "header_laws H" and "header_name_laws H" and "bb_wf downstream" and "sk_out writer = []"
    and "fw_request_complete f"
  shows "\<exists>request_head out data.
    serialize_request_head H head path_and_query host = Ok request_head \<and>
    sk_out (ex_writer ex) = request_head @ out \<and>
    body_of H (framing_phase (rh_framing head)) (bb_pending downstream) data (bb_pending (ex_downstream ex)) \<and>
    body_of H (framing_phase (rh_framing head)) (out @ later) data later"
proof -
  obtain request_head where head: "serialize_request_head H head path_and_query host = Ok request_head"
    and done': "exchange_done H (rh_framing head) (bb_pending downstream) request_head f ex"
    using exchange_Ok [OF assms(1-5)] by blast
  from exchange_done_complete [OF done' assms(6) assms(2), of later] show ?thesis
    using head by blast
qed

definition example_request :: "field_list request_head" where
  "example_request =
     \<lparr>rh_method = ''POST'', rh_raw_target = ''http://a/'', rh_version = Http11,
      rh_headers = [(''host'', ''a''), (''transfer-encoding'', ''chunked'')], rh_framing = Chunked,
      rh_close = False, rh_upgrade = False, rh_expect = False\<rparr>"

definition example_origin_reply :: origin_reader where
  "example_origin_reply = http_origin_new
     [ReadData (''HTTP/1.1 200 OK'' @ CRLF), ReadData (''Content-Length: 2'' @ CRLF @ CRLF @ ''ok'')]"

definition example_exchange ::
    "((field_list, nat) forwarded, forward_error) result option \<times> field_list exchange \<times> nat origin_pool" where
  "example_exchange =
     exchange list_crate 1 example_chunked \<lparr>sk_events = [], sk_out = []\<rparr> example_request ''/x'' ''a''
       example_origin_reply \<lparr>sk_events = [Accepts 7, Accepts 100], sk_out = []\<rparr> 4
       (pool_build 4 60) (replicate 20 TakeProgress @ [TakeResponse])"

lemma forwarded_caseD:
  "(case x of (Some (Ok f), ex, pool) \<Rightarrow> P f ex pool | _ \<Rightarrow> False) \<Longrightarrow>
     \<exists>f ex pool. x = (Some (Ok f), ex, pool) \<and> P f ex pool"
  by (auto split: prod.splits option.splits result.splits)

theorem forwarded_request_exact_witness:
  "\<exists>out data. body_of list_crate P_Size (bb_pending example_chunked) data ''GET'' \<and>
     body_of list_crate P_Size (out @ ''later'') data ''later''"
proof -
  obtain f ex pool where run: "example_exchange = (Some (Ok f), ex, pool)"
    and f: "fw_request_complete f" and rest: "bb_pending (ex_downstream ex) = ''GET''"
  proof -
    have "case example_exchange of
        (Some (Ok f), ex, _) \<Rightarrow> fw_request_complete f \<and> bb_pending (ex_downstream ex) = ''GET''
      | _ \<Rightarrow> False"
      by code_simp
    with that show thesis
      by (auto split: prod.splits option.splits result.splits)
  qed
  have "bb_wf example_chunked"
    by (simp add: example_chunked_def http1_connection_new_def bb_wf_def script_ok_def)
  from forwarded_request_exact [OF run [unfolded example_exchange_def] list_crate_laws
      list_crate_name_laws this _ f, of "''later''"] rest
  show ?thesis
    by (auto simp: example_request_def)
qed

text \<open>
  C38: an origin connection on which a request is not completely written is never reused.
  Whatever an exchange ends with, an error, a cancellation or a response, and however the body
  of the response is polled afterwards: when the pool is another one than before, the exchange
  returned a response and had by then written the whole request, its head followed by a body
  in the same framing with exactly the data of the client's body.
\<close>

theorem incomplete_request_never_pooled:
  assumes "exchange H now downstream client head path_and_query host reader writer key pool schedule
      = (result, ex, pool1)"
    and "case result of
        Some (Ok f) \<Rightarrow> streams H (fw_body f) pool1 xs body pool2
      | _ \<Rightarrow> pool2 = pool1"
    and "header_laws H" and "header_name_laws H" and "bb_wf downstream" and "sk_out writer = []"
    and "pool2 \<noteq> pool"
  shows "\<exists>f request_head out data. result = Some (Ok f) \<and> fw_request_complete f \<and>
    serialize_request_head H head path_and_query host = Ok request_head \<and>
    sk_out (ex_writer ex) = request_head @ out \<and>
    body_of H (framing_phase (rh_framing head)) (bb_pending downstream) data (bb_pending (ex_downstream ex)) \<and>
    body_of H (framing_phase (rh_framing head)) (out @ later) data later"
proof -
  obtain f where f: "result = Some (Ok f)"
    using exchange_pool [OF assms(1)] assms(2,7) by (auto split: option.splits result.splits)
  obtain request_head where head: "serialize_request_head H head path_and_query host = Ok request_head"
    and d: "exchange_done H (rh_framing head) (bb_pending downstream) request_head f ex"
    and pool: "pool1 = pool \<or> fw_request_complete f"
    using exchange_Ok [OF assms(1) [unfolded f] assms(3-6)] by blast
  have complete: "fw_request_complete f"
  proof (rule ccontr)
    assume "\<not> fw_request_complete f"
    moreover from this have "\<not> ob_poolable st" if "fw_body f = StreamReady st" for st
      using d that by (auto simp: exchange_done_def)
    ultimately show False
      using streams_not_poolable [of H "fw_body f" pool1 xs body pool2] assms(2,7) f pool by simp
  qed
  then show ?thesis
    using exchange_done_complete [OF d _ assms(3), of later] f head by blast
qed

text \<open>The response body of a complete exchange, polled until its connection is in the pool.\<close>

theorem incomplete_request_never_pooled_witness:
  "\<exists>f ex pool1 xs body pool2. example_exchange = (Some (Ok f), ex, pool1) \<and>
     streams list_crate (fw_body f) pool1 xs body pool2 \<and> pool2 \<noteq> pool_build 4 60 \<and>
     (\<exists>out data. body_of list_crate P_Size (bb_pending example_chunked) data (bb_pending (ex_downstream ex)) \<and>
        body_of list_crate P_Size out data [])"
proof -
  let ?pooled = "\<lambda>(f :: (field_list, nat) forwarded) pool1. case poll_frame list_crate 2 False (fw_body f) pool1 of
      (x, body, pool2) \<Rightarrow>
        (case poll_frame list_crate 3 False body pool2 of (y, body, pool3) \<Rightarrow> pool_held pool3 \<noteq> {})"
  have "case example_exchange of (Some (Ok f), ex, pool1) \<Rightarrow> ?pooled f pool1 | _ \<Rightarrow> False"
    by code_simp
  from forwarded_caseD [OF this] obtain f ex pool1 where run: "example_exchange = (Some (Ok f), ex, pool1)"
    and "?pooled f pool1"
    by (elim exE conjE)
  moreover obtain x body1 pool2 where p1: "poll_frame list_crate 2 False (fw_body f) pool1 = (x, body1, pool2)"
    by (metis prod_cases3)
  moreover obtain y body2 pool3 where p2: "poll_frame list_crate 3 False body1 pool2 = (y, body2, pool3)"
    by (metis prod_cases3)
  ultimately have pooled: "pool_held pool3 \<noteq> {}"
    by simp
  have str: "streams list_crate (fw_body f) pool1 [x, y] body2 pool3"
    by (rule streams.poll [OF p1 streams.poll [OF p2 streams.idle]])
  have neq: "pool3 \<noteq> pool_build 4 60"
    using pooled by (auto simp: pool_held_def pool_build_def)
  have wf: "bb_wf example_chunked"
    by (simp add: example_chunked_def http1_connection_new_def bb_wf_def script_ok_def)
  have "\<exists>out data. body_of list_crate P_Size (bb_pending example_chunked) data (bb_pending (ex_downstream ex)) \<and>
      body_of list_crate P_Size out data []"
    using incomplete_request_never_pooled [OF run [unfolded example_exchange_def] _ list_crate_laws
        list_crate_name_laws wf _ neq, of "[x, y]" body2 "[]"] str
    by (auto simp: example_request_def)
  then show ?thesis
    using run str neq by blast
qed

text \<open>
  The head that goes upstream is rewritten as a proxy must. It has one \<open>Host\<close> field, of
  the target; its framing fields are those of the framing that the request was parsed with, so
  they agree with the body that follows; no hop-by-hop field is left; every other end-to-end
  field is kept, but for an \<open>Expect\<close> of an HTTP/1.0 request.
\<close>

theorem upstream_head_fields:
  assumes "header_laws H" and "serialize_request_head H head path_and_query host = Ok bs"
  shows "\<exists>hs. upstream_fields H head host hs \<and>
    bs = rh_method head @ '' '' @ request_path (rh_method head) path_and_query @ '' HTTP/1.1'' @ CRLF
      @ serialize_fields (hm_iter H hs) @ CRLF"
  using assms(2) request_headers_fields [OF assms(1)] by (auto simp: serialize_request_head_def)

theorem upstream_head_fields_witness:
  "\<exists>hs. upstream_fields list_crate example_request ''a'' hs"
proof -
  have "is_ok (serialize_request_head list_crate example_request ''/x'' ''a'')"
    by code_simp
  then obtain bs where "serialize_request_head list_crate example_request ''/x'' ''a'' = Ok bs"
    by (auto simp: is_ok_iff)
  from upstream_head_fields [OF list_crate_laws this] show ?thesis
    by blast
qed

section \<open>Trailers with an empty value\<close>

text \<open>
  The trailers of the body of a stream, as \<open>body_of\<close> decodes it: the map that the trailer
  section after the last chunk parses to.
\<close>

inductive body_trailers :: "'h http_crate \<Rightarrow> body_phase \<Rightarrow> bytes \<Rightarrow> 'h \<Rightarrow> bool" for H where
  trailers_size: "crlf_free line \<Longrightarrow> parse_chunk_size line = Ok len \<Longrightarrow>
    body_trailers H (if len = 0 then P_Trailers else P_Data (unat len)) s t \<Longrightarrow>
    body_trailers H P_Size (line @ CRLF @ s) t"
| trailers_data: "length d = n \<Longrightarrow> body_trailers H P_End s t \<Longrightarrow> body_trailers H (P_Data n) (d @ s) t"
| trailers_end: "body_trailers H P_Size s t \<Longrightarrow> body_trailers H P_End (CRLF @ s) t"
| trailers_section: "trailer_section H (hm_new H) s t rest \<Longrightarrow> body_trailers H P_Trailers s t"

inductive_cases trailers_SizeE: "body_trailers H P_Size s t"
inductive_cases trailers_DataE: "body_trailers H (P_Data n) s t"
inductive_cases trailers_EndE: "body_trailers H P_End s t"
inductive_cases trailers_TrailersE: "body_trailers H P_Trailers s t"
inductive_simps trailers_never [simp]: "body_trailers H P_Done s t" "body_trailers H (P_Fixed n) s t"

lemma trailers_line:
  assumes "body_trailers H P_Size (line @ CRLF @ s) t" and "crlf_free line" and "parse_chunk_size line = Ok len"
  shows "body_trailers H (if len = 0 then P_Trailers else P_Data (unat len)) s t"
proof -
  obtain line2 len2 s2 where line2: "line @ CRLF @ s = line2 @ CRLF @ s2" "crlf_free line2"
    "parse_chunk_size line2 = Ok len2"
    and rest: "body_trailers H (if len2 = 0 then P_Trailers else P_Data (unat len2)) s2 t"
    using assms(1) by (rule trailers_SizeE) (rule that, simp_all)
  have "line2 = line" and "s2 = s"
    using first_line_unique [OF line2(1) assms(2) line2(2)] by simp_all
  moreover from this have "len2 = len"
    using line2(3) assms(3) by simp
  ultimately show ?thesis
    using rest by (simp only:)
qed

lemma trailers_partial_data:
  assumes "body_trailers H (P_Data n) (d @ s) t" and "n = length d + m"
  shows "body_trailers H (P_Data m) s t"
proof -
  obtain e s2 where e: "d @ s = e @ s2" "length e = n" and rest: "body_trailers H P_End s2 t"
    using assms(1) by (rule trailers_DataE)
  then have "s = drop (length d) e @ s2"
    using assms(2) append_eq_append_conv_if [of d s e s2] by simp
  then show ?thesis
    using trailers_data [of "drop (length d) e" m H s2 t] rest e(2) assms(2) by simp
qed

text \<open>Decoding a frame follows the trailers of the stream, up to the frame that carries them.\<close>

definition trailers_law :: "'h http_crate \<Rightarrow> 'h \<Rightarrow> 'h body_frame option \<Rightarrow> body_phase \<times> bytes \<Rightarrow> bool" where
  "trailers_law H t r after \<longleftrightarrow>
     (case r of
        None \<Rightarrow> hm_iter H t = []
      | Some (DataFrame x) \<Rightarrow> body_trailers H (fst after) (snd after) t
      | Some (TrailersFrame t') \<Rightarrow> t' = t)"

lemma next_frame_trailers:
  assumes "next_frame H d c = (Ok r, d', c')" and "request_wf H (d, c)"
    and "body_trailers H (fst (request_view (d, c))) (snd (request_view (d, c))) t"
  shows "trailers_law H t r (request_view (d', c'))"
  using assms
proof (induction H d c rule: next_frame.induct)
  case (1 H d c)
  have wf: "bb_wf c" and tr: "bd_trailer_headers d = hm_new H"
    using "1.prems"(2) by simp_all
  note step = "1.prems"(1) [unfolded next_frame.simps [of H d c]]
    and stream = "1.prems"(3) [simplified]
  show ?case
  proof (cases "bd_state d")
    case (DecChunkData n)
    have n: "n \<noteq> 0"
      using "1.prems"(2) DecChunkData by auto
    let ?m = "\<lambda>x. n - of_nat (length x)"
    obtain x where read: "read_body_data (data_limit n) c = (Ok (Some x), c')"
      and r: "r = Some (DataFrame x)"
      and d': "d' = d\<lparr>bd_state := if ?m x = 0 then DecChunkDataEnd else DecChunkData (?m x)\<rparr>"
      using step DecChunkData by (auto simp: Let_def split: prod.splits result.splits option.splits)
    note data = read_body_data_limit [OF read wf n]
    have "body_trailers H (P_Data (unat (?m x))) (bb_pending c') t"
      using stream DecChunkData data(1) by (intro trailers_partial_data [OF _ data(4)]) simp
    then show ?thesis
      using r d' by (auto simp: trailers_law_def elim: trailers_DataE)
  next
    case DecChunkSize
    then obtain line len x where line: "read_body_line c CHUNK_LINE_LIMIT = (Ok line, x)"
      and len: "parse_chunk_size line = Ok len"
      and rec: "next_frame H (d\<lparr>bd_state := if len = 0 then DecTrailers else DecChunkData len\<rparr>) x
                  = (Ok r, d', c')"
      using step by (auto split: prod.splits result.splits)
    have "read_crlf_line CHUNK_LINE_LIMIT c = (Ok line, x)"
      using line by (auto simp: read_body_line_def split: prod.splits)
    from read_crlf_line_Ok [OF this wf] have p: "bb_pending c = line @ CRLF @ bb_pending x"
      and free: "crlf_free line" and wfx: "bb_wf x"
      by simp_all
    have "body_trailers H (if len = 0 then P_Trailers else P_Data (unat len)) (bb_pending x) t"
      using stream DecChunkSize p trailers_line [OF _ free len, of H "bb_pending x" t] by simp
    then show ?thesis
      using "1.IH"(2) [OF DecChunkSize line [symmetric] refl len rec] tr wfx by (simp split: if_splits)
  next
    case DecChunkDataEnd
    then obtain x where ens: "ensure_buffered 2 c = (Ok (), x)" and crlf: "take 2 (bb_available x) = CRLF"
      and rec: "next_frame H (d\<lparr>bd_state := DecChunkSize\<rparr>) (consume 2 x) = (Ok r, d', c')"
      using step by (auto split: prod.splits result.splits if_splits)
    note e = ensure_buffered_Ok [OF ens wf]
    have "bb_pending c = CRLF @ bb_pending (consume 2 x)"
      using e bb_pending_consume [of 2 x] crlf by simp
    then have "body_trailers H P_Size (bb_pending (consume 2 x)) t"
      using stream DecChunkDataEnd by (auto elim: trailers_EndE)
    moreover have "bb_wf (consume 2 x)"
      using e bb_wf_consume by blast
    ultimately show ?thesis
      using "1.IH"(3) DecChunkDataEnd ens crlf rec tr by simp
  next
    case DecTrailers
    then obtain d1 where t: "read_body_trailers H d c = (Ok (), d1, c')"
      and r: "r = (if hm_iter H (bd_trailer_headers d1) = [] then None
                   else Some (TrailersFrame (bd_trailer_headers d1)))"
      using step by (auto simp: Let_def split: prod.splits result.splits if_splits)
    then obtain o' where "read_trailer_lines H (hm_new H) (bd_trailer_octets d) c
        = (Ok (), bd_trailer_headers d1, o', c')"
      using tr by (auto simp: read_body_trailers_def split: prod.splits)
    from read_trailer_lines_Ok [OF this wf] have parsed:
      "trailer_section H (hm_new H) (bb_pending c) (bd_trailer_headers d1) (bb_pending c')"
      by simp
    obtain rest where "trailer_section H (hm_new H) (bb_pending c) t rest"
      using stream DecTrailers by (auto elim: trailers_TrailersE)
    from trailer_section_unique [OF parsed this] have "bd_trailer_headers d1 = t"
      by simp
    then show ?thesis
      using r by (simp add: trailers_law_def)
  qed (use stream in simp_all)
qed

text \<open>
  A writer that has still to write an empty value: the value is among the trailers that the
  decoder will deliver, or queued, or the write of no bytes is the pending one.
\<close>

definition has_empty :: "fields_queue \<Rightarrow> bool" where
  "has_empty fs \<longleftrightarrow> (\<exists>n. (n, []) \<in> set fs)"

primrec empty_ahead :: "bool \<Rightarrow> request_state \<Rightarrow> bool" where
  "empty_ahead in_stream NeedFrame = in_stream"
| "empty_ahead in_stream (ChunkData data) = in_stream"
| "empty_ahead in_stream ChunkEnd = in_stream"
| "empty_ahead in_stream (TrailerFields fs) = has_empty fs"
| "empty_ahead in_stream (TrailerValuePrefix v fs) = (v = [] \<or> has_empty fs)"
| "empty_ahead in_stream (TrailerValue v fs) = (v = [] \<or> has_empty fs)"
| "empty_ahead in_stream (TrailerLineEnd fs) = has_empty fs"
| "empty_ahead in_stream Flush = False"

definition pending_empty :: "'h request_writer \<Rightarrow> bool" where
  "pending_empty w \<longleftrightarrow> (\<exists>p. rw_pending w = Some p \<and> drop (pw_offset p) (pw_bytes p) = [])"

definition blocked :: "'h http_crate \<Rightarrow> 'h \<Rightarrow> bytes list \<Rightarrow> 'h request_writer \<Rightarrow> http1_connection \<Rightarrow> bool" where
  "blocked H t noms w c \<longleftrightarrow>
     request_wf H (rw_decoder w, c) \<and> rw_trailer_nominations w = noms \<and> \<not> rw_complete w \<and>
     (pending_empty w \<or>
      empty_ahead (body_trailers H (fst (request_view (rw_decoder w, c))) (snd (request_view (rw_decoder w, c))) t)
        (next_state w))"

lemma step_upstream_blocked:
  assumes "blocked H t noms w c" and "waiting_on_upstream w" and "step_upstream w k = (Ok (), w', k')"
  shows "blocked H t noms w' c"
proof -
  obtain p where p: "rw_pending w = Some p"
    using assms(1,2) by (cases "rw_pending w")
      (auto simp: blocked_def pending_empty_def waiting_on_upstream_def next_state_def)
  then obtain n k1 where wr: "sink_write [] (drop (pw_offset p) (pw_bytes p)) k = (Ok n, k1)" and "n \<noteq> 0"
    using assms(3) by (auto simp: step_upstream_def split: prod.splits result.splits if_splits)
  then have "\<not> pending_empty w"
    using sink_write_Ok [OF wr] p by (auto simp: pending_empty_def)
  moreover have "next_state w' = next_state w \<and> rw_decoder w' = rw_decoder w
      \<and> rw_complete w' = rw_complete w \<and> rw_trailer_nominations w' = rw_trailer_nominations w"
    using assms(3) p wr \<open>n \<noteq> 0\<close> by (auto simp: step_upstream_def Let_def next_state_def split: if_splits)
  ultimately show ?thesis
    using assms(1) by (simp add: blocked_def)
qed

lemma queue_nominations [simp]: "rw_trailer_nominations (queue bs st w) = rw_trailer_nominations w"
  by (simp add: queue_def)

lemma trailers_keep_empty:
  assumes "header_laws H" and "[] \<in> set (hm_get_all H t n)" and "\<not> hop_field H t n" and "n \<notin> set noms"
  shows "hm_iter H t \<noteq> []"
    and "sanitize_hop_by_hop H t = Ok t1 \<Longrightarrow> has_empty (hm_iter H (fold (hm_remove H) noms t1))"
proof -
  show "hm_iter H t \<noteq> []"
    using hm_iter_member [OF assms(1), of n "[]" t] assms(2) by auto
  assume "sanitize_hop_by_hop H t = Ok t1"
  from sanitize_get_all [OF assms(1) this, of n] have "[] \<in> set (hm_get_all H (fold (hm_remove H) noms t1) n)"
    using assms by (simp add: hm_get_all_fold_remove)
  then show "has_empty (hm_iter H (fold (hm_remove H) noms t1))"
    using hm_iter_member [OF assms(1)] by (auto simp: has_empty_def)
qed

lemma need_frame_blocked:
  assumes "blocked H t noms w c" and idle: "rw_pending w = None" "rw_state w = NeedFrame"
    and empty: "header_laws H" "[] \<in> set (hm_get_all H t n)" "\<not> hop_field H t n" "n \<notin> set noms"
    and step: "step_downstream H w c = (Ok (), w', c')"
  shows "blocked H t noms w' c'"
proof -
  have wf: "request_wf H (rw_decoder w, c)" and noms: "rw_trailer_nominations w = noms"
    and nc: "\<not> rw_complete w"
    and ahead: "body_trailers H (fst (request_view (rw_decoder w, c))) (snd (request_view (rw_decoder w, c))) t"
    using assms(1) idle by (auto simp: blocked_def pending_empty_def next_state_def)
  obtain r d where frame: "next_frame H (rw_decoder w) c = (Ok r, d, c')"
    using step idle by (auto simp: step_downstream_def Let_def split: prod.splits result.splits
        option.splits body_frame.splits if_splits)
  note law = next_frame_trailers [OF frame wf ahead]
  have wf': "request_wf H (d, c')"
    using next_frame_law [OF frame wf] by simp
  let ?w = "w\<lparr>rw_state := NeedFrame, rw_decoder := d\<rparr>"
  obtain f where r: "r = Some f"
    using law trailers_keep_empty(1) [OF empty] by (cases r) (auto simp: trailers_law_def)
  show ?thesis
  proof (cases f)
    case (DataFrame x)
    then have "w' = queue (show_hex (length x) @ CRLF) (ChunkData x) ?w \<or> w' = queue x NeedFrame ?w"
      using step idle frame r by (auto simp: step_downstream_def Let_def split: if_splits)
    moreover have "body_trailers H (fst (request_view (d, c'))) (snd (request_view (d, c'))) t"
      using law r DataFrame by (simp add: trailers_law_def)
    ultimately show ?thesis
      using wf' noms nc by (elim disjE) (simp_all add: blocked_def)
  next
    case (TrailersFrame t')
    then have "t' = t"
      using law r by (simp add: trailers_law_def)
    then obtain t1 where san: "sanitize_hop_by_hop H t = Ok t1"
      and "w' = queue (''0'' @ CRLF) (TrailerFields (hm_iter H (fold (hm_remove H) noms t1))) ?w"
      using step idle frame r TrailersFrame noms
      by (auto simp: step_downstream_def Let_def split: result.splits)
    then show ?thesis
      using wf' noms nc trailers_keep_empty(2) [OF empty san] by (simp add: blocked_def)
  qed
qed

lemma step_downstream_blocked:
  assumes "blocked H t noms w c" and "\<not> waiting_on_upstream w"
    and empty: "header_laws H" "[] \<in> set (hm_get_all H t n)" "\<not> hop_field H t n" "n \<notin> set noms"
    and step: "step_downstream H w c = (Ok (), w', c')"
  shows "blocked H t noms w' c'"
proof (cases "rw_state w = NeedFrame")
  case True
  then show ?thesis
    using assms need_frame_blocked by (auto simp: waiting_on_upstream_def)
next
  case False
  have pending: "rw_pending w = None" and "rw_state w \<noteq> Flush"
    using assms(2) by (simp_all add: waiting_on_upstream_def)
  then show ?thesis
    using False step assms(1)
    by (cases "rw_state w")
      (auto simp: step_downstream_def Let_def blocked_def pending_empty_def next_state_def queue_def has_empty_def
        split: list.splits)
qed

lemma advance_exchange_blocked:
  assumes "blocked H t noms (ex_request ex) (ex_downstream ex)"
    and empty: "header_laws H" "[] \<in> set (hm_get_all H t n)" "\<not> hop_field H t n" "n \<notin> set noms"
    and "advance_exchange H request_method branch ex = (r, ex')"
  shows "\<not> rw_complete (ex_request ex') \<and> (is_ok r \<longrightarrow> blocked H t noms (ex_request ex') (ex_downstream ex'))"
proof -
  let ?w = "ex_request ex"
  have nc: "\<not> rw_complete ?w"
    using assms(1) by (simp add: blocked_def)
  show ?thesis
  proof (cases "branch = TakeProgress")
    case False
    then have "ex_request ex' = ?w \<and> ex_downstream ex' = ex_downstream ex"
      using assms(6) by (cases branch) (auto simp: advance_exchange_def split: prod.splits if_splits)
    then show ?thesis
      using assms(1) nc by simp
  next
    case True
    show ?thesis
    proof (cases "waiting_on_upstream ?w")
      case up: True
      obtain x w k where step: "step_upstream ?w (ex_writer ex) = (x, w, k)"
        by (metis prod_cases3)
      have "x = Ok () \<or> w = ?w"
        using step by (auto simp: step_upstream_def Let_def split: option.splits prod.splits result.splits if_splits)
      moreover have "r = and_then x (\<lambda>_. Ok None)" "ex' = ex\<lparr>ex_request := w, ex_writer := k\<rparr>"
        using assms(6) True nc up step by (simp_all add: advance_exchange_def)
      ultimately show ?thesis
        using step_upstream_blocked [OF assms(1) up, of "ex_writer ex" w k] step assms(1) nc
        by (cases x) (auto simp: blocked_def)
    next
      case down: False
      obtain x w c where step: "step_downstream H ?w (ex_downstream ex) = (x, w, c)"
        by (metis prod_cases3)
      have "x = Ok () \<or> rw_complete w = rw_complete ?w"
        using step by (auto simp: step_downstream_def Let_def queue_def
            split: request_state.splits prod.splits result.splits option.splits body_frame.splits list.splits if_splits)
      moreover have "r = and_then x (\<lambda>_. Ok None)" "ex' = ex\<lparr>ex_request := w, ex_downstream := c\<rparr>"
        using assms(6) True nc down step by (simp_all add: advance_exchange_def)
      ultimately show ?thesis
        using step_downstream_blocked [OF assms(1) down empty, of w c] step nc
        by (cases x) (auto simp: blocked_def)
    qed
  qed
qed

lemma exchange_loop_blocked:
  assumes "blocked H t noms (ex_request ex) (ex_downstream ex)"
    and empty: "header_laws H" "[] \<in> set (hm_get_all H t n)" "\<not> hop_field H t n" "n \<notin> set noms"
    and "exchange_loop H now head key pool schedule ex = (result, ex', pool')"
  shows "\<not> rw_complete (ex_request ex') \<and>
    (case result of
       Some (Ok f) \<Rightarrow> \<not> fw_request_complete f
     | Some (Err e) \<Rightarrow> \<not> fe_request_complete e
     | None \<Rightarrow> True)"
  using assms(1,6)
proof (induction schedule arbitrary: ex)
  case Nil
  then show ?case
    by (auto simp: blocked_def)
next
  case (Cons branch schedule)
  obtain x ex1 where adv: "advance_exchange H (rh_method head) branch ex = (x, ex1)"
    by fastforce
  have nc: "\<not> rw_complete (ex_request ex1)"
    and next': "is_ok x \<Longrightarrow> blocked H t noms (ex_request ex1) (ex_downstream ex1)"
    using advance_exchange_blocked [OF Cons.prems(1) empty adv] by simp_all
  have again: ?case if loop: "exchange_loop H now head key pool schedule ex2 = (result, ex', pool')"
    and "x = Ok r" "ex_request ex2 = ex_request ex1" "ex_downstream ex2 = ex_downstream ex1" for ex2 r
    using Cons.IH [OF _ loop] next' that by simp
  show ?case
  proof (cases x)
    case (Err kind)
    then show ?thesis
      using Cons.prems(2) adv nc by (auto simp: forward_error_def)
  next
    case (Ok r)
    show ?thesis
    proof (cases r)
      case None
      then show ?thesis
        using Cons.prems(2) adv Ok again [OF _ Ok] by simp
    next
      case (Some response)
      show ?thesis
      proof (cases "\<exists>rsp headers nominations. response = Ok rsp \<and>
          check_response H (rh_version head) rsp = Ok (headers, nominations)")
        case False
        then show ?thesis
          using Cons.prems(2) adv Ok Some nc
          by (auto simp: Let_def forward_error_def split: result.splits)
      next
        case True
        then obtain rsp headers nominations where rsp: "response = Ok rsp"
          and chk: "check_response H (rh_version head) rsp = Ok (headers, nominations)"
          by blast
        obtain y k where fwd: "forward_informational H (or_status rsp) headers (rh_version head) (ex_client ex1) = (y, k)"
          by fastforce
        show ?thesis
        proof (cases "is_informational (or_status rsp) \<and> is_ok y")
          case True
          then show ?thesis
            using Cons.prems(2) adv Ok Some rsp chk fwd again [OF _ Ok, of "ex1\<lparr>ex_client := k\<rparr>"]
            by (cases y) simp_all
        next
          case False
          then show ?thesis
            using Cons.prems(2) adv Ok Some rsp chk fwd nc
            by (cases y) (auto simp: Let_def forward_error_def split: prod.splits if_splits)
        qed
      qed
    qed
  qed
qed

text \<open>
  C40: a request whose trailers hold an empty value is never forwarded completely, although the
  parser accepts it. For every client stream that decodes to a body with a trailer of an
  empty value which is not a hop-by-hop field, every schedule of the exchange and all sockets: the
  request is never complete, neither when the exchange returns a response nor when it fails. The
  writer queues the value as a write of its own, a write of no bytes takes no bytes, and the
  writer treats a write that takes nothing as a failed origin.
\<close>

theorem empty_trailer_value_fails:
  assumes "exchange H now downstream client head path_and_query host reader writer key pool schedule
      = (result, ex, pool')"
    and "header_laws H" and "bb_wf downstream" and "rh_framing head = Chunked"
    and "body_trailers H P_Size (bb_pending downstream) t"
    and "[] \<in> set (hm_get_all H t n)" and "\<not> hop_field H t n" and "\<not> nominates H (rh_headers head) n"
  shows "\<not> rw_complete (ex_request ex) \<and>
    (case result of
       Some (Ok f) \<Rightarrow> \<not> fw_request_complete f
     | Some (Err e) \<Rightarrow> \<not> fe_request_complete e
     | None \<Rightarrow> True)"
proof -
  have early: "\<not> rw_complete (request_writer_new H (rh_framing head) noms)" for noms
    by (simp add: request_writer_new_def)
  show ?thesis
  proof (cases "\<exists>noms bs k. connection_nominations H (rh_headers head) = Ok noms \<and>
      serialize_request_head H head path_and_query host = Ok bs \<and> write_request_head bs writer = (Ok (), k)")
    case False
    have "\<not> fe_request_complete e" if "write_request_head bs writer = (Err e, k)" for bs e k
      using that by (auto simp: write_request_head_def Let_def forward_error_def split: prod.splits result.splits)
    then show ?thesis
      using assms(1) False early
      by (auto simp: exchange_def Let_def forward_error_def split: result.splits prod.splits)
  next
    case True
    then obtain noms bs k where noms: "connection_nominations H (rh_headers head) = Ok noms"
      and loop: "exchange_loop H now head key pool schedule
        \<lparr>ex_downstream = downstream, ex_client = client, ex_reader = reader, ex_writer = k,
         ex_request = request_writer_new H (rh_framing head) noms\<rparr> = (result, ex, pool')"
      using assms(1) by (auto simp: exchange_def Let_def)
    have "blocked H t noms (request_writer_new H Chunked noms) downstream"
      using assms(3,5) request_wf_new [OF assms(3), of H Chunked]
      by (simp add: blocked_def request_writer_new_def next_state_def pending_empty_def body_decoder_new_def)
    moreover have "n \<notin> set noms"
      using connection_nominations_set [OF assms(2) noms] assms(8) by simp
    ultimately show ?thesis
      using exchange_loop_blocked [OF _ assms(2,6,7) _ loop] assms(4) by simp
  qed
qed

text \<open>The parser accepts such a trailer, and an exchange that goes on without a response fails.\<close>

definition example_empty_trailer :: http1_connection where
  "example_empty_trailer = http1_connection_new [ReadData (''0'' @ CRLF @ ''x-a:'' @ CRLF @ CRLF)]"

definition example_trailer_exchange ::
    "((field_list, nat) forwarded, forward_error) result option \<times> field_list exchange \<times> nat origin_pool" where
  "example_trailer_exchange =
     exchange list_crate 1 example_empty_trailer \<lparr>sk_events = [], sk_out = []\<rparr> example_request ''/x'' ''a''
       example_origin_reply \<lparr>sk_events = [], sk_out = []\<rparr> 4 (pool_build 4 60) (replicate 20 TakeProgress)"

theorem empty_trailer_value_fails_witness:
  "fst example_trailer_exchange = Some (Err (forward_error FwBadGateway False)) \<and>
     \<not> rw_complete (ex_request (fst (snd example_trailer_exchange)))"
proof -
  have fails: "fst example_trailer_exchange = Some (Err (forward_error FwBadGateway False))"
    by code_simp
  obtain result ex pool where run: "example_trailer_exchange = (result, ex, pool)"
    by (metis prod_cases3)
  have wf: "bb_wf example_empty_trailer"
    by (simp add: example_empty_trailer_def http1_connection_new_def bb_wf_def script_ok_def)
  have line: "append_field_line list_crate [] ''x-a:'' = Ok [(''x-a'', [])]"
    by code_simp
  have "crlf_free ''x-a:''"
    by code_simp
  from trailer_section.field_line [OF this _ line trailer_section.last_line [of list_crate _ "[]"]]
  have "trailer_section list_crate [] (''x-a:'' @ CRLF @ CRLF) [(''x-a'', [])] []"
    by simp
  moreover have "hm_new list_crate = []"
    by (simp add: list_crate_def)
  ultimately have tail: "body_trailers list_crate P_Trailers (''x-a:'' @ CRLF @ CRLF) [(''x-a'', [])]"
    by (intro trailers_section) simp
  have "crlf_free ''0''" and "parse_chunk_size ''0'' = Ok 0"
    by code_simp+
  from trailers_size [OF this, of list_crate "''x-a:'' @ CRLF @ CRLF" "[(''x-a'', [])]"] tail
  have "body_trailers list_crate P_Size (''0'' @ CRLF @ ''x-a:'' @ CRLF @ CRLF) [(''x-a'', [])]"
    by (simp only: if_True simp_thms)
  then have trailers: "body_trailers list_crate P_Size (bb_pending example_empty_trailer) [(''x-a'', [])]"
    by (simp add: example_empty_trailer_def http1_connection_new_def bb_pending_def bb_available_def)
  have "[] \<in> set (hm_get_all list_crate [(''x-a'', [])] ''x-a'')"
    by code_simp
  moreover have "\<not> hop_field list_crate [(''x-a'', [])] ''x-a''"
    by (simp add: hop_field_def FIXED_HOP_HEADERS_def nominates_def list_crate_def)
  moreover have "\<not> nominates list_crate (rh_headers example_request) ''x-a''"
    by (simp add: nominates_def list_crate_def example_request_def)
  ultimately have "\<not> rw_complete (ex_request ex)"
    using empty_trailer_value_fails [OF run [unfolded example_trailer_exchange_def] list_crate_laws wf _ trailers]
    by (simp add: example_request_def)
  moreover have "ex = fst (snd example_trailer_exchange)"
    by (simp add: run)
  ultimately show ?thesis
    using fails by (simp only: simp_thms)
qed

end
