(* ===== verification/Shutdown.thy ===== *)
theory Shutdown
  imports Byte_Stream Pool
begin

text \<open>
  Shutdown phases, admission and the socket registry of \<open>proxy/src/shutdown.rs\<close>. The two watch
  channels are flags, an instant is a number of time units, a semaphore is the number of its
  free permits, and an atomic counter or a locked map is a field, each method one step. Permits
  and registrations are released when their owner is dropped: the values that are alive are
  part of the state of the step relation \<open>resource_step\<close>, as ownership has it. Identifiers count
  up without wrap-around, which 2 to the 64 registrations would take.
\<close>

section \<open>Phases\<close>

record shutdown =
  sh_drain :: bool
  sh_force :: bool
  sh_requested_at :: "nat option"

definition shutdown_new :: shutdown where
  "shutdown_new = \<lparr>sh_drain = False, sh_force = False, sh_requested_at = None\<rparr>"

definition is_requested :: "shutdown \<Rightarrow> bool" where "is_requested s = sh_drain s"

definition is_forced :: "shutdown \<Rightarrow> bool" where "is_forced s = sh_force s"

definition request :: "nat \<Rightarrow> shutdown \<Rightarrow> shutdown" where
  "request now s =
     s\<lparr>sh_requested_at := (case sh_requested_at s of None \<Rightarrow> Some now | Some t \<Rightarrow> Some t),
       sh_drain := True\<rparr>"

definition deadline :: "nat \<Rightarrow> nat \<Rightarrow> shutdown \<Rightarrow> nat" where
  "deadline now grace s = (case sh_requested_at s of None \<Rightarrow> now + grace | Some started \<Rightarrow> started + grace)"

definition force :: "nat \<Rightarrow> shutdown \<Rightarrow> shutdown" where
  "force now s = (request now s)\<lparr>sh_force := True\<rparr>"

inductive shutdown_step :: "shutdown \<Rightarrow> nat \<Rightarrow> shutdown \<Rightarrow> bool" where
  requested: "shutdown_step s now (request now s)"
| forced: "shutdown_step s now (force now s)"

lemma shutdown_step_keeps:
  assumes "shutdown_step s now s'"
  shows "is_requested s'" and "is_forced s \<Longrightarrow> is_forced s'"
    and "is_requested s = (sh_requested_at s \<noteq> None) \<Longrightarrow> is_requested s' = (sh_requested_at s' \<noteq> None)"
    and "sh_requested_at s = Some t \<Longrightarrow> sh_requested_at s' = Some t"
  using assms by (auto elim!: shutdown_step.cases simp: force_def request_def is_requested_def is_forced_def
      split: option.splits)

section \<open>Admission\<close>

definition MAX_CLIENT_CONNECTIONS :: nat where "MAX_CLIENT_CONNECTIONS = 256"
definition MAX_UPSTREAM_CONNECTIONS :: nat where "MAX_UPSTREAM_CONNECTIONS = 256"

record admission =
  ad_available :: nat
  ad_active :: nat
  ad_maximum :: nat

definition admission_new :: "nat \<Rightarrow> admission" where
  "admission_new limit = \<lparr>ad_available = limit, ad_active = 0, ad_maximum = 0\<rparr>"

definition try_acquire :: "admission \<Rightarrow> admission option" where
  "try_acquire a =
     (if ad_available a = 0 then None
      else
        (let active = ad_active a + 1
         in Some (a\<lparr>ad_available := ad_available a - 1, ad_active := active,
                    ad_maximum := max (ad_maximum a) active\<rparr>)))"

definition drop_permit :: "admission \<Rightarrow> admission" where
  "drop_permit a = a\<lparr>ad_active := ad_active a - 1, ad_available := ad_available a + 1\<rparr>"

section \<open>The socket registry\<close>

record socket_registry =
  sr_entries :: "(nat \<times> bool) list"
  sr_next_id :: nat

definition registry_new :: socket_registry where
  "registry_new = \<lparr>sr_entries = [], sr_next_id = 0\<rparr>"

definition register :: "socket_registry \<Rightarrow> nat \<times> socket_registry" where
  "register r =
     (sr_next_id r,
      r\<lparr>sr_next_id := sr_next_id r + 1, sr_entries := (sr_next_id r, False) # sr_entries r\<rparr>)"

definition active_sockets :: "socket_registry \<Rightarrow> nat" where
  "active_sockets r = length (sr_entries r)"

definition force_close_registry :: "socket_registry \<Rightarrow> socket_registry" where
  "force_close_registry r = r\<lparr>sr_entries := map (\<lambda>(i, _). (i, True)) (sr_entries r)\<rparr>"

definition drop_registration :: "nat \<Rightarrow> socket_registry \<Rightarrow> socket_registry" where
  "drop_registration i r = r\<lparr>sr_entries := remove_key i (sr_entries r)\<rparr>"

definition check_open :: "nat \<Rightarrow> socket_registry \<Rightarrow> bool" where
  "check_open i r \<longleftrightarrow> map_of (sr_entries r) i \<noteq> Some True"

text \<open>\<open>ManagedIo::poll_read\<close>: a closed registration fails the read before the stream is tried.\<close>

definition managed_read ::
    "nat \<Rightarrow> socket_registry \<Rightarrow> nat \<Rightarrow> read_event list \<Rightarrow> bytes option \<times> read_event list" where
  "managed_read i r n events = (if check_open i r then io_read n events else (None, events))"

section \<open>Resources\<close>

record process_resources =
  pr_client :: admission
  pr_upstream :: admission
  pr_sockets :: socket_registry

definition with_limits :: "nat \<Rightarrow> nat \<Rightarrow> process_resources" where
  "with_limits client upstream =
     \<lparr>pr_client = admission_new client, pr_upstream = admission_new upstream, pr_sockets = registry_new\<rparr>"

definition production :: process_resources where
  "production = with_limits MAX_CLIENT_CONNECTIONS MAX_UPSTREAM_CONNECTIONS"

definition try_admit_client :: "process_resources \<Rightarrow> (nat \<times> process_resources) option" where
  "try_admit_client p =
     (case try_acquire (pr_client p) of
        None \<Rightarrow> None
      | Some a \<Rightarrow>
          (case register (pr_sockets p) of (i, r) \<Rightarrow> Some (i, p\<lparr>pr_client := a, pr_sockets := r\<rparr>)))"

definition try_upstream :: "process_resources \<Rightarrow> process_resources option" where
  "try_upstream p =
     (case try_acquire (pr_upstream p) of None \<Rightarrow> None | Some a \<Rightarrow> Some (p\<lparr>pr_upstream := a\<rparr>))"

definition manage_upstream :: "process_resources \<Rightarrow> nat \<times> process_resources" where
  "manage_upstream p = (case register (pr_sockets p) of (i, r) \<Rightarrow> (i, p\<lparr>pr_sockets := r\<rparr>))"

definition registered_sockets :: "process_resources \<Rightarrow> nat" where
  "registered_sockets p = active_sockets (pr_sockets p)"

definition force_close_all :: "process_resources \<Rightarrow> process_resources" where
  "force_close_all p = p\<lparr>pr_sockets := force_close_registry (pr_sockets p)\<rparr>"

text \<open>Dropping a client lease and a managed stream: the permit, then the registration.\<close>

definition drop_client :: "nat \<Rightarrow> process_resources \<Rightarrow> process_resources" where
  "drop_client i p = p\<lparr>pr_client := drop_permit (pr_client p), pr_sockets := drop_registration i (pr_sockets p)\<rparr>"

definition drop_managed :: "nat \<Rightarrow> process_resources \<Rightarrow> process_resources" where
  "drop_managed i p = p\<lparr>pr_upstream := drop_permit (pr_upstream p), pr_sockets := drop_registration i (pr_sockets p)\<rparr>"

definition drop_upstream_permit :: "process_resources \<Rightarrow> process_resources" where
  "drop_upstream_permit p = p\<lparr>pr_upstream := drop_permit (pr_upstream p)\<rparr>"

section \<open>What is alive\<close>

record owned =
  ow_resources :: process_resources
  ow_clients :: "nat list"
  ow_permits :: nat
  ow_streams :: "nat list"

datatype resource_event = ClientIn nat | ClientOut nat | PermitIn | PermitOut | StreamIn nat | StreamOut nat | ForcedClosed

inductive resource_step :: "owned \<Rightarrow> resource_event \<Rightarrow> owned \<Rightarrow> bool" where
  admit: "try_admit_client (ow_resources s) = Some (i, p) \<Longrightarrow>
    resource_step s (ClientIn i) (s\<lparr>ow_resources := p, ow_clients := i # ow_clients s\<rparr>)"
| leave: "i \<in> set (ow_clients s) \<Longrightarrow>
    resource_step s (ClientOut i)
      (s\<lparr>ow_resources := drop_client i (ow_resources s), ow_clients := remove1 i (ow_clients s)\<rparr>)"
| permit: "try_upstream (ow_resources s) = Some p \<Longrightarrow>
    resource_step s PermitIn (s\<lparr>ow_resources := p, ow_permits := ow_permits s + 1\<rparr>)"
| unused: "0 < ow_permits s \<Longrightarrow>
    resource_step s PermitOut
      (s\<lparr>ow_resources := drop_upstream_permit (ow_resources s), ow_permits := ow_permits s - 1\<rparr>)"
| manage: "0 < ow_permits s \<Longrightarrow> manage_upstream (ow_resources s) = (i, p) \<Longrightarrow>
    resource_step s (StreamIn i)
      (s\<lparr>ow_resources := p, ow_permits := ow_permits s - 1, ow_streams := i # ow_streams s\<rparr>)"
| hangup: "i \<in> set (ow_streams s) \<Longrightarrow>
    resource_step s (StreamOut i)
      (s\<lparr>ow_resources := drop_managed i (ow_resources s), ow_streams := remove1 i (ow_streams s)\<rparr>)"
| close_all: "resource_step s ForcedClosed (s\<lparr>ow_resources := force_close_all (ow_resources s)\<rparr>)"

definition owned_new :: "nat \<Rightarrow> nat \<Rightarrow> owned" where
  "owned_new client upstream =
     \<lparr>ow_resources = with_limits client upstream, ow_clients = [], ow_permits = 0, ow_streams = []\<rparr>"

definition registry_ids :: "socket_registry \<Rightarrow> nat list" where
  "registry_ids r = map fst (sr_entries r)"

definition ids_inv :: "nat list \<Rightarrow> nat list \<Rightarrow> socket_registry \<Rightarrow> bool" where
  "ids_inv clients streams r \<longleftrightarrow>
     distinct clients \<and> distinct streams \<and> set clients \<inter> set streams = {} \<and> distinct (registry_ids r) \<and>
     set (registry_ids r) = set clients \<union> set streams \<and> (\<forall>i \<in> set (registry_ids r). i < sr_next_id r)"

definition permits_inv :: "nat \<Rightarrow> nat \<Rightarrow> admission \<Rightarrow> bool" where
  "permits_inv limit held a \<longleftrightarrow> ad_available a + held = limit \<and> ad_active a = held"

definition resource_inv :: "nat \<Rightarrow> nat \<Rightarrow> owned \<Rightarrow> bool" where
  "resource_inv client upstream s \<longleftrightarrow>
     permits_inv client (length (ow_clients s)) (pr_client (ow_resources s)) \<and>
     permits_inv upstream (ow_permits s + length (ow_streams s)) (pr_upstream (ow_resources s)) \<and>
     ids_inv (ow_clients s) (ow_streams s) (pr_sockets (ow_resources s))"

lemma permits_inv_acquire:
  "try_acquire a = Some a' \<Longrightarrow> permits_inv limit held a \<Longrightarrow> permits_inv limit (Suc held) a'"
  by (auto simp: try_acquire_def permits_inv_def Let_def split: if_splits)

lemma permits_inv_drop: "permits_inv limit (Suc held) a \<Longrightarrow> permits_inv limit held (drop_permit a)"
  by (auto simp: drop_permit_def permits_inv_def)

lemma registry_ids_simps [simp]:
  "registry_ids (snd (register r)) = sr_next_id r # registry_ids r"
  "registry_ids (drop_registration i r) = filter (\<lambda>j. j \<noteq> i) (registry_ids r)"
  "registry_ids (force_close_registry r) = registry_ids r"
  by (auto simp: registry_ids_def register_def drop_registration_def force_close_registry_def
      remove_key_def filter_map comp_def case_prod_beta)

lemma sr_next_id_simps [simp]:
  "sr_next_id (snd (register r)) = Suc (sr_next_id r)"
  "sr_next_id (drop_registration i r) = sr_next_id r"
  "sr_next_id (force_close_registry r) = sr_next_id r"
  by (auto simp: register_def drop_registration_def force_close_registry_def)

lemma ids_inv_register:
  assumes "register r = (i, r')" and "ids_inv cs ss r"
  shows "ids_inv (i # cs) ss r'" and "ids_inv cs (i # ss) r'"
proof -
  have r': "r' = snd (register r)" and i: "i = sr_next_id r"
    using assms(1) by (auto simp: register_def)
  have "i \<notin> set (registry_ids r)"
    using assms(2) i by (auto simp: ids_inv_def)
  then show "ids_inv (i # cs) ss r'" and "ids_inv cs (i # ss) r'"
    using assms(2) i by (auto simp: ids_inv_def r' less_Suc_eq)
qed

lemma ids_inv_drop:
  assumes "ids_inv cs ss r"
  shows "i \<in> set cs \<Longrightarrow> ids_inv (remove1 i cs) ss (drop_registration i r)"
    and "i \<in> set ss \<Longrightarrow> ids_inv cs (remove1 i ss) (drop_registration i r)"
  using assms by (auto simp: ids_inv_def)

lemma length_remove1_Suc: "i \<in> set xs \<Longrightarrow> length xs = Suc (length (remove1 i xs))"
  using length_pos_if_in_set [of i xs] by (simp add: length_remove1 del: One_nat_def)

lemma history_single: "step s e s' \<Longrightarrow> history step s [e] s'"
  using history.more [OF history.start, of step s e s'] by simp

lemma resource_inv_step:
  "resource_step s e s' \<Longrightarrow> resource_inv client upstream s \<Longrightarrow> resource_inv client upstream s'"
proof (induction rule: resource_step.induct)
  case (admit s i p)
  then show ?case
    by (auto simp: resource_inv_def try_admit_client_def intro: permits_inv_acquire ids_inv_register
        split: option.splits prod.splits)
next
  case (leave i s)
  then show ?case
    using length_remove1_Suc [of i "ow_clients s"]
    by (auto simp: resource_inv_def drop_client_def intro: permits_inv_drop ids_inv_drop)
next
  case (permit s p)
  then show ?case
    by (auto simp: resource_inv_def try_upstream_def intro: permits_inv_acquire split: option.splits)
next
  case (unused s)
  then have "ow_permits s + length (ow_streams s) = Suc (ow_permits s - 1 + length (ow_streams s))"
    by simp
  then show ?case
    using unused(2) by (auto simp: resource_inv_def drop_upstream_permit_def intro: permits_inv_drop)
next
  case (manage s i p)
  then show ?case
    by (auto simp: resource_inv_def manage_upstream_def intro: ids_inv_register split: prod.splits)
next
  case (hangup i s)
  then show ?case
    using length_remove1_Suc [of i "ow_streams s"]
    by (auto simp: resource_inv_def drop_managed_def intro: permits_inv_drop ids_inv_drop)
next
  case (close_all s)
  then show ?case
    by (auto simp: resource_inv_def force_close_all_def ids_inv_def)
qed

lemma resource_inv_new: "resource_inv client upstream (owned_new client upstream)"
  by (simp add: resource_inv_def permits_inv_def ids_inv_def owned_new_def with_limits_def
      admission_new_def registry_new_def registry_ids_def)

text \<open>Every socket that is registered at that moment is closed for good.\<close>

lemma force_close_all_closes:
  "i \<in> set (registry_ids (pr_sockets p)) \<Longrightarrow> \<not> check_open i (pr_sockets (force_close_all p))"
proof -
  have "map_of (map (\<lambda>(i, _). (i, True)) es) i = (if i \<in> fst ` set es then Some True else None)"
    for es :: "(nat \<times> bool) list"
    by (induction es) auto
  then show "i \<in> set (registry_ids (pr_sockets p)) \<Longrightarrow> \<not> check_open i (pr_sockets (force_close_all p))"
    by (simp add: registry_ids_def check_open_def force_close_all_def force_close_registry_def)
qed

section \<open>Properties\<close>

text \<open>
  C39: the proxy never serves more clients or holds more upstream connections than its limits,
  and its count of registered sockets is exact. However admissions, connections, drops and the
  forced closure interleave, the leases and streams that are alive stay within the limits, and
  the supervisor, which waits for the registry to become empty, sees zero exactly when no lease
  and no managed stream is left.
\<close>

theorem resources_bounded:
  assumes "history resource_step (owned_new client upstream) es s"
  shows "length (ow_clients s) \<le> client \<and> ow_permits s + length (ow_streams s) \<le> upstream \<and>
    registered_sockets (ow_resources s) = length (ow_clients s) + length (ow_streams s)"
proof -
  have inv: "resource_inv client upstream s"
    using history_invariant [OF assms, of "resource_inv client upstream"] resource_inv_new resource_inv_step
    by blast
  have "length (registry_ids (pr_sockets (ow_resources s))) = card (set (ow_clients s) \<union> set (ow_streams s))"
    using inv by (metis distinct_card ids_inv_def resource_inv_def)
  also have "\<dots> = length (ow_clients s) + length (ow_streams s)"
    using inv by (simp add: card_Un_disjoint distinct_card ids_inv_def resource_inv_def)
  finally show ?thesis
    using inv by (auto simp: resource_inv_def permits_inv_def registered_sockets_def active_sockets_def
        registry_ids_def)
qed

theorem resources_bounded_witness:
  "\<exists>s. history resource_step (owned_new 1 1) [ClientIn 0] s \<and> length (ow_clients s) \<le> 1"
proof -
  obtain p where "try_admit_client (ow_resources (owned_new 1 1)) = Some (0, p)"
  proof -
    have "map_option fst (try_admit_client (ow_resources (owned_new 1 1))) = Some 0"
      by code_simp
    with that show thesis
      by (cases "try_admit_client (ow_resources (owned_new 1 1))") auto
  qed
  note run = history_single [of resource_step, OF resource_step.admit [OF this]]
  from resources_bounded [OF run] run show ?thesis
    by blast
qed

text \<open>
  A forced shutdown reaches every socket: after it, every read of a stream that was
  registered fails, whatever the peer has sent, and no bytes of it are consumed; the phases
  only move forward, forcing implies draining, and the deadline of the drain is counted from
  the first request, so asking again does not postpone it.
\<close>

theorem forced_shutdown_is_final:
  assumes "shutdown_step s now s'"
  shows "is_requested s' \<and> (is_forced s \<longrightarrow> is_forced s') \<and>
    (sh_requested_at s = Some started \<longrightarrow> deadline t grace s' = started + grace) \<and>
    (i \<in> set (registry_ids (pr_sockets p)) \<longrightarrow>
       managed_read i (pr_sockets (force_close_all p)) n events = (None, events))"
  using shutdown_step_keeps [OF assms] force_close_all_closes [of i p]
  by (simp add: deadline_def managed_read_def)

theorem forced_shutdown_is_final_witness:
  "deadline 9 10 (force 7 (request 3 shutdown_new)) = 13"
  using forced_shutdown_is_final [OF shutdown_step.forced [of "request 3 shutdown_new" 7], of 3 9 10]
  by (simp add: request_def shutdown_new_def)

end
