(* ===== verification/Public.thy ===== *)
theory Public
  imports Forward Shutdown Registry Target
begin

text \<open>
  The public connector of \<open>proxy/src/connect/public.rs\<close>: resolving a public name, rejecting every
  answer set that is not wholly globally routable, dialling the validated addresses in order,
  and forwarding over a pooled or a new connection. The resolver and the dialer are traits in
  the source and arguments here; what an awaited operation came to (its result, the deadline,
  the cancellation) is the value they return. The addresses that were dialled are part of the
  result of opening a connection.
\<close>

definition CONNECT_DEADLINE :: nat where "CONNECT_DEADLINE = 10"
definition MAX_DNS_ANSWERS :: nat where "MAX_DNS_ANSWERS = 64"

datatype 'a awaited = Cancellation | DeadlinePassed | Ready 'a

section \<open>Addresses\<close>

datatype socket_addr = SocketV4 ipv4_addr u16 | SocketV6 ipv6_addr u16 (scope_id: u32)

record resolved_address =
  ra_address :: ip_addr
  ra_scope_id :: u32

primrec from_socket :: "socket_addr \<Rightarrow> resolved_address" where
  "from_socket (SocketV4 address port) = \<lparr>ra_address = V4 address, ra_scope_id = 0\<rparr>"
| "from_socket (SocketV6 address port scope) = \<lparr>ra_address = V6 address, ra_scope_id = scope\<rparr>"

text \<open>\<open>SystemResolver\<close>: \<open>lookup_host\<close> of the system is the argument.\<close>

definition system_resolve ::
    "(bytes \<Rightarrow> u16 \<Rightarrow> socket_addr list option) \<Rightarrow> bytes \<Rightarrow> u16 \<Rightarrow> resolved_address list option" where
  "system_resolve lookup_host host port =
     map_option (\<lambda>addresses. map from_socket (take (MAX_DNS_ANSWERS + 1) addresses)) (lookup_host host port)"

datatype public_connect_error = PolicyDenied | Unavailable | DeadlineExceeded | ConnectCancelled | Exhausted

definition is_policy_denial :: "public_connect_error \<Rightarrow> bool" where
  "is_policy_denial e \<longleftrightarrow> e = PolicyDenied"

record origin_key =
  ok_host :: public_host
  ok_ipv6_scope :: "bytes option"
  ok_port :: u16

definition from_target :: "'a public_target_scheme \<Rightarrow> origin_key" where
  "from_target target =
     \<lparr>ok_host = pt_host target, ok_ipv6_scope = pt_ipv6_scope target, ok_port = pt_port target\<rparr>"

definition globally_routable :: "ip_addr \<Rightarrow> bool" where
  "globally_routable address =
     (case address of V4 a \<Rightarrow> ipv4_is_global a | V6 a \<Rightarrow> ipv6_is_global a)"

definition globally_routable_new :: "ip_addr \<Rightarrow> ip_addr option" where
  "globally_routable_new address = (if globally_routable address then Some address else None)"

definition validate_answer :: "resolved_address \<Rightarrow> (ip_addr, public_connect_error) result" where
  "validate_answer answer =
     (if ra_scope_id answer \<noteq> 0 then Err PolicyDenied
      else ok_or PolicyDenied (globally_routable_new (ra_address answer)))"

definition answers_from_dns :: "resolved_address list \<Rightarrow> (ip_addr list, public_connect_error) result" where
  "answers_from_dns answers =
     (if answers = [] then Err Unavailable
      else if MAX_DNS_ANSWERS < length answers then Err PolicyDenied
      else collect_results (map validate_answer answers))"

definition answers_from_literal :: "ip_addr \<Rightarrow> (ip_addr list, public_connect_error) result" where
  "answers_from_literal address =
     ok_or PolicyDenied (map_option (\<lambda>a. [a]) (globally_routable_new address))"

section \<open>Opening a connection\<close>

type_synonym dial = "ip_addr \<Rightarrow> u16 \<Rightarrow> read_event list option awaited"
type_synonym resolve = "bytes \<Rightarrow> u16 \<Rightarrow> resolved_address list option awaited"

fun dial_each :: "dial \<Rightarrow> u16 \<Rightarrow> ip_addr list \<Rightarrow> (read_event list, public_connect_error) result \<times> ip_addr list" where
  "dial_each dial port [] = (Err Unavailable, [])"
| "dial_each dial port (address # addresses) =
     (case dial address port of
        Cancellation \<Rightarrow> (Err ConnectCancelled, [address])
      | DeadlinePassed \<Rightarrow> (Err DeadlineExceeded, [address])
      | Ready (Some stream) \<Rightarrow> (Ok stream, [address])
      | Ready None \<Rightarrow>
          (case dial_each dial port addresses of (r, dialled) \<Rightarrow> (r, address # dialled)))"

definition resolve_target ::
    "resolve \<Rightarrow> 'a public_target_scheme \<Rightarrow> (ip_addr list, public_connect_error) result" where
  "resolve_target resolve target =
     (case pt_host target of
        IpHost address \<Rightarrow> answers_from_literal address
      | Dns name \<Rightarrow>
          (case resolve (show_public_host (pt_host target)) (pt_port target) of
             Cancellation \<Rightarrow> Err ConnectCancelled
           | DeadlinePassed \<Rightarrow> Err DeadlineExceeded
           | Ready None \<Rightarrow> Err Unavailable
           | Ready (Some answers) \<Rightarrow> answers_from_dns answers))"

definition open_with_budget ::
    "resolve \<Rightarrow> dial \<Rightarrow> 'a public_target_scheme
       \<Rightarrow> (read_event list, public_connect_error) result \<times> ip_addr list" where
  "open_with_budget resolve dial target =
     (if pt_ipv6_scope target \<noteq> None then (Err PolicyDenied, [])
      else
        case resolve_target resolve target of
          Err e \<Rightarrow> (Err e, [])
        | Ok addresses \<Rightarrow> dial_each dial (pt_port target) addresses)"

text \<open>
  The permit is taken first and given back by its drop when opening fails; a stream that is
  opened is registered. The identifier is the registration of the managed stream.
\<close>

definition open_target ::
    "resolve \<Rightarrow> dial \<Rightarrow> 'a public_target_scheme \<Rightarrow> process_resources
       \<Rightarrow> (read_event list \<times> nat, public_connect_error) result \<times> ip_addr list \<times> process_resources" where
  "open_target resolve dial target resources =
     (case try_upstream resources of
        None \<Rightarrow> (Err Exhausted, [], resources)
      | Some resources \<Rightarrow>
          (case open_with_budget resolve dial target of
             (Err e, dialled) \<Rightarrow> (Err e, dialled, drop_upstream_permit resources)
           | (Ok stream, dialled) \<Rightarrow>
               (case manage_upstream resources of
                  (i, resources) \<Rightarrow> (Ok (stream, i), dialled, resources))))"

definition connect_target where "connect_target = open_target"

section \<open>Forwarding\<close>

definition checkout ::
    "resolve \<Rightarrow> dial \<Rightarrow> nat \<Rightarrow> 'a public_target_scheme \<Rightarrow> origin_key origin_pool \<Rightarrow> process_resources
       \<Rightarrow> (origin_reader, public_connect_error) result \<times> ip_addr list \<times> origin_key origin_pool \<times> process_resources" where
  "checkout resolve dial now target pool resources =
     (case take_origin now (from_target target) pool of
        (Some origin, pool) \<Rightarrow> (Ok origin, [], pool, resources)
      | (None, pool) \<Rightarrow>
          (case open_target resolve dial target resources of
             (Err e, dialled, resources) \<Rightarrow> (Err e, dialled, pool, resources)
           | (Ok (stream, _), dialled, resources) \<Rightarrow> (Ok (http_origin_new stream), dialled, pool, resources)))"

datatype public_forward_error = ForwardConnect public_connect_error | ForwardExchange forward_error

text \<open>
  A client that hangs up drops the checkout where it stands. A pooled connection is checked out at
  once, so the hang-up comes before it, and so does \<open>0\<close>: nothing has happened. Otherwise \<open>Suc n\<close>
  says that \<open>n\<close> addresses were dialled by then, the last one perhaps still being dialled; the permit
  goes back with the dropped future.
\<close>

definition abandoned_checkout ::
    "resolve \<Rightarrow> dial \<Rightarrow> nat \<Rightarrow> 'a public_target_scheme \<Rightarrow> nat \<Rightarrow> origin_key origin_pool \<Rightarrow> process_resources
       \<Rightarrow> ip_addr list \<times> origin_key origin_pool \<times> process_resources" where
  "abandoned_checkout resolve dial now target progress pool resources =
     (case (progress, take_origin now (from_target target) pool) of
        (Suc n, None, pool) \<Rightarrow>
          (take n (fst (snd (open_target resolve dial target resources))), pool,
           case try_upstream resources of None \<Rightarrow> resources | Some p \<Rightarrow> drop_upstream_permit p)
      | _ \<Rightarrow> ([], pool, resources))"

text \<open>\<open>peer_closed\<close>: the client hangs up before the connection is checked out, and how far that got.\<close>

definition public_forward ::
    "'h http_crate \<Rightarrow> resolve \<Rightarrow> dial \<Rightarrow> nat \<Rightarrow> nat option \<Rightarrow> 'a public_target_scheme \<Rightarrow> 'h request_head
       \<Rightarrow> http1_connection \<Rightarrow> byte_sink \<Rightarrow> byte_sink \<Rightarrow> origin_key origin_pool \<Rightarrow> process_resources \<Rightarrow> branch list
       \<Rightarrow> (('h, origin_key) forwarded, public_forward_error) result option \<times> ip_addr list
           \<times> 'h exchange option \<times> origin_key origin_pool \<times> process_resources" where
  "public_forward H resolve dial now peer_closed target head downstream client writer pool resources schedule =
     (case peer_closed of
        Some progress \<Rightarrow>
          (case abandoned_checkout resolve dial now target progress pool resources of
             (dialled, pool, resources) \<Rightarrow>
               (Some (Err (ForwardExchange (forward_error FwClientDisconnected False))), dialled, None, pool, resources))
      | None \<Rightarrow>
          (case checkout resolve dial now target pool resources of
             (Err e, dialled, pool, resources) \<Rightarrow> (Some (Err (ForwardConnect e)), dialled, None, pool, resources)
           | (Ok origin, dialled, pool, resources) \<Rightarrow>
               (case exchange H now downstream client head (pt_path_and_query target) (pt_authority target)
                       origin writer (from_target target) pool schedule of
                  (result, ex, pool) \<Rightarrow>
                    (map_option (map_err ForwardExchange) result, dialled, Some ex, pool, resources))))"

definition prune_pool :: "nat \<Rightarrow> origin_key origin_pool \<Rightarrow> origin_key origin_pool" where
  "prune_pool now pool = pool_prune now pool"

definition close_pool :: "origin_key origin_pool \<Rightarrow> origin_key origin_pool" where
  "close_pool pool = pool_close pool"

section \<open>Only global addresses are dialled\<close>

lemma dial_each_subset: "set (snd (dial_each dial port addresses)) \<subseteq> set addresses"
  by (induction addresses) (auto split: awaited.splits option.splits prod.splits)

lemma dial_each_prefix: "prefix (snd (dial_each dial port addresses)) addresses"
  by (induction addresses) (auto split: awaited.splits option.splits prod.splits)

lemma validate_answer_Ok:
  "validate_answer answer = Ok a \<longleftrightarrow>
     ra_scope_id answer = 0 \<and> ra_address answer = a \<and> globally_routable a"
  by (auto simp: validate_answer_def globally_routable_new_def)

definition all_routable :: "resolved_address list \<Rightarrow> bool" where
  "all_routable answers \<longleftrightarrow>
     list_all (\<lambda>a. ra_scope_id a = 0 \<and> globally_routable (ra_address a)) answers"

lemma answers_from_dns_Ok:
  "answers_from_dns answers = Ok addresses \<longleftrightarrow>
     answers \<noteq> [] \<and> length answers \<le> MAX_DNS_ANSWERS \<and> all_routable answers
     \<and> addresses = map ra_address answers"
proof -
  have "map validate_answer answers = map Ok addresses \<longleftrightarrow>
      all_routable answers \<and> addresses = map ra_address answers"
    unfolding all_routable_def
    by (induction answers arbitrary: addresses) (auto simp: validate_answer_Ok map_eq_Cons_conv Cons_eq_map_conv)
  then show ?thesis
    by (auto simp: answers_from_dns_def collect_results_eq_Ok)
qed

text \<open>The addresses that a target may be dialled at.\<close>

definition dial_candidates :: "resolve \<Rightarrow> 'a public_target_scheme \<Rightarrow> ip_addr list \<Rightarrow> bool" where
  "dial_candidates resolve target addresses \<longleftrightarrow>
     (case pt_host target of
        IpHost address \<Rightarrow> addresses = [address] \<and> globally_routable address
      | Dns name \<Rightarrow>
          (\<exists>answers. resolve (domain_str name) (pt_port target) = Ready (Some answers) \<and> answers \<noteq> [] \<and>
             length answers \<le> MAX_DNS_ANSWERS \<and> all_routable answers \<and> addresses = map ra_address answers))"

lemma resolve_target_Ok:
  "resolve_target resolve target = Ok addresses \<longleftrightarrow> dial_candidates resolve target addresses"
  by (auto simp: resolve_target_def dial_candidates_def answers_from_literal_def globally_routable_new_def
      answers_from_dns_Ok split: public_host.splits awaited.splits option.splits)

lemma dial_candidates_routable:
  "dial_candidates resolve target addresses \<Longrightarrow> a \<in> set addresses \<Longrightarrow> globally_routable a"
  by (auto simp: dial_candidates_def all_routable_def list_all_iff split: public_host.splits)

lemma open_with_budget_dialled:
  assumes "open_with_budget resolve dial target = (r, dialled)" and "dialled \<noteq> []"
  shows "pt_ipv6_scope target = None \<and>
    (\<exists>addresses. dial_candidates resolve target addresses \<and> prefix dialled addresses)"
  using assms dial_each_prefix [of dial "pt_port target"]
  by (auto simp: open_with_budget_def resolve_target_Ok [symmetric] split: if_splits result.splits)
    (metis snd_conv)

lemma open_target_dialled:
  assumes "open_target resolve dial target resources = (r, dialled, resources')" and "dialled \<noteq> []"
  shows "pt_ipv6_scope target = None \<and>
    (\<exists>addresses. dial_candidates resolve target addresses \<and> prefix dialled addresses)"
  using assms open_with_budget_dialled [of resolve dial target]
  by (auto simp: open_target_def split: option.splits prod.splits result.splits)

lemma dial_each_Ok: "dial_each dial port addresses = (Ok stream, dialled) \<Longrightarrow> dialled \<noteq> []"
  by (cases addresses) (auto split: awaited.splits option.splits prod.splits)

lemma open_target_Ok_dialled:
  "open_target resolve dial target resources = (Ok x, dialled, resources') \<Longrightarrow> dialled \<noteq> []"
  by (auto simp: open_target_def open_with_budget_def dest: dial_each_Ok
      split: option.splits prod.splits result.splits if_splits)

section \<open>Properties\<close>

text \<open>The ranges of addresses, stated without the table that the code looks them up in.\<close>

definition outside_reserved :: "ip_addr \<Rightarrow> bool" where
  "outside_reserved address =
     (case address of V4 a \<Rightarrow> ipv4_outside_reserved a | V6 a \<Rightarrow> ipv6_outside_reserved a)"

lemma globally_routable_outside: "globally_routable a \<longleftrightarrow> outside_reserved a"
  by (simp add: globally_routable_def outside_reserved_def ipv4_is_global_outside ipv6_is_global_outside
      split: ip_addr.splits)

text \<open>
  C35: the proxy only ever dials globally routable addresses. Every address that opening a
  public target dials lies outside the reserved ranges and is one that the target stands for:
  the literal itself, or an answer of the one resolution, of which there were at most 64 and
  every one, dialled or not, was global and without a scope. A name that resolves to even one
  private address is never dialled, and neither is a scoped target.
\<close>

theorem dials_only_global:
  assumes "open_target resolve dial target resources = (r, dialled, resources')" and "a \<in> set dialled"
  shows "outside_reserved a \<and> pt_ipv6_scope target = None \<and>
    (case pt_host target of
       IpHost address \<Rightarrow> a = address
     | Dns name \<Rightarrow> \<exists>answers. resolve (domain_str name) (pt_port target) = Ready (Some answers)
         \<and> length answers \<le> MAX_DNS_ANSWERS \<and> a \<in> ra_address ` set answers
         \<and> list_all (\<lambda>x. ra_scope_id x = 0 \<and> outside_reserved (ra_address x)) answers)"
proof -
  have "dialled \<noteq> []"
    using assms(2) by auto
  from open_target_dialled [OF assms(1) this] obtain addresses where
    "pt_ipv6_scope target = None" and c: "dial_candidates resolve target addresses" and "prefix dialled addresses"
    by blast
  moreover then have "a \<in> set addresses"
    using assms(2) set_mono_prefix by blast
  ultimately show ?thesis
    using dial_candidates_routable [OF c]
    by (auto simp: dial_candidates_def all_routable_def globally_routable_outside split: public_host.splits)
qed

definition example_public :: public_target where
  "example_public =
     \<lparr>pt_authority = ''8.8.8.8'', pt_host = IpHost (V4 (Ipv4Addr 8 8 8 8)), pt_ipv6_scope = None, pt_port = 80,
      pt_explicit_port = False, pt_path_and_query = ''/''\<rparr>"

lemma example_public_routable: "globally_routable_new (V4 (Ipv4Addr 8 8 8 8)) = Some (V4 (Ipv4Addr 8 8 8 8))"
  by (simp add: globally_routable_new_def globally_routable_outside outside_reserved_def
      ipv4_outside_reserved_def ipv4_exceptions_def ipv4_reserved_def ipv4_between_def ipv4_nat_Ipv4Addr)

definition example_open ::
    "(read_event list \<times> nat, public_connect_error) result \<times> ip_addr list \<times> process_resources" where
  "example_open = open_target (\<lambda>_ _. Ready None) (\<lambda>_ _. Ready (Some [])) example_public production"

lemma example_open: "example_open = (Ok ([], 0), [V4 (Ipv4Addr 8 8 8 8)], snd (snd example_open))"
  by (simp add: example_open_def open_target_def try_upstream_def try_acquire_def production_def with_limits_def
      admission_new_def MAX_UPSTREAM_CONNECTIONS_def open_with_budget_def resolve_target_def example_public_def
      answers_from_literal_def example_public_routable manage_upstream_def register_def registry_new_def)

theorem dials_only_global_witness: "outside_reserved (V4 (Ipv4Addr 8 8 8 8))"
  by (rule conjunct1 [OF dials_only_global [OF example_open [unfolded example_open_def] list.set_intros(1)]])

text \<open>
  Opening a connection never leaks capacity. With no free upstream permit nothing is
  dialled; a failure gives the permit back and registers nothing; a success holds exactly one
  more permit and one more registered socket.
\<close>

theorem open_target_accounts:
  assumes "open_target resolve dial target resources = (r, dialled, resources')"
    and "permits_inv limit held (pr_upstream resources)"
  shows "case r of
      Ok _ \<Rightarrow> permits_inv limit (Suc held) (pr_upstream resources')
        \<and> registered_sockets resources' = Suc (registered_sockets resources)
    | Err e \<Rightarrow> permits_inv limit held (pr_upstream resources')
        \<and> registered_sockets resources' = registered_sockets resources
        \<and> (e = Exhausted \<longrightarrow> held = limit \<and> dialled = [])"
proof (cases "try_upstream resources")
  case None
  then show ?thesis
    using assms by (auto simp: open_target_def try_upstream_def try_acquire_def permits_inv_def Let_def
        split: option.splits if_splits)
next
  case (Some res)
  then have inv: "permits_inv limit (Suc held) (pr_upstream res)" and same: "pr_sockets res = pr_sockets resources"
    using assms(2) by (auto simp: try_upstream_def intro: permits_inv_acquire split: option.splits)
  show ?thesis
  proof (cases "open_with_budget resolve dial target")
    case (Pair x d)
    have "x \<noteq> Err Exhausted"
    proof -
      have "fst (dial_each dial (pt_port target) as) \<noteq> Err Exhausted" for as
        by (induction as) (auto split: awaited.splits option.splits prod.splits)
      moreover have "resolve_target resolve target \<noteq> Err Exhausted"
      proof -
        have "Err Exhausted \<notin> set (map validate_answer answers)" for answers
          by (auto simp: validate_answer_def globally_routable_new_def split: if_splits)
        then have "collect_results (map validate_answer answers) \<noteq> Err Exhausted" for answers
          using collect_results_eq_Err [of "map validate_answer answers" Exhausted] by blast
        then show ?thesis
          by (auto simp: resolve_target_def answers_from_dns_def answers_from_literal_def
              globally_routable_new_def split: public_host.splits awaited.splits option.splits)
      qed
      ultimately show ?thesis
        using Pair by (auto simp: open_with_budget_def split: if_splits result.splits) (metis fst_conv)
    qed
    then show ?thesis
      using assms(1) Some Pair inv same permits_inv_drop [OF inv]
      by (cases x) (auto simp: open_target_def manage_upstream_def drop_upstream_permit_def register_def
          registered_sockets_def active_sockets_def)
  qed
qed

theorem open_target_accounts_witness:
  "permits_inv 256 1 (pr_upstream (snd (snd example_open)))"
proof -
  have "permits_inv 256 0 (pr_upstream production)"
    by (simp add: permits_inv_def production_def with_limits_def admission_new_def MAX_UPSTREAM_CONNECTIONS_def)
  from open_target_accounts [OF example_open [unfolded example_open_def] this] show ?thesis
    unfolding example_open_def by (simp only: result.case One_nat_def)
qed

text \<open>
  An idle connection is reused for its own origin only. When a request is served without
  dialling, its connection was put into the pool before under the same host, scope and port,
  and had no unread bytes.
\<close>

theorem reused_connection_same_origin:
  assumes "history (pool_step origin_reusable) (pool_build capacity lifetime) es pool"
    and "checkout resolve dial now target pool resources = (Ok origin, [], pool', resources')"
  shows "PutIn (from_target target) origin \<in> set es \<and> origin_reusable origin \<and> resources' = resources"
proof -
  have take: "take_if_reusable now (from_target target) origin_reusable pool = (Some origin, pool')"
    and "resources' = resources"
    using assms(2) open_target_Ok_dialled [of resolve dial target resources]
    by (auto simp: checkout_def take_origin_def split: prod.splits option.splits result.splits)
  moreover have "pool_held (pool_build capacity lifetime) = {}"
    by (simp add: pool_held_def pool_build_def)
  ultimately show ?thesis
    using connection_pool.taken_was_put [OF assms(1) _ pool_step.take_some [OF take]] by blast
qed

theorem reused_connection_same_origin_witness:
  "origin_reusable (http_origin_new [ReadData ''x''])"
proof -
  let ?p = "put_if_reusable 1 (from_target example_public) (http_origin_new [ReadData ''x'']) origin_reusable
      (pool_build 4 60)"
  let ?c = "checkout (\<lambda>_ _. Ready None) (\<lambda>_ _. Ready None) 2 example_public ?p production"
  have "history (pool_step origin_reusable) (pool_build 4 60)
      [PutIn (from_target example_public) (http_origin_new [ReadData ''x''])] ?p"
    by (rule history_single, rule pool_step.put, rule refl)
  moreover have "?c = (Ok (http_origin_new [ReadData ''x'']), [], snd (snd ?c))"
    by code_simp
  ultimately show ?thesis
    using reused_connection_same_origin [of 4 60 _ ?p _ _ 2 example_public production] by (metis prod.collapse)
qed

end
