(* ===== verification/Diagnostics.thy ===== *)
theory Diagnostics
  imports Byte_Sink Policy Shutdown
begin

text \<open>
  Denial auditing and the health probe of \<open>proxy/src/diagnostics.rs\<close>. The denial log is opened
  for appending for every record; what opening, inspecting and writing it come to is in the
  \<open>audit_log\<close>, whose write side is a \<open>byte_sink\<close>. What is printed to the standard error stream
  is part of the state. The clock is an argument: the seconds since the epoch.
\<close>

section \<open>Civil time\<close>

text \<open>
  \<open>civil_time\<close> computes on \<open>i64\<close> from a \<open>u64\<close>. A \<open>u64\<close> of seconds is fewer than 2^48 days, so
  no operation overflows, and all operands are nonnegative, so that Rust's division is \<open>div\<close>.
\<close>

definition civil_time :: "u64 \<Rightarrow> int \<times> int \<times> int \<times> nat \<times> nat \<times> nat" where
  "civil_time seconds =
     (let days = (if unat seconds div 86400 < 2 ^ 63 then int (unat seconds div 86400) else 2 ^ 63 - 1);
          time = unat seconds mod 86400;
          z = days + 719468;
          era = (if 0 \<le> z then z else z - 146096) div 146097;
          doe = z - era * 146097;
          yoe = (doe - doe div 1460 + doe div 36524 - doe div 146096) div 365;
          year = yoe + era * 400;
          doy = doe - (365 * yoe + yoe div 4 - yoe div 100);
          mp = (5 * doy + 2) div 153;
          day = doy - (153 * mp + 2) div 5 + 1;
          month = mp + (if mp < 10 then 3 else - 9)
      in (year + (if month \<le> 2 then 1 else 0), month, day,
          time div 3600, time div 60 mod 60, time mod 60))"

definition pad :: "nat \<Rightarrow> bytes \<Rightarrow> bytes" where
  "pad width text = replicate (width - length text) (CHR ''0'') @ text"

definition rfc3339 :: "u64 \<Rightarrow> bytes" where
  "rfc3339 now =
     (case civil_time now of
        (year, month, day, hour, minute, second) \<Rightarrow>
          pad 4 (show_nat (nat year)) @ ''-'' @ pad 2 (show_nat (nat month)) @ ''-''
            @ pad 2 (show_nat (nat day)) @ ''T'' @ pad 2 (show_nat hour) @ '':''
            @ pad 2 (show_nat minute) @ '':'' @ pad 2 (show_nat second) @ ''Z'')"

section \<open>Denials\<close>

definition destination_public :: "'a public_target_scheme \<Rightarrow> bytes" where
  "destination_public target = show_public_host (pt_host target)"

definition destination_local :: "'a local_target_scheme \<Rightarrow> bytes" where
  "destination_local target = show_loopback_authority (lt_canonical_authority target)"

definition destination_authority :: "loopback_authority \<Rightarrow> bytes" where
  "destination_authority authority = show_loopback_authority authority"

definition render_denial :: "bytes \<Rightarrow> bytes \<Rightarrow> bytes" where
  "render_denial timestamp destination = timestamp @ [TAB] @ destination @ [LF]"

definition render_denial_diagnostic :: "bytes \<Rightarrow> mode \<Rightarrow> bytes" where
  "render_denial_diagnostic destination mode =
     ''vhrn-proxy: denial target='' @ destination @ '' mode='' @ mode_as_str mode"

section \<open>The audit service\<close>

record audit_log = byte_sink +
  al_opens :: bool
  al_regular :: "bool option"

record audit =
  au_path :: "bytes option"
  au_append_failed :: bool
  au_log :: audit_log
  au_stderr :: "bytes list"

datatype audit_result = Recorded | AuditDisabled | AppendFailed

definition audit_new :: "bytes option \<Rightarrow> audit_log \<Rightarrow> audit" where
  "audit_new path log = \<lparr>au_path = path, au_append_failed = False, au_log = log, au_stderr = []\<rparr>"

definition eprintln :: "bytes \<Rightarrow> audit \<Rightarrow> audit" where
  "eprintln line a = a\<lparr>au_stderr := au_stderr a @ [line]\<rparr>"

text \<open>\<open>report\<close> prints one fixed line, whatever the error is.\<close>

definition report :: "'e \<Rightarrow> audit \<Rightarrow> audit" where
  "report e a = eprintln ''vhrn-proxy: operational_failure'' a"

text \<open>\<open>Some ()\<close> when the log is opened and is a regular file.\<close>

definition open_append_file :: "audit_log \<Rightarrow> unit option" where
  "open_append_file log =
     (if \<not> al_opens log then None
      else
        case al_regular log of
          None \<Rightarrow> None
        | Some is_file \<Rightarrow> if is_file then Some () else None)"

definition verify_open :: "audit \<Rightarrow> bool" where
  "verify_open a = (case au_path a of None \<Rightarrow> True | Some _ \<Rightarrow> open_append_file (au_log a) \<noteq> None)"

text \<open>
  \<open>watched\<close> are the events on which the caller drops the future; the result is then \<open>None\<close> and
  what was written so far stays written.
\<close>

definition append_record ::
    "sink_event list \<Rightarrow> bytes \<Rightarrow> audit_log \<Rightarrow> (unit, write_error) result \<times> audit_log" where
  "append_record watched text log =
     (case open_append_file log of
        None \<Rightarrow> (Err WriteFailed, log)
      | Some _ \<Rightarrow>
          (case write_all watched text log of
             (Err e, log) \<Rightarrow> (Err e, log)
           | (Ok _, log) \<Rightarrow> sink_flush watched log))"

definition record_denial ::
    "sink_event list \<Rightarrow> u64 \<Rightarrow> bytes \<Rightarrow> mode \<Rightarrow> audit \<Rightarrow> audit_result option \<times> audit" where
  "record_denial watched now destination effective_mode a =
     (let a = eprintln (render_denial_diagnostic destination effective_mode) a
      in case au_path a of
           None \<Rightarrow> (Some AuditDisabled, a)
         | Some _ \<Rightarrow>
             (case append_record watched (render_denial (rfc3339 now) destination) (au_log a) of
                (Ok _, log) \<Rightarrow> (Some Recorded, a\<lparr>au_log := log, au_append_failed := False\<rparr>)
              | (Err (Interrupted _), log) \<Rightarrow> (None, a\<lparr>au_log := log\<rparr>)
              | (Err _, log) \<Rightarrow> (Some AppendFailed, a\<lparr>au_log := log, au_append_failed := True\<rparr>)))"

section \<open>Health\<close>

record health_service =
  hs_public_paths :: "bytes list"
  hs_mode_path :: bytes
  hs_local_paths :: "bytes list option"

datatype health = Healthy | Unhealthy

definition health_read :: "health_service \<Rightarrow> file_system \<Rightarrow> shutdown \<Rightarrow> audit \<Rightarrow> health" where
  "health_read h fs s a =
     (if is_requested s \<or> \<not> is_ok (load_public_strict fs (hs_public_paths h) (hs_mode_path h)) then Unhealthy
      else if (case hs_local_paths h of
                 None \<Rightarrow> False
               | Some paths \<Rightarrow> \<not> is_ok (load_local_strict fs paths)) then Unhealthy
      else if \<not> verify_open a \<or> au_append_failed a then Unhealthy
      else Healthy)"

lemma append_record_out:
  "append_record watched line log = (r, log') \<Longrightarrow>
     (case r of Ok _ \<Rightarrow> sk_out log' = sk_out log @ line
      | Err _ \<Rightarrow> \<exists>p. prefix p line \<and> sk_out log' = sk_out log @ p)"
  by (auto simp: append_record_def dest!: write_all_Ok write_all_Err sink_flush_out
      split: option.splits prod.splits result.splits)

lemma give_way_watched: "give_way watched events = (Some e, events') \<Longrightarrow> e \<in> set watched"
  by (induction watched events rule: give_way.induct) (auto split: if_splits)

lemma sink_write_interrupted: "sink_write watched bs k = (Err (Interrupted e), k') \<Longrightarrow> e \<in> set watched"
  by (auto simp: sink_write_def dest: give_way_watched split: prod.splits option.splits)

lemma sink_flush_interrupted: "sink_flush watched k = (Err (Interrupted e), k') \<Longrightarrow> e \<in> set watched"
  by (auto simp: sink_flush_def dest: give_way_watched
      split: prod.splits option.splits list.splits sink_event.splits)

lemma write_all_interrupted: "write_all watched bs k = (Err (Interrupted e), k') \<Longrightarrow> e \<in> set watched"
proof (induction watched bs k rule: write_all.induct)
  case (1 watched bs k)
  then show ?case
    by (auto simp: write_all.simps [of _ bs k] dest: sink_write_interrupted
        split: prod.splits result.splits if_splits)
qed

lemma append_record_interrupted:
  "append_record watched line log = (Err (Interrupted e), log') \<Longrightarrow> e \<in> set watched"
  by (auto simp: append_record_def dest: write_all_interrupted sink_flush_interrupted
      split: option.splits prod.splits result.splits)

lemma record_denial_effect:
  assumes "record_denial watched now destination effective_mode a = (r, a')"
  shows "au_path a' = au_path a \<and>
    (let line = render_denial (rfc3339 now) destination; added = (\<lambda>t. sk_out (au_log a') = sk_out (au_log a) @ t)
     in case r of
          Some Recorded \<Rightarrow> au_path a \<noteq> None \<and> added line \<and> \<not> au_append_failed a'
        | Some AuditDisabled \<Rightarrow> au_path a = None \<and> added [] \<and> au_append_failed a' = au_append_failed a
        | Some AppendFailed \<Rightarrow> au_path a \<noteq> None \<and> (\<exists>p. prefix p line \<and> added p) \<and>
            (\<forall>h fs s. health_read h fs s a' = Unhealthy)
        | None \<Rightarrow> watched \<noteq> [] \<and> (\<exists>p. prefix p line \<and> added p) \<and> au_append_failed a' = au_append_failed a)"
proof (cases "au_path a")
  case None
  with assms show ?thesis
    by (auto simp: record_denial_def eprintln_def)
next
  case (Some path)
  define line where "line = render_denial (rfc3339 now) destination"
  obtain x log where x: "append_record watched line (au_log a) = (x, log)"
    by fastforce
  note out = append_record_out [OF x] and dropped = append_record_interrupted [of watched line "au_log a"]
  have r: "record_denial watched now destination effective_mode a =
      (let a = eprintln (render_denial_diagnostic destination effective_mode) a
       in case x of
            Ok _ \<Rightarrow> (Some Recorded, a\<lparr>au_log := log, au_append_failed := False\<rparr>)
          | Err (Interrupted _) \<Rightarrow> (None, a\<lparr>au_log := log\<rparr>)
          | Err _ \<Rightarrow> (Some AppendFailed, a\<lparr>au_log := log, au_append_failed := True\<rparr>))"
    using Some x by (simp add: record_denial_def line_def eprintln_def Let_def split: result.splits write_error.splits)
  show ?thesis
  proof (cases x)
    case (Ok u)
    then show ?thesis
      using assms r out Some by (auto simp: eprintln_def Let_def line_def [symmetric])
  next
    case (Err e)
    show ?thesis
    proof (cases "\<exists>i. e = Interrupted i")
      case True
      then show ?thesis
        using assms r out Some Err dropped x by (auto simp: eprintln_def Let_def line_def [symmetric])
    next
      case False
      then have "r = Some AppendFailed" "a' = (eprintln (render_denial_diagnostic destination effective_mode) a)
          \<lparr>au_log := log, au_append_failed := True\<rparr>"
        using assms r Err by (auto simp: Let_def split: write_error.splits)
      then show ?thesis
        using out Some Err by (simp add: eprintln_def health_read_def Let_def line_def [symmetric])
    qed
  qed
qed

text \<open>
  C33: what becomes of a denial. Its diagnostic line is printed to standard error in every case.
  Beyond that there are four outcomes. When the record is reported as written, the whole line is in
  the log, nothing else was added and an earlier failure is forgotten. When writing it failed, at
  most a beginning of the line was added, and the health probe fails afterwards. Without a log
  nothing is written and the health does not change. And when the append gives way to an event
  that the caller watches for, at most a beginning of the line was added and the health does not
  change: such a denial is on standard error only.
\<close>

theorem denial_is_logged_or_unhealthy:
  assumes "record_denial watched now destination effective_mode a = (r, a')"
  shows "au_path a' = au_path a \<and>
    au_stderr a' = au_stderr a @ [render_denial_diagnostic destination effective_mode] \<and>
    (let line = render_denial (rfc3339 now) destination; added = (\<lambda>t. sk_out (au_log a') = sk_out (au_log a) @ t)
     in case r of
          Some Recorded \<Rightarrow> au_path a \<noteq> None \<and> added line \<and> \<not> au_append_failed a'
        | Some AuditDisabled \<Rightarrow> au_path a = None \<and> added [] \<and> au_append_failed a' = au_append_failed a
        | Some AppendFailed \<Rightarrow> au_path a \<noteq> None \<and> (\<exists>p. prefix p line \<and> added p) \<and>
            (\<forall>h fs s. health_read h fs s a' = Unhealthy)
        | None \<Rightarrow> watched \<noteq> [] \<and> (\<exists>p. prefix p line \<and> added p) \<and> au_append_failed a' = au_append_failed a)"
proof -
  have "au_stderr a' = au_stderr a @ [render_denial_diagnostic destination effective_mode]"
    using assms
    by (auto simp: record_denial_def eprintln_def Let_def
        split: option.split_asm prod.split_asm result.split_asm write_error.split_asm)
  then show ?thesis
    using record_denial_effect [OF assms] by simp
qed

text \<open>A record that fails half way: two bytes are taken, then the disk is full.\<close>

definition example_audit :: audit where
  "example_audit = audit_new (Some ''/log'')
     \<lparr>sk_events = [Accepts 2, WriteFails], sk_out = [], al_opens = True, al_regular = Some True\<rparr>"

theorem denial_is_logged_or_unhealthy_witness:
  "\<forall>h fs s. health_read h fs s (snd (record_denial [] 0 ''example.com'' Enforce example_audit)) = Unhealthy"
proof -
  have "record_denial [] 0 ''example.com'' Enforce example_audit
      = (Some AppendFailed, snd (record_denial [] 0 ''example.com'' Enforce example_audit))"
    by code_simp
  from denial_is_logged_or_unhealthy [OF this] show ?thesis
    by simp
qed

section \<open>The calendar\<close>

text \<open>The proleptic Gregorian calendar, from its rule for leap years.\<close>

definition leap :: "nat \<Rightarrow> bool" where
  "leap y \<longleftrightarrow> 4 dvd y \<and> (100 dvd y \<longrightarrow> 400 dvd y)"

definition year_length :: "nat \<Rightarrow> nat" where
  "year_length y = (if leap y then 366 else 365)"

definition month_days :: "bool \<Rightarrow> nat \<Rightarrow> nat" where
  "month_days is_leap m =
     (if m = 2 then if is_leap then 29 else 28 else if m = 4 \<or> m = 6 \<or> m = 9 \<or> m = 11 then 30 else 31)"

definition days_before_year :: "nat \<Rightarrow> nat" where
  "days_before_year y = sum_list (map year_length [0..<y])"

definition days_before_month :: "bool \<Rightarrow> nat \<Rightarrow> nat" where
  "days_before_month is_leap m = sum_list (map (month_days is_leap) [1..<m])"

definition day_number :: "nat \<Rightarrow> nat \<Rightarrow> nat \<Rightarrow> nat" where
  "day_number y m d = days_before_year y + days_before_month (leap y) m + (d - 1)"

definition valid_date :: "nat \<Rightarrow> nat \<Rightarrow> nat \<Rightarrow> bool" where
  "valid_date y m d \<longleftrightarrow> 1 \<le> m \<and> m \<le> 12 \<and> 1 \<le> d \<and> d \<le> month_days (leap y) m"

text \<open>Days before the first of March of a year, counted from the first of March of year 0.\<close>

definition march_days :: "nat \<Rightarrow> nat" where
  "march_days y = 365 * y + y div 4 - y div 100 + y div 400"

lemma march_days_Suc: "march_days (Suc y) = march_days y + year_length (Suc y)"
proof -
  have "y div 100 \<le> y div 4" for y :: nat
    by (simp add: div_le_mono2)
  then show ?thesis
    unfolding march_days_def year_length_def leap_def div_Suc dvd_eq_mod_eq_0 by auto presburger+
qed

lemma days_before_year_Suc: "days_before_year (Suc y) = 366 + march_days y"
proof (induction y)
  case 0
  show ?case
    by (simp add: days_before_year_def year_length_def leap_def march_days_def)
next
  case (Suc y)
  then show ?case
    by (simp add: days_before_year_def march_days_Suc [of y])
qed

definition year_estimate :: "nat \<Rightarrow> nat" where
  "year_estimate n = n - n div 1460 + (n div 36524 - n div 146096)"

lemma sub_div_mono: "m \<le> n \<Longrightarrow> m - m div k \<le> n - n div (k :: nat)"
proof (induction n)
  case (Suc n)
  have "Suc n div k \<le> Suc (n div k)"
    by (simp add: div_Suc)
  with Suc show ?case
    by (cases "m = Suc n") (auto simp: le_Suc_eq)
qed simp

lemma year_estimate_mono: "m \<le> n \<Longrightarrow> year_estimate m \<le> year_estimate n"
proof -
  assume le: "m \<le> n"
  have "x div 146096 = x div 36524 div 4" for x :: nat
    by (simp add: div_mult2_eq [symmetric])
  then show ?thesis
    unfolding year_estimate_def
    using add_mono [OF sub_div_mono [OF le, of 1460] sub_div_mono [OF div_le_mono [OF le], of 36524 4]]
    by simp
qed

definition year_ends_ok :: "nat \<Rightarrow> bool" where
  "year_ends_ok y \<longleftrightarrow> 365 * y \<le> year_estimate (march_days y) \<and>
     year_estimate (march_days (Suc y) - 1) < 365 * Suc y"

lemma all_below:
  "P 0 \<Longrightarrow> P 1 \<Longrightarrow> list_all P [2..<n] \<Longrightarrow> y < n \<Longrightarrow> P y"
  by (cases "y = 0"; cases "y = 1") (auto simp: list_all_iff)

lemma year_ends_ok_all: "list_all year_ends_ok [2..<400]"
  unfolding upt_rec_numeral
  by (simp add: upt_rec_numeral) (simp add: year_ends_ok_def year_estimate_def march_days_def)

lemma year_ends_ok: "y < 400 \<Longrightarrow> year_ends_ok y"
  by (rule all_below [OF _ _ year_ends_ok_all])
    (simp_all add: year_ends_ok_def year_estimate_def march_days_def)

lemma march_year_exists: "n < march_days y \<Longrightarrow> \<exists>x<y. march_days x \<le> n \<and> n < march_days (Suc x)"
proof (induction y)
  case (Suc y)
  then show ?case
    by (cases "n < march_days y") (auto intro: less_SucI)
qed (simp add: march_days_def)

lemma year_of_day:
  assumes "n < 146097"
  obtains y where "y < 400" and "year_estimate n div 365 = y" and "march_days y \<le> n" and "n < march_days (Suc y)"
proof -
  obtain y where y: "y < 400" "march_days y \<le> n" "n < march_days (Suc y)"
    using assms march_year_exists [of n 400] by (auto simp: march_days_def [of 400])
  have "365 * y \<le> year_estimate (march_days y)" and "year_estimate (march_days (Suc y) - 1) < 365 * Suc y"
    using year_ends_ok [OF y(1)] by (simp_all add: year_ends_ok_def)
  moreover have "year_estimate (march_days y) \<le> year_estimate n"
    and "year_estimate n \<le> year_estimate (march_days (Suc y) - 1)"
    using y by (auto intro: year_estimate_mono)
  ultimately have "year_estimate n div 365 = y"
    by (intro div_nat_eqI) auto
  with y show ?thesis
    by (intro that)
qed

text \<open>The month and the day of a day of the year that starts in March.\<close>

definition march_month :: "nat \<Rightarrow> nat" where
  "march_month doy = (5 * doy + 2) div 153"

definition month_of :: "nat \<Rightarrow> nat" where
  "month_of doy = (if march_month doy < 10 then march_month doy + 3 else march_month doy - 9)"

definition day_of :: "nat \<Rightarrow> nat" where
  "day_of doy = doy - (153 * march_month doy + 2) div 5 + 1"

definition month_day_ok :: "bool \<Rightarrow> bool \<Rightarrow> nat \<Rightarrow> bool" where
  "month_day_ok this_leap next_leap doy \<longleftrightarrow>
     (let m = month_of doy; d = day_of doy
      in 1 \<le> m \<and> m \<le> 12 \<and> (153 * march_month doy + 2) div 5 \<le> doy \<and>
         (if 3 \<le> m
          then d \<le> month_days this_leap m
            \<and> days_before_month this_leap m + (d - 1) = 59 + (if this_leap then 1 else 0) + doy
          else d \<le> month_days next_leap m \<and> days_before_month next_leap m + (d - 1) + 306 = doy))"

lemma days_before_month_Suc:
  "days_before_month l (Suc 0) = 0"
  "days_before_month l (Suc (Suc m)) = days_before_month l (Suc m) + month_days l (Suc m)"
  by (simp_all add: days_before_month_def)

lemma days_before_month_table:
  "days_before_month l 1 = 0" "days_before_month l 2 = 31"
  "days_before_month l 3 = (if l then 60 else 59)" "days_before_month l 4 = (if l then 91 else 90)"
  "days_before_month l 5 = (if l then 121 else 120)" "days_before_month l 6 = (if l then 152 else 151)"
  "days_before_month l 7 = (if l then 182 else 181)" "days_before_month l 8 = (if l then 213 else 212)"
  "days_before_month l 9 = (if l then 244 else 243)" "days_before_month l 10 = (if l then 274 else 273)"
  "days_before_month l 11 = (if l then 305 else 304)" "days_before_month l 12 = (if l then 335 else 334)"
  by (simp_all add: eval_nat_numeral days_before_month_Suc month_days_def)

lemma month_day_ok:
  assumes "doy < (if next_leap then 366 else 365)"
  shows "month_day_ok this_leap next_leap doy"
proof -
  have "march_month doy < 12"
    using assms by (auto simp: march_month_def split: if_splits)
  then consider "march_month doy = 0" | "march_month doy = 1" | "march_month doy = 2" | "march_month doy = 3"
    | "march_month doy = 4" | "march_month doy = 5" | "march_month doy = 6" | "march_month doy = 7"
    | "march_month doy = 8" | "march_month doy = 9" | "march_month doy = 10" | "march_month doy = 11"
    by (auto simp: less_Suc_eq eval_nat_numeral)
  moreover have "153 * march_month doy \<le> 5 * doy + 2" and "5 * doy + 2 < 153 * march_month doy + 153"
    by (simp_all add: march_month_def)
  ultimately show ?thesis
    by cases (use assms in \<open>auto simp: month_day_ok_def month_of_def day_of_def month_days_def Let_def
        days_before_month_table [unfolded One_nat_def] split: if_splits\<close>)
qed

lemma march_date:
  assumes "doy < year_length (Suc y)" and "Y = y + (if month_of doy \<le> 2 then 1 else 0)"
  shows "valid_date Y (month_of doy) (day_of doy)"
    and "day_number Y (month_of doy) (day_of doy) = march_days y + 60 + doy"
proof -
  have ok: "month_day_ok (leap y) (leap (Suc y)) doy"
    using assms(1) by (intro month_day_ok) (simp add: year_length_def split: if_splits)
  have year: "days_before_year y + year_length y = 366 + march_days y"
    using days_before_year_Suc [of y] by (simp add: days_before_year_def)
  show "valid_date Y (month_of doy) (day_of doy)"
    using ok assms(2) by (auto simp: month_day_ok_def valid_date_def Let_def day_of_def split: if_splits)
  show "day_number Y (month_of doy) (day_of doy) = march_days y + 60 + doy"
  proof (cases "3 \<le> month_of doy")
    case True
    then show ?thesis
      using ok year assms(2)
      by (auto simp: month_day_ok_def day_number_def year_length_def Let_def split: if_splits)
  next
    case False
    then have "Y = Suc y" and "days_before_month (leap Y) (month_of doy) + (day_of doy - 1) + 306 = doy"
      using ok assms(2) by (auto simp: month_day_ok_def Let_def split: if_splits)
    then show ?thesis
      using days_before_year_Suc [of y] by (simp add: day_number_def)
  qed
qed


lemma march_days_era: "y < 400 \<Longrightarrow> march_days (y + 400 * era) = march_days y + 146097 * era"
proof -
  assume "y < 400"
  moreover have "(y + 400 * era) div 4 = y div 4 + 100 * era" "(y + 400 * era) div 100 = y div 100 + 4 * era"
    "(y + 400 * era) div 400 = y div 400 + era"
    using div_mult_self1 [of 4 y "100 * era"] div_mult_self1 [of 100 y "4 * era"]
      div_mult_self1 [of 400 y era] by (simp_all add: mult.commute)
  moreover have "y div 100 \<le> y div 4"
    by (simp add: div_le_mono2)
  ultimately show ?thesis
    by (simp add: march_days_def) linarith
qed

text \<open>
  The denial log is dated correctly. For every count of seconds since the epoch, the
  computed date is a date of the Gregorian calendar, it is as many days after 1 January 1970 as
  the count has whole days, and the time of day is what is left of the count; no intermediate
  result leaves the 64 bits the code computes with.
\<close>

theorem civil_time_date:
  "case civil_time seconds of (year, month, day, hour, minute, second) \<Rightarrow>
     0 \<le> year \<and> 0 \<le> month \<and> 0 \<le> day \<and> valid_date (nat year) (nat month) (nat day) \<and>
     day_number (nat year) (nat month) (nat day) = day_number 1970 1 1 + unat seconds div 86400 \<and>
     hour < 24 \<and> minute < 60 \<and> second < 60 \<and>
     (hour * 60 + minute) * 60 + second = unat seconds mod 86400"
proof -
  define days where "days = unat seconds div 86400"
  define time where "time = unat seconds mod 86400"
  define era where "era = (days + 719468) div 146097"
  define doe where "doe = (days + 719468) mod 146097"
  have z: "days + 719468 = era * 146097 + doe"
    by (simp add: era_def doe_def)
  have "doe < 146097"
    by (simp add: doe_def)
  then obtain y where y: "y < 400" "year_estimate doe div 365 = y" "march_days y \<le> doe" "doe < march_days (Suc y)"
    by (rule year_of_day)
  define doy where "doy = doe - march_days y"
  have my: "march_days y = 365 * y + y div 4 - y div 100" and le: "y div 100 \<le> 365 * y + y div 4"
    using y(1) by (simp_all add: march_days_def div_le_mono2 trans_le_add2)
  have doy: "doy < year_length (Suc y)"
    using y(3,4) by (simp add: doy_def march_days_Suc)
  define Y where "Y = y + 400 * era"
  have leap: "year_length (Suc Y) = year_length (Suc y)"
  proof -
    have "Suc Y = Suc y + 4 * (100 * era)" "Suc Y = Suc y + 100 * (4 * era)" "Suc Y = Suc y + 400 * era"
      by (simp_all add: Y_def)
    then have "k dvd Suc Y \<longleftrightarrow> k dvd Suc y" if "k \<in> {4, 100, 400}" for k
      using that by (metis dvd_add_left_iff dvd_triv_left insert_iff singletonD)
    then show ?thesis
      by (simp add: year_length_def leap_def)
  qed
  have date: "civil_time seconds =
      (int (Y + (if month_of doy \<le> 2 then 1 else 0)), int (month_of doy), int (day_of doy),
       time div 3600, time div 60 mod 60, time mod 60)"
  proof -
    have e1: "days < 2 ^ 63"
      unfolding days_def using unsigned_less [of seconds, where 'a = nat] by simp
    have e2: "(if 0 \<le> int days + 719468 then int days + 719468 else int days + 719468 - 146096) div 146097
        = int era"
      by (simp add: era_def zdiv_int)
    have e3: "int days + 719468 - int era * 146097 = int doe"
      using z by linarith
    have e4: "(int doe - int doe div 1460 + int doe div 36524 - int doe div 146096) div 365 = int y"
    proof -
      have "doe div 146096 \<le> doe div 36524"
        by (simp add: div_le_mono2)
      then have "int doe - int doe div 1460 + int doe div 36524 - int doe div 146096 = int (year_estimate doe)"
        by (simp add: year_estimate_def zdiv_int of_nat_diff)
      then show ?thesis
        using y(2) by (simp add: zdiv_int [symmetric])
    qed
    have e5: "int doe - (365 * int y + int y div 4 - int y div 100) = int doy"
      using y(3) le by (simp add: doy_def my zdiv_int of_nat_diff)
    have e6: "(5 * int doy + 2) div 153 = int (march_month doy)"
      by (simp add: march_month_def zdiv_int)
    have e7: "int doy - (153 * int (march_month doy) + 2) div 5 + 1 = int (day_of doy)"
      using month_day_ok [of doy "leap (Suc y)" False] doy
      by (simp add: day_of_def month_day_ok_def Let_def year_length_def zdiv_int of_nat_diff split: if_splits)
    have e8: "int (march_month doy) + (if int (march_month doy) < 10 then 3 else - 9) = int (month_of doy)"
      by (simp add: month_of_def of_nat_diff)
    have year: "int y + int era * 400 + (if int (month_of doy) \<le> 2 then 1 else 0)
        = int (Y + (if month_of doy \<le> 2 then 1 else 0))"
      by (simp add: Y_def)
    show ?thesis
      unfolding civil_time_def Let_def days_def [symmetric] time_def [symmetric]
      by (simp only: e1 if_True e2 e3 e4 e5 e6 e7 e8 year)
  qed
  have "day_number (Y + (if month_of doy \<le> 2 then 1 else 0)) (month_of doy) (day_of doy)
      = day_number 1970 1 1 + days"
  proof -
    have "day_number 1970 1 1 = 719528"
      by (simp add: day_number_def days_before_month_table [unfolded One_nat_def]
          days_before_year_Suc [of 1969, simplified] march_days_def)
    moreover have "march_days Y + 60 + doy = 719528 + days"
      using march_days_era [OF y(1), of era] z y(3) by (simp add: Y_def doy_def)
    ultimately show ?thesis
      using march_date(2) [OF doy [folded leap] refl] by simp
  qed
  moreover have "(time div 3600 * 60 + time div 60 mod 60) * 60 + time mod 60 = time"
  proof -
    have "time div 3600 = time div 60 div 60"
      by (simp add: div_mult2_eq [symmetric])
    then show ?thesis
      by simp
  qed
  moreover have "time div 3600 < 24"
    by (simp add: time_def div_less_iff_less_mult)
  ultimately show ?thesis
    using march_date(1) [OF doy [folded leap] refl] by (simp add: date days_def time_def del: of_nat_add)
qed

end
