(* ===== verification/Broker_Client.thy ===== *)
theory Broker_Client
  imports Public
begin

text \<open>
  The capability protocol towards the host broker (\<open>proxy/src/connect/broker/protocol.rs\<close>) and
  the HTTP transport over it (\<open>broker/http.rs\<close>). A frame is \<open>VHRN-BROKER/1\<close>, a command, the
  token and, to connect, the canonical loopback authority; the answer is \<open>OK\<close> on a line, and
  bytes that arrive with it belong to the tunnel. What an awaited operation came to is an
  argument: the dial, and the writing and reading that follow it.
\<close>

definition MAX_FRAME_BYTES :: nat where "MAX_FRAME_BYTES = 256"
definition MAX_RESPONSE_BYTES :: nat where "MAX_RESPONSE_BYTES = 4"
definition READY_TIMEOUT :: nat where "READY_TIMEOUT = 3"
definition CONNECT_TIMEOUT :: nat where "CONNECT_TIMEOUT = 13"

section \<open>Tokens and frames\<close>

datatype broker_token = BrokerToken (token_bytes: bytes)

datatype broker_token_error = BrokerTokenError

definition token_byte :: "char \<Rightarrow> bool" where
  "token_byte b \<longleftrightarrow> is_ascii_digit b \<or> 97 \<le> octet b \<and> octet b \<le> 102"

definition broker_token_from_str :: "bytes \<Rightarrow> (broker_token, broker_token_error) result" where
  "broker_token_from_str text =
     ok_or BrokerTokenError
       (if length text = 64 \<and> list_all token_byte text then Some (BrokerToken text) else None)"

definition show_broker_token :: "broker_token \<Rightarrow> bytes" where
  "show_broker_token token = ''BrokerToken([REDACTED])''"

datatype broker_error =
    BrokerRejected
  | BrokerUnavailable
  | BrokerDeadlineExceeded
  | BrokerCancelled
  | BrokerOriginFailure
  | BrokerExhausted

primrec show_broker_error :: "broker_error \<Rightarrow> bytes" where
  "show_broker_error BrokerRejected = ''broker rejected exchange''"
| "show_broker_error BrokerUnavailable = ''broker transport unavailable''"
| "show_broker_error BrokerDeadlineExceeded = ''broker exchange deadline exceeded''"
| "show_broker_error BrokerCancelled = ''broker exchange cancelled''"
| "show_broker_error BrokerOriginFailure = ''local origin exchange failed''"
| "show_broker_error BrokerExhausted = ''broker connection capacity exhausted''"

text \<open>\<open>None\<close> is the failed assertion of \<open>frame\<close>.\<close>

definition frame :: "broker_token \<Rightarrow> bytes \<Rightarrow> bytes option \<Rightarrow> bytes option" where
  "frame token command authority =
     (let bs = command @ token_bytes token
                 @ (case authority of None \<Rightarrow> [] | Some authority \<Rightarrow> '' '' @ authority) @ [LF]
      in if length bs \<le> MAX_FRAME_BYTES then Some bs else None)"

definition ready_frame :: "broker_token \<Rightarrow> bytes option" where
  "ready_frame token = frame token ''VHRN-BROKER/1 READY '' None"

definition connect_frame :: "broker_token \<Rightarrow> loopback_authority \<Rightarrow> bytes option" where
  "connect_frame token authority =
     frame token ''VHRN-BROKER/1 CONNECT '' (Some (show_loopback_authority authority))"

section \<open>The answer\<close>

abbreviation OK_LINE :: bytes where "OK_LINE \<equiv> ''OK'' @ [LF]"

function read_response_loop ::
    "bytes \<Rightarrow> read_event list \<Rightarrow> (bytes, broker_error) result \<times> read_event list" where
  "read_response_loop acc events =
     (case io_read (MAX_RESPONSE_BYTES - length acc) events of
        (None, events) \<Rightarrow> (Err BrokerUnavailable, events)
      | (Some d, events) \<Rightarrow>
          if d = [] then (Err BrokerRejected, events)
          else
            (let acc = acc @ d
             in if 3 \<le> length acc \<and> take 3 acc = OK_LINE then (Ok (drop 3 acc), events)
                else if \<not> prefix acc OK_LINE \<or> length acc = MAX_RESPONSE_BYTES
                then (Err BrokerRejected, events)
                else read_response_loop acc events))"
  by pat_completeness auto
termination
proof (relation "measure (\<lambda>(acc, events). MAX_RESPONSE_BYTES - length acc)", goal_cases)
  case (2 acc events r events' d)
  then have "length d \<le> MAX_RESPONSE_BYTES - length acc"
    using io_read_Some(2) by metis
  with 2 show ?case
    by (cases d) auto
qed simp

declare read_response_loop.simps [simp del]

definition read_response :: "read_event list \<Rightarrow> (bytes, broker_error) result \<times> read_event list" where
  "read_response events = read_response_loop [] events"

section \<open>The exchange with the broker\<close>

datatype broker_endpoint = SocketEndpoint socket_addr | HostEndpoint bytes u16

fun connect_first :: "(socket_addr \<Rightarrow> read_event list option) \<Rightarrow> socket_addr list \<Rightarrow> read_event list option" where
  "connect_first tcp_connect [] = None"
| "connect_first tcp_connect (address # addresses) =
     (case tcp_connect address of
        Some stream \<Rightarrow> Some stream
      | None \<Rightarrow> connect_first tcp_connect addresses)"

definition system_broker_dial ::
    "(socket_addr \<Rightarrow> read_event list option) \<Rightarrow> (bytes \<Rightarrow> u16 \<Rightarrow> socket_addr list option)
       \<Rightarrow> broker_endpoint \<Rightarrow> read_event list option" where
  "system_broker_dial tcp_connect lookup_host endpoint =
     (case endpoint of
        SocketEndpoint address \<Rightarrow> tcp_connect address
      | HostEndpoint host port \<Rightarrow>
          Option.bind (lookup_host host port) (\<lambda>addresses. connect_first tcp_connect addresses))"

record broker_protocol =
  bp_endpoint :: broker_endpoint
  bp_token :: broker_token

type_synonym broker_dial = "broker_endpoint \<Rightarrow> read_event list option awaited"

record broker_stream =
  bs_io :: "read_event list"
  bs_prefix :: bytes
  bs_registration :: nat

text \<open>
  The write of the frame and the read of the answer run to their end, or the cancellation or the
  deadline drops them when \<open>n\<close> bytes of the frame have been taken, and perhaps, when that is all of
  it, a part of the answer has been read.
\<close>

datatype io_end = RunsToEnd | CancelledAfter nat | DeadlineAfter nat

primrec cut_error :: "io_end \<Rightarrow> (nat \<times> broker_error) option" where
  "cut_error RunsToEnd = None"
| "cut_error (CancelledAfter n) = Some (n, BrokerCancelled)"
| "cut_error (DeadlineAfter n) = Some (n, BrokerDeadlineExceeded)"

text \<open>
  A cancellation that is already requested wins before the dial. The connection permit goes
  back when the exchange ends before the stream is managed, and with the stream afterwards.
  The second component is the broker's side: what was sent to it, if it was dialled.
\<close>

definition broker_exchange ::
    "broker_dial \<Rightarrow> io_end \<Rightarrow> broker_protocol \<Rightarrow> bytes \<Rightarrow> shutdown \<Rightarrow> byte_sink \<Rightarrow> process_resources
       \<Rightarrow> (broker_stream, broker_error) result \<times> byte_sink option \<times> process_resources" where
  "broker_exchange dial during_io protocol bs cancellation writer resources =
     (case try_upstream resources of
        None \<Rightarrow> (Err BrokerExhausted, None, resources)
      | Some resources \<Rightarrow>
          if is_requested cancellation then (Err BrokerCancelled, None, drop_upstream_permit resources)
          else
            (case dial (bp_endpoint protocol) of
              Cancellation \<Rightarrow> (Err BrokerCancelled, None, drop_upstream_permit resources)
            | DeadlinePassed \<Rightarrow> (Err BrokerDeadlineExceeded, None, drop_upstream_permit resources)
            | Ready None \<Rightarrow> (Err BrokerUnavailable, None, drop_upstream_permit resources)
            | Ready (Some stream) \<Rightarrow>
                (case manage_upstream resources of
                   (i, resources) \<Rightarrow>
                     (let dropped = drop_managed i resources
                      in case cut_error during_io of
                           Some (n, e) \<Rightarrow>
                             (case write_all [] (take n bs) writer of
                                (Err _, writer) \<Rightarrow> (Err BrokerUnavailable, Some writer, dropped)
                              | (Ok _, writer) \<Rightarrow> (Err e, Some writer, dropped))
                         | None \<Rightarrow>
                             (case write_all [] bs writer of
                                (Err _, writer) \<Rightarrow> (Err BrokerUnavailable, Some writer, dropped)
                              | (Ok _, writer) \<Rightarrow>
                                  (case read_response stream of
                                     (Err e, _) \<Rightarrow> (Err e, Some writer, dropped)
                                   | (Ok rest, stream) \<Rightarrow>
                                       (Ok \<lparr>bs_io = stream, bs_prefix = rest, bs_registration = i\<rparr>,
                                        Some writer, resources)))))))"

text \<open>\<open>None\<close> is again a failed assertion.\<close>

definition broker_ready ::
    "broker_dial \<Rightarrow> io_end \<Rightarrow> broker_protocol \<Rightarrow> shutdown \<Rightarrow> byte_sink \<Rightarrow> process_resources
       \<Rightarrow> ((unit, broker_error) result \<times> byte_sink option \<times> process_resources) option" where
  "broker_ready dial during_io protocol cancellation writer resources =
     map_option (\<lambda>bs.
       case broker_exchange dial during_io protocol bs cancellation writer resources of
         (Err e, sent, resources) \<Rightarrow> (Err e, sent, resources)
       | (Ok stream, sent, resources) \<Rightarrow>
           (if bs_prefix stream = [] then Ok () else Err BrokerRejected, sent,
            drop_managed (bs_registration stream) resources))
       (ready_frame (bp_token protocol))"

definition broker_connect ::
    "broker_dial \<Rightarrow> io_end \<Rightarrow> broker_protocol \<Rightarrow> loopback_authority \<Rightarrow> shutdown \<Rightarrow> byte_sink
       \<Rightarrow> process_resources
       \<Rightarrow> ((broker_stream, broker_error) result \<times> byte_sink option \<times> process_resources) option" where
  "broker_connect dial during_io protocol authority cancellation writer resources =
     map_option (\<lambda>bs. broker_exchange dial during_io protocol bs cancellation writer resources)
       (connect_frame (bp_token protocol) authority)"

section \<open>The broker stream\<close>

definition take_prefix :: "broker_stream \<Rightarrow> bytes \<times> broker_stream" where
  "take_prefix stream = (bs_prefix stream, stream\<lparr>bs_prefix := []\<rparr>)"

definition broker_poll_read :: "nat \<Rightarrow> broker_stream \<Rightarrow> bytes option \<times> broker_stream" where
  "broker_poll_read room stream =
     (if room = 0 then (Some [], stream)
      else if bs_prefix stream \<noteq> [] then
        (let count = min room (length (bs_prefix stream))
         in (Some (take count (bs_prefix stream)), stream\<lparr>bs_prefix := drop count (bs_prefix stream)\<rparr>))
      else
        case io_read room (bs_io stream) of (r, events) \<Rightarrow> (r, stream\<lparr>bs_io := events\<rparr>))"

text \<open>The stream as the socket that a reader sees: the bytes read with the answer come first.\<close>

definition broker_script :: "broker_stream \<Rightarrow> read_event list" where
  "broker_script stream =
     (if bs_prefix stream = [] then bs_io stream else ReadData (bs_prefix stream) # bs_io stream)"

lemma broker_poll_read_script:
  assumes "0 < room" and "broker_poll_read room stream = (r, stream')"
  shows "io_read room (broker_script stream) = (r, broker_script stream')"
  using assms by (auto simp: broker_poll_read_def broker_script_def Let_def min_def split: if_splits prod.splits)

section \<open>HTTP over the broker\<close>

datatype broker_forward_error =
    BrokerConnect broker_error
  | BrokerExchange forward_error
  | BrokerOrigin broker_error forward_error

text \<open>What is written after the exchange with the broker is counted from its first byte.\<close>

definition local_host_text :: "'a local_target_scheme \<Rightarrow> bytes" where
  "local_host_text target =
     (let canonical = show_loopback_authority (lt_canonical_authority target)
      in if lt_explicit_port target then canonical
         else
           case rsplit_once (CHR '':'') canonical of
             None \<Rightarrow> canonical
           | Some (host, _) \<Rightarrow> host)"

type_synonym broker_pool = "loopback_authority origin_pool"

definition broker_checkout ::
    "broker_dial \<Rightarrow> io_end \<Rightarrow> broker_protocol \<Rightarrow> nat \<Rightarrow> loopback_authority \<Rightarrow> shutdown \<Rightarrow> byte_sink
       \<Rightarrow> broker_pool \<Rightarrow> process_resources
       \<Rightarrow> ((origin_reader, broker_error) result \<times> byte_sink option \<times> broker_pool \<times> process_resources) option" where
  "broker_checkout dial during_io protocol now authority cancellation writer pool resources =
     (case take_origin now authority pool of
        (Some origin, pool) \<Rightarrow> Some (Ok origin, None, pool, resources)
      | (None, pool) \<Rightarrow>
          map_option (\<lambda>(result, sent, resources).
              ((case result of
                  Err e \<Rightarrow> Err e
                | Ok stream \<Rightarrow> Ok (http_origin_new (broker_script stream))), sent, pool, resources))
            (broker_connect dial during_io protocol authority cancellation writer resources))"

definition broker_error_of :: "forward_error \<Rightarrow> broker_forward_error" where
  "broker_error_of e =
     (if fe_kind e = FwBadGateway then BrokerOrigin BrokerOriginFailure e else BrokerExchange e)"

text \<open>
  A client that hangs up drops the checkout where it stands, as a cancellation would: \<open>Suc n\<close>, when \<open>n\<close>
  bytes of the frame have been taken. A pooled connection is checked out at once.
\<close>

definition abandoned_broker_checkout ::
    "broker_dial \<Rightarrow> broker_protocol \<Rightarrow> nat \<Rightarrow> loopback_authority \<Rightarrow> shutdown \<Rightarrow> nat \<Rightarrow> byte_sink
       \<Rightarrow> broker_pool \<Rightarrow> process_resources \<Rightarrow> (byte_sink option \<times> broker_pool \<times> process_resources) option" where
  "abandoned_broker_checkout dial protocol now authority cancellation progress writer pool resources =
     (case (progress, take_origin now authority pool) of
        (Suc n, None, pool) \<Rightarrow>
          map_option (\<lambda>(_, sent, resources). (sent, pool, resources))
            (broker_connect dial (CancelledAfter n) protocol authority cancellation writer resources)
      | _ \<Rightarrow> Some (None, pool, resources))"

definition broker_forward ::
    "'h http_crate \<Rightarrow> broker_dial \<Rightarrow> io_end \<Rightarrow> broker_protocol \<Rightarrow> nat \<Rightarrow> nat option \<Rightarrow> 'a local_target_scheme
       \<Rightarrow> 'h request_head \<Rightarrow> http1_connection \<Rightarrow> byte_sink \<Rightarrow> shutdown \<Rightarrow> byte_sink \<Rightarrow> broker_pool
       \<Rightarrow> process_resources \<Rightarrow> branch list
       \<Rightarrow> ((('h, loopback_authority) forwarded, broker_forward_error) result option \<times> byte_sink option
            \<times> 'h exchange option \<times> broker_pool \<times> process_resources) option" where
  "broker_forward H dial during_io protocol now peer_closed target head downstream client cancellation writer
       pool resources schedule =
     (case peer_closed of
        Some progress \<Rightarrow>
          map_option (\<lambda>(sent, pool, resources).
              (Some (Err (BrokerExchange (forward_error FwClientDisconnected False))), sent, None, pool, resources))
            (abandoned_broker_checkout dial protocol now (lt_canonical_authority target) cancellation progress writer
               pool resources)
      | None \<Rightarrow>
        map_option (\<lambda>(result, sent, pool, resources).
            (case result of
               Err e \<Rightarrow> (Some (Err (BrokerConnect e)), sent, None, pool, resources)
             | Ok origin \<Rightarrow>
                 (case exchange H now downstream client head (lt_path_and_query target) (local_host_text target)
                         origin (case sent of None \<Rightarrow> writer | Some writer \<Rightarrow> writer\<lparr>sk_out := []\<rparr>)
                         (lt_canonical_authority target) pool schedule of
                    (result, ex, pool) \<Rightarrow>
                      (map_option (map_err broker_error_of) result, sent, Some ex, pool, resources))))
          (broker_checkout dial during_io protocol now (lt_canonical_authority target) cancellation writer
             pool resources))"

definition broker_prune_pool :: "nat \<Rightarrow> broker_pool \<Rightarrow> broker_pool" where
  "broker_prune_pool now pool = pool_prune now pool"

definition broker_close_pool :: "broker_pool \<Rightarrow> broker_pool" where
  "broker_close_pool pool = pool_close pool"


section \<open>Frames are bounded\<close>

lemma length_show_nat: "n < 10 ^ k \<Longrightarrow> 0 < k \<Longrightarrow> length (show_nat n) \<le> k"
proof (induction n arbitrary: k rule: show_nat.induct)
  case (1 n)
  then show ?case
  proof (cases "n < 10")
    case False
    then obtain j where k: "k = Suc j" "0 < j"
      using 1(2,3) by (cases k; cases "k - 1") auto
    then have "n div 10 < 10 ^ j"
      using 1(2) by (simp add: div_less_iff_less_mult mult.commute)
    with 1(1) [OF False _ k(2)] False k(1) show ?thesis
      by (simp add: show_nat.simps [of n])
  qed (simp add: show_nat.simps [of n])
qed

lemma length_show_u8: "length (show_u8 x) \<le> 3"
proof -
  have "unat x < 10 ^ 3"
    using unsigned_less [of x, where 'a = nat] by simp
  then show ?thesis
    unfolding show_u8_def by (rule length_show_nat) simp
qed

lemma length_show_port: "length (show_port p) \<le> 5"
proof -
  have "unat p < 10 ^ 5"
    using unsigned_less [of p, where 'a = nat] by simp
  then show ?thesis
    unfolding show_port_def by (rule length_show_nat) simp
qed

lemma length_show_ipv4: "length (show_ipv4 a) \<le> 15"
proof (cases a)
  case (Ipv4Addr p q r s)
  then show ?thesis
    using length_show_u8 [of p] length_show_u8 [of q] length_show_u8 [of r] length_show_u8 [of s] by simp
qed

lemma length_show_loopback_authority: "length (show_loopback_authority a) \<le> 21"
  using length_show_port [of "la_port a"]
  by (auto simp: show_loopback_authority_def intro: order_trans [OF add_mono [OF length_show_ipv4]]
      split: loopback_host.splits)

lemma frame_fits:
  assumes "broker_token_from_str text = Ok token"
  shows "ready_frame token = Some (''VHRN-BROKER/1 READY '' @ text @ [LF])"
    and "connect_frame token authority =
      Some (''VHRN-BROKER/1 CONNECT '' @ text @ '' '' @ show_loopback_authority authority @ [LF])"
  using assms length_show_loopback_authority [of authority]
  by (auto simp: broker_token_from_str_def ready_frame_def connect_frame_def frame_def MAX_FRAME_BYTES_def
      split: if_splits)

section \<open>The answer is read exactly\<close>

lemma io_read_error_free:
  "ReadError \<notin> set events \<Longrightarrow> \<exists>d events'. io_read n events = (Some d, events') \<and> ReadError \<notin> set events'"
  by (cases "(n, events)" rule: io_read.cases) auto

text \<open>
  From a stream of which \<open>acc\<close> is already read: the loop ends with the rest exactly when the
  whole stream starts with the line.
\<close>

lemma read_response_loop_Ok:
  assumes "read_response_loop acc events = (Ok rest, events')" and "script_ok events"
  shows "acc @ script_data events = OK_LINE @ rest @ script_data events' \<and> script_ok events'"
  using assms
proof (induction acc events rule: read_response_loop.induct)
  case (1 acc events)
  obtain d ev where r: "io_read (MAX_RESPONSE_BYTES - length acc) events = (Some d, ev)" and d: "d \<noteq> []"
    using "1.prems"(1) by (auto simp: read_response_loop.simps [of acc events] split: prod.splits option.splits if_splits)
  note s = io_read_Some(1,3) [OF r]
  show ?case
  proof (cases "3 \<le> length (acc @ d) \<and> take 3 (acc @ d) = OK_LINE")
    case True
    then have "rest = drop 3 (acc @ d)" "events' = ev"
      using "1.prems"(1) r d by (auto simp: read_response_loop.simps [of acc events] Let_def)
    moreover have "acc @ d = OK_LINE @ drop 3 (acc @ d)"
      using True append_take_drop_id [of 3 "acc @ d"] by simp
    ultimately show ?thesis
      using s "1.prems"(2) by (metis append.assoc)
  next
    case False
    then have "read_response_loop (acc @ d) ev = (Ok rest, events')"
      and "\<not> (\<not> prefix (acc @ d) OK_LINE \<or> length (acc @ d) = MAX_RESPONSE_BYTES)"
      using "1.prems"(1) r d by (auto simp: read_response_loop.simps [of acc events] Let_def split: if_splits)
    then show ?thesis
      using "1.IH" [OF r [symmetric] refl d refl False] s "1.prems"(2) by simp
  qed
qed

lemma read_response_loop_complete:
  assumes "prefix OK_LINE (acc @ script_data events)" and "script_ok events" and "ReadError \<notin> set events"
    and "length acc < 3"
  shows "\<exists>rest events'. read_response_loop acc events = (Ok rest, events')"
  using assms
proof (induction acc events rule: read_response_loop.induct)
  case (1 acc events)
  obtain d ev where r: "io_read (MAX_RESPONSE_BYTES - length acc) events = (Some d, ev)"
    and noerr: "ReadError \<notin> set ev"
    using io_read_error_free [OF "1.prems"(3)] by blast
  have len: "length (acc @ d) \<le> 4" and pos: "0 < MAX_RESPONSE_BYTES - length acc"
    using io_read_Some(2) [OF r] "1.prems"(4) by (auto simp: MAX_RESPONSE_BYTES_def)
  have data: "script_data events = d @ script_data ev" and ok: "script_ok ev"
    using io_read_Some(1,3) [OF r] "1.prems"(2) by blast+
  have d: "d \<noteq> []"
  proof
    assume "d = []"
    then have "events = []"
      using io_read_Some(4) [OF r "1.prems"(2) pos] by simp
    with "1.prems"(1,4) show False
      by (auto dest: prefix_length_le)
  qed
  show ?case
  proof (cases "3 \<le> length (acc @ d)")
    case True
    obtain zs where "(acc @ d) @ script_data ev = OK_LINE @ zs"
      using "1.prems"(1) data by (auto simp: prefix_def)
    then have "take 3 ((acc @ d) @ script_data ev) = take 3 (OK_LINE @ zs)"
      by (rule arg_cong)
    then have "take 3 (acc @ d) = OK_LINE"
      using True by (simp add: take_append [of 3 "acc @ d"] del: append_assoc)
    with True r d show ?thesis
      by (simp add: read_response_loop.simps [of acc events] Let_def)
  next
    case False
    moreover have "prefix (acc @ d) OK_LINE"
      by (rule prefix_length_prefix [of _ "(acc @ d) @ script_data ev"])
        (use "1.prems"(1) data False in simp_all)
    ultimately have step: "read_response_loop acc events = read_response_loop (acc @ d) ev"
      using r d by (simp add: read_response_loop.simps [of acc events] Let_def MAX_RESPONSE_BYTES_def)
    have "\<exists>rest events'. read_response_loop (acc @ d) ev = (Ok rest, events')"
      using "1.IH" [OF r [symmetric] refl d refl] False \<open>prefix (acc @ d) OK_LINE\<close> "1.prems"(1) data ok noerr
      by (simp add: MAX_RESPONSE_BYTES_def)
    with step show ?thesis
      by simp
  qed
qed

lemma script_data_broker_script: "script_data (broker_script stream) = bs_prefix stream @ script_data (bs_io stream)"
  by (simp add: broker_script_def)


section \<open>The exchange holds what it returns\<close>

lemma broker_exchange_cases:
  assumes "broker_exchange dial during_io protocol bs cancellation writer resources = (r, sent, resources')"
  obtains
    (exhausted) "try_upstream resources = None" and "r = Err BrokerExhausted" and "sent = None"
      and "resources' = resources"
  | (not_dialled) e p where "try_upstream resources = Some p" and "r = Err e" and "sent = None"
      and "resources' = drop_upstream_permit p"
  | (failed) e p i p2 k x where "try_upstream resources = Some p" and "manage_upstream p = (i, p2)" and "r = Err e"
      and "sent = Some k" and "\<exists>n. write_all [] (take n bs) writer = (x, k)" and "resources' = drop_managed i p2"
  | (opened) p i p2 k events stream where "try_upstream resources = Some p" and "manage_upstream p = (i, p2)"
      and "r = Ok stream" and "sent = Some k" and "write_all [] bs writer = (Ok (), k)"
      and "dial (bp_endpoint protocol) = Ready (Some events)"
      and "read_response events = (Ok (bs_prefix stream), bs_io stream)" and "bs_registration stream = i"
      and "resources' = p2"
proof (cases "try_upstream resources")
  case None
  then have "(r, sent, resources') = (Err BrokerExhausted, None, resources)"
    using assms by (simp add: broker_exchange_def)
  then show ?thesis
    using exhausted [OF None] by blast
next
  case (Some p)
  obtain i p2 where m: "manage_upstream p = (i, p2)" by fastforce
  obtain x k where w: "write_all [] bs writer = (x, k)" by fastforce
  show ?thesis
  proof (cases "\<exists>events. dial (bp_endpoint protocol) = Ready (Some events) \<and> \<not> is_requested cancellation")
    case False
    then have "\<exists>e. (r, sent, resources') = (Err e, None, drop_upstream_permit p)"
      using assms Some
      by (cases "dial (bp_endpoint protocol)"; cases "is_requested cancellation")
        (auto simp: broker_exchange_def split: option.split_asm)
    then show ?thesis
      using not_dialled [OF Some] by blast
  next
    case True
    then obtain events where d: "dial (bp_endpoint protocol) = Ready (Some events)" and "\<not> is_requested cancellation"
      by blast
    note run = assms [unfolded broker_exchange_def Some, simplified, unfolded d m w, simplified this Let_def, simplified]
    obtain y events' where rd: "read_response events = (y, events')" by fastforce
    show ?thesis
    proof (cases "cut_error during_io = None \<and> x = Ok () \<and> is_ok y")
      case True
      then show ?thesis
        using run rd opened [OF Some m _ _ _ d, of "\<lparr>bs_io = events', bs_prefix = the (ok y), bs_registration = i\<rparr>" k] w
        by (auto simp: is_ok_iff)
    next
      case False
      show ?thesis
      proof (cases "cut_error during_io")
        case None
        have "\<exists>n. write_all [] (take n bs) writer = (x, k)"
          using w by (intro exI [of _ "length bs"]) simp
        then show ?thesis
          using False None run rd failed [OF Some m, of _ _ x] w
          by (cases x; cases y) (auto simp: is_ok_iff)
      next
        case (Some cut)
        then obtain n e where cut: "cut_error during_io = Some (n, e)"
          by (cases cut) simp
        obtain x' k' where w': "write_all [] (take n bs) writer = (x', k')" by fastforce
        then show ?thesis
          using run cut failed [OF \<open>try_upstream resources = Some p\<close> m, of _ k' x']
          by (cases x') auto
      qed
    qed
  qed
qed

definition resources_after ::
    "owned \<Rightarrow> (broker_stream, broker_error) result \<Rightarrow> process_resources \<Rightarrow> bool" where
  "resources_after s r resources \<longleftrightarrow>
     (\<exists>es s'. history resource_step s es s' \<and> ow_resources s' = resources \<and> ow_clients s' = ow_clients s \<and>
        ow_permits s' = ow_permits s \<and>
        ow_streams s' = (case r of Ok stream \<Rightarrow> bs_registration stream # ow_streams s | Err _ \<Rightarrow> ow_streams s))"

lemma resources_afterI:
  "history resource_step s es s' \<Longrightarrow> ow_resources s' = resources \<Longrightarrow> ow_clients s' = ow_clients s \<Longrightarrow>
     ow_permits s' = ow_permits s \<Longrightarrow>
     ow_streams s' = (case r of Ok stream \<Rightarrow> bs_registration stream # ow_streams s | Err _ \<Rightarrow> ow_streams s) \<Longrightarrow>
     resources_after s r resources"
  unfolding resources_after_def by blast

lemma opening_history:
  assumes "try_upstream (ow_resources s) = Some p" and "manage_upstream p = (i, p2)"
  shows "history resource_step s [PermitIn, StreamIn i] (s\<lparr>ow_resources := p2, ow_streams := i # ow_streams s\<rparr>)"
proof -
  let ?s1 = "s\<lparr>ow_resources := p, ow_permits := ow_permits s + 1\<rparr>"
  have "history resource_step s ([PermitIn] @ [StreamIn i])
      (?s1\<lparr>ow_resources := p2, ow_permits := ow_permits ?s1 - 1, ow_streams := i # ow_streams ?s1\<rparr>)"
    by (rule history.more [OF history_single [of resource_step, OF resource_step.permit [OF assms(1)]]
          resource_step.manage]) (simp_all add: assms(2))
  then show ?thesis
    by simp
qed

lemma broker_exchange_resources:
  assumes "broker_exchange dial during_io protocol bs cancellation writer (ow_resources s) = (r, sent, resources)"
  shows "resources_after s r resources"
  using assms
proof (cases rule: broker_exchange_cases)
  case exhausted
  then show ?thesis
    using resources_afterI [OF history.start] by simp
next
  case (not_dialled e p)
  let ?s1 = "s\<lparr>ow_resources := p, ow_permits := ow_permits s + 1\<rparr>"
  show ?thesis
  proof (rule resources_afterI)
    show "history resource_step s ([PermitIn] @ [PermitOut])
        (?s1\<lparr>ow_resources := drop_upstream_permit (ow_resources ?s1), ow_permits := ow_permits ?s1 - 1\<rparr>)"
      by (rule history.more [OF history_single [of resource_step, OF resource_step.permit [OF not_dialled(1)]]
            resource_step.unused]) simp
  qed (use not_dialled(2,4) in simp_all)
next
  case (failed e p i p2 k x)
  let ?s2 = "s\<lparr>ow_resources := p2, ow_streams := i # ow_streams s\<rparr>"
  show ?thesis
  proof (rule resources_afterI)
    show "history resource_step s ([PermitIn, StreamIn i] @ [StreamOut i])
        (?s2\<lparr>ow_resources := drop_managed i (ow_resources ?s2), ow_streams := remove1 i (ow_streams ?s2)\<rparr>)"
      by (rule history.more [OF opening_history [OF failed(1,2)] resource_step.hangup]) simp
  qed (use failed(3,6) in simp_all)
next
  case (opened p i p2 k events stream)
  show ?thesis
    by (rule resources_afterI [OF opening_history [OF opened(1,2)]]) (use opened(3,8,9) in simp_all)
qed


lemma write_all_prefix:
  assumes "write_all watched bs k = (x, k')"
  shows "\<exists>p. prefix p bs \<and> sk_out k' = sk_out k @ p"
proof (cases x)
  case (Ok u)
  then show ?thesis
    using write_all_Ok [of watched bs k k'] assms by auto
next
  case (Err e)
  then show ?thesis
    using write_all_Err [of watched bs k e k'] assms by (auto simp: strict_prefix_def)
qed

text \<open>
  C6: what the proxy and the broker say to each other. Nothing but a prefix of the one frame that
  names the authority is ever sent, whatever fails, and wherever the cancellation or the deadline
  cuts the writing and the reading. A stream is returned only after the whole
  frame was sent and the broker answered with the line that grants it, and what is read from the
  stream is exactly what the broker sent after that line. And every way the exchange ends is a
  sequence of steps of the resource machine that holds one more stream if one is returned and
  nothing more otherwise, so no permit and no registration is leaked.
\<close>

theorem broker_connect_exact:
  assumes "broker_connect dial during_io protocol authority cancellation writer (ow_resources s) = Some (r, sent, resources)"
    and "broker_token_from_str text = Ok (bp_token protocol)"
    and "\<And>events. dial (bp_endpoint protocol) = Ready (Some events) \<Longrightarrow> script_ok events"
  shows "let f = ''VHRN-BROKER/1 CONNECT '' @ text @ '' '' @ show_loopback_authority authority @ [LF] in
    (\<forall>k. sent = Some k \<longrightarrow> (\<exists>p. prefix p f \<and> sk_out k = sk_out writer @ p)) \<and>
    (\<forall>stream. r = Ok stream \<longrightarrow>
       (\<exists>events k. dial (bp_endpoint protocol) = Ready (Some events) \<and> sent = Some k \<and>
          sk_out k = sk_out writer @ f \<and>
          script_data events = OK_LINE @ script_data (broker_script stream))) \<and>
    resources_after s r resources"
proof -
  define f where "f = ''VHRN-BROKER/1 CONNECT '' @ text @ '' '' @ show_loopback_authority authority @ [LF]"
  have ex: "broker_exchange dial during_io protocol f cancellation writer (ow_resources s) = (r, sent, resources)"
    using assms(1) frame_fits(2) [OF assms(2), of authority] by (simp add: broker_connect_def f_def)
  have "(\<forall>k. sent = Some k \<longrightarrow> (\<exists>p. prefix p f \<and> sk_out k = sk_out writer @ p)) \<and>
    (\<forall>stream. r = Ok stream \<longrightarrow>
       (\<exists>events k. dial (bp_endpoint protocol) = Ready (Some events) \<and> sent = Some k \<and>
          sk_out k = sk_out writer @ f \<and>
          script_data events = OK_LINE @ script_data (broker_script stream)))"
    using ex
  proof (cases rule: broker_exchange_cases)
    case (failed e p i p2 k x)
    then obtain n where "write_all [] (take n f) writer = (x, k)"
      by blast
    then obtain t where "prefix t (take n f)" and "sk_out k = sk_out writer @ t"
      using write_all_prefix by blast
    moreover from this have "prefix t f"
      using take_is_prefix prefix_order.trans by blast
    ultimately show ?thesis
      using failed(3,4) by auto
  next
    case (opened p i p2 k events stream)
    have "script_data events = OK_LINE @ script_data (broker_script stream)"
      using read_response_loop_Ok [of "[]" events "bs_prefix stream" "bs_io stream"] opened(7) assms(3) [OF opened(6)]
      by (simp add: read_response_def script_data_broker_script)
    then show ?thesis
      using opened write_all_Ok [OF opened(5)] by auto
  qed auto
  then show ?thesis
    using broker_exchange_resources [OF ex] by (simp add: f_def Let_def)
qed

definition example_protocol :: broker_protocol where
  "example_protocol =
     \<lparr>bp_endpoint = HostEndpoint ''host'' 9000, bp_token = BrokerToken (replicate 64 (CHR ''a''))\<rparr>"

definition example_authority :: loopback_authority where
  "example_authority = \<lparr>la_host = Localhost, la_port = 3000\<rparr>"

theorem broker_connect_exact_witness:
  "\<exists>stream resources. resources_after (owned_new 4 4) (Ok stream) resources \<and>
     script_data (broker_script stream) = ''hi''"
proof -
  let ?dial = "\<lambda>_. Ready (Some [ReadData (''OK'' @ [LF] @ ''h''), ReadData ''i''])"
  let ?run = "broker_connect ?dial RunsToEnd example_protocol example_authority shutdown_new
      \<lparr>sk_events = [], sk_out = []\<rparr> (ow_resources (owned_new 4 4))"
  have "case ?run of Some (Ok stream, _) \<Rightarrow> True | _ \<Rightarrow> False"
    by code_simp
  then obtain stream sent resources where run: "?run = Some (Ok stream, sent, resources)"
    by (auto split: option.splits result.splits)
  have "broker_token_from_str (replicate 64 (CHR ''a'')) = Ok (bp_token example_protocol)"
    by code_simp
  from broker_connect_exact [OF run this] show ?thesis
    by (auto simp: script_ok_def Let_def)
qed

end
