(* ===== verification/Router.thy ===== *)
theory Router
  imports Diagnostics Broker_Client
begin

text \<open>
  Request routing (\<open>proxy/src/server/router.rs\<close>): a classified target is authorised against the
  live policy, and only then dispatched to a connector. \<open>context_config\<close> is what is fixed at
  startup, \<open>proxy_state\<close> what the requests share and change, and \<open>net_env\<close> what the outside
  world does during one request: the policy files as they are read, the clocks, the resolver and
  the dialers, the schedule of the exchange, and whether the client hangs up or the shutdown is
  requested first. An outcome lists the contacts that were made, in order.
\<close>

section \<open>Context\<close>

record context_config =
  cc_allowlists :: "bytes list"
  cc_mode_file :: bytes
  cc_local_paths :: "bytes list option"
  cc_local :: "broker_protocol option"
  cc_health :: health_service

record proxy_state =
  px_shutdown :: shutdown
  px_audit :: audit
  px_public_pool :: "origin_key origin_pool"
  px_local_pool :: broker_pool
  px_resources :: process_resources

record net_env =
  ne_fs :: file_system
  ne_now :: nat
  ne_time :: u64
  ne_resolve :: resolve
  ne_dial :: dial
  ne_broker_dial :: broker_dial
  ne_broker_io :: io_end
  ne_peer_closed :: "nat option"
  ne_upstream :: byte_sink
  ne_schedule :: "branch list"
  ne_cancelled :: bool

definition prune_idle :: "nat \<Rightarrow> context_config \<Rightarrow> proxy_state \<Rightarrow> proxy_state" where
  "prune_idle now cfg st =
     st\<lparr>px_public_pool := prune_pool now (px_public_pool st),
        px_local_pool := (if cc_local cfg = None then px_local_pool st
                          else broker_prune_pool now (px_local_pool st))\<rparr>"

definition close_idle :: "context_config \<Rightarrow> proxy_state \<Rightarrow> proxy_state" where
  "close_idle cfg st =
     st\<lparr>px_public_pool := close_pool (px_public_pool st),
        px_local_pool := (if cc_local cfg = None then px_local_pool st
                          else broker_close_pool (px_local_pool st))\<rparr>"

record authorized_public =
  ap_target :: public_target
  ap_effective_mode :: mode
  ap_already_audited :: bool

datatype authorized_route =
    RouteDirect direct_target
  | RouteAsterisk
  | RoutePublicHttp authorized_public
  | RouteLocalHttp local_target
  | RoutePublicConnect authorized_public
  | RouteLocalConnect local_target

section \<open>Authorisation\<close>

text \<open>
  Every result is optional: \<open>None\<close> says that the select around the call gave way to the
  shutdown while the denial was being recorded.
\<close>

definition record_best_effort ::
    "sink_event list \<Rightarrow> u64 \<Rightarrow> bytes \<Rightarrow> mode \<Rightarrow> audit \<Rightarrow> unit option \<times> audit" where
  "record_best_effort watched now destination mode a =
     (case record_denial watched now destination mode a of
        (None, a) \<Rightarrow> (None, a)
      | (Some AppendFailed, a) \<Rightarrow> (Some (), report ''denial_log_append_failed'' a)
      | (Some _, a) \<Rightarrow> (Some (), a))"

text \<open>\<open>decide_public\<close> has no error of its own, so the branch that handles one is dead.\<close>

definition authorize_public ::
    "sink_event list \<Rightarrow> context_config \<Rightarrow> file_system \<Rightarrow> u64 \<Rightarrow> public_target \<Rightarrow> bool \<Rightarrow> audit
       \<Rightarrow> (authorized_route, proxy_failure) result option \<times> audit" where
  "authorize_public watched cfg fs now target connect a =
     (case decide_public fs (cc_allowlists cfg) (cc_mode_file cfg) (pt_host target) of
        (decision, warning) \<Rightarrow>
          (let a = (case warning of Some w \<Rightarrow> report w a | None \<Rightarrow> a);
               public = \<lparr>ap_target = target, ap_effective_mode = pd_effective_mode decision,
                         ap_already_audited = pd_record_denial decision\<rparr>;
               route = (if connect then RoutePublicConnect public else RoutePublicHttp public)
           in if \<not> pd_allowed decision then
                (case record_best_effort watched now (destination_public target)
                        (pd_effective_mode decision) a of
                   (None, a) \<Rightarrow> (None, a)
                 | (Some _, a) \<Rightarrow> (Some (Err (FailPublicDenied (show_public_host (pt_host target)))), a))
              else if pd_record_denial decision then
                (case record_denial watched now (destination_public target)
                        (pd_effective_mode decision) a of
                   (None, a) \<Rightarrow> (None, a)
                 | (Some AppendFailed, a) \<Rightarrow>
                     (Some (Err FailReportLogUnavailable), report ''denial_log_append_failed'' a)
                 | (Some _, a) \<Rightarrow> (Some (Ok route), a))
              else (Some (Ok route), a)))"

definition authorize_local ::
    "sink_event list \<Rightarrow> context_config \<Rightarrow> file_system \<Rightarrow> u64 \<Rightarrow> local_target \<Rightarrow> bool \<Rightarrow> audit
       \<Rightarrow> (authorized_route, proxy_failure) result option \<times> audit" where
  "authorize_local watched cfg fs now target connect a =
     (let allowed = (case cc_local_paths cfg of
            Some paths \<Rightarrow> decide_local fs paths (lt_canonical_authority target)
          | None \<Rightarrow> False)
      in if \<not> allowed then
           (case record_best_effort watched now (destination_local target) Enforce a of
              (None, a) \<Rightarrow> (None, a)
            | (Some _, a) \<Rightarrow>
                (Some (Err (FailLocalDenied (show_loopback_authority (lt_canonical_authority target)))), a))
         else (Some (Ok (if connect then RouteLocalConnect target else RouteLocalHttp target)), a))"

definition authorize ::
    "sink_event list \<Rightarrow> context_config \<Rightarrow> file_system \<Rightarrow> u64 \<Rightarrow> target \<Rightarrow> audit
       \<Rightarrow> (authorized_route, proxy_failure) result option \<times> audit" where
  "authorize watched cfg fs now target a =
     (case target of
        Direct t \<Rightarrow> (Some (Ok (RouteDirect t)), a)
      | Asterisk \<Rightarrow> (Some (Ok RouteAsterisk), a)
      | HttpsAbsoluteRejected \<Rightarrow> (Some (Err FailHttpsRequiresConnect), a)
      | Malformed \<Rightarrow> (Some (Err FailBadRequest), a)
      | PublicHttp t \<Rightarrow> authorize_public watched cfg fs now t False a
      | PublicConnect t \<Rightarrow> authorize_public watched cfg fs now t True a
      | LocalHttp t \<Rightarrow> authorize_local watched cfg fs now t False a
      | LocalConnect t \<Rightarrow> authorize_local watched cfg fs now t True a)"

text \<open>The biased select of both handlers around \<open>authorize\<close>.\<close>

definition authorize_unless_cancelled ::
    "context_config \<Rightarrow> net_env \<Rightarrow> target \<Rightarrow> proxy_state
       \<Rightarrow> (authorized_route, proxy_failure) result \<times> proxy_state" where
  "authorize_unless_cancelled cfg env target st =
     (if is_requested (px_shutdown st) \<or> ne_cancelled env then (Err FailServiceUnavailable, st)
      else
        case authorize [ShutdownBegins] cfg (ne_fs env) (ne_time env) target (px_audit st) of
          (None, a) \<Rightarrow> (Err FailServiceUnavailable, st\<lparr>px_audit := a\<rparr>)
        | (Some r, a) \<Rightarrow> (r, st\<lparr>px_audit := a\<rparr>))"

section \<open>Failures\<close>

text \<open>The error that \<open>is_policy_denial\<close> selects is the first case of \<open>public_failure\<close>.\<close>

datatype 'h proxy_body =
    FixedBody "'h body_frames"
  | PublicBody "origin_key streaming_body"
  | LocalBody "loopback_authority streaming_body"

record 'h proxy_response =
  pr_status :: nat
  pr_headers :: 'h
  pr_body :: "'h proxy_body"

definition of_response :: "'h response \<Rightarrow> 'h proxy_response" where
  "of_response r = \<lparr>pr_status = rs_status r, pr_headers = rs_headers r, pr_body = FixedBody (rs_body r)\<rparr>"

record 'h http1_outcome =
  ho_response :: "'h proxy_response"
  ho_body_consumed :: bool
  ho_reusable :: bool

definition forward_failure :: "'h http_crate \<Rightarrow> forward_error \<Rightarrow> bool \<Rightarrow> 'h http1_outcome" where
  "forward_failure H e head =
     (let failure_kind = (case fe_kind e of
            FwBadRequest \<Rightarrow> FailBadRequest
          | FwBadGateway \<Rightarrow> FailBadGateway
          | FwCancelled \<Rightarrow> FailServiceUnavailable
          | FwClientDisconnected \<Rightarrow> FailServiceUnavailable)
      in \<lparr>ho_response = of_response (failure H failure_kind head),
          ho_body_consumed = fe_request_complete e,
          ho_reusable = fe_request_complete e \<and> \<not> (fe_kind e = FwCancelled \<or> fe_kind e = FwClientDisconnected)\<rparr>)"

definition broker_failure :: "broker_error \<Rightarrow> audit \<Rightarrow> proxy_failure \<times> audit" where
  "broker_failure e a =
     ((case e of
         BrokerDeadlineExceeded \<Rightarrow> FailGatewayTimeout
       | BrokerCancelled \<Rightarrow> FailServiceUnavailable
       | BrokerExhausted \<Rightarrow> FailServiceUnavailable
       | BrokerRejected \<Rightarrow> FailBadGateway
       | BrokerUnavailable \<Rightarrow> FailBadGateway
       | BrokerOriginFailure \<Rightarrow> FailBadGateway), report e a)"

definition public_failure ::
    "public_connect_error \<Rightarrow> authorized_public \<Rightarrow> u64 \<Rightarrow> audit \<Rightarrow> proxy_failure \<times> audit" where
  "public_failure e public now a =
     (case e of
        PolicyDenied \<Rightarrow>
          (let a = (if ap_already_audited public then a
                    else snd (record_best_effort [] now (destination_public (ap_target public))
                                (ap_effective_mode public) a))
           in (FailPublicDenied (show_public_host (pt_host (ap_target public))), a))
      | DeadlineExceeded \<Rightarrow> (FailGatewayTimeout, report e a)
      | ConnectCancelled \<Rightarrow> (FailServiceUnavailable, report e a)
      | Exhausted \<Rightarrow> (FailServiceUnavailable, report e a)
      | Unavailable \<Rightarrow> (FailBadGateway, report e a))"

section \<open>The proxy's own resources\<close>

definition MAX_MODE_BYTES :: nat where "MAX_MODE_BYTES = 8"

definition read_status_mode :: "file_system \<Rightarrow> bytes \<Rightarrow> mode option" where
  "read_status_mode fs path =
     (case fs path of
        Opened is_file len contents \<Rightarrow>
          if \<not> is_file \<or> MAX_MODE_BYTES < len then None
          else
            Option.bind contents (\<lambda>text.
              let bs = take (MAX_MODE_BYTES + 1) text
              in if bs = ''enforce'' \<or> bs = ''enforce'' @ [LF] then Some Enforce
                 else if bs = ''report'' \<or> bs = ''report'' @ [LF] then Some Report
                 else if bs = ''open'' \<or> bs = ''open'' @ [LF] then Some Open
                 else None)
      | _ \<Rightarrow> None)"

definition direct ::
    "'h http_crate \<Rightarrow> context_config \<Rightarrow> file_system \<Rightarrow> shutdown \<Rightarrow> audit \<Rightarrow> bytes \<Rightarrow> direct_target \<Rightarrow> 'h response" where
  "direct H cfg fs s a request_method target =
     (let head = request_method = ''HEAD''; path = dt_path_and_query target
      in if (path = ''/healthz'' \<or> path = ''/__status'') \<and> request_method \<noteq> ''GET'' \<and> \<not> head then
           (let response = represented H 405 (Some TEXT_PLAIN) (''method not allowed'' @ [LF]) False
            in response\<lparr>rs_headers := hm_insert H ''allow'' ''GET, HEAD'' (rs_headers response)\<rparr>)
         else if path = ''/healthz'' then
           (case health_read (cc_health cfg) fs s a of
              Healthy \<Rightarrow> represented H 200 (Some TEXT_PLAIN) (''ok'' @ [LF]) head
            | Unhealthy \<Rightarrow> represented H 503 (Some TEXT_PLAIN) (''unhealthy'' @ [LF]) head)
         else if path = ''/__status'' then
           (let mode = read_status_mode fs (cc_mode_file cfg);
                status = (case mode of None \<Rightarrow> 503 | Some _ \<Rightarrow> 200);
                mode = (case mode of None \<Rightarrow> Enforce | Some m \<Rightarrow> m)
            in represented H status (Some ''application/json'')
                 (''{'' @ [DQUOTE] @ ''mode'' @ [DQUOTE] @ '':'' @ [DQUOTE] @ mode_as_str mode @ [DQUOTE] @ ''}'' @ [LF])
                 head)
         else represented H 404 (Some TEXT_PLAIN) (''404 page not found'' @ [LF]) head)"

definition asterisk :: "'h http_crate \<Rightarrow> bytes \<Rightarrow> 'h response" where
  "asterisk H request_method =
     (if request_method \<noteq> ''OPTIONS'' then failure H FailBadRequest (request_method = ''HEAD'')
      else
        (let response = fixed_response H 204 None []
         in response\<lparr>rs_headers :=
              hm_insert H ''allow'' ''GET, HEAD, OPTIONS, CONNECT'' (rs_headers response)\<rparr>))"

section \<open>Dispatch\<close>

text \<open>Whom the proxy turned to for a request: an address it dialled, or a pooled connection.\<close>

datatype contact =
    PublicDial ip_addr u16
  | PublicReuse origin_key
  | BrokerDial loopback_authority
  | BrokerReuse loopback_authority

definition public_contacts :: "public_target \<Rightarrow> ip_addr list \<Rightarrow> bool \<Rightarrow> contact list" where
  "public_contacts target dialled reached =
     (if dialled = [] then if reached then [PublicReuse (from_target target)] else []
      else map (\<lambda>a. PublicDial a (pt_port target)) dialled)"

definition broker_contacts :: "loopback_authority \<Rightarrow> byte_sink option \<Rightarrow> bool \<Rightarrow> contact list" where
  "broker_contacts authority sent reached =
     (case sent of
        Some _ \<Rightarrow> [BrokerDial authority]
      | None \<Rightarrow> if reached then [BrokerReuse authority] else [])"

text \<open>The client's connection: what is read from it and what is written to it.\<close>

type_synonym client = "http1_connection \<times> byte_sink"

definition after_exchange :: "client \<Rightarrow> 'h exchange option \<Rightarrow> client" where
  "after_exchange c ex = (case ex of None \<Rightarrow> c | Some ex \<Rightarrow> (ex_downstream ex, ex_client ex))"

definition streamed_response ::
    "'h http_crate \<Rightarrow> ('h, 'k) forwarded \<Rightarrow> ('k streaming_body \<Rightarrow> 'h proxy_body) \<Rightarrow> bool \<Rightarrow> 'h proxy_response" where
  "streamed_response H f body head =
     (let r = origin_response H (fw_status f) (fw_headers f) [] head
      in \<lparr>pr_status = rs_status r, pr_headers = rs_headers r,
          pr_body = (if head then FixedBody [] else body (fw_body f))\<rparr>)"

definition forwarded_outcome ::
    "'h http_crate \<Rightarrow> ('h, 'k) forwarded \<Rightarrow> ('k streaming_body \<Rightarrow> 'h proxy_body) \<Rightarrow> bool \<Rightarrow> 'h http1_outcome" where
  "forwarded_outcome H f body head =
     \<lparr>ho_response = streamed_response H f body head, ho_body_consumed = fw_request_complete f,
      ho_reusable = fw_request_complete f\<rparr>"

definition fixed_outcome :: "'h response \<Rightarrow> bool \<Rightarrow> 'h http1_outcome" where
  "fixed_outcome response reusable =
     \<lparr>ho_response = of_response response, ho_body_consumed = False, ho_reusable = reusable\<rparr>"

text \<open>\<open>None\<close>: the schedule of the exchange ends before the exchange does.\<close>

definition dispatch_http1 ::
    "'h http_crate \<Rightarrow> context_config \<Rightarrow> net_env \<Rightarrow> 'h request_head \<Rightarrow> client \<Rightarrow> authorized_route \<Rightarrow> proxy_state
       \<Rightarrow> ('h http1_outcome \<times> client \<times> contact list \<times> proxy_state) option" where
  "dispatch_http1 H cfg env head c route st =
     (let is_head = rh_method head = ''HEAD'' in
      case route of
        RoutePublicHttp public \<Rightarrow>
          (case public_forward H (ne_resolve env) (ne_dial env) (ne_now env) (ne_peer_closed env)
                  (ap_target public) head (fst c) (snd c) (ne_upstream env) (px_public_pool st)
                  (px_resources st) (ne_schedule env) of
             (result, dialled, ex, pool, resources) \<Rightarrow>
               (let st = st\<lparr>px_public_pool := pool, px_resources := resources\<rparr>; c = after_exchange c ex;
                    contacts = public_contacts (ap_target public) dialled (ex \<noteq> None)
                in case result of
                     None \<Rightarrow> None
                   | Some (Ok f) \<Rightarrow> Some (forwarded_outcome H f PublicBody is_head, c, contacts, st)
                   | Some (Err (ForwardConnect e)) \<Rightarrow>
                       (case public_failure e public (ne_time env) (px_audit st) of
                          (fail, a) \<Rightarrow>
                            Some (fixed_outcome (failure H fail is_head) True, c, contacts, st\<lparr>px_audit := a\<rparr>))
                   | Some (Err (ForwardExchange e)) \<Rightarrow> Some (forward_failure H e is_head, c, contacts, st)))
      | RouteLocalHttp target \<Rightarrow>
          (case cc_local cfg of
             None \<Rightarrow>
               Some (fixed_outcome
                       (failure H (FailLocalDenied (show_loopback_authority (lt_canonical_authority target))) is_head)
                       True, c, [], st)
           | Some protocol \<Rightarrow>
               Option.bind
                 (broker_forward H (ne_broker_dial env) (ne_broker_io env) protocol (ne_now env)
                    (ne_peer_closed env) target head (fst c) (snd c) (px_shutdown st) (ne_upstream env)
                    (px_local_pool st) (px_resources st) (ne_schedule env))
                 (\<lambda>(result, sent, ex, pool, resources).
                   let st = st\<lparr>px_local_pool := pool, px_resources := resources\<rparr>; c = after_exchange c ex;
                       contacts = broker_contacts (lt_canonical_authority target) sent (ex \<noteq> None)
                   in case result of
                        None \<Rightarrow> None
                      | Some (Ok f) \<Rightarrow> Some (forwarded_outcome H f LocalBody is_head, c, contacts, st)
                      | Some (Err (BrokerConnect e)) \<Rightarrow>
                          (case broker_failure e (px_audit st) of
                             (fail, a) \<Rightarrow>
                               Some (fixed_outcome (failure H fail is_head) True, c, contacts, st\<lparr>px_audit := a\<rparr>))
                      | Some (Err (BrokerExchange e)) \<Rightarrow> Some (forward_failure H e is_head, c, contacts, st)
                      | Some (Err (BrokerOrigin source e)) \<Rightarrow>
                          Some (forward_failure H e is_head, c, contacts,
                                st\<lparr>px_audit := report source (px_audit st)\<rparr>)))
      | _ \<Rightarrow> Some (fixed_outcome (failure H FailBadRequest is_head) False, c, [], st))"

definition handle_http1 ::
    "'h http_crate \<Rightarrow> context_config \<Rightarrow> net_env \<Rightarrow> 'h request_head \<Rightarrow> client \<Rightarrow> proxy_state
       \<Rightarrow> ('h http1_outcome \<times> client \<times> contact list \<times> proxy_state) option" where
  "handle_http1 H cfg env head c st =
     (let is_head = rh_method head = ''HEAD''; target = classify (rh_method head) (rh_raw_target head)
      in case authorize_unless_cancelled cfg env target st of
           (Err e, st) \<Rightarrow>
             Some (fixed_outcome (failure H e is_head)
                     (case e of FailPublicDenied _ \<Rightarrow> True | FailLocalDenied _ \<Rightarrow> True | _ \<Rightarrow> False), c, [], st)
         | (Ok route, st) \<Rightarrow>
             (case route of
                RouteDirect t \<Rightarrow>
                  Some (fixed_outcome
                          (direct H cfg (ne_fs env) (px_shutdown st) (px_audit st) (rh_method head) t) True,
                        c, [], st)
              | RouteAsterisk \<Rightarrow>
                  Some (fixed_outcome (asterisk H (rh_method head)) (rh_method head = ''OPTIONS''), c, [], st)
              | RoutePublicConnect _ \<Rightarrow>
                  Some (fixed_outcome (failure H FailBadRequest is_head) False, c, [], st)
              | RouteLocalConnect _ \<Rightarrow>
                  Some (fixed_outcome (failure H FailBadRequest is_head) False, c, [], st)
              | route \<Rightarrow> dispatch_http1 H cfg env head c route st))"

record connected_upstream =
  cu_stream :: "read_event list"
  cu_prefix :: bytes
  cu_registration :: nat

definition connect_http1 ::
    "context_config \<Rightarrow> net_env \<Rightarrow> 'h request_head \<Rightarrow> proxy_state
       \<Rightarrow> ((connected_upstream, proxy_failure) result \<times> contact list \<times> proxy_state) option" where
  "connect_http1 cfg env head st =
     (let target = classify (rh_method head) (rh_raw_target head)
      in case authorize_unless_cancelled cfg env target st of
           (Err e, st) \<Rightarrow> Some (Err e, [], st)
         | (Ok route, st) \<Rightarrow>
             (case route of
                RoutePublicConnect public \<Rightarrow>
                  (case connect_target (ne_resolve env) (ne_dial env) (ap_target public) (px_resources st) of
                     (result, dialled, resources) \<Rightarrow>
                       (let st = st\<lparr>px_resources := resources\<rparr>;
                            contacts = public_contacts (ap_target public) dialled False
                        in case result of
                             Ok (stream, i) \<Rightarrow>
                               Some (Ok \<lparr>cu_stream = stream, cu_prefix = [], cu_registration = i\<rparr>, contacts, st)
                           | Err e \<Rightarrow>
                               (case public_failure e public (ne_time env) (px_audit st) of
                                  (fail, a) \<Rightarrow> Some (Err fail, contacts, st\<lparr>px_audit := a\<rparr>))))
              | RouteLocalConnect target \<Rightarrow>
                  (case cc_local cfg of
                     None \<Rightarrow>
                       Some (Err (FailLocalDenied (show_loopback_authority (lt_canonical_authority target))), [], st)
                   | Some protocol \<Rightarrow>
                       map_option (\<lambda>(result, sent, resources).
                         let st = st\<lparr>px_resources := resources\<rparr>;
                             contacts = broker_contacts (lt_canonical_authority target) sent False
                         in case result of
                              Ok stream \<Rightarrow>
                                (case take_prefix stream of
                                   (rest, stream) \<Rightarrow>
                                     (Ok \<lparr>cu_stream = broker_script stream, cu_prefix = rest,
                                          cu_registration = bs_registration stream\<rparr>, contacts, st))
                            | Err e \<Rightarrow>
                                (case broker_failure e (px_audit st) of
                                   (fail, a) \<Rightarrow> (Err fail, contacts, st\<lparr>px_audit := a\<rparr>)))
                         (broker_connect (ne_broker_dial env) (ne_broker_io env) protocol
                            (lt_canonical_authority target) (px_shutdown st) (ne_upstream env) (px_resources st)))
              | _ \<Rightarrow> Some (Err FailBadRequest, [], st)))"

text \<open>
  Reading a body to its end. \<open>stops\<close> says before which frames the shutdown is noticed. Whether
  the loop ends is a property of the decoder, so not ending is the result \<open>None\<close>.
\<close>

partial_function (option) drain_loop ::
    "'h http_crate \<Rightarrow> bool list \<Rightarrow> 'h body_decoder_state \<Rightarrow> http1_connection
       \<Rightarrow> ((unit, unit) result \<times> http1_connection) option" where
  [code]: "drain_loop H stops d c =
     (if stops \<noteq> [] \<and> hd stops then Some (Err (), c)
      else
        case next_frame H d c of
          (Err _, d, c) \<Rightarrow> Some (Err (), c)
        | (Ok None, d, c) \<Rightarrow> Some (Ok (), c)
        | (Ok (Some _), d, c) \<Rightarrow> drain_loop H (tl stops) d c)"

definition drain_http1_body ::
    "'h http_crate \<Rightarrow> bool list \<Rightarrow> body_framing \<Rightarrow> http1_connection
       \<Rightarrow> ((unit, unit) result \<times> http1_connection) option" where
  "drain_http1_body H stops framing c = drain_loop H stops (body_decoder_new H framing) c"


section \<open>Only what the policy allows is contacted\<close>

definition denial_on_record :: "net_env \<Rightarrow> public_target \<Rightarrow> audit \<Rightarrow> audit \<Rightarrow> bool" where
  "denial_on_record env target a a' \<longleftrightarrow>
     au_path a = None \<or>
     sk_out (au_log a') = sk_out (au_log a) @ render_denial (rfc3339 (ne_time env)) (destination_public target)"

definition public_contact :: "public_target \<Rightarrow> contact \<Rightarrow> bool" where
  "public_contact target x \<longleftrightarrow>
     (case x of
        PublicDial a p \<Rightarrow> p = pt_port target \<and> pt_ipv6_scope target = None \<and> outside_reserved a
      | PublicReuse key \<Rightarrow> key = from_target target
      | _ \<Rightarrow> False)"

definition public_permitted ::
    "context_config \<Rightarrow> net_env \<Rightarrow> public_target \<Rightarrow> audit \<Rightarrow> audit \<Rightarrow> contact \<Rightarrow> bool" where
  "public_permitted cfg env target a a' x \<longleftrightarrow>
     public_contact target x \<and>
     public_policy_allows (ne_fs env) (cc_allowlists cfg) (cc_mode_file cfg) (pt_host target) \<and>
     (reported_only (ne_fs env) (cc_allowlists cfg) (cc_mode_file cfg) (pt_host target)
        \<longrightarrow> denial_on_record env target a a')"

definition local_permitted :: "context_config \<Rightarrow> net_env \<Rightarrow> local_target \<Rightarrow> contact \<Rightarrow> bool" where
  "local_permitted cfg env target x \<longleftrightarrow>
     (x = BrokerDial (lt_canonical_authority target) \<or> x = BrokerReuse (lt_canonical_authority target)) \<and>
     (\<exists>paths. cc_local_paths cfg = Some paths \<and>
        local_policy_allows (ne_fs env) paths (lt_canonical_authority target))"

definition contact_permitted ::
    "context_config \<Rightarrow> net_env \<Rightarrow> target \<Rightarrow> audit \<Rightarrow> audit \<Rightarrow> contact \<Rightarrow> bool" where
  "contact_permitted cfg env target a a' x \<longleftrightarrow>
     (case target of
        PublicHttp t \<Rightarrow> public_permitted cfg env t a a' x
      | PublicConnect t \<Rightarrow> public_permitted cfg env t a a' x
      | LocalHttp t \<Rightarrow> local_permitted cfg env t x
      | LocalConnect t \<Rightarrow> local_permitted cfg env t x
      | _ \<Rightarrow> False)"

lemma report_simps [simp]:
  "au_log (report e a) = au_log a" "au_path (report e a) = au_path a"
  by (simp_all add: report_def eprintln_def)

lemma authorize_public_Ok:
  assumes "authorize_public watched cfg (ne_fs env) (ne_time env) target connect a = (Some (Ok route), a')"
  shows "\<exists>public. ap_target public = target \<and>
      route = (if connect then RoutePublicConnect public else RoutePublicHttp public) \<and>
      public_policy_allows (ne_fs env) (cc_allowlists cfg) (cc_mode_file cfg) (pt_host target) \<and>
      (ap_already_audited public \<longleftrightarrow>
         reported_only (ne_fs env) (cc_allowlists cfg) (cc_mode_file cfg) (pt_host target)) \<and>
      (ap_already_audited public \<longrightarrow> denial_on_record env target a a')"
proof -
  let ?d = "decide_public_live (ne_fs env) (cc_allowlists cfg) (cc_mode_file cfg) (pt_host target)"
  have allowed: "pd_allowed ?d"
    using assms by (auto simp: authorize_public_def decide_public_def Let_def split: if_splits prod.splits option.splits)
  let ?public = "\<lparr>ap_target = target, ap_effective_mode = pd_effective_mode ?d,
        ap_already_audited = pd_record_denial ?d\<rparr>"
  define a0 where "a0 = (if pd_invalid_input ?d then report ''invalid public policy; enforcing'' a else a)"
  obtain x a1 where rec: "record_denial watched (ne_time env) (destination_public target) (pd_effective_mode ?d) a0 = (x, a1)"
    by fastforce
  have auth: "authorize_public watched cfg (ne_fs env) (ne_time env) target connect a =
      (let route = (if connect then RoutePublicConnect ?public else RoutePublicHttp ?public)
       in if pd_record_denial ?d then
            (case x of None \<Rightarrow> (None, a1)
             | Some AppendFailed \<Rightarrow> (Some (Err FailReportLogUnavailable), report ''denial_log_append_failed'' a1)
             | Some _ \<Rightarrow> (Some (Ok route), a1))
          else (Some (Ok route), a0))"
    using allowed rec
    by (auto simp: authorize_public_def decide_public_def Let_def a0_def split: option.splits audit_result.splits)
  have "denial_on_record env target a a'" if "pd_record_denial ?d"
  proof -
    have "x = Some Recorded \<or> x = Some AuditDisabled" and "a' = a1"
      using assms auth that by (auto simp: Let_def split: option.splits audit_result.splits)
    moreover have "au_log a0 = au_log a" "au_path a0 = au_path a"
      by (simp_all add: a0_def)
    ultimately show ?thesis
      using record_denial_effect [OF rec] by (auto simp: denial_on_record_def)
  qed
  moreover have "route = (if connect then RoutePublicConnect ?public else RoutePublicHttp ?public)"
    using assms auth by (auto simp: Let_def split: option.splits audit_result.splits if_splits)
  ultimately show ?thesis
    using allowed decide_public_live_iff [of "ne_fs env" "cc_allowlists cfg" "cc_mode_file cfg" "pt_host target"]
      decide_public_live_record [OF allowed]
    by (intro exI [of _ "\<lparr>ap_target = target, ap_effective_mode = pd_effective_mode ?d,
        ap_already_audited = pd_record_denial ?d\<rparr>"]) auto
qed

lemma authorize_local_Ok:
  assumes "authorize_local watched cfg (ne_fs env) now target connect a = (Some (Ok route), a')"
  shows "route = (if connect then RouteLocalConnect target else RouteLocalHttp target) \<and> a' = a \<and>
    (\<exists>paths. cc_local_paths cfg = Some paths \<and>
       local_policy_allows (ne_fs env) paths (lt_canonical_authority target))"
  using assms decide_local_iff
  by (auto simp: authorize_local_def Let_def split: if_splits prod.splits option.splits)

text \<open>What an authorised route stands for: the target it came from, the policy and the log.\<close>

definition route_granted ::
    "context_config \<Rightarrow> net_env \<Rightarrow> target \<Rightarrow> audit \<Rightarrow> audit \<Rightarrow> authorized_route \<Rightarrow> bool" where
  "route_granted cfg env target a a' route \<longleftrightarrow>
     (let public = (\<lambda>p t. ap_target p = t \<and>
            public_policy_allows (ne_fs env) (cc_allowlists cfg) (cc_mode_file cfg) (pt_host t) \<and>
            (ap_already_audited p \<longleftrightarrow>
               reported_only (ne_fs env) (cc_allowlists cfg) (cc_mode_file cfg) (pt_host t)) \<and>
            (ap_already_audited p \<longrightarrow> denial_on_record env t a a'));
          local = (\<lambda>t. \<exists>paths. cc_local_paths cfg = Some paths \<and>
            local_policy_allows (ne_fs env) paths (lt_canonical_authority t))
      in case route of
           RouteDirect t \<Rightarrow> target = Direct t
         | RouteAsterisk \<Rightarrow> target = Asterisk
         | RoutePublicHttp p \<Rightarrow> target = PublicHttp (ap_target p) \<and> public p (ap_target p)
         | RoutePublicConnect p \<Rightarrow> target = PublicConnect (ap_target p) \<and> public p (ap_target p)
         | RouteLocalHttp t \<Rightarrow> target = LocalHttp t \<and> local t
         | RouteLocalConnect t \<Rightarrow> target = LocalConnect t \<and> local t)"

lemma authorize_Ok:
  assumes "authorize_unless_cancelled cfg env target st = (Ok route, st')"
  shows "route_granted cfg env target (px_audit st) (px_audit st') route \<and>
    st' = st\<lparr>px_audit := px_audit st'\<rparr> \<and> \<not> is_requested (px_shutdown st)"
proof -
  obtain a where auth: "authorize [ShutdownBegins] cfg (ne_fs env) (ne_time env) target (px_audit st) = (Some (Ok route), a)"
    and st': "st' = st\<lparr>px_audit := a\<rparr>" and "\<not> is_requested (px_shutdown st)"
    using assms by (auto simp: authorize_unless_cancelled_def split: if_splits prod.splits option.splits)
  moreover have "route_granted cfg env target (px_audit st) a route"
    using auth
    by (cases target)
      (auto simp: authorize_def route_granted_def Let_def dest!: authorize_public_Ok authorize_local_Ok)
  ultimately show ?thesis
    by simp
qed


lemma checkout_dialled:
  assumes "checkout resolve dial now target pool resources = (r, dialled, pool', resources')" and "a \<in> set dialled"
  shows "pt_ipv6_scope target = None \<and> outside_reserved a"
proof -
  have "dialled \<noteq> []"
    using assms(2) by auto
  then obtain x res where "open_target resolve dial target resources = (x, dialled, res)"
    using assms(1) by (auto simp: checkout_def split: prod.splits option.splits result.splits)
  from open_target_dialled [OF this \<open>dialled \<noteq> []\<close>] obtain addresses
    where "pt_ipv6_scope target = None" "dial_candidates resolve target addresses" "prefix dialled addresses"
    by blast
  moreover from this assms(2) have "a \<in> set addresses"
    using set_mono_prefix by blast
  ultimately show ?thesis
    using dial_candidates_routable globally_routable_outside by blast
qed

lemma open_target_dialled_outside:
  assumes "open_target resolve dial target resources = (r, dialled, resources')" and "a \<in> set dialled"
  shows "pt_ipv6_scope target = None \<and> outside_reserved a"
proof -
  have "dialled \<noteq> []"
    using assms(2) by auto
  from open_target_dialled [OF assms(1) this] obtain addresses
    where "pt_ipv6_scope target = None" "dial_candidates resolve target addresses" "prefix dialled addresses"
    by blast
  moreover from this assms(2) have "a \<in> set addresses"
    using set_mono_prefix by blast
  ultimately show ?thesis
    using dial_candidates_routable globally_routable_outside by blast
qed

lemma abandoned_checkout_dialled:
  assumes "abandoned_checkout resolve dial now target progress pool resources = (dialled, pool', resources')"
    and "a \<in> set dialled"
  shows "pt_ipv6_scope target = None \<and> outside_reserved a"
proof -
  obtain r d res where run: "open_target resolve dial target resources = (r, d, res)"
    by (metis prod_cases3)
  then have "a \<in> set d"
    using assms by (auto simp: abandoned_checkout_def dest: in_set_takeD split: nat.splits option.splits prod.splits)
  then show ?thesis
    by (rule open_target_dialled_outside [OF run])
qed

lemma public_forward_dialled:
  assumes "public_forward H resolve dial now peer_closed target head downstream client writer pool resources schedule
      = (r, dialled, ex, pool', resources')" and "a \<in> set dialled"
  shows "pt_ipv6_scope target = None \<and> outside_reserved a"
proof (cases peer_closed)
  case None
  then obtain x pool1 res where "checkout resolve dial now target pool resources = (x, dialled, pool1, res)"
    using assms by (auto simp: public_forward_def split: prod.splits result.splits)
  then show ?thesis
    using assms(2) by (rule checkout_dialled)
next
  case (Some progress)
  then obtain pool1 res where
    "abandoned_checkout resolve dial now target progress pool resources = (dialled, pool1, res)"
    using assms by (auto simp: public_forward_def split: prod.splits)
  then show ?thesis
    using assms(2) by (rule abandoned_checkout_dialled)
qed

lemma public_contacts_ok:
  assumes "x \<in> set (public_contacts target dialled reached)"
    and "\<And>a. a \<in> set dialled \<Longrightarrow> pt_ipv6_scope target = None \<and> outside_reserved a"
  shows "public_contact target x"
  using assms by (auto simp: public_contacts_def public_contact_def split: if_splits)

lemma broker_contacts_ok:
  "x \<in> set (broker_contacts authority sent reached) \<Longrightarrow> x = BrokerDial authority \<or> x = BrokerReuse authority"
  by (auto simp: broker_contacts_def split: option.splits if_splits)

text \<open>A denial that is already on record is not recorded again.\<close>

lemma public_failure_log:
  "ap_already_audited public \<Longrightarrow> public_failure e public now a = (fail, a') \<Longrightarrow> au_log a' = au_log a"
  by (cases e) (auto simp: public_failure_def Let_def)

lemma denial_on_record_log:
  "au_log a2 = au_log a1 \<Longrightarrow> denial_on_record env t a a1 \<Longrightarrow> denial_on_record env t a a2"
  by (simp add: denial_on_record_def)

lemma dispatch_public:
  assumes "dispatch_http1 H cfg env head c (RoutePublicHttp public) st = Some (outcome, c', contacts, st')"
    and "x \<in> set contacts"
  shows "public_contact (ap_target public) x \<and>
    (ap_already_audited public \<longrightarrow> au_log (px_audit st') = au_log (px_audit st))"
proof -
  obtain r dialled ex pool resources where fwd:
    "public_forward H (ne_resolve env) (ne_dial env) (ne_now env) (ne_peer_closed env)
       (ap_target public) head (fst c) (snd c) (ne_upstream env) (px_public_pool st)
       (px_resources st) (ne_schedule env) = (r, dialled, ex, pool, resources)"
    by (metis prod_cases5)
  then have "contacts = public_contacts (ap_target public) dialled (ex \<noteq> None)"
    and "ap_already_audited public \<longrightarrow> au_log (px_audit st') = au_log (px_audit st)"
    using assms(1) public_failure_log [of public _ "ne_time env" "px_audit st"]
    by (auto simp: dispatch_http1_def Let_def
        split: option.splits result.splits public_forward_error.splits prod.splits)
  then show ?thesis
    using public_contacts_ok [OF _ public_forward_dialled [OF fwd]] assms(2) by blast
qed

lemma dispatch_local:
  assumes "dispatch_http1 H cfg env head c (RouteLocalHttp target) st = Some (outcome, c', contacts, st')"
    and "x \<in> set contacts"
  shows "x = BrokerDial (lt_canonical_authority target) \<or> x = BrokerReuse (lt_canonical_authority target)"
proof (cases "cc_local cfg")
  case (Some protocol)
  then obtain r sent ex pool resources where fwd:
    "broker_forward H (ne_broker_dial env) (ne_broker_io env) protocol (ne_now env)
       (ne_peer_closed env) target head (fst c) (snd c) (px_shutdown st) (ne_upstream env)
       (px_local_pool st) (px_resources st) (ne_schedule env) = Some (r, sent, ex, pool, resources)"
    using assms by (auto simp: dispatch_http1_def Let_def bind_eq_Some_conv)
  have "contacts = broker_contacts (lt_canonical_authority target) sent (ex \<noteq> None)"
    using assms(1) Some fwd
    by (auto simp: dispatch_http1_def Let_def
        split: option.split_asm result.split_asm broker_forward_error.split_asm prod.split_asm)
  then show ?thesis
    using assms(2) broker_contacts_ok by blast
qed (use assms in \<open>auto simp: dispatch_http1_def Let_def\<close>)

lemma handle_contacts:
  assumes "handle_http1 H cfg env head c st = Some (outcome, c', contacts, st')" and "x \<in> set contacts"
  shows "contact_permitted cfg env (classify (rh_method head) (rh_raw_target head)) (px_audit st) (px_audit st') x \<and>
    \<not> is_requested (px_shutdown st)"
proof -
  let ?target = "classify (rh_method head) (rh_raw_target head)"
  obtain route st1 where auth: "authorize_unless_cancelled cfg env ?target st = (Ok route, st1)"
    and disp: "dispatch_http1 H cfg env head c route st1 = Some (outcome, c', contacts, st')"
    and kind: "(\<exists>public. route = RoutePublicHttp public) \<or> (\<exists>t. route = RouteLocalHttp t)"
    using assms by (auto simp: handle_http1_def Let_def split: prod.splits result.splits authorized_route.splits)
  note granted = authorize_Ok [OF auth]
  from kind show ?thesis
  proof (elim disjE exE)
    fix public
    assume route: "route = RoutePublicHttp public"
    from dispatch_public [OF disp [unfolded route] assms(2)] show ?thesis
      using granted route denial_on_record_log [of "px_audit st'" "px_audit st1"]
      by (auto simp: route_granted_def contact_permitted_def public_permitted_def Let_def)
  next
    fix t
    assume route: "route = RouteLocalHttp t"
    from dispatch_local [OF disp [unfolded route] assms(2)] show ?thesis
      using granted route by (auto simp: route_granted_def contact_permitted_def local_permitted_def Let_def)
  qed
qed

lemma connect_contacts:
  assumes "connect_http1 cfg env head st = Some (r, contacts, st')" and "x \<in> set contacts"
  shows "contact_permitted cfg env (classify (rh_method head) (rh_raw_target head)) (px_audit st) (px_audit st') x \<and>
    \<not> is_requested (px_shutdown st)"
proof -
  let ?target = "classify (rh_method head) (rh_raw_target head)"
  obtain route st1 where auth: "authorize_unless_cancelled cfg env ?target st = (Ok route, st1)"
    using assms by (auto simp: connect_http1_def Let_def split: prod.splits result.splits)
  note granted = authorize_Ok [OF auth]
  have kind: "(\<exists>public. route = RoutePublicConnect public) \<or> (\<exists>t. route = RouteLocalConnect t)"
    using assms auth by (cases route) (auto simp: connect_http1_def Let_def)
  then show ?thesis
  proof (elim disjE exE)
    fix public
    assume route: "route = RoutePublicConnect public"
    obtain res dialled resources where op:
      "open_target (ne_resolve env) (ne_dial env) (ap_target public) (px_resources st1) = (res, dialled, resources)"
      by (metis prod_cases3)
    then have "contacts = public_contacts (ap_target public) dialled False"
      and "ap_already_audited public \<longrightarrow> au_log (px_audit st') = au_log (px_audit st1)"
      using assms(1) auth route public_failure_log [of public _ "ne_time env" "px_audit st1"]
      by (auto simp: connect_http1_def connect_target_def Let_def split: result.splits prod.splits)
    moreover from this(1) assms(2) have "public_contact (ap_target public) x"
      using public_contacts_ok [OF _ open_target_dialled_outside [OF op]] by blast
    ultimately show ?thesis
      using granted route denial_on_record_log [of "px_audit st'" "px_audit st1"]
      by (auto simp: route_granted_def contact_permitted_def public_permitted_def Let_def)
  next
    fix t
    assume route: "route = RouteLocalConnect t"
    then obtain protocol where "cc_local cfg = Some protocol"
      using assms auth by (auto simp: connect_http1_def Let_def split: option.splits)
    moreover from this obtain res sent resources where
      "broker_connect (ne_broker_dial env) (ne_broker_io env) protocol (lt_canonical_authority t)
         (px_shutdown st1) (ne_upstream env) (px_resources st1) = Some (res, sent, resources)"
      using assms(1) auth route by (auto simp: connect_http1_def Let_def)
    ultimately have "contacts = broker_contacts (lt_canonical_authority t) sent False"
      using assms(1) auth route
      by (auto simp: connect_http1_def Let_def split: result.split_asm prod.split_asm)
    then have "x = BrokerDial (lt_canonical_authority t) \<or> x = BrokerReuse (lt_canonical_authority t)"
      using assms(2) broker_contacts_ok by blast
    then show ?thesis
      using granted route by (auto simp: route_granted_def contact_permitted_def local_permitted_def Let_def)
  qed
qed


text \<open>
  C1: nobody is contacted without permission. Whatever a request says and whatever the network
  does, every connection that handling it opens or reuses, for a forwarded request and for a
  tunnel, is one that the policy files, as they are read for this request, allow: a public
  target that is let through by a valid policy, at its own port and at an address outside the
  reserved ranges, or a loopback service that a local layer names. When the target is let
  through only because the mode is \<open>report\<close>, the denial is in the log before; and after the
  shutdown is requested nobody is contacted.
\<close>

theorem contact_needs_permission:
  assumes "handle_http1 H cfg env head c st = Some (outcome, c', contacts, st')
      \<or> connect_http1 cfg env head st = Some (r, contacts, st')"
    and "x \<in> set contacts"
  shows "contact_permitted cfg env (classify (rh_method head) (rh_raw_target head)) (px_audit st) (px_audit st') x \<and>
    \<not> is_requested (px_shutdown st)"
  using assms handle_contacts connect_contacts by blast


text \<open>A tunnel to a granted loopback service.\<close>

definition example_fs :: file_system where
  "example_fs path =
     (if path = ''/local'' then Opened True 15 (Some (''localhost:3000'' @ [LF]))
      else if path = ''/allow'' then Opened True 12 (Some (''example.com'' @ [LF]))
      else if path = ''/mode'' then Opened True 7 (Some (''report'' @ [LF]))
      else OpenFails)"

definition example_context :: context_config where
  "example_context =
     \<lparr>cc_allowlists = [''/allow''], cc_mode_file = ''/mode'', cc_local_paths = Some [''/local''],
      cc_local = Some \<lparr>bp_endpoint = HostEndpoint ''host'' 9000, bp_token = BrokerToken (replicate 64 (CHR ''a''))\<rparr>,
      cc_health = \<lparr>hs_public_paths = [''/allow''], hs_mode_path = ''/mode'', hs_local_paths = Some [''/local'']\<rparr>\<rparr>"

definition example_env :: net_env where
  "example_env =
     \<lparr>ne_fs = example_fs, ne_now = 1, ne_time = 0, ne_resolve = (\<lambda>_ _. Ready None),
      ne_dial = (\<lambda>_ _. Ready None), ne_broker_dial = (\<lambda>_. Ready (Some [ReadData (''OK'' @ [LF])])),
      ne_broker_io = RunsToEnd, ne_peer_closed = None, ne_upstream = \<lparr>sk_events = [], sk_out = []\<rparr>,
      ne_schedule = [], ne_cancelled = False\<rparr>"

definition example_state :: proxy_state where
  "example_state =
     \<lparr>px_shutdown = shutdown_new, px_audit = audit_new None \<lparr>sk_events = [], sk_out = [], al_opens = True, al_regular = None\<rparr>,
      px_public_pool = pool_build 4 60, px_local_pool = pool_build 4 60, px_resources = production\<rparr>"

definition example_connect :: "field_list request_head" where
  "example_connect = example_request\<lparr>rh_method := ''CONNECT'', rh_raw_target := ''localhost:3000'', rh_framing := NoBody\<rparr>"

theorem contact_needs_permission_witness:
  "\<exists>a'. contact_permitted example_context example_env (classify ''CONNECT'' ''localhost:3000'')
     (px_audit example_state) a' (BrokerDial \<lparr>la_host = Localhost, la_port = 3000\<rparr>)"
proof -
  let ?run = "connect_http1 example_context example_env example_connect example_state"
  have "(case ?run of
      Some (r, contacts, st) \<Rightarrow> contacts = [BrokerDial \<lparr>la_host = Localhost, la_port = 3000\<rparr>]
    | None \<Rightarrow> False)"
    by code_simp
  then obtain r st where run: "?run = Some (r, [BrokerDial \<lparr>la_host = Localhost, la_port = 3000\<rparr>], st)"
    by (auto split: option.splits)
  have "rh_method example_connect = ''CONNECT'' \<and> rh_raw_target example_connect = ''localhost:3000''"
    by (simp add: example_connect_def)
  then show ?thesis
    using contact_needs_permission [OF disjI2 [OF run]] by auto
qed

end
