(* ===== verification/Listener.thy ===== *)
theory Listener
  imports Router
begin

text \<open>
  Serving one client connection (\<open>proxy/src/server/listener.rs\<close>): the loop over the requests of
  a connection, the response to each, and the hand-over to a tunnel. \<open>serve_env\<close> adds to the
  environment of a request what happens around it: whether the shutdown is requested at the
  points where the loop looks, whether the head times out, whether the client hangs up while a
  tunnel is being set up, how often the body of the response is polled, and before which frames
  of an unread request body the shutdown is noticed. The connections run concurrently and share
  the state of the proxy: \<open>se_others\<close> is what the other connections, and the streams that were
  dropped meanwhile, have done to it when the loop turns to its next request. The loop takes one
  environment for each request, and its result lists the heads that it acted on.
\<close>

definition OVERLOAD_RESPONSE :: bytes where
  "OVERLOAD_RESPONSE =
     ''HTTP/1.1 503 Service Unavailable'' @ CRLF @ ''Connection: close'' @ CRLF
       @ ''Content-Type: text/plain; charset=utf-8'' @ CRLF @ ''Content-Length: 20'' @ CRLF @ CRLF
       @ ''service unavailable'' @ [LF]"

datatype hang_up = StaysOpen | ClosedBefore | ClosedDuring

record serve_env =
  se_net :: net_env
  se_start_cancelled :: bool
  se_read_cancelled :: bool
  se_head_timeout :: bool
  se_connect_peer :: hang_up
  se_requested_after :: bool
  se_requested_end :: bool
  se_others :: "proxy_state \<Rightarrow> proxy_state"
  se_polls :: "bool list"
  se_stops :: "bool list"

section \<open>Request heads\<close>

definition read_request_head ::
    "'h http_crate \<Rightarrow> serve_env \<Rightarrow> client \<Rightarrow> proxy_state \<Rightarrow> 'h request_head option \<times> client" where
  "read_request_head H env c st =
     (if is_requested (px_shutdown st) \<or> se_start_cancelled env then (None, c)
      else
        case wait_for_head_start (fst c) of
          (started, r) \<Rightarrow>
            if started \<noteq> Ok True \<or> se_read_cancelled env \<or> se_head_timeout env then (None, (r, snd c))
            else
              (case read_head H r of
                 (Ok head, r) \<Rightarrow> (head, (r, snd c))
               | (Err error, r) \<Rightarrow>
                   (let is_head = cn_request_is_head r;
                        failure_kind = (case error of
                            HeadersTooLarge \<Rightarrow> FailHeadersTooLarge
                          | UnsupportedVersion \<Rightarrow> FailUnsupportedVersion
                          | _ \<Rightarrow> FailBadRequest);
                        request_method = (if is_head then ''HEAD'' else ''GET'')
                    in case write_response H (failure H failure_kind is_head) Http11 request_method True (snd c) of
                         (_, k) \<Rightarrow> (None, (r, k)))))"

section \<open>Responses\<close>

text \<open>
  The frames that the writer gets from a streamed body, one for each poll. When the writer does
  not poll to the end of the body it has given the response up, which looks like a failed body.
\<close>

fun poll_frames ::
    "'h http_crate \<Rightarrow> nat \<Rightarrow> bool list \<Rightarrow> 'k streaming_body \<Rightarrow> 'k origin_pool \<Rightarrow> 'h body_frames \<times> 'k origin_pool" where
  "poll_frames H now [] body pool = ([Err ()], pool)"
| "poll_frames H now (forced # polls) body pool =
     (case poll_frame H now forced body pool of
        (None, _, pool) \<Rightarrow> ([], pool)
      | (Some (Err _), _, pool) \<Rightarrow> ([Err ()], pool)
      | (Some (Ok fr), body, pool) \<Rightarrow>
          (case poll_frames H now polls body pool of (frames, pool) \<Rightarrow> (Ok fr # frames, pool)))"

definition materialize ::
    "'h http_crate \<Rightarrow> nat \<Rightarrow> bool list \<Rightarrow> 'h proxy_response \<Rightarrow> proxy_state \<Rightarrow> 'h response \<times> proxy_state" where
  "materialize H now polls response st =
     (let r = (\<lambda>frames. \<lparr>rs_status = pr_status response, rs_headers = pr_headers response, rs_body = frames\<rparr>)
      in case pr_body response of
           FixedBody frames \<Rightarrow> (r frames, st)
         | PublicBody body \<Rightarrow>
             (case poll_frames H now polls body (px_public_pool st) of
                (frames, pool) \<Rightarrow> (r frames, st\<lparr>px_public_pool := pool\<rparr>))
         | LocalBody body \<Rightarrow>
             (case poll_frames H now polls body (px_local_pool st) of
                (frames, pool) \<Rightarrow> (r frames, st\<lparr>px_local_pool := pool\<rparr>)))"

definition write_connect_established_drain_aware ::
    "'a byte_sink_scheme \<Rightarrow> (bool, write_error) result \<times> 'a byte_sink_scheme" where
  "write_connect_established_drain_aware k =
     (let head = ''HTTP/1.1 200 Connection Established'' @ CRLF @ CRLF
      in case commit_head_before_drain head k of
           (Err e, k) \<Rightarrow> (Err e, k)
         | (Ok None, k) \<Rightarrow> (Ok False, k)
         | (Ok (Some written), k) \<Rightarrow>
             (case write_all [ShutdownForces] (drop written head) k of
                (Err e, k) \<Rightarrow> (Err e, k)
              | (Ok _, k) \<Rightarrow>
                  (case sink_flush [ShutdownForces] k of (Err e, k) \<Rightarrow> (Err e, k) | (Ok _, k) \<Rightarrow> (Ok True, k))))"

section \<open>One request\<close>

text \<open>
  The result says whether the connection is finished; \<open>None\<close> that an exchange does not come to
  an end in the schedule it is given.
\<close>

definition has_body :: "body_framing \<Rightarrow> bool" where
  "has_body framing \<longleftrightarrow> framing \<noteq> NoBody \<and> framing \<noteq> ContentLength 0"

definition serve_http_request ::
    "'h http_crate \<Rightarrow> context_config \<Rightarrow> serve_env \<Rightarrow> 'h request_head \<Rightarrow> client \<Rightarrow> proxy_state
       \<Rightarrow> ((bool, write_error) result \<times> client \<times> contact list \<times> proxy_state) option" where
  "serve_http_request H cfg env head c st =
     (let is_head = rh_method head = ''HEAD'' in
      if rh_upgrade head then
        (case write_response H (failure H FailNotImplemented is_head) (rh_version head) (rh_method head) True (snd c) of
           (_, k) \<Rightarrow> Some (Ok True, (fst c, k), [], st))
      else
        Option.bind (handle_http1 H cfg (se_net env) head c st) (\<lambda>(outcome, (r, k), contacts, st).
          if is_requested (px_shutdown st) \<or> se_requested_after env then
            (case write_response_prompt H (failure H FailServiceUnavailable is_head) (rh_version head)
                    (rh_method head) True k of
               (_, k) \<Rightarrow> Some (Ok True, (r, k), contacts, st))
          else
            (let close = rh_close head \<or> \<not> ho_reusable outcome
                   \<or> \<not> ho_body_consumed outcome \<and> rh_expect head \<and> has_body (rh_framing head)
             in case materialize H (ne_now (se_net env)) (se_polls env) (ho_response outcome) st of
                  (response, st) \<Rightarrow>
                    (case write_response_drain_aware H response (rh_version head) (rh_method head) close k of
                       (Err e, k) \<Rightarrow> Some (Err e, (r, k), contacts, st)
                     | (Ok None, k) \<Rightarrow> Some (Ok True, (r, k), contacts, st)
                     | (Ok (Some closed), k) \<Rightarrow>
                         if closed \<or> is_requested (px_shutdown st) \<or> se_requested_end env
                         then Some (Ok True, (r, k), contacts, st)
                         else if \<not> ho_body_consumed outcome \<and> has_body (rh_framing head) then
                           map_option (\<lambda>(drained, r). (Ok (\<not> is_ok drained), (r, k), contacts, st))
                             (drain_http1_body H (se_stops env) (rh_framing head) r)
                         else Some (Ok False, (r, k), contacts, st)))))"

section \<open>One connection\<close>

record tunnel_parts =
  tp_downstream :: "read_event list \<times> byte_sink"
  tp_downstream_prefix :: bytes
  tp_upstream :: connected_upstream

datatype connection_outcome = Complete | Tunnel tunnel_parts

definition release_upstream :: "(connected_upstream, proxy_failure) result \<Rightarrow> proxy_state \<Rightarrow> proxy_state" where
  "release_upstream r st =
     (case r of
        Err _ \<Rightarrow> st
      | Ok u \<Rightarrow> st\<lparr>px_resources := drop_managed (cu_registration u) (px_resources st)\<rparr>)"

text \<open>
  The CONNECT branch of the loop: \<open>Ok None\<close> goes on with the next request. An upstream that is
  not handed over is dropped, which gives its permit back.
\<close>

definition serve_connect ::
    "'h http_crate \<Rightarrow> context_config \<Rightarrow> serve_env \<Rightarrow> 'h request_head \<Rightarrow> client \<Rightarrow> proxy_state
       \<Rightarrow> ((connection_outcome option, write_error) result \<times> client \<times> contact list \<times> proxy_state) option" where
  "serve_connect H cfg env head c st =
     (let framed = contains_key H (rh_headers head) ''transfer-encoding''
                     \<or> contains_key H (rh_headers head) ''content-length'' \<or> rh_expect head
      in if framed then
           (case write_response H (failure H FailBadRequest False) (rh_version head) (rh_method head) True (snd c) of
              (_, k) \<Rightarrow> Some (Ok (Some Complete), (fst c, k), [], st))
         else if se_connect_peer env = ClosedBefore then Some (Ok (Some Complete), c, [], st)
         else
           Option.bind (connect_http1 cfg (se_net env) head st) (\<lambda>(upstream, contacts, st).
             if se_connect_peer env = ClosedDuring
             then Some (Ok (Some Complete), c, contacts, release_upstream upstream st)
             else
               case upstream of
                 Err error \<Rightarrow>
                   (case write_response H (failure H error False) (rh_version head) (rh_method head)
                           (rh_close head) (snd c) of
                      (Err e, k) \<Rightarrow> Some (Err e, (fst c, k), contacts, st)
                    | (Ok closed, k) \<Rightarrow>
                        Some (Ok (if closed then Some Complete else None), (fst c, k), contacts, st))
               | Ok u \<Rightarrow>
                   if is_requested (px_shutdown st) \<or> se_requested_after env then
                     (case write_response H (failure H FailServiceUnavailable False) (rh_version head)
                             (rh_method head) True (snd c) of
                        (_, k) \<Rightarrow> Some (Ok (Some Complete), (fst c, k), contacts, release_upstream upstream st))
                   else
                     (case write_connect_established_drain_aware (snd c) of
                        (Err e, k) \<Rightarrow> Some (Err e, (fst c, k), contacts, release_upstream upstream st)
                      | (Ok established, k) \<Rightarrow>
                          if \<not> established
                          then Some (Ok (Some Complete), (fst c, k), contacts, release_upstream upstream st)
                          else
                            (case into_parts (into_buffered_io (fst c)) of
                               (io, rest) \<Rightarrow>
                                 Some (Ok (Some (Tunnel \<lparr>tp_downstream = (io, k), tp_downstream_prefix = rest,
                                                         tp_upstream = u\<rparr>)), (fst c, k), contacts, st)))))"

fun serve_requests ::
    "'h http_crate \<Rightarrow> context_config \<Rightarrow> serve_env list \<Rightarrow> client \<Rightarrow> proxy_state
       \<Rightarrow> ((connection_outcome, write_error) result \<times> 'h request_head list \<times> client \<times> contact list
            \<times> proxy_state) option" where
  "serve_requests H cfg [] c st = None"
| "serve_requests H cfg (env # envs) c st =
     (case read_request_head H env c st of
        (None, c) \<Rightarrow> Some (Ok Complete, [], c, [], st)
      | (Some head, c) \<Rightarrow>
          Option.bind
            (if rh_method head = ''CONNECT'' then serve_connect H cfg env head c (se_others env st)
             else
               map_option (\<lambda>(r, c, contacts, st).
                   ((case r of
                       Err e \<Rightarrow> Err e
                     | Ok finished \<Rightarrow> Ok (if finished then Some Complete else None)), c, contacts, st))
                 (serve_http_request H cfg env head c (se_others env st)))
            (\<lambda>(r, c, contacts, st).
              case r of
                Err e \<Rightarrow> Some (Err e, [head], c, contacts, st)
              | Ok (Some outcome) \<Rightarrow> Some (Ok outcome, [head], c, contacts, st)
              | Ok None \<Rightarrow>
                  map_option (\<lambda>(r, heads, c, more, st). (r, head # heads, c, contacts @ more, st))
                    (serve_requests H cfg envs c st)))"

definition serve_connection_io ::
    "'h http_crate \<Rightarrow> context_config \<Rightarrow> serve_env list \<Rightarrow> read_event list \<times> byte_sink \<Rightarrow> proxy_state
       \<Rightarrow> ((connection_outcome, write_error) result \<times> 'h request_head list \<times> client \<times> contact list
            \<times> proxy_state) option" where
  "serve_connection_io H cfg envs stream st =
     (let c = (http1_connection_new (fst stream), snd stream)
      in if is_requested (px_shutdown st) then Some (Ok Complete, [], c, [], st)
         else serve_requests H cfg envs c st)"

end
