(* ===== verification/Request_Stream.thy ===== *)
theory Request_Stream
  imports Listener
begin

text \<open>
  The requests of a connection are the messages of its byte stream. The lemmas follow the unread
  bytes of the client's connection through an exchange, the router and the loop: a request body
  is either consumed exactly or not touched when the connection goes on, so the next head is
  read at the right place.
\<close>

section \<open>Consuming a body\<close>

definition consumed :: "'h http_crate \<Rightarrow> body_framing \<Rightarrow> http1_connection \<Rightarrow> http1_connection \<Rightarrow> bool" where
  "consumed H framing c c' \<longleftrightarrow>
     (\<exists>data. body_of H (framing_phase framing) (bb_pending c) data (bb_pending c')) \<and> bb_wf c'"

lemma consumed_empty: "bb_wf c \<Longrightarrow> consumed H NoBody c c \<and> consumed H (ContentLength 0) c c"
  using body_of.complete [of H "bb_pending c"] body_of.fixed [of "[]" 0 H "bb_pending c"]
  by (auto simp: consumed_def)

lemma drain_loop_drains:
  fixes H :: "'h http_crate"
  assumes "drain_loop H stops d c = Some (Ok (), c')"
  shows "\<exists>data d'. drains (request_step H) (d, c) data (d', c')"
proof -
  have "fst y = Ok () \<longrightarrow> (\<exists>data d'. drains (request_step H) (d, c) data (d', snd y))"
    if "drain_loop H stops d c = Some y" for y
    using _ that
  proof (rule drain_loop.raw_induct)
    fix loop and H :: "'h http_crate" and stops d c y
    assume IH: "\<And>stops d c b y. loop stops d c b = Some y \<Longrightarrow>
        fst y = Ok () \<longrightarrow> (\<exists>data d'. drains (request_step stops) (c, b) data (d', snd y))"
      and step: "(if stops \<noteq> [] \<and> hd stops then Some (Err (), c)
        else case next_frame H d c of (Ok None, d, c) \<Rightarrow> Some (Ok (), c)
             | (Ok (Some x), d, c) \<Rightarrow> loop H (tl stops) d c
             | (Err x, d, c) \<Rightarrow> Some (Err (), c)) = Some y"
    show "fst y = Ok () \<longrightarrow> (\<exists>data d'. drains (request_step H) (d, c) data (d', snd y))"
    proof
      assume ok: "fst y = Ok ()"
      obtain x d1 c1 where fr: "next_frame H d c = (x, d1, c1)"
        by (metis prod_cases3)
      show "\<exists>data d'. drains (request_step H) (d, c) data (d', snd y)"
      proof (cases x)
        case (Err e)
        then show ?thesis
          using step ok fr by (auto split: if_splits)
      next
        case (Ok z)
        show ?thesis
        proof (cases z)
          case None
          then have "snd y = c1"
            using step ok fr Ok by (auto split: if_splits)
          moreover have "request_step H (d, c) = (Ok None, (d1, c1))"
            using fr Ok None by simp
          ultimately show ?thesis
            using drains.finished [of "request_step H"] by blast
        next
          case (Some w)
          then have "loop H (tl stops) d1 c1 = Some y"
            using step ok fr Ok by (auto split: if_splits)
          from IH [OF this] ok obtain data d' where "drains (request_step H) (d1, c1) data (d', snd y)"
            by blast
          moreover have "request_step H (d, c) = (Ok (Some w), (d1, c1))"
            using fr Ok Some by simp
          ultimately show ?thesis
            using drains.data_frame [of "request_step H"] drains.trailers_frame [of "request_step H"]
            by (cases w) blast+
        qed
      qed
    qed
  qed
  from this [OF assms] show ?thesis
    by simp
qed

lemma drain_consumed:
  assumes "drain_http1_body H stops framing c = Some (Ok (), c')" and "bb_wf c"
  shows "consumed H framing c c'"
proof -
  obtain data d' where "drains (request_step H) (body_decoder_new H framing, c) data (d', c')"
    using drain_loop_drains assms(1) unfolding drain_http1_body_def by blast
  from request_body.drains_body [OF this request_wf_new [OF assms(2)]] show ?thesis
    by (auto simp: request_view_new consumed_def)
qed

section \<open>The exchange\<close>

definition result_complete :: "(('h, 'k) forwarded, forward_error) result \<Rightarrow> bool" where
  "result_complete r = (case r of Ok f \<Rightarrow> fw_request_complete f | Err e \<Rightarrow> fe_request_complete e)"

lemma advance_exchange_Err:
  "advance_exchange H request_method branch ex = (Err e, ex') \<Longrightarrow>
     rw_complete (ex_request ex') \<Longrightarrow>
     ex_request ex' = ex_request ex \<and> ex_downstream ex' = ex_downstream ex \<and> ex_writer ex' = ex_writer ex"
  by (auto simp: advance_exchange_def step_upstream_def step_downstream_def queue_def Let_def
      split: branch.splits if_splits option.splits prod.splits result.splits request_state.splits
        list.splits body_frame.splits)

lemma exchange_loop_complete:
  assumes "exchange_loop H now head key pool schedule ex = (Some r, ex', pool')"
    and "exchange_inv H framing stream bs ex" and "header_laws H" "header_name_laws H"
    and "result_complete r"
  shows "exchange_inv H framing stream bs ex' \<and> rw_complete (ex_request ex')"
  using assms(1,2)
proof (induction schedule arbitrary: ex)
  case (Cons branch schedule)
  obtain x ex1 where adv: "advance_exchange H (rh_method head) branch ex = (x, ex1)"
    by fastforce
  show ?case
  proof (cases x)
    case (Err kind)
    then have "ex' = ex1" and "rw_complete (ex_request ex1)"
      using Cons.prems(1) adv assms(5) by (auto simp: forward_error_def result_complete_def)
    then show ?thesis
      using advance_exchange_Err [of H "rh_method head" branch ex kind ex1] adv Err Cons.prems(2)
      by (simp add: exchange_inv_def)
  next
    case (Ok y)
    have inv: "exchange_inv H framing stream bs ex1"
      using advance_exchange_inv [OF Cons.prems(2) assms(3,4)] adv Ok by blast
    show ?thesis
    proof (cases y)
      case None
      then show ?thesis
        using Cons adv Ok inv by simp
    next
      case (Some response)
      show ?thesis
      proof (cases "\<exists>rsp headers noms. response = Ok rsp \<and> check_response H (rh_version head) rsp = Ok (headers, noms)")
        case False
        then have "ex' = ex1" and "rw_complete (ex_request ex1)"
          using Cons.prems(1) adv Ok Some assms(5)
          by (auto simp: Let_def forward_error_def result_complete_def split: result.splits)
        then show ?thesis
          using inv by simp
      next
        case True
        then obtain rsp headers noms where rsp: "response = Ok rsp"
          and chk: "check_response H (rh_version head) rsp = Ok (headers, noms)"
          by blast
        show ?thesis
        proof (cases "is_informational (or_status rsp)")
          case info: True
          obtain z k where fwd: "forward_informational H (or_status rsp) headers (rh_version head) (ex_client ex1) = (z, k)"
            by fastforce
          have inv': "exchange_inv H framing stream bs (ex1\<lparr>ex_client := k\<rparr>)"
            using inv by (simp add: exchange_inv_def)
          show ?thesis
          proof (cases z)
            case (Err e)
            then have "ex' = ex1\<lparr>ex_client := k\<rparr>" and "rw_complete (ex_request ex1)"
              using Cons.prems(1) adv Ok Some rsp chk info fwd assms(5)
              by (auto simp: Let_def forward_error_def result_complete_def)
            then show ?thesis
              using inv' by simp
          next
            case (Ok u)
            then have "exchange_loop H now head key pool schedule (ex1\<lparr>ex_client := k\<rparr>) = (Some r, ex', pool')"
              using Cons.prems(1) adv \<open>x = Ok y\<close> Some rsp chk info fwd by (simp add: Let_def)
            then show ?thesis
              using Cons.IH inv' by blast
          qed
        next
          case False
          then have "ex' = ex1" and "rw_complete (ex_request ex1)"
            using Cons.prems(1) adv Ok Some rsp chk assms(5)
            by (auto simp: Let_def result_complete_def split: prod.splits)
          then show ?thesis
            using inv by simp
        qed
      qed
    qed
  qed
qed simp


lemma exchange_consumed:
  assumes "exchange H now downstream client head path_and_query host reader writer key pool schedule
      = (Some r, ex, pool')"
    and "header_laws H" "header_name_laws H" and "bb_wf downstream" and "result_complete r"
  shows "consumed H (rh_framing head) downstream (ex_downstream ex)"
proof -
  obtain noms bs k where
    loop: "exchange_loop H now head key pool schedule
        \<lparr>ex_downstream = downstream, ex_client = client, ex_reader = reader, ex_writer = k,
         ex_request = request_writer_new H (rh_framing head) noms\<rparr> = (Some r, ex, pool')"
    using assms(1,5)
    by (auto simp: exchange_def Let_def result_complete_def forward_error_def write_request_head_def
        split: result.splits prod.splits)
  have "exchange_inv H (rh_framing head) (bb_pending downstream) (sk_out k)
      \<lparr>ex_downstream = downstream, ex_client = client, ex_reader = reader, ex_writer = k,
       ex_request = request_writer_new H (rh_framing head) noms\<rparr>"
    using writer_inv_new [OF assms(4)] by (auto simp: exchange_inv_def)
  from exchange_loop_complete [OF loop this assms(2,3,5)] obtain out where
    inv: "writer_inv H (rh_framing head) (bb_pending downstream) out (ex_request ex) (ex_downstream ex)"
    and complete: "rw_complete (ex_request ex)"
    by (auto simp: exchange_inv_def)
  have "bb_wf (ex_downstream ex)"
    using inv by (simp add: writer_inv_def)
  then show ?thesis
    using writer_inv_complete [OF inv complete assms(2)] by (auto simp: consumed_def)
qed

section \<open>One request\<close>

text \<open>
  What the router promises the loop about the client's connection: a body that it calls consumed
  is consumed exactly, and a connection that it calls reusable without that is untouched.
\<close>

definition outcome_law ::
    "'h http_crate \<Rightarrow> body_framing \<Rightarrow> http1_connection \<Rightarrow> 'h http1_outcome \<Rightarrow> http1_connection \<Rightarrow> bool" where
  "outcome_law H framing c outcome c' \<longleftrightarrow>
     (ho_body_consumed outcome \<longrightarrow> consumed H framing c c') \<and>
     (\<not> ho_body_consumed outcome \<and> ho_reusable outcome \<longrightarrow> c' = c)"

lemma outcome_law_fixed [simp]: "outcome_law H framing c (fixed_outcome response reusable) c"
  by (simp add: outcome_law_def fixed_outcome_def)

lemma outcome_law_forwarded:
  "(fw_request_complete f \<longrightarrow> consumed H framing c c') \<Longrightarrow>
     outcome_law H framing c (forwarded_outcome H f body head) c'"
  by (simp add: outcome_law_def forwarded_outcome_def)

lemma outcome_law_failure:
  "(fe_request_complete e \<longrightarrow> consumed H framing c c') \<Longrightarrow>
     outcome_law H framing c (forward_failure H e head) c'"
  by (auto simp: outcome_law_def forward_failure_def Let_def)

lemma public_forward_consumed:
  assumes "public_forward H resolve dial now peer_closed target head downstream client writer pool resources schedule
      = (Some r, dialled, ex, pool', resources')"
    and "header_laws H" "header_name_laws H" and "bb_wf downstream"
  shows "case r of
      Ok f \<Rightarrow> fw_request_complete f \<longrightarrow> consumed H (rh_framing head) downstream (fst (after_exchange (downstream, client) ex))
    | Err (ForwardConnect e) \<Rightarrow> ex = None
    | Err (ForwardExchange e) \<Rightarrow>
        fe_request_complete e \<longrightarrow> consumed H (rh_framing head) downstream (fst (after_exchange (downstream, client) ex))"
proof (cases "peer_closed \<noteq> None \<or> (\<exists>e d p q. checkout resolve dial now target pool resources = (Err e, d, p, q))")
  case True
  then show ?thesis
    using assms(1) by (cases peer_closed) (auto simp: public_forward_def forward_error_def split: prod.splits)
next
  case False
  then obtain origin d p q where "checkout resolve dial now target pool resources = (Ok origin, d, p, q)"
    by (metis prod_cases4 result.exhaust)
  then obtain x ex1 where run: "exchange H now downstream client head (pt_path_and_query target)
      (pt_authority target) origin writer (from_target target) p schedule = (Some x, ex1, pool')"
    and r: "r = map_err ForwardExchange x" and ex: "ex = Some ex1"
    using assms(1) False by (auto simp: public_forward_def split: prod.splits)
  show ?thesis
    using exchange_consumed [OF run assms(2-4)] r ex
    by (cases x) (auto simp: result_complete_def after_exchange_def)
qed

lemma broker_forward_consumed:
  assumes "broker_forward H dial during_io protocol now peer_closed target head downstream client cancellation
      writer pool resources schedule = Some (Some r, sent, ex, pool', resources')"
    and "header_laws H" "header_name_laws H" and "bb_wf downstream"
  shows "case r of
      Ok f \<Rightarrow> fw_request_complete f \<longrightarrow> consumed H (rh_framing head) downstream (fst (after_exchange (downstream, client) ex))
    | Err (BrokerConnect e) \<Rightarrow> ex = None
    | Err (BrokerExchange e) \<Rightarrow>
        fe_request_complete e \<longrightarrow> consumed H (rh_framing head) downstream (fst (after_exchange (downstream, client) ex))
    | Err (BrokerOrigin b e) \<Rightarrow>
        fe_request_complete e \<longrightarrow> consumed H (rh_framing head) downstream (fst (after_exchange (downstream, client) ex))"
proof (cases peer_closed)
  case (Some progress)
  then show ?thesis
    using assms(1) by (auto simp: broker_forward_def forward_error_def)
next
  case None
  then obtain y where y: "broker_checkout dial during_io protocol now (lt_canonical_authority target)
      cancellation writer pool resources = Some y"
    using assms(1) by (auto simp: broker_forward_def)
  obtain o' s p q where tuple: "y = (o', s, p, q)"
    by (metis prod_cases4)
  show ?thesis
  proof (cases o')
    case (Err e)
    then show ?thesis
      using assms(1) None y tuple by (auto simp: broker_forward_def)
  next
    case (Ok origin)
    then obtain x ex1 w where run: "exchange H now downstream client head (lt_path_and_query target)
        (local_host_text target) origin w (lt_canonical_authority target) p schedule = (Some x, ex1, pool')"
      and r: "r = map_err broker_error_of x" and ex: "ex = Some ex1"
      using assms(1) None y tuple by (auto simp: broker_forward_def split: prod.splits)
    show ?thesis
      using exchange_consumed [OF run assms(2-4)] r ex
      by (cases x) (auto simp: result_complete_def after_exchange_def broker_error_of_def)
  qed
qed

lemma dispatch_law:
  assumes "dispatch_http1 H cfg env head c route st = Some (outcome, c', contacts, st')"
    and "header_laws H" "header_name_laws H" and "bb_wf (fst c)"
  shows "outcome_law H (rh_framing head) (fst c) outcome (fst c')"
proof (cases route)
  case (RoutePublicHttp public)
  obtain r dialled ex pool resources where fwd:
    "public_forward H (ne_resolve env) (ne_dial env) (ne_now env) (ne_peer_closed env)
       (ap_target public) head (fst c) (snd c) (ne_upstream env) (px_public_pool st)
       (px_resources st) (ne_schedule env) = (r, dialled, ex, pool, resources)"
    by (metis prod_cases5)
  then obtain x where r: "r = Some x"
    using assms(1) RoutePublicHttp by (cases r) (auto simp: dispatch_http1_def Let_def)
  note law = public_forward_consumed [OF fwd [unfolded r] assms(2-4)]
  show ?thesis
    using assms(1) RoutePublicHttp fwd r law
    by (auto simp: dispatch_http1_def Let_def after_exchange_def
        intro!: outcome_law_forwarded outcome_law_failure
        split: result.split_asm public_forward_error.split_asm prod.split_asm)
next
  case (RouteLocalHttp target)
  show ?thesis
  proof (cases "cc_local cfg")
    case None
    then show ?thesis
      using assms(1) RouteLocalHttp by (auto simp: dispatch_http1_def Let_def)
  next
    case (Some protocol)
    then obtain r sent ex pool resources where fwd:
      "broker_forward H (ne_broker_dial env) (ne_broker_io env) protocol (ne_now env)
         (ne_peer_closed env) target head (fst c) (snd c) (px_shutdown st) (ne_upstream env)
         (px_local_pool st) (px_resources st) (ne_schedule env) = Some (r, sent, ex, pool, resources)"
      using assms(1) RouteLocalHttp by (auto simp: dispatch_http1_def Let_def bind_eq_Some_conv)
    then obtain x where r: "r = Some x"
      using assms(1) RouteLocalHttp Some by (cases r) (auto simp: dispatch_http1_def Let_def)
    note law = broker_forward_consumed [OF fwd [unfolded r] assms(2-4)]
    show ?thesis
      using assms(1) RouteLocalHttp Some fwd r law
      by (auto simp: dispatch_http1_def Let_def after_exchange_def
          intro!: outcome_law_forwarded outcome_law_failure
          split: result.split_asm broker_forward_error.split_asm prod.split_asm)
  qed
qed (use assms(1) in \<open>auto simp: dispatch_http1_def Let_def\<close>)

lemma handle_law:
  assumes "handle_http1 H cfg env head c st = Some (outcome, c', contacts, st')"
    and "header_laws H" "header_name_laws H" and "bb_wf (fst c)"
  shows "outcome_law H (rh_framing head) (fst c) outcome (fst c')"
proof -
  obtain r st1 where auth: "authorize_unless_cancelled cfg env
      (classify (rh_method head) (rh_raw_target head)) st = (r, st1)"
    by fastforce
  show ?thesis
  proof (cases "\<exists>route. r = Ok route \<and> dispatch_http1 H cfg env head c route st1 = Some (outcome, c', contacts, st')")
    case True
    then show ?thesis
      using dispatch_law assms(2-4) by blast
  next
    case False
    then show ?thesis
      using assms(1) auth
      by (auto simp: handle_http1_def Let_def split: result.splits authorized_route.splits)
  qed
qed


section \<open>One connection\<close>

lemma wait_for_head_start_pending:
  assumes "wait_for_head_start r = (Ok b, r')" and "bb_wf r"
  shows "bb_pending r' = bb_pending r \<and> bb_wf r'"
proof (cases "bb_start r = length (bb_buffer r)")
  case True
  then obtain n where "read_into 1 (compact r) = (Some n, r')"
    using assms(1) by (auto simp: wait_for_head_start_def split: prod.splits option.splits)
  moreover have "1 \<le> CONNECTION_BUFFER_LIMIT"
    by (simp add: CONNECTION_BUFFER_LIMIT_def REQUEST_LINE_LIMIT_def)
  ultimately show ?thesis
    using read_into_Some(1,6) [of 1 "compact r" n r'] bb_wf_compact [OF assms(2)] by simp
qed (use assms in \<open>auto simp: wait_for_head_start_def\<close>)

lemma read_request_head_Some:
  assumes "read_request_head H env c st = (Some head, c')" and "bb_wf (fst c)"
  shows "\<exists>line sec. head_of (bb_pending (fst c)) line sec \<and> parse_head H line sec = Ok head
    \<and> bb_pending (fst c) = line @ sec @ bb_pending (fst c') \<and> bb_wf (fst c')"
proof -
  obtain r where start: "wait_for_head_start (fst c) = (Ok True, r)" and read: "read_head H r = (Ok (Some head), fst c')"
    using assms(1)
    by (auto simp: read_request_head_def Let_def split: if_splits prod.splits result.splits)
  note w = wait_for_head_start_pending [OF start assms(2)]
  from read_head_cases [OF read] w show ?thesis
    by auto
qed

lemma parse_head_unframed:
  assumes "parse_head H line sec = Ok head"
    and "\<not> contains_key H (rh_headers head) ''transfer-encoding''"
    and "\<not> contains_key H (rh_headers head) ''content-length''"
  shows "rh_framing head = NoBody"
proof -
  have "parse_framing H (rh_headers head) = Ok (rh_framing head)"
    using assms(1) by (auto simp: parse_head_def Let_def split: if_splits)
  then show ?thesis
    using assms(2,3)
    by (auto simp: parse_framing_def parse_content_length_def parse_transfer_encoding_def
        transfer_coding_values_def contains_key_def split: bool.split_asm)
qed

lemma write_response_drain_aware_keeps_open:
  "write_response_drain_aware H response version request_method close k = (Ok (Some False), k') \<Longrightarrow> \<not> close"
  by (auto simp: write_response_drain_aware_def write_committed_def prepare_response_head_def Let_def
      split: prod.splits result.splits option.splits if_splits)

lemma serve_http_request_consumed:
  assumes "serve_http_request H cfg env head c st = Some (Ok False, c', contacts, st')"
    and "header_laws H" "header_name_laws H" and "bb_wf (fst c)"
  shows "consumed H (rh_framing head) (fst c) (fst c')"
proof -
  have up: "\<not> rh_upgrade head"
    using assms(1) by (auto simp: serve_http_request_def split: prod.splits)
  obtain outcome r k contacts1 st1 where hd: "handle_http1 H cfg (se_net env) head c st = Some (outcome, (r, k), contacts1, st1)"
    using assms(1) up by (auto simp: serve_http_request_def bind_eq_Some_conv)
  define close where "close = (rh_close head \<or> \<not> ho_reusable outcome
      \<or> \<not> ho_body_consumed outcome \<and> rh_expect head \<and> has_body (rh_framing head))"
  obtain response st2 where mat: "materialize H (ne_now (se_net env)) (se_polls env) (ho_response outcome) st1 = (response, st2)"
    by fastforce
  have going: "\<not> (is_requested (px_shutdown st1) \<or> se_requested_after env)"
    using assms(1) up hd by (auto simp: serve_http_request_def split: prod.splits)
  let ?tail = "\<lambda>k2. if \<not> ho_body_consumed outcome \<and> has_body (rh_framing head)
       then map_option (\<lambda>(drained, r). (Ok (\<not> is_ok drained), (r, k2), contacts1, st2))
              (drain_http1_body H (se_stops env) (rh_framing head) r)
       else Some (Ok False, (r, k2), contacts1, st2)"
  have served: "serve_http_request H cfg env head c st =
      (case write_response_drain_aware H response (rh_version head) (rh_method head) close k of
         (Err e, k) \<Rightarrow> Some (Err e, (r, k), contacts1, st2)
       | (Ok None, k) \<Rightarrow> Some (Ok True, (r, k), contacts1, st2)
       | (Ok (Some closed), k) \<Rightarrow>
           if closed \<or> is_requested (px_shutdown st2) \<or> se_requested_end env
           then Some (Ok True, (r, k), contacts1, st2) else ?tail k)"
    unfolding serve_http_request_def close_def using up hd going mat by (simp add: Let_def)
  obtain w k2 where w: "write_response_drain_aware H response (rh_version head) (rh_method head) close k = (w, k2)"
    by fastforce
  have w_open: "w = Ok (Some False)" and tail: "?tail k2 = Some (Ok False, c', contacts, st')"
    using assms(1) unfolding served w
    by (auto split: result.split_asm option.split_asm if_split_asm)
  note wr = w [unfolded w_open]
  have reusable: "ho_reusable outcome"
    using write_response_drain_aware_keeps_open [OF wr] by (simp add: close_def)
  have law: "outcome_law H (rh_framing head) (fst c) outcome r"
    using handle_law [OF hd assms(2-4)] by simp
  show ?thesis
  proof (cases "ho_body_consumed outcome")
    case True
    then show ?thesis
      using law tail by (auto simp: outcome_law_def)
  next
    case False
    then have r: "r = fst c"
      using law reusable by (simp add: outcome_law_def)
    show ?thesis
    proof (cases "has_body (rh_framing head)")
      case True
      then obtain u r2 where "drain_http1_body H (se_stops env) (rh_framing head) r = Some (Ok u, r2)" "fst c' = r2"
        using tail False by (auto simp: is_ok_iff)
      then show ?thesis
        using drain_consumed [of H "se_stops env" "rh_framing head" r r2] r assms(4) by simp
    next
      case no_body: False
      then have "fst c' = fst c" and "rh_framing head = NoBody \<or> rh_framing head = ContentLength 0"
        using tail False r by (auto simp: has_body_def)
      then show ?thesis
        using consumed_empty [OF assms(4), of H] by auto
    qed
  qed
qed

lemma serve_connect_continues:
  assumes "serve_connect H cfg env head c st = Some (Ok None, c', contacts, st')"
  shows "fst c' = fst c \<and> \<not> contains_key H (rh_headers head) ''transfer-encoding''
    \<and> \<not> contains_key H (rh_headers head) ''content-length''"
proof -
  have plain: "\<not> (contains_key H (rh_headers head) ''transfer-encoding''
      \<or> contains_key H (rh_headers head) ''content-length'' \<or> rh_expect head)"
    using assms by (auto simp: serve_connect_def Let_def split: prod.split_asm)
  have here: "se_connect_peer env \<noteq> ClosedBefore"
    using assms plain by (auto simp: serve_connect_def)
  obtain upstream contacts1 st1 where connect: "connect_http1 cfg (se_net env) head st = Some (upstream, contacts1, st1)"
    using assms plain here by (auto simp: serve_connect_def bind_eq_Some_conv)
  have "fst c' = fst c"
  proof (cases "se_connect_peer env = ClosedDuring")
    case True
    then show ?thesis
      using assms plain here by (simp add: serve_connect_def connect)
  next
    case False
    then show ?thesis
      using assms plain here connect
      by (cases upstream) (auto simp: serve_connect_def split: prod.split_asm result.split_asm if_split_asm)
  qed
  with plain show ?thesis by simp
qed

lemma serve_connect_tunnel:
  assumes "serve_connect H cfg env head c st = Some (Ok (Some (Tunnel parts)), c', contacts, st')"
  shows "tp_downstream_prefix parts @ script_data (fst (tp_downstream parts)) = bb_pending (fst c)
    \<and> fst (tp_downstream parts) = bb_script (fst c)"
proof -
  have plain: "\<not> (contains_key H (rh_headers head) ''transfer-encoding''
      \<or> contains_key H (rh_headers head) ''content-length'' \<or> rh_expect head)"
    using assms by (auto simp: serve_connect_def Let_def split: prod.split_asm)
  have here: "se_connect_peer env \<noteq> ClosedBefore"
    using assms plain by (auto simp: serve_connect_def)
  obtain upstream contacts1 st1 where connect: "connect_http1 cfg (se_net env) head st = Some (upstream, contacts1, st1)"
    using assms plain here by (auto simp: serve_connect_def bind_eq_Some_conv)
  have stays: "se_connect_peer env \<noteq> ClosedDuring"
    using assms plain connect here by (auto simp: serve_connect_def)
  obtain u where u: "upstream = Ok u"
    using assms plain connect here stays
    by (cases upstream) (auto simp: serve_connect_def split: prod.split_asm result.split_asm if_split_asm)
  show ?thesis
    using assms plain connect here stays
    by (auto simp: serve_connect_def u into_buffered_io_def into_parts_def bb_pending_def
        split: prod.split_asm result.split_asm if_split_asm)
qed

text \<open>
  The messages of a byte stream: heads, each followed by the body that its framing gives it. Of
  the last one only the head is needed. The last argument is what follows.
\<close>

inductive requests_of :: "'h http_crate \<Rightarrow> bytes \<Rightarrow> 'h request_head list \<Rightarrow> bytes \<Rightarrow> bool" for H where
  none: "requests_of H s [] s"
| last_head: "head_of (line @ sec @ rest) line sec \<Longrightarrow> parse_head H line sec = Ok head \<Longrightarrow>
    requests_of H (line @ sec @ rest) [head] rest"
| message: "head_of (line @ sec @ s) line sec \<Longrightarrow> parse_head H line sec = Ok head \<Longrightarrow>
    body_of H (framing_phase (rh_framing head)) s data s' \<Longrightarrow> requests_of H s' heads rest \<Longrightarrow>
    requests_of H (line @ sec @ s) (head # heads) rest"

lemma finished_continues:
  assumes "map_option (\<lambda>(r, c, contacts, st).
      ((case r of Err e \<Rightarrow> Err e | Ok finished \<Rightarrow> Ok (if finished then Some Complete else None)), c, contacts, st)) x
    = Some (Ok None, c', contacts', st')"
  shows "x = Some (Ok False, c', contacts', st')"
  using assms by (cases x) (auto split: result.split_asm if_split_asm)

lemma finished_no_tunnel:
  "map_option (\<lambda>(r, c, contacts, st).
      ((case r of Err e \<Rightarrow> Err e | Ok finished \<Rightarrow> Ok (if finished then Some Complete else None)), c, contacts, st)) x
    \<noteq> Some (Ok (Some (Tunnel parts)), c', contacts', st')"
  by (cases x) (auto split: result.split_asm if_split_asm)

lemma serve_requests_stream:
  assumes "serve_requests H cfg envs c st = Some (r, heads, c', contacts, st')"
    and "header_laws H" "header_name_laws H" and "bb_wf (fst c)"
  shows "\<exists>rest. requests_of H (bb_pending (fst c)) heads rest \<and>
    (\<forall>parts. r = Ok (Tunnel parts) \<longrightarrow>
       tp_downstream_prefix parts @ script_data (fst (tp_downstream parts)) = rest
         \<and> script_ok (fst (tp_downstream parts)))"
  using assms
proof (induction envs arbitrary: c st heads contacts)
  case (Cons env envs)
  obtain x c1 where rd: "read_request_head H env c st = (x, c1)"
    by (cases "read_request_head H env c st")
  show ?case
  proof (cases x)
    case None
    then have "heads = []" and "r = Ok Complete"
      using Cons.prems(1) rd by simp_all
    then show ?thesis
      using requests_of.none [of H "bb_pending (fst c)"] by auto
  next
    case (Some head)
    obtain line sec where hd: "head_of (bb_pending (fst c)) line sec" and parse: "parse_head H line sec = Ok head"
      and pending: "bb_pending (fst c) = line @ sec @ bb_pending (fst c1)" and wf: "bb_wf (fst c1)"
      using read_request_head_Some rd Some Cons.prems(4) by metis
    define one where "one = (if rh_method head = ''CONNECT'' then serve_connect H cfg env head c1 (se_others env st)
        else map_option (\<lambda>(r, c, contacts, st).
               ((case r of Err e \<Rightarrow> Err e | Ok finished \<Rightarrow> Ok (if finished then Some Complete else None)), c, contacts, st))
             (serve_http_request H cfg env head c1 (se_others env st)))"
    obtain y c2 contacts2 st2 where one: "one = Some (y, c2, contacts2, st2)"
      using Cons.prems(1) rd Some by (auto simp: one_def [symmetric] bind_eq_Some_conv)
    show ?thesis
    proof (cases "y = Ok None")
      case True
      then obtain heads2 contacts3 where rest: "serve_requests H cfg envs c2 st2 = Some (r, heads2, c', contacts3, st')"
        and heads: "heads = head # heads2"
        using Cons.prems(1) rd Some one by (auto simp: one_def [symmetric])
      have "consumed H (rh_framing head) (fst c1) (fst c2)"
      proof (cases "rh_method head = ''CONNECT''")
        case connect: True
        then have "serve_connect H cfg env head c1 (se_others env st) = Some (Ok None, c2, contacts2, st2)"
          using one True by (simp add: one_def)
        note c = serve_connect_continues [OF this]
        then have "rh_framing head = NoBody"
          using parse_head_unframed [OF parse] by simp
        then show ?thesis
          using c consumed_empty [OF wf, of H] by simp
      next
        case False
        then have "serve_http_request H cfg env head c1 (se_others env st) = Some (Ok False, c2, contacts2, st2)"
          using one True by (intro finished_continues) (simp add: one_def)
        from serve_http_request_consumed [OF this Cons.prems(2,3) wf] show ?thesis .
      qed
      then obtain data where "body_of H (framing_phase (rh_framing head)) (bb_pending (fst c1)) data (bb_pending (fst c2))"
        and "bb_wf (fst c2)"
        by (auto simp: consumed_def)
      with Cons.IH [OF rest Cons.prems(2,3)] hd parse show ?thesis
        unfolding heads pending by (blast intro: requests_of.message)
    next
      case False
      then have heads: "heads = [head]" and r: "r = (case y of Err e \<Rightarrow> Err e | Ok z \<Rightarrow> Ok (the z))"
        using Cons.prems(1) rd Some one by (auto simp: one_def [symmetric] split: result.splits option.splits)
      have "tp_downstream_prefix parts @ script_data (fst (tp_downstream parts)) = bb_pending (fst c1)
          \<and> script_ok (fst (tp_downstream parts))"
        if "r = Ok (Tunnel parts)" for parts
      proof -
        have "y = Ok (Some (Tunnel parts))"
          using r that False by (cases y) auto
        then have "serve_connect H cfg env head c1 (se_others env st) = Some (Ok (Some (Tunnel parts)), c2, contacts2, st2)"
          using one finished_no_tunnel by (fastforce simp: one_def split: if_split_asm)
        from serve_connect_tunnel [OF this] wf show ?thesis
          by (auto simp: bb_wf_def)
      qed
      then show ?thesis
        using requests_of.last_head [of line sec "bb_pending (fst c1)" H head] hd parse
        unfolding heads pending by blast
    qed
  qed
qed simp


text \<open>
  C2: the requests that a connection serves are the messages of its byte stream. Whatever the
  sizes of the reads and whatever happens while the requests are answered, the heads that the
  loop acts on are parsed from the bytes of the client one after another, each starting exactly
  where the body of the one before it ends, so no byte of a body is ever read as a request. When
  the connection becomes a tunnel, the tunnel gets exactly the bytes after the head of the
  \<open>CONNECT\<close> request, none lost and none from before.
\<close>

theorem connection_serves_its_stream:
  assumes "serve_connection_io H cfg envs (io, sink) st = Some (r, heads, c', contacts, st')"
    and "header_laws H" and "header_name_laws H" and "script_ok io"
  shows "\<exists>rest. requests_of H (script_data io) heads rest \<and>
    (\<forall>parts. r = Ok (Tunnel parts) \<longrightarrow>
       tp_downstream_prefix parts @ script_data (fst (tp_downstream parts)) = rest)"
proof (cases "is_requested (px_shutdown st)")
  case True
  then show ?thesis
    using assms(1) requests_of.none [of H "script_data io"] by (auto simp: serve_connection_io_def)
next
  case False
  then have "serve_requests H cfg envs (http1_connection_new io, sink) st = Some (r, heads, c', contacts, st')"
    using assms(1) by (simp add: serve_connection_io_def)
  then show ?thesis
    using serve_requests_stream [OF _ assms(2,3)] assms(4)
    by (fastforce simp: http1_connection_new_def bb_wf_def bb_pending_def bb_available_def)
qed

text \<open>
  A request that is refused and whose body is drained, and a \<open>CONNECT\<close> to a granted loopback
  service, pipelined with the first bytes of the tunnel.
\<close>

definition example_serve_env :: serve_env where
  "example_serve_env =
     \<lparr>se_net = example_env, se_start_cancelled = False, se_read_cancelled = False, se_head_timeout = False,
      se_connect_peer = StaysOpen, se_requested_after = False, se_requested_end = False,
      se_others = (\<lambda>st. st), se_polls = [False, False, False], se_stops = []\<rparr>"

definition example_pipeline :: "read_event list" where
  "example_pipeline =
     [ReadData (''P / HTTP/1.1'' @ CRLF @ ''Host:a'' @ CRLF @ ''Content-Length:1'' @ CRLF @ CRLF @ ''bCONNECT ''),
      ReadData (''localhost:3000 HTTP/1.1'' @ CRLF @ ''Host:a'' @ CRLF @ CRLF @ ''x''), ReadData ''yz'']"

theorem connection_serves_its_stream_witness:
  "\<exists>heads. length heads = 2 \<and> requests_of list_crate (script_data example_pipeline) heads ''xyz''"
proof -
  let ?run = "serve_connection_io list_crate example_context [example_serve_env, example_serve_env]
      (example_pipeline, \<lparr>sk_events = [], sk_out = []\<rparr>) example_state"
  have "case ?run of
      Some (Ok (Tunnel parts), heads, _) \<Rightarrow>
        length heads = 2 \<and> tp_downstream_prefix parts = ''x'' \<and> fst (tp_downstream parts) = [ReadData ''yz'']
    | _ \<Rightarrow> False"
    by code_simp
  then obtain parts heads c contacts st where run: "?run = Some (Ok (Tunnel parts), heads, c, contacts, st)"
    and len: "length heads = 2" and "tp_downstream_prefix parts = ''x''"
    and "fst (tp_downstream parts) = [ReadData ''yz'']"
    by (auto split: option.splits prod.splits result.splits connection_outcome.splits)
  moreover have "script_ok example_pipeline"
    by (simp add: example_pipeline_def script_ok_def)
  ultimately show ?thesis
    using connection_serves_its_stream [OF run list_crate_laws list_crate_name_laws] by fastforce
qed


section \<open>Discarding an unread body comes to an end\<close>

lemma next_frame_shrinks:
  assumes "next_frame H d c = (Ok (Some fr), d', c')" and "request_wf H (d, c)"
  shows "length (bb_pending c') < length (bb_pending c) \<or> bd_state d' = DecComplete"
  using assms
proof (induction H d c rule: next_frame.induct)
  case (1 H d c)
  have wf: "bb_wf c" and tr: "bd_trailer_headers d = hm_new H"
    using "1.prems"(2) by simp_all
  note step = "1.prems"(1) [unfolded next_frame.simps [of H d c]]
  show ?case
  proof (cases "bd_state d")
    case DecComplete
    then show ?thesis
      using step by simp
  next
    case (DecFixed n)
    show ?thesis
    proof (cases "n = 0")
      case True
      then show ?thesis
        using step DecFixed "1.IH"(1) "1.prems"(2) by simp
    next
      case False
      then obtain x where "read_body_data (data_limit n) c = (Ok (Some x), c')"
        using step DecFixed by (auto split: prod.splits result.splits option.splits)
      from read_body_data_limit(1,2) [OF this wf False] show ?thesis
        by simp
    qed
  next
    case (DecChunkData n)
    have n: "n \<noteq> 0"
      using "1.prems"(2) DecChunkData by auto
    obtain x where "read_body_data (data_limit n) c = (Ok (Some x), c')"
      using step DecChunkData by (auto simp: Let_def split: prod.splits result.splits option.splits)
    from read_body_data_limit(1,2) [OF this wf n] show ?thesis
      by simp
  next
    case DecChunkSize
    then obtain line len x where line: "read_body_line c CHUNK_LINE_LIMIT = (Ok line, x)"
      and len: "parse_chunk_size line = Ok len"
      and rec: "next_frame H (d\<lparr>bd_state := if len = 0 then DecTrailers else DecChunkData len\<rparr>) x
                  = (Ok (Some fr), d', c')"
      using step by (auto split: prod.splits result.splits)
    have "read_crlf_line CHUNK_LINE_LIMIT c = (Ok line, x)"
      using line by (auto simp: read_body_line_def split: prod.splits)
    from read_crlf_line_Ok [OF this wf] have "length (bb_pending x) < length (bb_pending c)" and "bb_wf x"
      by simp_all
    then show ?thesis
      using "1.IH"(2) [OF DecChunkSize line [symmetric] refl len rec] tr by (cases "len = 0") auto
  next
    case DecChunkDataEnd
    then obtain x where ens: "ensure_buffered 2 c = (Ok (), x)" and crlf: "take 2 (bb_available x) = CRLF"
      and rec: "next_frame H (d\<lparr>bd_state := DecChunkSize\<rparr>) (consume 2 x) = (Ok (Some fr), d', c')"
      using step by (auto split: prod.splits result.splits if_splits)
    note e = ensure_buffered_Ok [OF ens wf]
    have "bb_pending c = CRLF @ bb_pending (consume 2 x)"
      using e bb_pending_consume [of 2 x] crlf by simp
    moreover have "bb_wf (consume 2 x)"
      using e bb_wf_consume by blast
    ultimately show ?thesis
      using "1.IH"(3) DecChunkDataEnd ens crlf rec tr by fastforce
  next
    case DecTrailers
    then show ?thesis
      using step by (auto simp: Let_def split: prod.splits result.splits if_splits)
  qed
qed

lemma drain_loop_ends:
  assumes "request_wf H (d, c)"
  shows "\<exists>y. drain_loop H stops d c = Some y"
  using assms
proof (induction "length (bb_pending c)" arbitrary: d c stops rule: less_induct)
  case less
  obtain x d1 c1 where fr: "next_frame H d c = (x, d1, c1)"
    by (metis prod_cases3)
  show ?case
  proof (cases "\<exists>z. x = Ok (Some z) \<and> \<not> (stops \<noteq> [] \<and> hd stops)")
    case False
    then show ?thesis
      using fr by (auto simp: drain_loop.simps [of H stops d c] split: result.split option.split)
  next
    case True
    then obtain z where x: "x = Ok (Some z)" and go: "drain_loop H stops d c = drain_loop H (tl stops) d1 c1"
      using fr by (auto simp: drain_loop.simps [of H stops d c])
    note s = next_frame_shrinks [OF fr [unfolded x] less.prems]
    have wf: "request_wf H (d1, c1)"
      using next_frame_law [OF fr [unfolded x] less.prems] by simp
    show ?thesis
    proof (cases "bd_state d1 = DecComplete")
      case True
      then show ?thesis
        by (auto simp: go drain_loop.simps [of H _ d1 c1] next_frame.simps [of H d1 c1])
    next
      case False
      then show ?thesis
        using less.hyps [OF _ wf] s go by simp
    qed
  qed
qed

text \<open>
  C32: an unread request body is always dealt with. Reading and discarding the rest of a body
  before the next request comes to an end whatever the client sends, because each frame that is
  read takes bytes from a finite stream; and when the body is found whole, what is left of the
  stream is what follows it.
\<close>

theorem discarding_a_body_ends:
  assumes "bb_wf c"
  shows "\<exists>drained c'. drain_http1_body H stops framing c = Some (drained, c') \<and>
    (drained = Ok () \<longrightarrow> (\<exists>data. body_of H (framing_phase framing) (bb_pending c) data (bb_pending c')))"
proof -
  obtain drained c' where run: "drain_http1_body H stops framing c = Some (drained, c')"
    using drain_loop_ends [OF request_wf_new [OF assms]] by (fastforce simp: drain_http1_body_def)
  then show ?thesis
    using drain_consumed [of H stops framing c c'] assms by (auto simp: consumed_def)
qed

theorem discarding_a_body_ends_witness:
  "\<exists>c'. drain_http1_body list_crate [] Chunked example_chunked = Some (Ok (), c') \<and>
    (\<exists>data. body_of list_crate P_Size (bb_pending example_chunked) data (bb_pending c'))"
proof -
  have "bb_wf example_chunked"
    by (simp add: example_chunked_def http1_connection_new_def bb_wf_def script_ok_def)
  moreover have "case drain_http1_body list_crate [] Chunked example_chunked of
      Some (Ok u, _) \<Rightarrow> True | _ \<Rightarrow> False"
    by code_simp
  ultimately show ?thesis
    using discarding_a_body_ends [of example_chunked list_crate "[]" Chunked]
    by (auto split: option.splits result.splits)
qed

end
