(* ===== verification/Relay.thy ===== *)
theory Relay
  imports Request_Stream
begin

text \<open>
  The relay of a CONNECT tunnel (\<open>proxy/src/server/relay.rs\<close>). Each direction is a loop that
  writes the retained prefix and then copies what it reads; its future can be suspended at
  every read and write, so a direction is a state machine and the joined future is a sequence
  of turns of the two directions and of the forced shutdown that both watch.
\<close>

definition RELAY_BUFFER_BYTES :: nat where "RELAY_BUFFER_BYTES = 32 * 1024"
definition MAX_DIRECTION_BUFFER_BYTES :: nat where "MAX_DIRECTION_BUFFER_BYTES = 64 * 1024"
definition MAX_PREFIX_BYTES :: nat where
  "MAX_PREFIX_BYTES = MAX_DIRECTION_BUFFER_BYTES - RELAY_BUFFER_BYTES"

section \<open>One direction\<close>

datatype copy_state = CopyWrite bytes | CopyRead | CopyDone

record direction =
  dr_reader :: "read_event list"
  dr_writer :: byte_sink
  dr_state :: copy_state

datatype relay_error = RelayError

definition direction_new :: "read_event list \<Rightarrow> byte_sink \<Rightarrow> bytes \<Rightarrow> direction" where
  "direction_new reader writer bs = \<lparr>dr_reader = reader, dr_writer = writer, dr_state = CopyWrite bs\<rparr>"

text \<open>Closing the write half is one more operation on the socket that may fail, as a flush may.\<close>

definition copy_step :: "direction \<Rightarrow> (unit, relay_error) result \<times> direction" where
  "copy_step d =
     (case dr_state d of
        CopyDone \<Rightarrow> (Ok (), d)
      | CopyWrite bs \<Rightarrow>
          if bs = [] then (Ok (), d\<lparr>dr_state := CopyRead\<rparr>)
          else
            (case sink_write [] bs (dr_writer d) of
               (Err _, k) \<Rightarrow> (Err RelayError, d\<lparr>dr_writer := k\<rparr>)
             | (Ok n, k) \<Rightarrow>
                 if n = 0 then (Err RelayError, d\<lparr>dr_writer := k\<rparr>)
                 else (Ok (), d\<lparr>dr_writer := k, dr_state := CopyWrite (drop n bs)\<rparr>))
      | CopyRead \<Rightarrow>
          (case io_read RELAY_BUFFER_BYTES (dr_reader d) of
             (None, events) \<Rightarrow> (Err RelayError, d\<lparr>dr_reader := events\<rparr>)
           | (Some bs, events) \<Rightarrow>
               if bs \<noteq> [] then (Ok (), d\<lparr>dr_reader := events, dr_state := CopyWrite bs\<rparr>)
               else
                 (case sink_flush [] (dr_writer d) of
                    (Err _, k) \<Rightarrow> (Err RelayError, d\<lparr>dr_reader := events, dr_writer := k\<rparr>)
                  | (Ok _, k) \<Rightarrow>
                      (case sink_flush [] k of
                         (Err _, k) \<Rightarrow> (Err RelayError, d\<lparr>dr_reader := events, dr_writer := k\<rparr>)
                       | (Ok _, k) \<Rightarrow>
                           (Ok (), d\<lparr>dr_reader := events, dr_writer := k, dr_state := CopyDone\<rparr>)))))"

section \<open>Both directions\<close>

datatype turn = DownstreamToUpstream | UpstreamToDownstream | ForcedShutdown

record tunnel =
  tn_up :: direction
  tn_down :: direction

text \<open>
  The joined future: it fails with the first direction that fails, and it is done when both
  directions are, or at the forced shutdown, which ends both. \<open>None\<close>: the turns are used up.
\<close>

fun relay_loop :: "turn list \<Rightarrow> tunnel \<Rightarrow> (unit, relay_error) result option \<times> tunnel" where
  "relay_loop turns t =
     (if dr_state (tn_up t) = CopyDone \<and> dr_state (tn_down t) = CopyDone then (Some (Ok ()), t)
      else
        case turns of
          [] \<Rightarrow> (None, t)
        | ForcedShutdown # _ \<Rightarrow> (Some (Ok ()), t)
        | DownstreamToUpstream # turns \<Rightarrow>
            (case copy_step (tn_up t) of
               (Err e, d) \<Rightarrow> (Some (Err e), t\<lparr>tn_up := d\<rparr>)
             | (Ok _, d) \<Rightarrow> relay_loop turns (t\<lparr>tn_up := d\<rparr>))
        | UpstreamToDownstream # turns \<Rightarrow>
            (case copy_step (tn_down t) of
               (Err e, d) \<Rightarrow> (Some (Err e), t\<lparr>tn_down := d\<rparr>)
             | (Ok _, d) \<Rightarrow> relay_loop turns (t\<lparr>tn_down := d\<rparr>)))"

declare relay_loop.simps [simp del]

definition tunnel_of :: "tunnel_parts \<Rightarrow> byte_sink \<Rightarrow> tunnel" where
  "tunnel_of parts upstream =
     \<lparr>tn_up = direction_new (fst (tp_downstream parts)) upstream (tp_downstream_prefix parts),
      tn_down = direction_new (cu_stream (tp_upstream parts)) (snd (tp_downstream parts)) (cu_prefix (tp_upstream parts))\<rparr>"

definition relay ::
    "tunnel_parts \<Rightarrow> byte_sink \<Rightarrow> shutdown \<Rightarrow> turn list \<Rightarrow> (unit, relay_error) result option \<times> tunnel" where
  "relay parts upstream s turns =
     (let t = tunnel_of parts upstream
      in if is_forced s then (Some (Ok ()), t)
         else if MAX_PREFIX_BYTES < length (tp_downstream_prefix parts)
           \<or> MAX_PREFIX_BYTES < length (cu_prefix (tp_upstream parts))
         then (Some (Err RelayError), t)
         else relay_loop turns t)"


section \<open>A direction is a pipe\<close>

primrec unsent_of :: "copy_state \<Rightarrow> bytes" where
  "unsent_of (CopyWrite bs) = bs"
| "unsent_of CopyRead = []"
| "unsent_of CopyDone = []"

text \<open>What is written, what is on its way and what is still to be read.\<close>

definition through :: "direction \<Rightarrow> bytes" where
  "through d = sk_out (dr_writer d) @ unsent_of (dr_state d) @ script_data (dr_reader d)"

definition direction_ok :: "direction \<Rightarrow> bool" where
  "direction_ok d \<longleftrightarrow> script_ok (dr_reader d) \<and> (dr_state d = CopyDone \<longrightarrow> dr_reader d = [])"

lemma through_new [simp]: "through (direction_new reader writer bs) = sk_out writer @ bs @ script_data reader"
  by (simp add: through_def direction_new_def)

lemma direction_ok_new [simp]: "direction_ok (direction_new reader writer bs) \<longleftrightarrow> script_ok reader"
  by (simp add: direction_ok_def direction_new_def)

lemma through_prefix: "prefix (sk_out (dr_writer d)) (through d)"
  by (simp add: through_def)

lemma through_done: "direction_ok d \<Longrightarrow> dr_state d = CopyDone \<Longrightarrow> sk_out (dr_writer d) = through d"
  by (simp add: through_def direction_ok_def)

lemma RELAY_BUFFER_pos: "0 < RELAY_BUFFER_BYTES"
  by (simp add: RELAY_BUFFER_BYTES_def)

lemma copy_step_through:
  assumes "copy_step d = (r, d')"
  shows "through d' = through d \<and> (direction_ok d \<longrightarrow> direction_ok d') \<and>
    prefix (sk_out (dr_writer d)) (sk_out (dr_writer d'))"
proof (cases "dr_state d")
  case (CopyWrite bs)
  show ?thesis
  proof (cases "bs = []")
    case True
    then show ?thesis
      using assms CopyWrite by (auto simp: copy_step_def through_def direction_ok_def)
  next
    case False
    obtain x k where w: "sink_write [] bs (dr_writer d) = (x, k)"
      by fastforce
    then show ?thesis
      using assms CopyWrite False sink_write_Ok [of "[]" bs "dr_writer d" _ k] sink_write_Err [of "[]" bs "dr_writer d" _ k]
      by (cases x) (auto simp: copy_step_def through_def direction_ok_def split: if_splits)
  qed
next
  case CopyRead
  obtain x events where read: "io_read RELAY_BUFFER_BYTES (dr_reader d) = (x, events)"
    by fastforce
  show ?thesis
  proof (cases x)
    case None
    then show ?thesis
      using assms CopyRead read io_read_None [of RELAY_BUFFER_BYTES "dr_reader d" events]
      by (auto simp: copy_step_def through_def direction_ok_def)
  next
    case (Some bs)
    note io = io_read_Some [OF read [unfolded Some]]
    show ?thesis
    proof (cases "bs = []")
      case True
      then have "direction_ok d \<longrightarrow> events = [] \<and> dr_reader d = []"
        using io(4) RELAY_BUFFER_pos by (auto simp: direction_ok_def)
      moreover have "script_data events = script_data (dr_reader d)"
        using io(1) True by simp
      ultimately show ?thesis
        using assms CopyRead read Some True
        by (auto simp: copy_step_def through_def direction_ok_def script_ok_def dest!: sink_flush_out
            split: prod.splits result.splits)
    next
      case False
      then show ?thesis
        using assms CopyRead read Some io(1) io(3)
        by (auto simp: copy_step_def through_def direction_ok_def)
    qed
  qed
next
  case CopyDone
  then show ?thesis
    using assms by (simp add: copy_step_def)
qed

section \<open>A direction comes to an end\<close>

fun direction_work :: "direction \<Rightarrow> nat" where
  "direction_work d =
     (case dr_state d of
        CopyDone \<Rightarrow> 0
      | CopyRead \<Rightarrow> 1 + 3 * length (script_data (dr_reader d))
      | CopyWrite bs \<Rightarrow> 2 + length bs + 3 * length (script_data (dr_reader d)))"

declare direction_work.simps [simp del]

lemma copy_step_work:
  assumes "copy_step d = (Ok u, d')" and "dr_state d \<noteq> CopyDone"
  shows "direction_work d' < direction_work d"
proof (cases "dr_state d")
  case (CopyWrite bs)
  then show ?thesis
    using assms
    by (auto simp: copy_step_def direction_work.simps dest!: sink_write_Ok
        split: if_splits prod.splits result.splits)
next
  case CopyRead
  obtain x events where read: "io_read RELAY_BUFFER_BYTES (dr_reader d) = (x, events)"
    by fastforce
  then obtain bs where x: "x = Some bs"
    using assms CopyRead by (cases x) (auto simp: copy_step_def)
  then show ?thesis
    using assms CopyRead read io_read_Some(1) [OF read [unfolded x]]
    by (cases bs) (auto simp: copy_step_def direction_work.simps split: prod.splits result.splits)
qed (use assms in simp)


section \<open>Both directions together\<close>

abbreviation tunnel_done :: "tunnel \<Rightarrow> bool" where
  "tunnel_done t \<equiv> dr_state (tn_up t) = CopyDone \<and> dr_state (tn_down t) = CopyDone"

lemma relay_loop_done: "tunnel_done t \<Longrightarrow> relay_loop turns t = (Some (Ok ()), t)"
  by (simp add: relay_loop.simps [of turns t])

lemma relay_loop_going:
  assumes "\<not> tunnel_done t"
  shows "relay_loop [] t = (None, t)" and "relay_loop (ForcedShutdown # turns) t = (Some (Ok ()), t)"
    and "relay_loop (DownstreamToUpstream # turns) t =
      (case copy_step (tn_up t) of
         (Err e, d) \<Rightarrow> (Some (Err e), t\<lparr>tn_up := d\<rparr>)
       | (Ok _, d) \<Rightarrow> relay_loop turns (t\<lparr>tn_up := d\<rparr>))"
    and "relay_loop (UpstreamToDownstream # turns) t =
      (case copy_step (tn_down t) of
         (Err e, d) \<Rightarrow> (Some (Err e), t\<lparr>tn_down := d\<rparr>)
       | (Ok _, d) \<Rightarrow> relay_loop turns (t\<lparr>tn_down := d\<rparr>))"
  using assms by (simp_all add: relay_loop.simps [of _ t] del: de_Morgan_conj)

lemma relay_loop_through:
  assumes "relay_loop turns t = (r, t')"
  shows "through (tn_up t') = through (tn_up t) \<and> through (tn_down t') = through (tn_down t) \<and>
    (direction_ok (tn_up t) \<longrightarrow> direction_ok (tn_up t')) \<and> (direction_ok (tn_down t) \<longrightarrow> direction_ok (tn_down t')) \<and>
    prefix (sk_out (dr_writer (tn_up t))) (sk_out (dr_writer (tn_up t'))) \<and>
    prefix (sk_out (dr_writer (tn_down t))) (sk_out (dr_writer (tn_down t'))) \<and>
    (r = Some (Ok ()) \<longrightarrow> ForcedShutdown \<notin> set turns \<longrightarrow>
       dr_state (tn_up t') = CopyDone \<and> dr_state (tn_down t') = CopyDone)"
  using assms
proof (induction turns t rule: relay_loop.induct)
  case (1 turns t)
  show ?case
  proof (cases "tunnel_done t")
    case True
    then show ?thesis
      using "1.prems" by (simp add: relay_loop_done)
  next
    case going: False
    show ?thesis
    proof (cases turns)
      case Nil
      then show ?thesis
        using "1.prems" by (auto simp: relay_loop_going [OF going])
    next
      case (Cons turn rest)
      obtain x d where up: "copy_step (tn_up t) = (x, d)" by fastforce
      obtain y e where down: "copy_step (tn_down t) = (y, e)" by fastforce
      note laws = copy_step_through [OF up] copy_step_through [OF down]
      show ?thesis
      proof (cases turn)
        case DownstreamToUpstream
        then show ?thesis
          using "1.prems" Cons up laws "1.IH"(1) [OF going Cons _ up [symmetric]]
          by (cases x) (auto simp: relay_loop_going [OF going])
      next
        case UpstreamToDownstream
        then show ?thesis
          using "1.prems" Cons down laws "1.IH"(2) [OF going Cons _ down [symmetric]]
          by (cases y) (auto simp: relay_loop_going [OF going])
      qed (use "1.prems" Cons in \<open>auto simp: relay_loop_going [OF going]\<close>)
    qed
  qed
qed

lemma relay_loop_ends:
  assumes "direction_work (tn_up t) \<le> count_list turns DownstreamToUpstream"
    and "direction_work (tn_down t) \<le> count_list turns UpstreamToDownstream"
  shows "fst (relay_loop turns t) \<noteq> None"
  using assms
proof (induction turns t rule: relay_loop.induct)
  case (1 turns t)
  show ?case
  proof (cases "tunnel_done t")
    case True
    then show ?thesis
      by (simp add: relay_loop_done)
  next
    case going: False
    show ?thesis
    proof (cases turns)
      case Nil
      then show ?thesis
        using "1.prems" going
        by (auto simp: direction_work.simps split: copy_state.splits)
    next
      case (Cons turn rest)
      obtain x d where up: "copy_step (tn_up t) = (x, d)" by fastforce
      obtain y e where down: "copy_step (tn_down t) = (y, e)" by fastforce
      show ?thesis
      proof (cases turn)
        case DownstreamToUpstream
        have "direction_work d \<le> count_list rest DownstreamToUpstream" if "x = Ok u" for u
          using that up "1.prems"(1) Cons DownstreamToUpstream copy_step_work [of "tn_up t" u d]
          by (cases "dr_state (tn_up t) = CopyDone") (auto simp: copy_step_def direction_work.simps)
        then show ?thesis
          using "1.prems" Cons up DownstreamToUpstream "1.IH"(1) [OF going Cons _ up [symmetric]]
          by (cases x) (auto simp: relay_loop_going [OF going])
      next
        case UpstreamToDownstream
        have "direction_work e \<le> count_list rest UpstreamToDownstream" if "y = Ok u" for u
          using that down "1.prems"(2) Cons UpstreamToDownstream copy_step_work [of "tn_down t" u e]
          by (cases "dr_state (tn_down t) = CopyDone") (auto simp: copy_step_def direction_work.simps)
        then show ?thesis
          using "1.prems" Cons down UpstreamToDownstream "1.IH"(2) [OF going Cons _ down [symmetric]]
          by (cases y) (auto simp: relay_loop_going [OF going])
      qed (use Cons in \<open>simp add: relay_loop_going [OF going]\<close>)
    qed
  qed
qed


text \<open>What a relay delivers of the bytes that it is given to deliver.\<close>

definition delivered :: "bytes \<Rightarrow> bytes \<Rightarrow> direction \<Rightarrow> bool" where
  "delivered before bs d \<longleftrightarrow> (\<exists>p. prefix p bs \<and> sk_out (dr_writer d) = before @ p)"

lemma through_delivered:
  "through d = before @ bs \<Longrightarrow> prefix before (sk_out (dr_writer d)) \<Longrightarrow> delivered before bs d"
  by (auto simp: delivered_def through_def prefix_def)

lemma relay_delivers:
  assumes "relay parts upstream s turns = (r, t)"
  shows "delivered (sk_out upstream) (tp_downstream_prefix parts @ script_data (fst (tp_downstream parts))) (tn_up t)"
    and "delivered (sk_out (snd (tp_downstream parts)))
      (cu_prefix (tp_upstream parts) @ script_data (cu_stream (tp_upstream parts))) (tn_down t)"
proof -
  have "t = tunnel_of parts upstream \<or> (\<exists>r. relay_loop turns (tunnel_of parts upstream) = (r, t))"
    using assms by (auto simp: relay_def Let_def split: if_splits)
  then have "through (tn_up t) = through (tn_up (tunnel_of parts upstream)) \<and>
      through (tn_down t) = through (tn_down (tunnel_of parts upstream)) \<and>
      prefix (sk_out upstream) (sk_out (dr_writer (tn_up t))) \<and>
      prefix (sk_out (snd (tp_downstream parts))) (sk_out (dr_writer (tn_down t)))"
    using relay_loop_through by (fastforce simp: tunnel_of_def direction_new_def)
  then show "delivered (sk_out upstream) (tp_downstream_prefix parts @ script_data (fst (tp_downstream parts))) (tn_up t)"
    and "delivered (sk_out (snd (tp_downstream parts)))
      (cu_prefix (tp_upstream parts) @ script_data (cu_stream (tp_upstream parts))) (tn_down t)"
    by (simp_all add: through_delivered tunnel_of_def)
qed

lemma relay_complete:
  assumes "relay parts upstream s turns = (Some (Ok ()), t)" and "ForcedShutdown \<notin> set turns" and "\<not> is_forced s"
    and "script_ok (fst (tp_downstream parts))" and "script_ok (cu_stream (tp_upstream parts))"
  shows "sk_out (dr_writer (tn_up t)) =
      sk_out upstream @ tp_downstream_prefix parts @ script_data (fst (tp_downstream parts))"
    and "sk_out (dr_writer (tn_down t)) =
      sk_out (snd (tp_downstream parts)) @ cu_prefix (tp_upstream parts) @ script_data (cu_stream (tp_upstream parts))"
proof -
  have "relay_loop turns (tunnel_of parts upstream) = (Some (Ok ()), t)"
    using assms(1,3) by (auto simp: relay_def Let_def split: if_splits)
  from relay_loop_through [OF this] assms(2,4,5)
  show "sk_out (dr_writer (tn_up t)) =
      sk_out upstream @ tp_downstream_prefix parts @ script_data (fst (tp_downstream parts))"
    and "sk_out (dr_writer (tn_down t)) =
      sk_out (snd (tp_downstream parts)) @ cu_prefix (tp_upstream parts) @ script_data (cu_stream (tp_upstream parts))"
    by (auto simp: tunnel_of_def dest!: through_done)
qed

text \<open>
  C16: a tunnel does not hang. Every turn of a direction either hands on bytes, takes bytes from
  its finite stream, or ends the direction, so the relay has an outcome after a number of turns
  that is linear in the bytes of the two streams, in whatever order the turns come.
\<close>

theorem tunnel_ends:
  assumes "direction_work (tn_up (tunnel_of parts upstream)) \<le> count_list turns DownstreamToUpstream"
    and "direction_work (tn_down (tunnel_of parts upstream)) \<le> count_list turns UpstreamToDownstream"
  shows "fst (relay parts upstream s turns) \<noteq> None"
  using relay_loop_ends [OF assms] by (auto simp: relay_def Let_def)

definition example_parts :: tunnel_parts where
  "example_parts =
     \<lparr>tp_downstream = ([ReadData ''b''], \<lparr>sk_events = [], sk_out = []\<rparr>), tp_downstream_prefix = ''a'',
      tp_upstream = \<lparr>cu_stream = [], cu_prefix = ''x'', cu_registration = 0\<rparr>\<rparr>"

theorem tunnel_ends_witness:
  "fst (relay example_parts \<lparr>sk_events = [Accepts 1], sk_out = []\<rparr> shutdown_new
     (replicate 6 DownstreamToUpstream @ replicate 3 UpstreamToDownstream)) \<noteq> None"
  by (rule tunnel_ends) (simp_all add: example_parts_def tunnel_of_def direction_new_def direction_work.simps
      numeral_eq_Suc)

end
