(* ===== verification/Supervisor.thy ===== *)
theory Supervisor
  imports Relay
begin

text \<open>
  A client's task and the supervisor of all of them (\<open>proxy/src/server/listener.rs\<close>). The tasks
  of the clients are the leases they hold; what they and everybody else do to the shared state
  between two turns of the supervisor is a function that comes with the events. The events of
  the biased select are given in the order in which they become ready.
\<close>

section \<open>One client\<close>

text \<open>
  \<open>upstream\<close> is the write side of a tunnel's upstream from the hand-over on. \<open>None\<close> as in
  \<open>serve_connection_io\<close> and \<open>relay_loop\<close>: the given turns end before the connection does.
\<close>

definition serve_client ::
    "'h http_crate \<Rightarrow> context_config \<Rightarrow> serve_env list \<Rightarrow> read_event list \<times> byte_sink \<Rightarrow> byte_sink \<Rightarrow> turn list
       \<Rightarrow> proxy_state \<Rightarrow> ('h request_head list \<times> (unit, relay_error) result option \<times> tunnel option
                          \<times> client \<times> proxy_state) option" where
  "serve_client H cfg envs stream upstream turns st =
     Option.bind (serve_connection_io H cfg envs stream st) (\<lambda>(r, heads, c, contacts, st).
       case r of
         Ok Complete \<Rightarrow> Some (heads, None, None, c, st)
       | Ok (Tunnel parts) \<Rightarrow>
           (case relay parts upstream (px_shutdown st) turns of
              (None, t) \<Rightarrow> None
            | (Some result, t) \<Rightarrow>
                (let st = st\<lparr>px_resources := drop_managed (cu_registration (tp_upstream parts)) (px_resources st),
                             px_audit := (case result of Ok _ \<Rightarrow> px_audit st | Err e \<Rightarrow> report e (px_audit st))\<rparr>
                 in Some (heads, Some result, Some t, c, st)))
       | Err e \<Rightarrow> Some (heads, None, None, c, st\<lparr>px_audit := report e (px_audit st)\<rparr>))"

definition ESTABLISHED :: bytes where
  "ESTABLISHED = ''HTTP/1.1 200 Connection Established'' @ CRLF @ CRLF"

lemma write_connect_established_Ok:
  assumes "write_connect_established_drain_aware k = (Ok True, k')"
  shows "sk_out k' = sk_out k @ ESTABLISHED"
proof -
  obtain written k1 where c: "commit_head_before_drain ESTABLISHED k = (Ok (Some written), k1)"
    and w: "\<exists>k2. write_all [ShutdownForces] (drop written ESTABLISHED) k1 = (Ok (), k2) \<and>
      sink_flush [ShutdownForces] k2 = (Ok (), k')"
    using assms unfolding write_connect_established_drain_aware_def ESTABLISHED_def [symmetric] Let_def
    by (auto split: prod.split_asm result.split_asm option.split_asm)
  have "sk_out k1 = sk_out k @ take written ESTABLISHED"
    using c sink_write_Ok [of "[ShutdownBegins, ShutdownForces]" ESTABLISHED k written k1]
    by (auto simp: commit_head_before_drain_def commit_head_def
        split: prod.split_asm result.split_asm write_error.split_asm if_split_asm)
  with w show ?thesis
    by (auto dest!: write_all_Ok sink_flush_out)
qed

lemma serve_connect_established:
  assumes "serve_connect H cfg env head c st = Some (Ok (Some (Tunnel parts)), c', contacts, st')"
  shows "sk_out (snd (tp_downstream parts)) = sk_out (snd c) @ ESTABLISHED"
proof -
  have plain: "\<not> (contains_key H (rh_headers head) ''transfer-encoding''
      \<or> contains_key H (rh_headers head) ''content-length'' \<or> rh_expect head)"
    using assms by (auto simp: serve_connect_def Let_def split: prod.split_asm)
  have here: "se_connect_peer env \<noteq> ClosedBefore"
    using assms plain by (auto simp: serve_connect_def)
  obtain upstream contacts1 st1 where connect: "connect_http1 cfg (se_net env) head st = Some (upstream, contacts1, st1)"
    using assms plain here by (auto simp: serve_connect_def bind_eq_Some_conv)
  have stays: "se_connect_peer env \<noteq> ClosedDuring"
    using assms plain connect here by (auto simp: serve_connect_def)
  obtain u where u: "upstream = Ok u"
    using assms plain connect here stays
    by (cases upstream) (auto simp: serve_connect_def split: prod.split_asm result.split_asm if_split_asm)
  obtain x k where w: "write_connect_established_drain_aware (snd c) = (x, k)"
    by fastforce
  have "x = Ok True \<and> snd (tp_downstream parts) = k"
    using assms plain connect here stays w
    by (auto simp: serve_connect_def u split: prod.split_asm result.split_asm if_split_asm)
  then show ?thesis
    using write_connect_established_Ok [of "snd c" k] w by simp
qed

lemma serve_requests_established:
  assumes "serve_requests H cfg envs c st = Some (Ok (Tunnel parts), heads, c', contacts, st')"
  shows "\<exists>before. sk_out (snd (tp_downstream parts)) = before @ ESTABLISHED"
  using assms
proof (induction envs arbitrary: c st heads contacts)
  case (Cons env envs)
  obtain x c1 where rd: "read_request_head H env c st = (x, c1)"
    by (cases "read_request_head H env c st")
  obtain head where x: "x = Some head"
    using Cons.prems rd by (cases x) auto
  show ?case
  proof (cases "\<exists>c2 st2 heads2 contacts2. serve_requests H cfg envs c2 st2 = Some (Ok (Tunnel parts), heads2, c', contacts2, st')")
    case True
    then show ?thesis
      using Cons.IH by blast
  next
    case False
    have "\<exists>c2 contacts2. serve_connect H cfg env head c1 (se_others env st) = Some (Ok (Some (Tunnel parts)), c2, contacts2, st')"
    proof (cases "rh_method head = ''CONNECT''")
      case connect: True
      obtain y c2 contacts2 st2 where run: "serve_connect H cfg env head c1 (se_others env st) = Some (y, c2, contacts2, st2)"
        using Cons.prems rd x connect by (auto simp: bind_eq_Some_conv)
      obtain z where y: "y = Ok (Some z)"
        using Cons.prems rd x connect run False
        by (cases c2; cases y; cases "the (ok y)") auto
      show ?thesis
        using Cons.prems rd x connect run y by simp
    next
      case other: False
      obtain y c2 contacts2 st2 where run: "serve_http_request H cfg env head c1 (se_others env st) = Some (y, c2, contacts2, st2)"
        using Cons.prems rd x other by (auto simp: bind_eq_Some_conv)
      have "y \<noteq> Ok False"
        using Cons.prems rd x other run False by (cases c2) auto
      then show ?thesis
        using Cons.prems rd x other run by (cases y) (auto split: if_split_asm)
    qed
    then show ?thesis
      using serve_connect_established by blast
  qed
qed simp

text \<open>A client above the limit gets one attempt at a constant reply.\<close>

definition reject_overload :: "byte_sink \<Rightarrow> byte_sink" where
  "reject_overload k = snd (sink_write [] OVERLOAD_RESPONSE k)"

section \<open>Task results\<close>

datatype joined = JoinedOk | JoinedErr | JoinedPanic | JoinedCancelled

datatype task_outcome = Completed | Failed | JoinFailed | Aborted

definition report_task_result :: "joined \<Rightarrow> bool \<Rightarrow> audit \<Rightarrow> task_outcome \<times> audit" where
  "report_task_result joined aborted a =
     (case joined of
        JoinedOk \<Rightarrow> (Completed, a)
      | JoinedErr \<Rightarrow> (Failed, report joined a)
      | JoinedCancelled \<Rightarrow> if aborted then (Aborted, a) else (JoinFailed, report joined a)
      | JoinedPanic \<Rightarrow> (JoinFailed, report joined a))"

record drain_summary =
  ds_completed :: nat
  ds_failed :: nat
  ds_join_failed :: nat
  ds_aborted :: nat

definition drain_summary_new :: drain_summary where
  "drain_summary_new = \<lparr>ds_completed = 0, ds_failed = 0, ds_join_failed = 0, ds_aborted = 0\<rparr>"

primrec drain_record :: "task_outcome \<Rightarrow> drain_summary \<Rightarrow> drain_summary" where
  "drain_record Completed d = d\<lparr>ds_completed := ds_completed d + 1\<rparr>"
| "drain_record Failed d = d\<lparr>ds_failed := ds_failed d + 1\<rparr>"
| "drain_record JoinFailed d = d\<lparr>ds_join_failed := ds_join_failed d + 1\<rparr>"
| "drain_record Aborted d = d\<lparr>ds_aborted := ds_aborted d + 1\<rparr>"

section \<open>The supervisor\<close>

definition GRACEFUL_SHUTDOWN_TIMEOUT :: nat where "GRACEFUL_SHUTDOWN_TIMEOUT = 5"

datatype supervisor_event =
    TaskJoined nat joined
  | SweepTick nat
  | ClientAccepted byte_sink
  | AcceptFailed
  | DeadlineReached
  | OthersRun "proxy_state \<Rightarrow> proxy_state"

record supervisor =
  sv_listening :: bool
  sv_state :: proxy_state
  sv_clients :: "nat list"
  sv_rejected :: "byte_sink list"

datatype run_error = ClientTaskFailed | ListenerAcceptFailed | SocketCleanupFailed

definition supervisor_new :: "proxy_state \<Rightarrow> supervisor" where
  "supervisor_new st = \<lparr>sv_listening = True, sv_state = st, sv_clients = [], sv_rejected = []\<rparr>"

text \<open>A task that is joined has dropped its lease.\<close>

definition join_task :: "nat \<Rightarrow> joined \<Rightarrow> bool \<Rightarrow> supervisor \<Rightarrow> task_outcome \<times> supervisor" where
  "join_task i joined aborted sv =
     (let st = sv_state sv in
      case report_task_result joined aborted (px_audit st) of
        (outcome, a) \<Rightarrow>
          (outcome, sv\<lparr>sv_state := st\<lparr>px_resources := drop_client i (px_resources st), px_audit := a\<rparr>,
                       sv_clients := remove1 i (sv_clients sv)\<rparr>))"

definition accept_client :: "byte_sink \<Rightarrow> supervisor \<Rightarrow> supervisor" where
  "accept_client k sv =
     (case try_admit_client (px_resources (sv_state sv)) of
        Some (i, resources) \<Rightarrow>
          sv\<lparr>sv_state := (sv_state sv)\<lparr>px_resources := resources\<rparr>, sv_clients := i # sv_clients sv\<rparr>
      | None \<Rightarrow> sv\<lparr>sv_rejected := sv_rejected sv @ [reject_overload k]\<rparr>)"

text \<open>
  The loop of \<open>run\<close>; it gives the events that are left. Only a task that runs can be joined,
  and nothing listens for the deadline here.
\<close>

fun run_loop ::
    "context_config \<Rightarrow> supervisor_event list \<Rightarrow> supervisor
       \<Rightarrow> ((unit, run_error) result \<times> supervisor_event list \<times> supervisor) option" where
  "run_loop cfg events sv =
     (if is_requested (px_shutdown (sv_state sv)) then Some (Ok (), events, sv)
      else
        case events of
          [] \<Rightarrow> None
        | TaskJoined i joined # events \<Rightarrow>
            if i \<in> set (sv_clients sv) then
              (case join_task i joined False sv of
                 (Completed, sv) \<Rightarrow> run_loop cfg events sv
               | (_, sv) \<Rightarrow> Some (Err ClientTaskFailed, events, sv))
            else run_loop cfg events sv
        | SweepTick now # events \<Rightarrow> run_loop cfg events (sv\<lparr>sv_state := prune_idle now cfg (sv_state sv)\<rparr>)
        | ClientAccepted k # events \<Rightarrow> run_loop cfg events (accept_client k sv)
        | AcceptFailed # events \<Rightarrow> Some (Err ListenerAcceptFailed, events, sv)
        | DeadlineReached # events \<Rightarrow> run_loop cfg events sv
        | OthersRun f # events \<Rightarrow> run_loop cfg events (sv\<lparr>sv_state := f (sv_state sv)\<rparr>))"

declare run_loop.simps [simp del]

text \<open>
  Aborting: every task that is left is joined; \<open>ends\<close> says with which result, and what dropping
  the task does to the shared state.
\<close>

fun abort_all ::
    "(nat \<Rightarrow> joined \<times> (proxy_state \<Rightarrow> proxy_state)) \<Rightarrow> nat list \<Rightarrow> drain_summary \<Rightarrow> supervisor
       \<Rightarrow> drain_summary \<times> supervisor" where
  "abort_all ends [] summary sv = (summary, sv)"
| "abort_all ends (i # clients) summary sv =
     (case ends i of
        (joined, f) \<Rightarrow>
          (case join_task i joined True (sv\<lparr>sv_state := f (sv_state sv)\<rparr>) of
             (outcome, sv) \<Rightarrow> abort_all ends clients (drain_record outcome summary) sv))"

fun drain_loop_tasks ::
    "supervisor_event list \<Rightarrow> drain_summary \<Rightarrow> supervisor \<Rightarrow> (drain_summary \<times> supervisor) option" where
  "drain_loop_tasks events summary sv =
     (if sv_clients sv = [] \<or> is_forced (px_shutdown (sv_state sv)) then Some (summary, sv)
      else
        case events of
          [] \<Rightarrow> None
        | DeadlineReached # events \<Rightarrow> Some (summary, sv)
        | TaskJoined i joined # events \<Rightarrow>
            if i \<in> set (sv_clients sv) then
              (case join_task i joined False sv of
                 (outcome, sv) \<Rightarrow> drain_loop_tasks events (drain_record outcome summary) sv)
            else drain_loop_tasks events summary sv
        | OthersRun f # events \<Rightarrow> drain_loop_tasks events summary (sv\<lparr>sv_state := f (sv_state sv)\<rparr>)
        | _ # events \<Rightarrow> drain_loop_tasks events summary sv)"

declare drain_loop_tasks.simps [simp del]

definition drain_tasks ::
    "nat \<Rightarrow> (nat \<Rightarrow> joined \<times> (proxy_state \<Rightarrow> proxy_state)) \<Rightarrow> supervisor_event list \<Rightarrow> supervisor \<Rightarrow> (drain_summary \<times> supervisor) option" where
  "drain_tasks now ends events sv =
     map_option (\<lambda>(summary, sv).
         if sv_clients sv = [] then (summary, sv)
         else
           (let st = sv_state sv;
                st = st\<lparr>px_resources := force_close_all (px_resources st), px_shutdown := force now (px_shutdown st)\<rparr>
            in abort_all ends (sv_clients sv) summary (sv\<lparr>sv_state := st\<rparr>)))
       (drain_loop_tasks events drain_summary_new sv)"

definition run ::
    "context_config \<Rightarrow> nat \<Rightarrow> (nat \<Rightarrow> joined \<times> (proxy_state \<Rightarrow> proxy_state)) \<Rightarrow> supervisor_event list \<Rightarrow> supervisor
       \<Rightarrow> ((unit, run_error) result \<times> supervisor) option" where
  "run cfg now ends events sv =
     Option.bind (run_loop cfg events sv) (\<lambda>(outcome, events, sv).
       let st = sv_state sv;
           st = close_idle cfg (st\<lparr>px_shutdown := request now (px_shutdown st)\<rparr>);
           sv = sv\<lparr>sv_listening := False, sv_state := st\<rparr>
       in map_option (\<lambda>(summary, sv).
            let outcome = (if ds_failed summary \<noteq> 0 \<or> ds_join_failed summary \<noteq> 0 then Err ClientTaskFailed else outcome);
                st = sv_state sv
            in if registered_sockets (px_resources st) \<noteq> 0
               then (Err SocketCleanupFailed, sv\<lparr>sv_state := st\<lparr>px_shutdown := force now (px_shutdown st)\<rparr>\<rparr>)
               else (outcome, sv))
            (drain_tasks now ends events sv))"


lemma run_loop_going:
  assumes "\<not> is_requested (px_shutdown (sv_state sv))"
  shows "run_loop cfg [] sv = None"
    and "run_loop cfg (TaskJoined i joined # events) sv =
      (if i \<in> set (sv_clients sv) then
         (case join_task i joined False sv of
            (Completed, sv) \<Rightarrow> run_loop cfg events sv
          | (_, sv) \<Rightarrow> Some (Err ClientTaskFailed, events, sv))
       else run_loop cfg events sv)"
    and "run_loop cfg (SweepTick now # events) sv =
      run_loop cfg events (sv\<lparr>sv_state := prune_idle now cfg (sv_state sv)\<rparr>)"
    and "run_loop cfg (ClientAccepted k # events) sv = run_loop cfg events (accept_client k sv)"
    and "run_loop cfg (AcceptFailed # events) sv = Some (Err ListenerAcceptFailed, events, sv)"
    and "run_loop cfg (DeadlineReached # events) sv = run_loop cfg events sv"
    and "run_loop cfg (OthersRun f # events) sv = run_loop cfg events (sv\<lparr>sv_state := f (sv_state sv)\<rparr>)"
  using assms by (simp_all add: run_loop.simps [of cfg _ sv])

lemma drain_loop_going:
  assumes "\<not> (sv_clients sv = [] \<or> is_forced (px_shutdown (sv_state sv)))"
  shows "drain_loop_tasks [] summary sv = None"
    and "drain_loop_tasks (TaskJoined i joined # events) summary sv =
      (if i \<in> set (sv_clients sv) then
         (case join_task i joined False sv of
            (outcome, sv) \<Rightarrow> drain_loop_tasks events (drain_record outcome summary) sv)
       else drain_loop_tasks events summary sv)"
    and "drain_loop_tasks (SweepTick now # events) summary sv = drain_loop_tasks events summary sv"
    and "drain_loop_tasks (ClientAccepted k # events) summary sv = drain_loop_tasks events summary sv"
    and "drain_loop_tasks (AcceptFailed # events) summary sv = drain_loop_tasks events summary sv"
    and "drain_loop_tasks (DeadlineReached # events) summary sv = Some (summary, sv)"
    and "drain_loop_tasks (OthersRun f # events) summary sv =
      drain_loop_tasks events summary (sv\<lparr>sv_state := f (sv_state sv)\<rparr>)"
  using assms by (simp_all add: drain_loop_tasks.simps [of _ summary sv])

section \<open>What the supervisor keeps\<close>

text \<open>
  What others may do to the shared state: they hold no client leases, they do not take back a
  request to shut down, and they leave a closed pool empty, as the operations of the pool do.
\<close>

definition pool_shut :: "('k, 'v) idle_pool_data \<Rightarrow> bool" where
  "pool_shut pool \<longleftrightarrow> po_closed pool \<and> po_entries pool = []"

definition calm :: "(proxy_state \<Rightarrow> proxy_state) \<Rightarrow> bool" where
  "calm f \<longleftrightarrow> (\<forall>st.
     pr_client (px_resources (f st)) = pr_client (px_resources st) \<and>
     (is_requested (px_shutdown st) \<longrightarrow> is_requested (px_shutdown (f st))) \<and>
     (pool_shut (px_public_pool st) \<longrightarrow> pool_shut (px_public_pool (f st))) \<and>
     (pool_shut (px_local_pool st) \<longrightarrow> pool_shut (px_local_pool (f st))))"

definition leases_counted :: "nat \<Rightarrow> supervisor \<Rightarrow> bool" where
  "leases_counted limit sv \<longleftrightarrow>
     permits_inv limit (length (sv_clients sv)) (pr_client (px_resources (sv_state sv)))"

definition closing :: "context_config \<Rightarrow> supervisor \<Rightarrow> bool" where
  "closing cfg sv \<longleftrightarrow> \<not> sv_listening sv \<and> is_requested (px_shutdown (sv_state sv)) \<and>
     pool_shut (px_public_pool (sv_state sv)) \<and>
     (cc_local cfg \<noteq> None \<longrightarrow> pool_shut (px_local_pool (sv_state sv)))"

lemma join_task_keeps:
  assumes "join_task i joined aborted sv = (outcome, sv')"
  shows "sv_clients sv' = remove1 i (sv_clients sv)"
    and "i \<in> set (sv_clients sv) \<Longrightarrow> leases_counted limit sv \<Longrightarrow> leases_counted limit sv'"
    and "closing cfg sv \<Longrightarrow> closing cfg sv'"
  using assms length_remove1_Suc [of i "sv_clients sv"]
  by (auto simp: join_task_def Let_def leases_counted_def closing_def drop_client_def
      intro: permits_inv_drop split: prod.splits)

lemma accept_client_counted: "leases_counted limit sv \<Longrightarrow> leases_counted limit (accept_client k sv)"
  by (auto simp: accept_client_def leases_counted_def try_admit_client_def intro: permits_inv_acquire
      split: option.splits prod.splits)

lemma prune_idle_counted:
  "leases_counted limit (sv\<lparr>sv_state := prune_idle now cfg (sv_state sv)\<rparr>) \<longleftrightarrow> leases_counted limit sv"
  by (simp add: leases_counted_def prune_idle_def)

lemma calm_keeps:
  assumes "calm f"
  shows "leases_counted limit sv \<Longrightarrow> leases_counted limit (sv\<lparr>sv_state := f (sv_state sv)\<rparr>)"
    and "closing cfg sv \<Longrightarrow> closing cfg (sv\<lparr>sv_state := f (sv_state sv)\<rparr>)"
  using assms by (auto simp: calm_def leases_counted_def closing_def)

definition calm_events :: "supervisor_event list \<Rightarrow> bool" where
  "calm_events events \<longleftrightarrow> (\<forall>f. OthersRun f \<in> set events \<longrightarrow> calm f)"

lemma run_loop_counted:
  assumes "run_loop cfg events sv = Some (r, rest, sv')" and "calm_events events" and "leases_counted limit sv"
  shows "leases_counted limit sv' \<and> calm_events rest"
  using assms
proof (induction cfg events sv rule: run_loop.induct)
  case (1 cfg events sv)
  show ?case
  proof (cases "is_requested (px_shutdown (sv_state sv))")
    case True
    then show ?thesis
      using "1.prems" by (simp add: run_loop.simps [of cfg events sv])
  next
    case going: False
    note eq = run_loop_going [OF going]
    show ?thesis
    proof (cases events)
      case Nil
      then show ?thesis
        using "1.prems"(1) by (simp add: eq)
    next
      case (Cons e es)
      then have calm: "calm_events es"
        using "1.prems"(2) by (simp add: calm_events_def)
      show ?thesis
      proof (cases e)
        case (TaskJoined i joined)
        obtain outcome sv1 where j: "join_task i joined False sv = (outcome, sv1)" by fastforce
        note k = join_task_keeps(2) [OF j]
        show ?thesis
          using "1.prems"(1,3) "1.IH"(1) [OF going Cons TaskJoined _ j [symmetric]] "1.IH"(2) [OF going Cons TaskJoined]
            Cons TaskJoined j k [of limit] calm
          by (cases outcome) (auto simp: eq split: if_splits)
      next
        case (SweepTick now)
        then show ?thesis
          using "1.prems"(1,3) "1.IH"(3) [OF going Cons SweepTick] Cons calm by (simp add: eq prune_idle_counted)
      next
        case (ClientAccepted k)
        then show ?thesis
          using "1.prems"(1,3) "1.IH"(4) [OF going Cons ClientAccepted] Cons calm accept_client_counted
          by (simp add: eq)
      next
        case AcceptFailed
        then show ?thesis
          using "1.prems"(1,3) Cons calm by (simp add: eq)
      next
        case DeadlineReached
        then show ?thesis
          using "1.prems"(1,3) "1.IH"(5) [OF going Cons DeadlineReached] Cons calm by (simp add: eq)
      next
        case (OthersRun f)
        have "calm f"
          using "1.prems"(2) Cons OthersRun by (simp add: calm_events_def)
        then show ?thesis
          using OthersRun "1.prems"(1,3) "1.IH"(6) [OF going Cons OthersRun] Cons calm calm_keeps(1)
          by (simp add: eq)
      qed
    qed
  qed
qed


lemma drain_loop_keeps:
  assumes "drain_loop_tasks events summary sv = Some (summary', sv')" and "calm_events events"
    and "leases_counted limit sv" and "closing cfg sv"
  shows "leases_counted limit sv' \<and> closing cfg sv'"
  using assms
proof (induction events summary sv rule: drain_loop_tasks.induct)
  case (1 events summary sv)
  show ?case
  proof (cases "sv_clients sv = [] \<or> is_forced (px_shutdown (sv_state sv))")
    case True
    then show ?thesis
      using "1.prems" by (auto simp: drain_loop_tasks.simps [of events summary sv])
  next
    case going: False
    note eq = drain_loop_going [OF going]
    show ?thesis
    proof (cases events)
      case Nil
      then show ?thesis
        using "1.prems"(1) by (simp add: eq)
    next
      case (Cons e es)
      then have calm: "calm_events es"
        using "1.prems"(2) by (simp add: calm_events_def)
      note prems = "1.prems" [unfolded Cons]
      show ?thesis
      proof (cases e)
        case (TaskJoined i joined)
        obtain outcome sv1 where j: "join_task i joined False sv = (outcome, sv1)" by fastforce
        show ?thesis
          using prems "1.IH"(1) [OF going Cons TaskJoined _ j [symmetric]] "1.IH"(2) [OF going Cons TaskJoined]
            TaskJoined j join_task_keeps(2,3) [OF j] calm
          by (auto simp: eq split: if_splits)
      next
        case (OthersRun f)
        have "calm f"
          using prems(2) OthersRun by (simp add: calm_events_def)
        then show ?thesis
          using OthersRun prems "1.IH"(6) [OF going Cons OthersRun] calm calm_keeps [of f]
          by (simp add: eq)
      next
        case (SweepTick now)
        then show ?thesis
          using prems "1.IH"(3) [OF going Cons SweepTick] calm by (simp add: eq)
      next
        case (ClientAccepted k)
        then show ?thesis
          using prems "1.IH"(4) [OF going Cons ClientAccepted] calm by (simp add: eq)
      next
        case AcceptFailed
        then show ?thesis
          using prems "1.IH"(5) [OF going Cons AcceptFailed] calm by (simp add: eq)
      qed (use prems in \<open>simp add: eq\<close>)
    qed
  qed
qed

lemma drain_tasks_end:
  assumes "DeadlineReached \<in> set events"
  shows "\<exists>r. drain_loop_tasks events summary sv = Some r"
  using assms
proof (induction events summary sv rule: drain_loop_tasks.induct)
  case (1 events summary sv)
  show ?case
  proof (cases "sv_clients sv = [] \<or> is_forced (px_shutdown (sv_state sv))")
    case going: False
    obtain e es where Cons: "events = e # es"
      using "1.prems" by (cases events) auto
    show ?thesis
    proof (cases e)
      case (TaskJoined i joined)
      obtain outcome sv1 where j: "join_task i joined False sv = (outcome, sv1)" by fastforce
      show ?thesis
        using "1.prems" "1.IH"(1) [OF going Cons TaskJoined _ j [symmetric]] "1.IH"(2) [OF going Cons TaskJoined]
          Cons TaskJoined j
        by (auto simp: drain_loop_going [OF going])
    qed (use "1.prems" "1.IH"(3-) [OF going Cons] Cons in \<open>auto simp: drain_loop_going [OF going]\<close>)
  qed (simp add: drain_loop_tasks.simps)
qed

lemma abort_all_keeps:
  assumes "abort_all ends clients summary sv = (summary', sv')" and "\<And>i. calm (snd (ends i))"
    and "leases_counted limit sv" and "closing cfg sv" and "sv_clients sv = clients"
  shows "leases_counted limit sv' \<and> closing cfg sv' \<and> sv_clients sv' = []"
  using assms
proof (induction ends clients summary sv rule: abort_all.induct)
  case (2 ends i clients summary sv)
  obtain joined f where e: "ends i = (joined, f)" by fastforce
  let ?sv = "sv\<lparr>sv_state := f (sv_state sv)\<rparr>"
  obtain outcome sv1 where j: "join_task i joined True ?sv = (outcome, sv1)" by fastforce
  have "calm f"
    using "2.prems"(2) [of i] e by simp
  from calm_keeps [OF this] have "leases_counted limit ?sv" and "closing cfg ?sv"
    using "2.prems" by simp_all
  then show ?case
    using "2.IH" [OF e [symmetric] j [symmetric]] "2.prems" e j join_task_keeps [OF j] by simp
qed simp


lemma drain_tasks_keeps:
  assumes "drain_tasks now ends events sv = Some (summary, sv')" and "calm_events events" and "\<And>i. calm (snd (ends i))"
    and "leases_counted limit sv" and "closing cfg sv"
  shows "leases_counted limit sv' \<and> closing cfg sv' \<and> sv_clients sv' = []"
proof -
  obtain summary1 sv1 where d: "drain_loop_tasks events drain_summary_new sv = Some (summary1, sv1)"
    using assms(1) by (auto simp: drain_tasks_def)
  note k = drain_loop_keeps [OF d assms(2,4,5)]
  show ?thesis
  proof (cases "sv_clients sv1 = []")
    case True
    then show ?thesis
      using assms(1) d k by (simp add: drain_tasks_def)
  next
    case False
    let ?st = "sv_state sv1\<lparr>px_resources := force_close_all (px_resources (sv_state sv1)),
        px_shutdown := force now (px_shutdown (sv_state sv1))\<rparr>"
    let ?sv = "sv1\<lparr>sv_state := ?st\<rparr>"
    have "abort_all ends (sv_clients sv1) summary1 ?sv = (summary, sv')"
      using assms(1) d False by (simp add: drain_tasks_def Let_def)
    moreover have "leases_counted limit ?sv" and "closing cfg ?sv"
      using k by (simp_all add: leases_counted_def closing_def force_close_all_def force_def request_def is_requested_def)
    ultimately show ?thesis
      using abort_all_keeps assms(3) by fastforce
  qed
qed

text \<open>
  C4: the proxy always shuts down, and it leaves nothing behind. Once the accept loop has ended,
  for a requested shutdown, a failed task or a failed listener, the supervisor returns at the
  latest when the grace period is over, whatever the clients do. By then it no longer listens,
  every admitted client's task is joined and every lease is back, both pools are closed and
  empty; and it reports success only if the shutdown was asked for and no socket is left.
\<close>

theorem shutdown_completes:
  assumes "run_loop cfg events (supervisor_new st) = Some (outcome, rest, sv)" and "DeadlineReached \<in> set rest"
    and "permits_inv limit 0 (pr_client (px_resources st))"
    and "calm_events events" and "\<And>i. calm (snd (ends i))"
  shows "\<exists>outcome' sv'. run cfg now ends events (supervisor_new st) = Some (outcome', sv') \<and>
    sv_clients sv' = [] \<and> permits_inv limit 0 (pr_client (px_resources (sv_state sv'))) \<and> closing cfg sv' \<and>
    (outcome' = Ok () \<longrightarrow> outcome = Ok () \<and> registered_sockets (px_resources (sv_state sv')) = 0)"
proof -
  let ?st = "close_idle cfg (sv_state sv\<lparr>px_shutdown := request now (px_shutdown (sv_state sv))\<rparr>)"
  let ?sv = "sv\<lparr>sv_listening := False, sv_state := ?st\<rparr>"
  have "leases_counted limit (supervisor_new st)"
    using assms(3) by (simp add: leases_counted_def supervisor_new_def)
  from run_loop_counted [OF assms(1,4) this] have "leases_counted limit sv" and calm: "calm_events rest"
    by simp_all
  then have counted: "leases_counted limit ?sv"
    by (simp add: leases_counted_def close_idle_def)
  have closing: "closing cfg ?sv"
    by (simp add: closing_def close_idle_def request_def is_requested_def pool_shut_def close_pool_def
        broker_close_pool_def pool_close_def)
  have "drain_tasks now ends rest ?sv \<noteq> None"
    using drain_tasks_end [OF assms(2), of drain_summary_new ?sv] by (auto simp: drain_tasks_def)
  then obtain summary sv2 where d: "drain_tasks now ends rest ?sv = Some (summary, sv2)"
    by auto
  note k = drain_tasks_keeps [OF d calm assms(5) counted closing]
  show ?thesis
    using k d assms(1)
    by (auto simp: run_def Let_def leases_counted_def closing_def force_def request_def is_requested_def)
qed

text \<open>A client that does not finish is aborted when the grace period is over.\<close>

definition example_events :: "supervisor_event list" where
  "example_events =
     [ClientAccepted \<lparr>sk_events = [], sk_out = []\<rparr>,
      OthersRun (\<lambda>st. st\<lparr>px_shutdown := request 7 (px_shutdown st)\<rparr>), DeadlineReached]"

theorem shutdown_completes_witness:
  "\<exists>outcome sv. run example_context 9 (\<lambda>_. (JoinedCancelled, \<lambda>st. st)) example_events (supervisor_new example_state)
     = Some (outcome, sv) \<and> sv_clients sv = [] \<and> closing example_context sv"
proof -
  let ?loop = "run_loop example_context example_events (supervisor_new example_state)"
  have "case ?loop of Some (_, rest, sv) \<Rightarrow> DeadlineReached \<in> set rest \<and> sv_clients sv = [0] | None \<Rightarrow> False"
    by (simp add: example_events_def supervisor_new_def example_state_def run_loop.simps accept_client_def
        shutdown_new_def request_def is_requested_def production_def with_limits_def try_admit_client_def
        try_acquire_def admission_new_def MAX_CLIENT_CONNECTIONS_def register_def registry_new_def)
  then obtain outcome rest sv where run: "?loop = Some (outcome, rest, sv)" and "DeadlineReached \<in> set rest"
    by (auto split: option.splits)
  moreover have "permits_inv MAX_CLIENT_CONNECTIONS 0 (pr_client (px_resources example_state))"
    by (simp add: permits_inv_def example_state_def production_def with_limits_def admission_new_def)
  moreover have "calm_events example_events"
    by (auto simp: calm_events_def example_events_def calm_def request_def is_requested_def)
  moreover have "calm (snd (JoinedCancelled, \<lambda>st. st))"
    by (simp add: calm_def)
  ultimately show ?thesis
    using shutdown_completes [OF run, of MAX_CLIENT_CONNECTIONS "\<lambda>_. (JoinedCancelled, \<lambda>st. st)" 9] by blast
qed


section \<open>What a tunnel carries\<close>

text \<open>
  C3: a tunnel is transparent, from the first byte after the request to the last. What the
  upstream receives is a prefix of what the client sent after the head of its \<open>CONNECT\<close> request,
  and after the proxy's own success line the client receives a prefix of what the upstream sent,
  counting the bytes that were read along with the broker's answer. Nothing is inserted, lost or
  reordered, however reads, writes and the two directions interleave and whatever fails; and when
  the relay ends by itself, both sides have received everything.
\<close>

theorem tunnel_is_transparent:
  assumes "serve_client H cfg envs (io, sink) upstream turns st = Some (heads, Some r, Some t, c, st')"
    and "header_laws H" and "header_name_laws H" and "script_ok io"
  shows "\<exists>rest parts contacts st1.
    serve_connection_io H cfg envs (io, sink) st = Some (Ok (Tunnel parts), heads, c, contacts, st1) \<and>
    rest = tp_downstream_prefix parts @ script_data (fst (tp_downstream parts)) \<and>
    requests_of H (script_data io) heads rest \<and> suffix ESTABLISHED (sk_out (snd (tp_downstream parts))) \<and>
    delivered (sk_out upstream) rest (tn_up t) \<and>
    delivered (sk_out (snd (tp_downstream parts)))
      (cu_prefix (tp_upstream parts) @ script_data (cu_stream (tp_upstream parts))) (tn_down t) \<and>
    (r = Ok () \<and> ForcedShutdown \<notin> set turns \<and> \<not> is_forced (px_shutdown st') \<and>
       script_ok (cu_stream (tp_upstream parts)) \<longrightarrow>
       sk_out (dr_writer (tn_up t)) = sk_out upstream @ rest \<and>
       sk_out (dr_writer (tn_down t)) = sk_out (snd (tp_downstream parts))
         @ cu_prefix (tp_upstream parts) @ script_data (cu_stream (tp_upstream parts)))"
proof -
  obtain parts contacts st1 where run: "serve_connection_io H cfg envs (io, sink) st = Some (Ok (Tunnel parts), heads, c, contacts, st1)"
    and rel: "relay parts upstream (px_shutdown st1) turns = (Some r, t)" and shut: "px_shutdown st' = px_shutdown st1"
  proof -
    obtain r1 heads1 c1 contacts st1 where run: "serve_connection_io H cfg envs (io, sink) st = Some (r1, heads1, c1, contacts, st1)"
      using assms(1) by (cases "serve_connection_io H cfg envs (io, sink) st") (auto simp: serve_client_def)
    obtain parts where r1: "r1 = Ok (Tunnel parts)"
      using assms(1) run by (cases r1; cases "the (ok r1)") (auto simp: serve_client_def)
    obtain x t1 where rel: "relay parts upstream (px_shutdown st1) turns = (x, t1)"
      by fastforce
    show thesis
      using assms(1) run r1 rel that [of parts contacts st1]
      by (cases x) (auto simp: serve_client_def Let_def)
  qed
  have loop: "serve_requests H cfg envs (http1_connection_new io, sink) st = Some (Ok (Tunnel parts), heads, c, contacts, st1)"
    using run by (auto simp: serve_connection_io_def Let_def split: if_splits)
  have "bb_wf (http1_connection_new io)" and "bb_pending (http1_connection_new io) = script_data io"
    using assms(4) by (simp_all add: http1_connection_new_def bb_wf_def bb_pending_def bb_available_def)
  then have rest: "requests_of H (script_data io) heads (tp_downstream_prefix parts @ script_data (fst (tp_downstream parts)))"
    and ok: "script_ok (fst (tp_downstream parts))"
    using serve_requests_stream [OF loop assms(2,3)] by auto
  have "suffix ESTABLISHED (sk_out (snd (tp_downstream parts)))"
    using serve_requests_established [OF loop] by (auto simp: suffix_def)
  with run rest ok relay_delivers [OF rel] relay_complete [of parts upstream "px_shutdown st1" turns t] rel shut
  show ?thesis
    by (intro exI [of _ parts] exI [of _ "tp_downstream_prefix parts @ script_data (fst (tp_downstream parts))"]
        exI [of _ contacts] exI [of _ st1]) simp
qed


text \<open>
  The pipelined example of \<open>connection_serves_its_stream\<close>, with a broker that sends \<open>hi\<close> back.
\<close>

definition example_tunnel_env :: serve_env where
  "example_tunnel_env = example_serve_env\<lparr>se_net := example_env\<lparr>
     ne_broker_dial := (\<lambda>_. Ready (Some [ReadData (''OK'' @ [LF] @ ''h''), ReadData ''i'']))\<rparr>\<rparr>"

definition example_connect_stream :: "read_event list" where
  "example_connect_stream =
     [ReadData (''CONNECT localhost:3000 HTTP/1.1'' @ CRLF @ ''Host:a'' @ CRLF @ CRLF @ ''x''), ReadData ''yz'']"

definition example_run where
  "example_run = serve_connection_io list_crate example_context [example_tunnel_env]
     (example_connect_stream, \<lparr>sk_events = [], sk_out = []\<rparr>) example_state"

definition example_turns :: "turn list" where
  "example_turns = concat (replicate 6 [DownstreamToUpstream, UpstreamToDownstream])"

theorem tunnel_is_transparent_witness:
  "\<exists>heads. \<exists>t :: tunnel. \<exists>before. requests_of list_crate (script_data example_connect_stream) heads ''xyz'' \<and>
     sk_out (dr_writer (tn_up t)) = ''xyz'' \<and> sk_out (dr_writer (tn_down t)) = before @ ESTABLISHED @ ''hi''"
proof -
  let ?sink = "\<lparr>sk_events = [], sk_out = []\<rparr> :: byte_sink"
  have "case example_run of
      Some (Ok (Tunnel parts), heads, c, contacts, st) \<Rightarrow>
        tp_downstream_prefix parts = ''x'' \<and> fst (tp_downstream parts) = [ReadData ''yz''] \<and>
        cu_prefix (tp_upstream parts) = ''h'' \<and> cu_stream (tp_upstream parts) = [ReadData ''i''] \<and>
        \<not> is_forced (px_shutdown st) \<and> fst (relay parts ?sink (px_shutdown st) example_turns) = Some (Ok ())
    | _ \<Rightarrow> False"
    by code_simp
  then obtain parts heads c contacts st1 where run: "example_run = Some (Ok (Tunnel parts), heads, c, contacts, st1)"
    and parts: "tp_downstream_prefix parts = ''x''" "fst (tp_downstream parts) = [ReadData ''yz'']"
      "cu_prefix (tp_upstream parts) = ''h''" "cu_stream (tp_upstream parts) = [ReadData ''i'']"
      "\<not> is_forced (px_shutdown st1)"
    and ends: "fst (relay parts ?sink (px_shutdown st1) example_turns) = Some (Ok ())"
    by (auto split: option.splits prod.splits result.splits connection_outcome.splits)
  obtain t where rel: "relay parts ?sink (px_shutdown st1) example_turns = (Some (Ok ()), t)"
    using ends by (cases "relay parts ?sink (px_shutdown st1) example_turns") auto
  obtain st' where client: "serve_client list_crate example_context [example_tunnel_env]
     (example_connect_stream, ?sink) ?sink example_turns example_state = Some (heads, Some (Ok ()), Some t, c, st')"
    and "px_shutdown st' = px_shutdown st1"
    using run rel by (simp add: serve_client_def example_run_def)
  have "script_ok example_connect_stream"
    by (simp add: example_connect_stream_def script_ok_def)
  from tunnel_is_transparent [OF client list_crate_laws list_crate_name_laws this] run parts \<open>px_shutdown st' = _\<close>
  have "requests_of list_crate (script_data example_connect_stream) heads ''xyz'' \<and>
      sk_out (dr_writer (tn_up t)) = ''xyz'' \<and> (\<exists>before. sk_out (dr_writer (tn_down t)) = before @ ESTABLISHED @ ''hi'')"
    by (auto simp: example_run_def suffix_def script_ok_def example_turns_def)
  then show ?thesis
    by blast
qed

end
