(* ===== verification/Proxy_Config.thy ===== *)
theory Proxy_Config
  imports Supervisor
begin

text \<open>
  The configuration of the proxy (\<open>proxy/src/config.rs\<close>): how it is resolved from the
  environment, which is a function from names to values, and the credential of the broker.
  \<open>parse_std_socket_addr\<close> is the standard library's parser of socket addresses: an IPv4 address
  and a port, or an IPv6 address in brackets with an optional scope and a port.
\<close>

section \<open>Socket addresses\<close>

text \<open>\<open>read_number(10, None, true)\<close>: digits of any count, leading zeros included.\<close>

definition read_number :: "nat \<Rightarrow> nat reader" where
  "read_number bound s =
     (let ds = takeWhile is_ascii_digit s
      in if ds = [] \<or> bound < dec_value ds then None else Some (dec_value ds, drop (length ds) s))"

definition read_port :: "u16 reader" where
  "read_port s =
     Option.bind (read_given_char (CHR '':'') s) (\<lambda>(_, s).
     map_option (\<lambda>(n, s). (of_nat n, s)) (read_number 65535 s))"

definition read_scope_id :: "u32 reader" where
  "read_scope_id s =
     Option.bind (read_given_char (CHR ''%'') s) (\<lambda>(_, s).
     map_option (\<lambda>(n, s). (of_nat n, s)) (read_number (2 ^ 32 - 1) s))"

definition read_socket_v4 :: "socket_addr reader" where
  "read_socket_v4 s =
     Option.bind (read_ipv4 s) (\<lambda>(a, s). map_option (\<lambda>(p, s). (SocketV4 a p, s)) (read_port s))"

definition read_socket_v6 :: "socket_addr reader" where
  "read_socket_v6 s =
     Option.bind (read_given_char (CHR ''['') s) (\<lambda>(_, s).
     Option.bind (read_ipv6 s) (\<lambda>(a, s).
       (case (case read_scope_id s of Some (n, s) \<Rightarrow> (n, s) | None \<Rightarrow> (0, s)) of (scope, s) \<Rightarrow>
     Option.bind (read_given_char (CHR '']'') s) (\<lambda>(_, s).
       map_option (\<lambda>(p, s). (SocketV6 a p scope, s)) (read_port s)))))"

definition parse_std_socket_addr :: "bytes \<Rightarrow> socket_addr option" where
  "parse_std_socket_addr s =
     (case (case read_socket_v4 s of Some r \<Rightarrow> Some r | None \<Rightarrow> read_socket_v6 s) of
        Some (a, []) \<Rightarrow> Some a
      | _ \<Rightarrow> None)"

primrec socket_port :: "socket_addr \<Rightarrow> u16" where
  "socket_port (SocketV4 _ p) = p"
| "socket_port (SocketV6 _ p _) = p"

section \<open>The broker's address\<close>

datatype config_error =
    EmptyPolicyPath
  | LocalVariablesIncomplete
  | NotThreePolicyPaths
  | InvalidBrokerAddress
  | EmptyTokenFile
  | InvalidListener
  | TokenFileUnreadable
  | InvalidTokenFile

definition valid_hostname :: "bytes \<Rightarrow> bool" where
  "valid_hostname host \<longleftrightarrow>
     length host \<le> 253 \<and>
     list_all (\<lambda>label. label \<noteq> [] \<and> length label \<le> 63 \<and> \<not> starts_with ''-'' label \<and> \<not> ends_with ''-'' label
         \<and> list_all (\<lambda>b. is_ascii_alphanumeric b \<or> b = CHR ''-'') label)
       (split_on (CHR ''.'') host)"

definition broker_endpoint_parse :: "bytes \<Rightarrow> (broker_endpoint, config_error) result" where
  "broker_endpoint_parse text =
     (case parse_std_socket_addr text of
        Some address \<Rightarrow>
          if socket_port address \<noteq> 0 then Ok (SocketEndpoint address) else Err InvalidBrokerAddress
      | None \<Rightarrow>
          if text = [] \<or> list_ex (\<lambda>b. b \<in> set ''/?#@[]'') text \<or> list_ex is_ascii_whitespace text
          then Err InvalidBrokerAddress
          else
            (case rsplit_once (CHR '':'') text of
               None \<Rightarrow> Err InvalidBrokerAddress
             | Some (host, port) \<Rightarrow>
                 if host = [] \<or> CHR '':'' \<in> set host \<or> \<not> valid_hostname host \<or> port = []
                   \<or> \<not> list_all is_ascii_digit port
                 then Err InvalidBrokerAddress
                 else
                   (case parse_uint 65535 port of
                      Some p \<Rightarrow>
                        if p \<noteq> 0 then Ok (HostEndpoint (to_ascii_lowercase host) (of_nat p))
                        else Err InvalidBrokerAddress
                    | None \<Rightarrow> Err InvalidBrokerAddress)))"

section \<open>Resolving the configuration\<close>

definition DEFAULT_ALLOWLIST :: bytes where "DEFAULT_ALLOWLIST = ''/etc/vhrn/allowlist''"
definition DEFAULT_MODE_FILE :: bytes where "DEFAULT_MODE_FILE = ''/etc/vhrn/mode''"
definition DEFAULT_LISTEN :: bytes where "DEFAULT_LISTEN = '':8080''"

record local_config =
  lc_policy_paths :: "bytes list"
  lc_broker_addr :: broker_endpoint
  lc_token_file :: bytes

record proxy_config =
  cf_allowlists :: "bytes list"
  cf_mode_file :: bytes
  cf_listen :: socket_addr
  cf_deny_log :: "bytes option"
  cf_local :: "local_config option"

type_synonym environment = "bytes \<Rightarrow> bytes option"

definition env_value :: "environment \<Rightarrow> bytes \<Rightarrow> bytes option" where
  "env_value lookup name = (case lookup name of Some v \<Rightarrow> if v = [] then None else Some v | None \<Rightarrow> None)"

definition policy_paths_new :: "bytes list \<Rightarrow> (bytes list, config_error) result" where
  "policy_paths_new paths =
     (if paths = [] \<or> list_ex (\<lambda>path. path = []) paths then Err EmptyPolicyPath else Ok paths)"

definition parse_local_paths :: "bytes \<Rightarrow> (bytes list, config_error) result" where
  "parse_local_paths text =
     (let paths = split_on (CHR '','') text
      in if length paths \<noteq> 3 then Err NotThreePolicyPaths
         else if list_ex (\<lambda>path. path = []) paths then Err EmptyPolicyPath
         else Ok paths)"

definition nonempty_path :: "bytes \<Rightarrow> (bytes, config_error) result" where
  "nonempty_path text = (if text = [] then Err EmptyTokenFile else Ok text)"

definition parse_listener :: "bytes \<Rightarrow> (socket_addr, config_error) result" where
  "parse_listener text =
     (case parse_std_socket_addr (case strip_prefix '':'' text of None \<Rightarrow> text | Some port \<Rightarrow> ''0.0.0.0:'' @ port) of
        None \<Rightarrow> Err InvalidListener
      | Some address \<Rightarrow> if socket_port address = 0 then Err InvalidListener else Ok address)"

definition or_default :: "bytes \<Rightarrow> bytes option \<Rightarrow> bytes" where
  "or_default d v = (case v of Some x \<Rightarrow> x | None \<Rightarrow> d)"

definition resolve_config :: "environment \<Rightarrow> (proxy_config, config_error) result" where
  "resolve_config lookup =
     and_then
       (case env_value lookup ''VHRN_ALLOWLISTS'' of
          Some v \<Rightarrow> policy_paths_new (split_on (CHR '','') v)
        | None \<Rightarrow> policy_paths_new [or_default DEFAULT_ALLOWLIST (env_value lookup ''VHRN_ALLOWLIST'')])
       (\<lambda>allowlists.
     and_then
       (case (env_value lookup ''VHRN_LOOPBACK_ALLOWLISTS'', env_value lookup ''VHRN_BROKER_ADDR'',
              env_value lookup ''VHRN_BROKER_TOKEN_FILE'') of
          (None, None, None) \<Rightarrow> Ok None
        | (Some paths, Some addr, Some token) \<Rightarrow>
            and_then (parse_local_paths paths) (\<lambda>paths.
            and_then (broker_endpoint_parse addr) (\<lambda>addr.
            and_then (nonempty_path token) (\<lambda>token.
              Ok (Some \<lparr>lc_policy_paths = paths, lc_broker_addr = addr, lc_token_file = token\<rparr>))))
        | _ \<Rightarrow> Err LocalVariablesIncomplete)
       (\<lambda>local_config.
     and_then (parse_listener (or_default DEFAULT_LISTEN (env_value lookup ''VHRN_PROXY_LISTEN''))) (\<lambda>listen.
       Ok \<lparr>cf_allowlists = allowlists,
           cf_mode_file = or_default DEFAULT_MODE_FILE (env_value lookup ''VHRN_MODE_FILE''),
           cf_listen = listen, cf_deny_log = env_value lookup ''VHRN_DENY_LOG'', cf_local = local_config\<rparr>)))"

section \<open>The credential\<close>

definition load_broker_token :: "file_system \<Rightarrow> local_config \<Rightarrow> (broker_token, config_error) result" where
  "load_broker_token fs config =
     (case fs (lc_token_file config) of
        OpenFails \<Rightarrow> Err TokenFileUnreadable
      | MetadataFails \<Rightarrow> Err TokenFileUnreadable
      | Opened is_file len contents \<Rightarrow>
          if \<not> is_file \<or> len \<noteq> 64 then Err InvalidTokenFile
          else
            (case contents of
               None \<Rightarrow> Err TokenFileUnreadable
             | Some text \<Rightarrow>
                 (let read = take 65 text
                  in if \<not> utf8_valid read then Err InvalidTokenFile
                     else map_err (\<lambda>_. InvalidTokenFile) (broker_token_from_str read))))"


section \<open>What a resolved configuration is\<close>

definition hostname_wf :: "bytes \<Rightarrow> bool" where
  "hostname_wf host \<longleftrightarrow> host \<noteq> [] \<and> CHR '':'' \<notin> set host \<and> valid_hostname host \<and> to_ascii_lowercase host = host"

primrec endpoint_wf :: "broker_endpoint \<Rightarrow> bool" where
  "endpoint_wf (SocketEndpoint address) \<longleftrightarrow> socket_port address \<noteq> 0"
| "endpoint_wf (HostEndpoint host port) \<longleftrightarrow> port \<noteq> 0 \<and> hostname_wf host"

definition local_config_wf :: "local_config \<Rightarrow> bool" where
  "local_config_wf c \<longleftrightarrow>
     length (lc_policy_paths c) = 3 \<and> [] \<notin> set (lc_policy_paths c) \<and> endpoint_wf (lc_broker_addr c) \<and>
     lc_token_file c \<noteq> []"

definition config_wf :: "proxy_config \<Rightarrow> bool" where
  "config_wf c \<longleftrightarrow>
     cf_allowlists c \<noteq> [] \<and> [] \<notin> set (cf_allowlists c) \<and> cf_mode_file c \<noteq> [] \<and>
     socket_port (cf_listen c) \<noteq> 0 \<and> cf_deny_log c \<noteq> Some [] \<and>
     (case cf_local c of None \<Rightarrow> True | Some l \<Rightarrow> local_config_wf l)"

lemma valid_hostname_labels:
  "valid_hostname host \<longleftrightarrow> length host \<le> 253 \<and> list_all valid_label (split_on (CHR ''.'') host)"
  by (simp add: valid_hostname_def valid_label_def [abs_def])

lemma valid_hostname_lowercase: "valid_hostname (to_ascii_lowercase host) = valid_hostname host"
  by (simp add: valid_hostname_labels split_on_lowercase list.pred_map comp_def valid_label_lowercase)

lemma colon_lowercase: "CHR '':'' \<in> set (to_ascii_lowercase s) \<longleftrightarrow> CHR '':'' \<in> set s"
proof -
  have "to_ascii_lower c = CHR '':'' \<longleftrightarrow> c = CHR '':''" for c
    by (rule to_ascii_lower_eq_iff) (simp add: byte_class_defs)
  then have "CHR '':'' \<in> to_ascii_lower ` set s \<longleftrightarrow> CHR '':'' \<in> set s"
    by (metis image_iff)
  then show ?thesis
    by (simp add: to_ascii_lowercase_def)
qed

lemma lowercase_Nil: "to_ascii_lowercase s = [] \<longleftrightarrow> s = []"
  by (simp add: to_ascii_lowercase_def)

lemma parse_uint_le: "parse_uint bound s = Some n \<Longrightarrow> n \<le> bound"
  by (auto simp: parse_uint_def Let_def split: if_splits)

lemma of_nat_port_nonzero: "0 < n \<Longrightarrow> n \<le> 65535 \<Longrightarrow> (of_nat n :: u16) \<noteq> 0"
  using u16_of_nat_eq [of n] by auto

lemma broker_endpoint_parse_wf: "broker_endpoint_parse text = Ok e \<Longrightarrow> endpoint_wf e"
  using parse_uint_le [of 65535] of_nat_port_nonzero lowercase_Nil
  by (auto simp: broker_endpoint_parse_def hostname_wf_def valid_hostname_lowercase colon_lowercase
      split: option.split_asm if_split_asm prod.split_asm)

lemma env_value_nonempty: "env_value lookup name \<noteq> Some []"
  by (auto simp: env_value_def split: option.splits if_splits)

lemma or_default_nonempty: "d \<noteq> [] \<Longrightarrow> or_default d (env_value lookup name) \<noteq> []"
  using env_value_nonempty by (auto simp: or_default_def split: option.splits)

lemma policy_paths_new_Ok: "policy_paths_new paths = Ok p \<Longrightarrow> p = paths \<and> paths \<noteq> [] \<and> [] \<notin> set paths"
  by (auto simp: policy_paths_new_def list_ex_iff split: if_splits)

lemma parse_local_paths_Ok: "parse_local_paths text = Ok p \<Longrightarrow> length p = 3 \<and> [] \<notin> set p"
  by (auto simp: parse_local_paths_def Let_def list_ex_iff split: if_splits)

lemma parse_listener_Ok: "parse_listener text = Ok a \<Longrightarrow> socket_port a \<noteq> 0"
  by (auto simp: parse_listener_def split: option.splits if_splits)

lemma nonempty_path_Ok: "nonempty_path text = Ok p \<Longrightarrow> p \<noteq> []"
  by (auto simp: nonempty_path_def split: if_splits)

lemma and_then_Ok: "and_then r f = Ok x \<longleftrightarrow> (\<exists>y. r = Ok y \<and> f y = Ok x)"
  by (cases r) auto

lemma resolve_config_wf:
  assumes "resolve_config lookup = Ok config"
  shows "config_wf config \<and> (cf_local config \<noteq> None \<longleftrightarrow> env_value lookup ''VHRN_BROKER_ADDR'' \<noteq> None)"
proof -
  have nonempty: "DEFAULT_MODE_FILE \<noteq> []"
    by (simp add: DEFAULT_MODE_FILE_def)
  show ?thesis
    using assms env_value_nonempty or_default_nonempty [OF nonempty]
    by (auto simp: resolve_config_def and_then_Ok config_wf_def local_config_wf_def
        dest!: policy_paths_new_Ok parse_local_paths_Ok parse_listener_Ok nonempty_path_Ok broker_endpoint_parse_wf
        split: option.split_asm)
qed

text \<open>
  C17: every configuration that the proxy starts with is well formed, whatever is in its
  environment. There is at least one policy layer and no path of a layer is empty; the listener
  and the broker have a port; a broker that is named, not numbered, has a valid host name in
  lower case; and local routing is configured with all three of its layers, the broker and the
  credential, or not at all: a half-configured environment is refused.
\<close>

theorem resolved_config_well_formed:
  "case resolve_config lookup of
     Ok config \<Rightarrow> config_wf config \<and>
       (cf_local config \<noteq> None \<longleftrightarrow> env_value lookup ''VHRN_BROKER_ADDR'' \<noteq> None)
   | Err _ \<Rightarrow> True"
  using resolve_config_wf by (cases "resolve_config lookup") simp_all

text \<open>A host that is not a number is a name, in lower case, and a scoped socket address is read as such.\<close>

lemma broker_endpoint_examples:
  "broker_endpoint_parse ''Host.Docker.Internal:4711'' = Ok (HostEndpoint ''host.docker.internal'' 4711)"
  "broker_endpoint_parse ''127.0.0.1:0'' = Err InvalidBrokerAddress"
  "broker_endpoint_parse ''[fe80::1%3]:80'' = Ok (SocketEndpoint (SocketV6 (Ipv6Addr 0xfe80 0 0 0 0 0 0 1) 80 3))"
  by code_simp+

end
