(* ===== verification/Bootstrap.thy ===== *)
theory Bootstrap
  imports Proxy_Config
begin

text \<open>
  Starting the proxy (\<open>proxy/src/lib.rs\<close>): the checks before the first client is accepted, in
  their order, and the run of the supervisor on what they give. Every stage is a select against
  the shutdown; \<open>cancelled\<close> says at which stage the shutdown wins.
\<close>

datatype stage = PublicPolicyStage | LocalPolicyStage | AuditStage | BindStage | TokenStage | ReadyStage

datatype startup_error =
    StartupPublicPolicyInvalid
  | StartupLocalPolicyInvalid
  | StartupDenialLogUnavailable
  | StartupListenerBindFailed
  | StartupBrokerTokenInvalid
  | StartupBrokerReadinessFailed

record startup_env =
  su_fs :: file_system
  su_binds :: "socket_addr \<Rightarrow> bool"
  su_cancelled :: "stage \<Rightarrow> bool"
  su_log :: audit_log
  su_broker_dial :: broker_dial
  su_broker_io :: io_end
  su_broker_writer :: byte_sink

record bootstrap =
  bt_listen :: socket_addr
  bt_context :: context_config
  bt_state :: proxy_state

text \<open>
  A stage: \<open>Ok None\<close> when the shutdown wins, and otherwise what the check gives.
\<close>

definition at_stage ::
    "startup_env \<Rightarrow> stage \<Rightarrow> ('a, startup_error) result \<Rightarrow> ('a \<Rightarrow> ('b option, startup_error) result)
       \<Rightarrow> ('b option, startup_error) result" where
  "at_stage env s check continue = (if su_cancelled env s then Ok None else and_then check continue)"

definition check :: "startup_error \<Rightarrow> bool \<Rightarrow> (unit, startup_error) result" where
  "check e b = (if b then Ok () else Err e)"

text \<open>
  The credential and the readiness exchange of a configured broker. A frame that does not fit
  the bound of the protocol would be a panic; a credential that loads never makes one
  (\<open>frame_fits\<close>), so that case is put with the errors.
\<close>

definition bootstrap_local ::
    "startup_env \<Rightarrow> shutdown \<Rightarrow> local_config \<Rightarrow> process_resources
       \<Rightarrow> ((broker_protocol \<times> process_resources) option, startup_error) result" where
  "bootstrap_local env s config resources =
     at_stage env TokenStage
       (map_err (\<lambda>_. StartupBrokerTokenInvalid) (load_broker_token (su_fs env) config))
       (\<lambda>token.
          let protocol = \<lparr>bp_endpoint = lc_broker_addr config, bp_token = token\<rparr>
          in at_stage env ReadyStage
               (case broker_ready (su_broker_dial env) (su_broker_io env) protocol s (su_broker_writer env) resources of
                  Some (Ok _, _, resources) \<Rightarrow> Ok resources
                | _ \<Rightarrow> Err StartupBrokerReadinessFailed)
               (\<lambda>resources. Ok (Some (protocol, resources))))"

definition bootstrap_new ::
    "startup_env \<Rightarrow> proxy_config \<Rightarrow> shutdown \<Rightarrow> broker_protocol option \<Rightarrow> process_resources \<Rightarrow> bootstrap" where
  "bootstrap_new env config s protocol resources =
     (let local_paths = map_option lc_policy_paths (cf_local config)
      in \<lparr>bt_listen = cf_listen config,
          bt_context =
            \<lparr>cc_allowlists = cf_allowlists config, cc_mode_file = cf_mode_file config,
             cc_local_paths = local_paths, cc_local = protocol,
             cc_health = \<lparr>hs_public_paths = cf_allowlists config, hs_mode_path = cf_mode_file config,
                          hs_local_paths = local_paths\<rparr>\<rparr>,
          bt_state =
            \<lparr>px_shutdown = s, px_audit = audit_new (cf_deny_log config) (su_log env),
             px_public_pool = pool_build IDLE_POOL_CAPACITY IDLE_POOL_LIFETIME,
             px_local_pool = pool_build IDLE_POOL_CAPACITY IDLE_POOL_LIFETIME, px_resources = resources\<rparr>\<rparr>)"

definition bootstrap_proxy ::
    "startup_env \<Rightarrow> proxy_config \<Rightarrow> shutdown \<Rightarrow> (bootstrap option, startup_error) result" where
  "bootstrap_proxy env config s =
     (if is_requested s then Ok None
      else
        at_stage env PublicPolicyStage
          (map_err (\<lambda>_. StartupPublicPolicyInvalid)
             (load_public_strict (su_fs env) (cf_allowlists config) (cf_mode_file config))) (\<lambda>_.
        (case cf_local config of
           None \<Rightarrow> (\<lambda>next_stage. next_stage ())
         | Some l \<Rightarrow>
             at_stage env LocalPolicyStage
               (map_err (\<lambda>_. StartupLocalPolicyInvalid)
                  (and_then (load_local_strict (su_fs env) (lc_policy_paths l)) (\<lambda>_. Ok ())))) (\<lambda>_.
        at_stage env AuditStage
          (check StartupDenialLogUnavailable (verify_open (audit_new (cf_deny_log config) (su_log env)))) (\<lambda>_.
        at_stage env BindStage (check StartupListenerBindFailed (su_binds env (cf_listen config))) (\<lambda>_.
        case cf_local config of
          None \<Rightarrow> Ok (Some (bootstrap_new env config s None production))
        | Some l \<Rightarrow>
            and_then (bootstrap_local env s l production) (\<lambda>r.
              Ok (map_option (\<lambda>(protocol, resources). bootstrap_new env config s (Some protocol) resources) r)))))))"

text \<open>
  The whole run of the process: it serves what was started. The supervisor is \<open>None\<close> when
  nothing was, and the outer option is \<open>None\<close> when the given events end before the run does.
\<close>

datatype proxy_error = StartupError startup_error | RunError run_error

definition serve ::
    "nat \<Rightarrow> (nat \<Rightarrow> joined \<times> (proxy_state \<Rightarrow> proxy_state)) \<Rightarrow> supervisor_event list \<Rightarrow> bootstrap
       \<Rightarrow> ((unit, run_error) result \<times> supervisor) option" where
  "serve now ends events b = run (bt_context b) now ends events (supervisor_new (bt_state b))"

definition run_proxy ::
    "startup_env \<Rightarrow> proxy_config \<Rightarrow> shutdown \<Rightarrow> nat \<Rightarrow> (nat \<Rightarrow> joined \<times> (proxy_state \<Rightarrow> proxy_state))
       \<Rightarrow> supervisor_event list \<Rightarrow> ((unit, proxy_error) result \<times> supervisor option) option" where
  "run_proxy env config s now ends events =
     (case bootstrap_proxy env config s of
        Err e \<Rightarrow> Some (Err (StartupError e), None)
      | Ok None \<Rightarrow> Some (Ok (), None)
      | Ok (Some b) \<Rightarrow> map_option (\<lambda>(r, sv). (map_err RunError r, Some sv)) (serve now ends events b))"


section \<open>A started proxy\<close>

lemma at_stage_Some:
  "at_stage env s x f = Ok (Some b) \<longleftrightarrow> \<not> su_cancelled env s \<and> (\<exists>y. x = Ok y \<and> f y = Ok (Some b))"
  by (auto simp: at_stage_def and_then_Ok)

lemma check_Ok: "check e b = Ok u \<longleftrightarrow> b"
  by (simp add: check_def)

lemma map_err_Ok: "map_err f r = Ok x \<longleftrightarrow> r = Ok x"
  by (cases r) auto

definition idle_resources :: "process_resources \<Rightarrow> bool" where
  "idle_resources resources \<longleftrightarrow>
     permits_inv MAX_CLIENT_CONNECTIONS 0 (pr_client resources) \<and>
     permits_inv MAX_UPSTREAM_CONNECTIONS 0 (pr_upstream resources) \<and> registered_sockets resources = 0"

lemma idle_resources_inv:
  assumes "resource_inv MAX_CLIENT_CONNECTIONS MAX_UPSTREAM_CONNECTIONS s"
    and "ow_clients s = []" and "ow_permits s = 0" and "ow_streams s = []"
  shows "idle_resources (ow_resources s)"
  using assms
  by (simp add: idle_resources_def resource_inv_def ids_inv_def registered_sockets_def active_sockets_def
      registry_ids_def)

lemma idle_production: "idle_resources production"
  using idle_resources_inv [OF resource_inv_new] by (simp add: owned_new_def production_def)

lemma broker_ready_idle:
  assumes "broker_ready dial io protocol s writer production = Some (Ok u, sent, resources)"
    and "\<And>events. dial (bp_endpoint protocol) = Ready (Some events) \<Longrightarrow> script_ok events"
  shows "idle_resources resources \<and>
    (\<exists>events. dial (bp_endpoint protocol) = Ready (Some events) \<and> prefix OK_LINE (script_data events))"
proof -
  let ?o = "owned_new MAX_CLIENT_CONNECTIONS MAX_UPSTREAM_CONNECTIONS"
  obtain bs stream resources1 where ex: "broker_exchange dial io protocol bs s writer (ow_resources ?o) = (Ok stream, sent, resources1)"
    and res: "resources = drop_managed (bs_registration stream) resources1"
  proof -
    have production: "ow_resources ?o = production"
      by (simp add: owned_new_def production_def)
    obtain bs where bs: "ready_frame (bp_token protocol) = Some bs"
      using assms(1) by (auto simp: broker_ready_def)
    obtain r1 sent1 resources1 where ex: "broker_exchange dial io protocol bs s writer production = (r1, sent1, resources1)"
      by (metis prod_cases3)
    obtain stream where "r1 = Ok stream" and "sent1 = sent" and "resources = drop_managed (bs_registration stream) resources1"
      using assms(1) bs ex by (cases r1) (auto simp: broker_ready_def)
    with ex show thesis
      by (intro that [of bs stream resources1]) (simp_all add: production)
  qed
  obtain es o1 where h: "history resource_step ?o es o1" and o1: "ow_resources o1 = resources1" "ow_clients o1 = []"
    "ow_permits o1 = 0" "ow_streams o1 = [bs_registration stream]"
    using broker_exchange_resources [OF ex] by (auto simp: resources_after_def owned_new_def)
  have "resource_inv MAX_CLIENT_CONNECTIONS MAX_UPSTREAM_CONNECTIONS o1"
    by (rule history_invariant [OF h, of "resource_inv MAX_CLIENT_CONNECTIONS MAX_UPSTREAM_CONNECTIONS"])
      (rule resource_inv_new, rule resource_inv_step)
  moreover have "resource_step o1 (StreamOut (bs_registration stream))
      (o1\<lparr>ow_resources := drop_managed (bs_registration stream) (ow_resources o1),
          ow_streams := remove1 (bs_registration stream) (ow_streams o1)\<rparr>)"
    by (rule resource_step.hangup) (simp add: o1)
  ultimately have "resource_inv MAX_CLIENT_CONNECTIONS MAX_UPSTREAM_CONNECTIONS
      (o1\<lparr>ow_resources := resources, ow_streams := []\<rparr>)"
    using resource_inv_step by (fastforce simp: o1 res)
  then have "idle_resources resources"
    using idle_resources_inv o1 by fastforce
  moreover have "\<exists>events. dial (bp_endpoint protocol) = Ready (Some events) \<and> prefix OK_LINE (script_data events)"
    using ex
  proof (cases rule: broker_exchange_cases)
    case (opened p i p2 k events stream')
    have "script_data events = OK_LINE @ bs_prefix stream' @ script_data (bs_io stream')"
      using read_response_loop_Ok [of "[]" events "bs_prefix stream'" "bs_io stream'"] opened(7) assms(2) [OF opened(6)]
      by (simp add: read_response_def)
    then show ?thesis
      using opened(6) by (auto simp: prefix_def)
  qed auto
  ultimately show ?thesis
    by blast
qed

definition local_started :: "startup_env \<Rightarrow> proxy_config \<Rightarrow> context_config \<Rightarrow> bool" where
  "local_started env config ctx \<longleftrightarrow>
     (case cf_local config of
        None \<Rightarrow> cc_local ctx = None \<and> cc_local_paths ctx = None
      | Some l \<Rightarrow> cc_local_paths ctx = Some (lc_policy_paths l) \<and>
          is_ok (load_local_strict (su_fs env) (lc_policy_paths l)) \<and>
          (\<exists>token events. load_broker_token (su_fs env) l = Ok token \<and>
             cc_local ctx = Some \<lparr>bp_endpoint = lc_broker_addr l, bp_token = token\<rparr> \<and>
             su_broker_dial env (lc_broker_addr l) = Ready (Some events) \<and> prefix OK_LINE (script_data events)))"

text \<open>
  C5: the proxy starts closed. It accepts a client only if, at that moment, every public policy
  layer and the mode parse, the denial log can be opened for appending, the listener is bound,
  and local routing, if it is configured, has three valid layers, a well-formed credential and a
  broker that accepted it; then it is healthy by its own health check. The context it serves with
  is the configured one, and it starts with all permits free and no socket registered.
\<close>

theorem starts_only_when_sound:
  assumes "bootstrap_proxy env config s = Ok (Some b)"
    and "\<And>e events. su_broker_dial env e = Ready (Some events) \<Longrightarrow> script_ok events"
  shows "is_ok (load_public_strict (su_fs env) (cf_allowlists config) (cf_mode_file config)) \<and>
    local_started env config (bt_context b) \<and> su_binds env (bt_listen b) \<and> bt_listen b = cf_listen config \<and>
    cc_allowlists (bt_context b) = cf_allowlists config \<and> cc_mode_file (bt_context b) = cf_mode_file config \<and>
    health_read (cc_health (bt_context b)) (su_fs env) (px_shutdown (bt_state b)) (px_audit (bt_state b)) = Healthy \<and>
    idle_resources (px_resources (bt_state b))"
proof -
  note d = assms(1) [unfolded bootstrap_proxy_def]
  show ?thesis
  proof (cases "cf_local config")
    case None
    then show ?thesis
      using d idle_production
      by (auto simp: at_stage_Some check_Ok map_err_Ok bootstrap_new_def local_started_def health_read_def
          audit_new_def is_ok_iff Let_def split: if_splits)
  next
    case (Some l)
    obtain protocol resources where local: "bootstrap_local env s l production = Ok (Some (protocol, resources))"
      and b: "b = bootstrap_new env config s (Some protocol) resources"
      and checks: "\<not> is_requested s" "is_ok (load_public_strict (su_fs env) (cf_allowlists config) (cf_mode_file config))"
      "is_ok (load_local_strict (su_fs env) (lc_policy_paths l))"
      "verify_open (audit_new (cf_deny_log config) (su_log env))" "su_binds env (cf_listen config)"
      using d Some by (auto simp: at_stage_Some check_Ok map_err_Ok and_then_Ok is_ok_iff split: if_splits)
    obtain token x sent where token: "load_broker_token (su_fs env) l = Ok token"
      and protocol: "protocol = \<lparr>bp_endpoint = lc_broker_addr l, bp_token = token\<rparr>"
      and ready: "broker_ready (su_broker_dial env) (su_broker_io env) protocol s (su_broker_writer env) production
        = Some (Ok x, sent, resources)"
      using local
      by (auto simp: bootstrap_local_def at_stage_Some map_err_Ok Let_def
          split: option.split_asm prod.split_asm result.split_asm)
    obtain events where "idle_resources resources"
      and events: "su_broker_dial env (lc_broker_addr l) = Ready (Some events)" "prefix OK_LINE (script_data events)"
      using broker_ready_idle [OF ready] assms(2) protocol by auto
    then show ?thesis
      using checks b Some token protocol
      by (simp add: bootstrap_new_def local_started_def health_read_def audit_new_def Let_def)
  qed
qed


definition example_startup :: startup_env where
  "example_startup =
     \<lparr>su_fs = (\<lambda>path. if path = ''/token'' then Opened True 64 (Some (replicate 64 (CHR ''a''))) else example_fs path),
      su_binds = (\<lambda>_. True), su_cancelled = (\<lambda>_. False),
      su_log = \<lparr>sk_events = [], sk_out = [], al_opens = True, al_regular = None\<rparr>,
      su_broker_dial = (\<lambda>_. Ready (Some [ReadData (''OK'' @ [LF])])), su_broker_io = RunsToEnd,
      su_broker_writer = \<lparr>sk_events = [], sk_out = []\<rparr>\<rparr>"

definition example_proxy_config :: proxy_config where
  "example_proxy_config =
     \<lparr>cf_allowlists = [''/allow''], cf_mode_file = ''/mode'', cf_listen = SocketV4 (Ipv4Addr 0 0 0 0) 8080,
      cf_deny_log = None,
      cf_local = Some \<lparr>lc_policy_paths = [''/local'', ''/local'', ''/local''],
                        lc_broker_addr = HostEndpoint ''host'' 9000, lc_token_file = ''/token''\<rparr>\<rparr>"

theorem starts_only_when_sound_witness:
  "\<exists>b. bootstrap_proxy example_startup example_proxy_config shutdown_new = Ok (Some b) \<and>
     local_started example_startup example_proxy_config (bt_context b) \<and> idle_resources (px_resources (bt_state b))"
proof -
  have "case bootstrap_proxy example_startup example_proxy_config shutdown_new of Ok (Some b) \<Rightarrow> True | _ \<Rightarrow> False"
    by code_simp
  then obtain b where run: "bootstrap_proxy example_startup example_proxy_config shutdown_new = Ok (Some b)"
    by (auto split: result.splits option.splits)
  have "local_started example_startup example_proxy_config (bt_context b) \<and> idle_resources (px_resources (bt_state b))"
    using starts_only_when_sound [OF run] by (auto simp: example_startup_def script_ok_def)
  with run show ?thesis
    by blast
qed

end
