(* ===== verification/Cli_Text.thy ===== *)
theory Cli_Text
  imports Bootstrap
begin

text \<open>
  The text that the host side of the policy reads and writes (\<open>cli/src/net.rs\<close>): modes, loopback
  authorities, domains, quoting, and the lists that are stored one entry on a line. The host
  has its own copies of the proxy's parsers; their values are put in the proxy's types, and the
  lemmas say that the copies agree. \<open>idna\<close> is the conversion of the \<open>idna\<close> crate, which only
  makes suggestions in error messages.
\<close>

section \<open>Modes\<close>

definition cli_mode_parse :: "bytes \<Rightarrow> mode option" where
  "cli_mode_parse text =
     (if text = ''enforce'' then Some Enforce
      else if text = ''report'' then Some Report
      else if text = ''open'' then Some Open
      else None)"

section \<open>Loopback authorities\<close>

definition parse_policy_port :: "bytes \<Rightarrow> u16 option" where
  "parse_policy_port text =
     Option.bind (if text \<noteq> [] \<and> list_all is_ascii_digit text then parse_uint 65535 text else None) (\<lambda>port.
       if port \<noteq> 0 then Some (of_nat port) else None)"

fun loopback_octets :: "nat \<Rightarrow> bytes list \<Rightarrow> (u8 list \<times> bytes list) option" where
  "loopback_octets n parts =
     (if n = 0 then Some ([], parts)
      else
        case parts of
          [] \<Rightarrow> None
        | text # parts \<Rightarrow>
            if text = [] \<or> \<not> list_all is_ascii_digit text \<or> 1 < length text \<and> starts_with ''0'' text then None
            else
              Option.bind (parse_uint 255 text) (\<lambda>octet.
              Option.bind (loopback_octets (n - 1) parts) (\<lambda>(octets, rest). Some (of_nat octet # octets, rest))))"

declare loopback_octets.simps [simp del]

definition parse_loopback_ipv4 :: "bytes \<Rightarrow> ipv4_addr option" where
  "parse_loopback_ipv4 text =
     Option.bind (loopback_octets 4 (split_on (CHR ''.'') text)) (\<lambda>(octets, rest).
       case octets of
         [a, b, c, d] \<Rightarrow> if rest = [] \<and> a = 127 then Some (Ipv4Addr a b c d) else None
       | _ \<Rightarrow> None)"

definition cli_authority_parse :: "bytes \<Rightarrow> loopback_authority option" where
  "cli_authority_parse input =
     (if input = [] \<or> trim input \<noteq> input \<or> \<not> is_ascii input then None
      else
        Option.bind (rsplit_once (CHR '':'') input) (\<lambda>(host, port).
        Option.bind (parse_policy_port port) (\<lambda>port.
        map_option (\<lambda>host. \<lparr>la_host = host, la_port = port\<rparr>)
          (if eq_ignore_ascii_case host ''localhost'' then Some Localhost
           else
             case Option.bind (strip_prefix ''['' host) (strip_suffix '']'') of
               Some ipv6 \<Rightarrow>
                 Option.bind (parse_std_ipv6 ipv6) (\<lambda>ipv6.
                   if \<not> ipv6_is_loopback ipv6 then None else Some Ipv6Loopback)
             | None \<Rightarrow> map_option LoopbackIpv4 (parse_loopback_ipv4 host)))))"

text \<open>The octets of the IPv4 form are written with the format string of the source.\<close>

definition cli_authority_display :: "loopback_authority \<Rightarrow> bytes" where
  "cli_authority_display a =
     (case la_host a of
        Localhost \<Rightarrow> ''localhost:'' @ show_port (la_port a)
      | LoopbackIpv4 v \<Rightarrow> join_with (CHR ''.'') (map show_u8 (octets v)) @ '':'' @ show_port (la_port a)
      | Ipv6Loopback \<Rightarrow> ''[::1]:'' @ show_port (la_port a))"

datatype cli_error =
    NotAsciiDomain "bytes option"
  | InvalidDomain bytes
  | InvalidAuthority bytes
  | NotUtf8File
  | DomainsNotAllowed "bytes set"
  | AuthoritiesNotAllowed "loopback_authority set"
  | InvalidData bytes

definition normalize_loopback_authority :: "bytes \<Rightarrow> (bytes, cli_error) result" where
  "normalize_loopback_authority input =
     (case cli_authority_parse input of
        Some a \<Rightarrow> Ok (cli_authority_display a)
      | None \<Rightarrow> Err (InvalidAuthority input))"

section \<open>Domains\<close>

definition normalize_policy_domain :: "bytes \<Rightarrow> bytes option" where
  "normalize_policy_domain text =
     (if \<not> is_ascii text then None
      else
        (let text = to_ascii_lowercase text
         in if text = [] \<or> list_ex (\<lambda>label. label = []) (split_on (CHR ''.'') text)
              \<or> \<not> list_all (\<lambda>b. is_ascii_alphanumeric b \<or> b = CHR ''-'' \<or> b = CHR ''_'' \<or> b = CHR ''.'') text
              \<or> \<not> list_ex is_ascii_alphanumeric text
            then None else Some text))"

definition entry_text :: "bytes \<Rightarrow> bytes" where
  "entry_text input =
     trim_matches_char (CHR ''.'') (case strip_prefix ''*.'' (trim input) of Some v \<Rightarrow> v | None \<Rightarrow> trim input)"

definition normalize_domain_entry :: "bytes \<Rightarrow> bytes option" where
  "normalize_domain_entry input = normalize_policy_domain (entry_text input)"

type_synonym idna = "bytes \<Rightarrow> bytes option"

definition normalize_domain :: "idna \<Rightarrow> bytes \<Rightarrow> (bytes, cli_error) result" where
  "normalize_domain idna input =
     (let text = entry_text input
      in if \<not> is_ascii text then
           Err (NotAsciiDomain (Option.bind (idna text) (\<lambda>v. if normalize_domain_entry v \<noteq> None then Some v else None)))
         else ok_or (InvalidDomain input) (normalize_domain_entry input))"

section \<open>Quoting\<close>

definition hex_upper :: "nat \<Rightarrow> char" where
  "hex_upper n = char_of (if n < 10 then 48 + n else 55 + n)"

fun quote_byte :: "char \<Rightarrow> bytes" where
  "quote_byte b =
     (if b = DQUOTE then [BACKSLASH, DQUOTE]
      else if b = BACKSLASH then [BACKSLASH, BACKSLASH]
      else if 0x20 \<le> octet b \<and> octet b \<le> 0x7e then [b]
      else [BACKSLASH, CHR ''x'', hex_upper (octet b div 16), hex_upper (octet b mod 16)])"

definition quote_path_bytes :: "bytes \<Rightarrow> bytes" where
  "quote_path_bytes bs = [DQUOTE] @ concat (map quote_byte bs) @ [DQUOTE]"

definition shell_quote_bytes :: "bytes \<Rightarrow> bytes" where
  "shell_quote_bytes bs =
     [APOSTROPHE] @ concat (map (\<lambda>b. if b = APOSTROPHE then [APOSTROPHE, BACKSLASH, APOSTROPHE, APOSTROPHE] else [b]) bs) @ [APOSTROPHE]"

section \<open>Lists of entries\<close>

text \<open>The standard library's \<open>lines\<close>: a final line needs no line feed, and \<open>CR LF\<close> ends a line too.\<close>

function str_lines :: "bytes \<Rightarrow> bytes list" where
  "str_lines s =
     (if s = [] then []
      else
        case split_once LF s of
          None \<Rightarrow> [s]
        | Some (line, rest) \<Rightarrow>
            (case strip_suffix [CR] line of Some l \<Rightarrow> l | None \<Rightarrow> line) # str_lines rest)"
  by pat_completeness auto
termination
  by (relation "measure length") (auto simp: split_once_Some)

declare str_lines.simps [simp del]

text \<open>Entries in their first order, each once.\<close>

definition push_new :: "'a list \<Rightarrow> 'a \<Rightarrow> 'a list" where
  "push_new xs x = (if x \<in> set xs then xs else xs @ [x])"

definition normalize_domains :: "idna \<Rightarrow> bytes list \<Rightarrow> (bytes list, cli_error) result" where
  "normalize_domains idna domains =
     and_then (collect_results (map (normalize_domain idna) domains)) (\<lambda>domains. Ok (foldl push_new [] domains))"

definition authority_of :: "bytes \<Rightarrow> (loopback_authority, cli_error) result" where
  "authority_of text = ok_or (InvalidAuthority text) (cli_authority_parse text)"

definition normalize_loopback_authorities :: "bytes list \<Rightarrow> (loopback_authority list, cli_error) result" where
  "normalize_loopback_authorities authorities =
     and_then (collect_results (map authority_of authorities)) (\<lambda>authorities. Ok (foldl push_new [] authorities))"

definition normalize_batch ::
    "idna \<Rightarrow> bytes list \<Rightarrow> bytes list \<Rightarrow> (bytes list \<times> bytes set, cli_error) result" where
  "normalize_batch idna add remove =
     and_then (collect_results (map (normalize_domain idna) add)) (\<lambda>add.
     and_then (collect_results (map (normalize_domain idna) remove)) (\<lambda>remove. Ok (add, set remove)))"

definition normalize_loopback_batch ::
    "bytes list \<Rightarrow> bytes list \<Rightarrow> (loopback_authority list \<times> loopback_authority set, cli_error) result" where
  "normalize_loopback_batch add remove =
     and_then (normalize_loopback_authorities add) (\<lambda>add.
     and_then (collect_results (map authority_of remove)) (\<lambda>remove. Ok (add, set remove)))"

definition utf8_lines :: "bytes \<Rightarrow> (bytes list, cli_error) result" where
  "utf8_lines contents = (if utf8_valid contents then Ok (str_lines contents) else Err NotUtf8File)"

definition read_domains :: "idna \<Rightarrow> bytes \<Rightarrow> (bytes list, cli_error) result" where
  "read_domains idna contents = and_then (utf8_lines contents) (normalize_domains idna)"

definition read_loopback_authorities :: "bytes \<Rightarrow> (loopback_authority list, cli_error) result" where
  "read_loopback_authorities contents = and_then (utf8_lines contents) normalize_loopback_authorities"

definition domains_text :: "bytes list \<Rightarrow> bytes" where
  "domains_text domains = concat (map (\<lambda>d. d @ [LF]) domains)"

definition authorities_text :: "loopback_authority list \<Rightarrow> bytes" where
  "authorities_text authorities = concat (map (\<lambda>a. cli_authority_display a @ [LF]) authorities)"


text \<open>
  The standard library's \<open>split_whitespace\<close>: the words between the Unicode white space that
  \<open>trim\<close> removes.
\<close>

fun ws_length :: "bytes \<Rightarrow> nat" where
  "ws_length [] = 0"
| "ws_length (a # s) =
     (if is_ws1 a then 1
      else case s of
             b # t \<Rightarrow> if is_ws2 a b then 2 else (case t of c # _ \<Rightarrow> if is_ws3 a b c then 3 else 0 | [] \<Rightarrow> 0)
           | [] \<Rightarrow> 0)"

fun take_word :: "bytes \<Rightarrow> bytes \<times> bytes" where
  "take_word [] = ([], [])"
| "take_word (a # s) =
     (if 0 < ws_length (a # s) then ([], a # s) else (case take_word s of (w, rest) \<Rightarrow> (a # w, rest)))"

lemma take_word_length: "take_word s = (w, rest) \<Longrightarrow> length rest \<le> length s"
  by (induction s arbitrary: w) (auto split: if_splits prod.splits)

lemma length_trim_start: "length (trim_start s) \<le> length s"
  using suffix_length_le [OF suffix_trim_start] .

function split_whitespace :: "bytes \<Rightarrow> bytes list" where
  "split_whitespace s =
     (case trim_start s of
        [] \<Rightarrow> []
      | a # u \<Rightarrow> (case take_word u of (w, rest) \<Rightarrow> (a # w) # split_whitespace rest))"
  by pat_completeness auto
termination
proof (relation "measure length", goal_cases)
  case (2 s a u w rest)
  then show ?case
    using length_trim_start [of s] take_word_length [of u w rest] by simp
qed simp

declare split_whitespace.simps [simp del]

definition read_denied :: "bytes \<Rightarrow> (bytes set, cli_error) result" where
  "read_denied contents =
     and_then (utf8_lines contents) (\<lambda>lines.
       Ok (set (concat (map (\<lambda>l. case split_whitespace l of _ # d # _ \<Rightarrow> [d] | _ \<Rightarrow> []) lines))))"

definition read_trimmed :: "bytes \<Rightarrow> bytes \<Rightarrow> (bytes, cli_error) result" where
  "read_trimmed contents label =
     (if \<not> utf8_valid contents then Err NotUtf8File
      else
        (let v = trim contents
         in if v = [] \<or> LF \<in> set v \<or> CR \<in> set v then Err (InvalidData label) else Ok v))"


section \<open>The two parsers of an authority agree\<close>

lemma option_eqI:
  assumes "\<And>v. x = Some v \<longleftrightarrow> y = Some v"
  shows "x = y"
  using assms [of "the x"] assms [of "the y"] by (cases x; cases y) auto

lemma parse_policy_port_eq: "parse_policy_port text = ok (parse_port text)"
  by (auto simp: parse_policy_port_def parse_port_def parse_uint_digits split: option.splits)

lemma loopback_octets_eq: "loopback_octets n parts = parse_octets n parts"
proof (induction n parts rule: parse_octets.induct)
  case (1 parts)
  show ?case by (subst loopback_octets.simps) simp
next
  case (2 n)
  show ?case by (subst loopback_octets.simps) simp
next
  case (3 n part parts)
  then show ?case
    by (subst loopback_octets.simps) (auto split: option.splits)
qed

lemma parse_loopback_ipv4_Some:
  "parse_loopback_ipv4 text = Some v \<longleftrightarrow> parse_ipv4 text = Some v \<and> octets v ! 0 = 127"
  by (cases v) (auto simp: parse_loopback_ipv4_def parse_ipv4_def loopback_octets_eq
      split: option.splits list.splits if_splits)

lemma cli_authority_parse_eq: "cli_authority_parse text = ok (loopback_authority_from_str text)"
proof -
  have "parse_loopback_ipv4 host =
      (case parse_ipv4 host of Some v \<Rightarrow> if octets v ! 0 \<noteq> 127 then None else Some v | None \<Rightarrow> None)" (is "?l = ?r") for host
  proof -
    have "?l = Some v \<longleftrightarrow> ?r = Some v" for v
      by (auto simp: parse_loopback_ipv4_Some split: option.splits if_splits)
    then show ?thesis
      by (rule option_eqI)
  qed
  then have v4: "map_option LoopbackIpv4 (parse_loopback_ipv4 host) =
      (case parse_ipv4 host of Some v \<Rightarrow> if octets v ! 0 \<noteq> 127 then None else Some (LoopbackIpv4 v) | None \<Rightarrow> None)" for host
    by (simp split: option.split)
  note d = cli_authority_parse_def loopback_authority_from_str_def
  show ?thesis
  proof (cases "text = [] \<or> trim text \<noteq> text \<or> \<not> is_ascii text \<or> rsplit_once (CHR '':'') text = None")
    case True
    then show ?thesis
      by (auto simp: d simp del: rsplit_once_None)
  next
    case False
    then obtain host port where rs: "rsplit_once (CHR '':'') text = Some (host, port)"
      by (metis not_Some_eq surj_pair)
    note framed = False [simplified de_Morgan_disj]
    show ?thesis
    proof (cases "parse_port port")
      case (Err e)
      then show ?thesis
        using framed rs by (simp add: d parse_policy_port_eq)
    next
      case (Ok p)
      show ?thesis
      proof (cases "eq_ignore_ascii_case host ''localhost''")
        case True
        then show ?thesis
          using framed rs Ok by (simp add: d parse_policy_port_eq)
      next
        case False
        then show ?thesis
          using framed rs Ok
          by (cases "Option.bind (strip_prefix ''['' host) (strip_suffix '']'')")
            (auto simp: d parse_policy_port_eq v4 split: option.splits)
      qed
    qed
  qed
qed

lemma cli_authority_display_eq: "cli_authority_display a = show_loopback_authority a"
proof -
  have "join_with (CHR ''.'') (map show_u8 (octets v)) = show_ipv4 v" for v
    by (cases v) simp
  then show ?thesis
    by (simp add: cli_authority_display_def show_loopback_authority_def split: loopback_host.split)
qed

text \<open>
  C23: the host and the proxy mean the same by a loopback authority. The host's parser accepts the
  texts that the proxy's parser accepts, with the same value, and both print a value the same
  way, so an authority that the user grants is the one the proxy decides about.
\<close>

theorem host_and_proxy_agree_on_authorities:
  "cli_authority_parse text = ok (loopback_authority_from_str text) \<and>
   cli_authority_display a = show_loopback_authority a"
  by (simp add: cli_authority_parse_eq cli_authority_display_eq)

section \<open>The two parsers of a domain agree\<close>

lemma to_ascii_lower_punctuation:
  "to_ascii_lower b = CHR ''-'' \<longleftrightarrow> b = CHR ''-''"
  "to_ascii_lower b = CHR ''_'' \<longleftrightarrow> b = CHR ''_''"
  "to_ascii_lower b = CHR ''.'' \<longleftrightarrow> b = CHR ''.''"
  by (rule to_ascii_lower_eq_iff, simp add: byte_class_defs)+

lemma policy_char_lower:
  "is_ascii_lowercase (to_ascii_lower b) \<or> is_ascii_digit b \<or> to_ascii_lower b = CHR ''-''
     \<or> to_ascii_lower b = CHR ''_'' \<or> to_ascii_lower b = CHR ''.''
   \<longleftrightarrow> is_ascii_alphanumeric b \<or> b = CHR ''-'' \<or> b = CHR ''_'' \<or> b = CHR ''.''"
  by (auto simp: to_ascii_lower_punctuation byte_class_defs octet_to_ascii_lower)

lemma normalize_policy_domain_Some:
  "normalize_policy_domain text = Some d \<longleftrightarrow>
     d = to_ascii_lowercase text \<and> valid_policy_domain (to_ascii_lowercase text)"
proof -
  have lower: "list_all (\<lambda>b. is_ascii_lowercase b \<or> is_ascii_digit b \<or> b = CHR ''-'' \<or> b = CHR ''_'' \<or> b = CHR ''.'')
       (to_ascii_lowercase text)
     \<longleftrightarrow> list_all (\<lambda>b. is_ascii_alphanumeric b \<or> b = CHR ''-'' \<or> b = CHR ''_'' \<or> b = CHR ''.'') text"
    by (simp add: to_ascii_lowercase_def list.pred_map comp_def policy_char_lower)
  have again: "list_all (\<lambda>b. is_ascii_alphanumeric b \<or> b = CHR ''-'' \<or> b = CHR ''_'' \<or> b = CHR ''.'')
       (to_ascii_lowercase text)
     \<longleftrightarrow> list_all (\<lambda>b. is_ascii_alphanumeric b \<or> b = CHR ''-'' \<or> b = CHR ''_'' \<or> b = CHR ''.'') text"
    by (simp add: to_ascii_lowercase_def list.pred_map comp_def to_ascii_lower_punctuation)
  show ?thesis
    unfolding normalize_policy_domain_def Let_def valid_policy_domain_def lower again
    by (auto simp: list_ex_iff list_all_iff)
qed

lemma domain_pattern_entry_text:
  "domain_pattern_from_str s =
     (if valid_policy_domain (to_ascii_lowercase (entry_text s))
      then Ok (DomainPattern (PolicyDomain (to_ascii_lowercase (entry_text s)))) else Err ())"
  by (simp add: domain_pattern_from_str_def policy_domain_from_str_def entry_text_def Let_def)

lemma normalize_domain_entry_Some:
  "normalize_domain_entry s = Some d \<longleftrightarrow> domain_pattern_from_str s = Ok (DomainPattern (PolicyDomain d))"
  by (auto simp: normalize_domain_entry_def normalize_policy_domain_Some domain_pattern_entry_text)

lemma normalize_domain_Ok:
  "normalize_domain idna s = Ok d \<longleftrightarrow> normalize_domain_entry s = Some d"
proof -
  have "normalize_domain_entry s = None" if "\<not> is_ascii (entry_text s)"
    using that by (simp add: normalize_domain_entry_def normalize_policy_domain_def)
  then show ?thesis
    by (cases "is_ascii (entry_text s)") (auto simp: normalize_domain_def Let_def)
qed

lemma normalize_domain_valid: "normalize_domain idna s = Ok d \<Longrightarrow> valid_policy_domain d"
  by (auto simp: normalize_domain_Ok normalize_domain_entry_def normalize_policy_domain_Some)

lemma normalize_domain_id: "valid_policy_domain d \<Longrightarrow> normalize_domain idna d = Ok d"
  by (simp add: normalize_domain_Ok normalize_domain_entry_Some domain_pattern_from_str_valid)

text \<open>
  The host and the proxy mean the same by a domain. What the host makes of a text that a user
  writes is the pattern that the proxy's parser makes of it, in its stored spelling; it is refused
  by the one when it is refused by the other. The result does not depend on what the \<open>idna\<close>
  crate suggests, and normalising it again changes nothing.
\<close>

theorem host_and_proxy_agree_on_domains:
  "(normalize_domain idna s = Ok d \<longleftrightarrow> domain_pattern_from_str s = Ok (DomainPattern (PolicyDomain d))) \<and>
   (is_ok (normalize_domain idna s) \<longleftrightarrow> is_ok (domain_pattern_from_str s)) \<and>
   and_then (normalize_domain idna s) (normalize_domain idna) = normalize_domain idna s"
proof -
  have "is_ok (normalize_domain idna s) \<longleftrightarrow> is_ok (domain_pattern_from_str s)"
    by (auto simp: is_ok_iff normalize_domain_Ok normalize_domain_entry_Some)
      (metis domain_pattern.exhaust policy_domain.exhaust)
  moreover have "and_then (normalize_domain idna s) (normalize_domain idna) = normalize_domain idna s"
    using normalize_domain_valid normalize_domain_id by (cases "normalize_domain idna s") fastforce+
  ultimately show ?thesis
    by (simp add: normalize_domain_Ok normalize_domain_entry_Some)
qed


section \<open>Stored lists\<close>

text \<open>Lines that the host and the proxy read the same way.\<close>

definition plain_line :: "bytes \<Rightarrow> bool" where
  "plain_line l \<longleftrightarrow> l \<noteq> [] \<and> LF \<notin> set l \<and> CR \<notin> set l"

lemma str_lines_Nil [simp]: "str_lines [] = []"
  by (simp add: str_lines.simps)

lemma plain_line_no_CR: "plain_line l \<Longrightarrow> strip_suffix [CR] l = None"
  by (auto simp: plain_line_def strip_suffix_def suffix_def)

lemma str_lines_line:
  assumes "plain_line l"
  shows "str_lines (l @ LF # rest) = l # str_lines rest"
proof -
  have "split_once LF (l @ LF # rest) = Some (l, rest)"
    using assms by (simp add: split_once_Some plain_line_def)
  then show ?thesis
    by (subst str_lines.simps) (simp add: plain_line_no_CR assms)
qed

lemma str_lines_last:
  assumes "plain_line l"
  shows "str_lines l = [l]"
proof -
  have "split_once LF l = None" and "l \<noteq> []"
    using assms by (simp_all add: plain_line_def)
  then show ?thesis
    by (subst str_lines.simps) (simp del: split_once_None)
qed

lemma str_lines_concat:
  "list_all plain_line ls \<Longrightarrow> str_lines (concat (map (\<lambda>l. l @ [LF]) ls)) = ls"
  by (induction ls) (auto simp: str_lines_line)

lemma str_lines_join:
  "ls \<noteq> [] \<Longrightarrow> list_all plain_line ls \<Longrightarrow> str_lines (join_with LF ls) = ls"
  by (induction LF ls rule: join_with.induct) (auto simp: str_lines_line str_lines_last)

lemma concat_lines: "ls \<noteq> [] \<Longrightarrow> concat (map (\<lambda>l. l @ [LF]) ls) = join_with LF ls @ [LF]"
  by (induction LF ls rule: join_with.induct) auto

lemma strict_lines_str_lines:
  assumes "strict_lines contents = Ok ls" and "list_all plain_line ls"
  shows "str_lines contents = ls"
proof (cases "contents = []")
  case True
  then show ?thesis
    using assms by (simp add: strict_lines_def)
next
  case False
  define body where "body = (case strip_suffix [LF] contents of Some b \<Rightarrow> b | None \<Rightarrow> contents)"
  have ls: "ls = split_on LF body"
    using assms(1) False by (auto simp: strict_lines_def body_def Let_def split: if_splits)
  then have body: "body = join_with LF ls" and ne: "ls \<noteq> []"
    by simp_all
  have "contents = body @ [LF] \<or> contents = body"
    by (auto simp: body_def strip_suffix_Some split: option.split)
  then show ?thesis
    using str_lines_join [OF ne assms(2)] str_lines_concat [OF assms(2)] concat_lines [OF ne] body by auto
qed

lemma domain_plain_line: "valid_policy_domain d \<Longrightarrow> plain_line d"
  using policy_domain_framed [of d] valid_policy_domain_plain [of d CR]
  by (auto simp: plain_line_def is_ws1_def)

lemma authority_plain_line: "plain_line (show_loopback_authority a)"
  using show_loopback_not_Nil [of a] loopback_authority_visible [of LF a] loopback_authority_visible [of CR a]
  by (auto simp: plain_line_def visible_def)

lemma foldl_push_new:
  "distinct (acc :: 'a list) \<Longrightarrow> distinct (foldl push_new acc xs) \<and> set (foldl push_new acc xs) = set acc \<union> set xs"
  by (induction xs arbitrary: acc) (auto simp: push_new_def)

lemma foldl_push_new_id: "distinct (acc @ xs) \<Longrightarrow> foldl push_new acc xs = acc @ xs"
proof (induction xs arbitrary: acc)
  case (Cons x xs)
  then show ?case
    using Cons.IH [of "acc @ [x]"] by (simp add: push_new_def)
qed simp

lemma normalize_domains_Ok:
  "normalize_domains idna texts = Ok ds \<longleftrightarrow>
     (\<exists>xs. map (normalize_domain idna) texts = map Ok xs \<and> ds = foldl push_new [] xs)"
  by (auto simp: normalize_domains_def and_then_eq_Ok collect_results_eq_Ok)

lemma normalize_domains_valid:
  assumes "normalize_domains idna texts = Ok ds"
  shows "distinct ds \<and> list_all valid_policy_domain ds"
proof -
  obtain xs where xs: "map (normalize_domain idna) texts = map Ok xs" and ds: "ds = foldl push_new [] xs"
    using assms normalize_domains_Ok by blast
  have "valid_policy_domain d" if "d \<in> set xs" for d
  proof -
    have "Ok d \<in> set (map (normalize_domain idna) texts)"
      using that xs by simp
    then show ?thesis
      using normalize_domain_valid by (auto simp: eq_commute)
  qed
  then show ?thesis
    using foldl_push_new [of "[]" xs] by (simp add: ds list_all_iff)
qed

lemma normalize_domains_id:
  assumes "distinct ds" and "list_all valid_policy_domain ds"
  shows "normalize_domains idna ds = Ok ds"
proof -
  have "map (normalize_domain idna) ds = map Ok ds"
    using assms(2) by (induction ds) (auto simp: normalize_domain_id)
  then show ?thesis
    using foldl_push_new_id [of "[]" ds] assms(1) normalize_domains_Ok by fastforce
qed

lemma authority_of_Ok: "authority_of text = Ok a \<longleftrightarrow> loopback_authority_from_str text = Ok a"
  by (cases "loopback_authority_from_str text") (auto simp: authority_of_def cli_authority_parse_eq ok_or_def)

lemma normalize_loopback_authorities_Ok:
  "normalize_loopback_authorities texts = Ok as \<longleftrightarrow>
     (\<exists>xs. map authority_of texts = map Ok xs \<and> as = foldl push_new [] xs)"
  by (auto simp: normalize_loopback_authorities_def and_then_eq_Ok collect_results_eq_Ok)

lemma normalize_loopback_authorities_valid:
  assumes "normalize_loopback_authorities texts = Ok as"
  shows "distinct as \<and> list_all valid_loopback_authority as"
proof -
  obtain xs where xs: "map authority_of texts = map Ok xs" and as: "as = foldl push_new [] xs"
    using assms normalize_loopback_authorities_Ok by blast
  have "valid_loopback_authority a" if "a \<in> set xs" for a
  proof -
    have "Ok a \<in> set (map authority_of texts)"
      using that xs by simp
    then show ?thesis
      using loopback_authority_from_str_valid by (auto simp: authority_of_Ok eq_commute)
  qed
  then show ?thesis
    using foldl_push_new [of "[]" xs] by (simp add: as list_all_iff)
qed

lemma normalize_loopback_authorities_id:
  assumes "distinct as" and "list_all valid_loopback_authority as"
  shows "normalize_loopback_authorities (map cli_authority_display as) = Ok as"
proof -
  have "map authority_of (map cli_authority_display as) = map Ok as"
    using assms(2)
    by (induction as) (auto simp: authority_of_Ok cli_authority_display_eq parse_show_loopback_authority)
  then show ?thesis
    using foldl_push_new_id [of "[]" as] assms(1) normalize_loopback_authorities_Ok by fastforce
qed

lemma is_ascii_concat_lines: "list_all is_ascii ls \<Longrightarrow> is_ascii (concat (map (\<lambda>l. l @ [LF]) ls))"
  by (induction ls) (auto simp: is_ascii_def is_ascii_char_def)

lemma utf8_lines_concat:
  assumes "list_all is_ascii ls" and "list_all plain_line ls"
  shows "utf8_lines (concat (map (\<lambda>l. l @ [LF]) ls)) = Ok ls"
  using is_ascii_utf8_valid [OF is_ascii_concat_lines [OF assms(1)]] str_lines_concat [OF assms(2)]
  by (simp add: utf8_lines_def)

lemma domain_entry:
  assumes "valid_policy_domain d"
  obtains e where "policy_entry_from_str d = Ok e" and "show_policy_entry e = d"
  using assms policy_entry_from_str_valid [of d] policy_entry_from_str_spelling by (auto simp: is_ok_iff)

lemma domain_entries:
  assumes "list_all valid_policy_domain ds"
  obtains es where "map policy_entry_from_str ds = map Ok es" and "map show_policy_entry es = ds"
proof -
  have "\<exists>es. map policy_entry_from_str ds = map Ok es \<and> map show_policy_entry es = ds"
    using assms
  proof (induction ds)
    case (Cons d ds)
    then obtain e where "policy_entry_from_str d = Ok e" "show_policy_entry e = d"
      by (auto elim: domain_entry)
    moreover obtain es where "map policy_entry_from_str ds = map Ok es" "map show_policy_entry es = ds"
      using Cons by auto
    ultimately show ?case
      by (intro exI [of _ "e # es"]) simp
  qed simp
  then show thesis
    using that by blast
qed

lemma strict_lines_concat:
  assumes "ls \<noteq> []" and "list_all plain_line ls"
  shows "strict_lines (concat (map (\<lambda>l. l @ [LF]) ls)) = Ok ls"
proof -
  have "split_on LF (join_with LF ls) = ls"
    using assms by (intro split_join) (auto simp: plain_line_def list_all_iff)
  moreover have "join_with LF ls \<noteq> []"
    using assms by (cases ls rule: list.exhaust; cases "tl ls") (auto simp: plain_line_def)
  ultimately show ?thesis
    by (simp add: strict_lines_def concat_lines [OF assms(1)])
qed

lemma stored_domains:
  assumes "distinct ds" and "list_all valid_policy_domain ds"
  shows "\<exists>S. parse_domain_layer (domains_text ds) = Ok S \<and> show_policy_entry ` S = set ds"
    and "read_domains idna (domains_text ds) = Ok ds"
proof -
  obtain es where es: "map policy_entry_from_str ds = map Ok es" "map show_policy_entry es = ds"
    using assms(2) by (rule domain_entries)
  have plain: "list_all plain_line ds" and ascii: "list_all is_ascii ds"
    using assms(2) domain_plain_line by (auto simp: list_all_iff valid_policy_domain_def)
  have "strict_lines (domains_text ds) = Ok ds"
    using strict_lines_concat [OF _ plain] by (cases "ds = []") (simp_all add: domains_text_def strict_lines_def)
  then have "parse_domain_layer (domains_text ds) = Ok (set es)"
    by (simp add: parse_domain_layer_def es(1))
  moreover have "show_policy_entry ` set es = set ds"
    by (simp flip: es(2))
  ultimately show "\<exists>S. parse_domain_layer (domains_text ds) = Ok S \<and> show_policy_entry ` S = set ds"
    by blast
  show "read_domains idna (domains_text ds) = Ok ds"
    using utf8_lines_concat [OF ascii plain] normalize_domains_id [OF assms]
    by (simp add: read_domains_def domains_text_def)
qed

lemma stored_authorities:
  assumes "distinct as" and "list_all valid_loopback_authority as"
  shows "parse_local_layer (authorities_text as) = Ok (set as)"
    and "read_loopback_authorities (authorities_text as) = Ok as"
proof -
  let ?ls = "map cli_authority_display as"
  have written: "authorities_text as = concat (map (\<lambda>l. l @ [LF]) ?ls)"
    by (simp add: authorities_text_def comp_def)
  have plain: "list_all plain_line ?ls"
    by (simp add: list.pred_map comp_def cli_authority_display_eq authority_plain_line list_all_iff)
  have ascii: "list_all is_ascii ?ls"
    using loopback_authority_visible
    by (fastforce simp: list_all_iff cli_authority_display_eq is_ascii_def is_ascii_char_def visible_def)
  have "map parse_local_line ?ls = map Ok as"
    using assms(2)
    by (induction as) (auto simp: parse_local_line_Ok cli_authority_display_eq parse_show_loopback_authority)
  then have "collect_results (map parse_local_line ?ls) = Ok as"
    by (simp only: collect_results_eq_Ok)
  moreover have "strict_lines (authorities_text as) = Ok ?ls"
    using strict_lines_concat [OF _ plain] unfolding written
    by (cases "as = []") (simp_all add: strict_lines_def)
  ultimately show "parse_local_layer (authorities_text as) = Ok (set as)"
    by (simp add: parse_local_layer_def del: map_map)
  show "read_loopback_authorities (authorities_text as) = Ok as"
    using utf8_lines_concat [OF ascii plain] normalize_loopback_authorities_id [OF assms]
    by (simp add: read_loopback_authorities_def written)
qed

text \<open>
  C22: what the host stores is the policy that is enforced. Whatever texts a user gives, the file
  that the host makes of the accepted ones is a layer that the proxy's strict parser accepts, with
  exactly the listed entries, and it is the list that the host reads back.
\<close>

theorem stored_policy_is_enforced:
  assumes "normalize_domains idna domains = Ok ds"
    and "normalize_loopback_authorities authorities = Ok as"
  shows "(\<exists>S. parse_domain_layer (domains_text ds) = Ok S \<and> show_policy_entry ` S = set ds) \<and>
    read_domains idna (domains_text ds) = Ok ds \<and>
    parse_local_layer (authorities_text as) = Ok (set as) \<and> read_loopback_authorities (authorities_text as) = Ok as"
  using stored_domains normalize_domains_valid [OF assms(1)]
    stored_authorities normalize_loopback_authorities_valid [OF assms(2)] by blast

theorem stored_policy_is_enforced_witness:
  "\<exists>ds as. normalize_domains (\<lambda>_. None) [''*.Docs.RS'', ''docs.rs'', ''1.2.3.4''] = Ok ds \<and>
     ds = [''docs.rs'', ''1.2.3.4''] \<and> is_ok (parse_domain_layer (domains_text ds)) \<and>
     normalize_loopback_authorities [''LOCALHOST:80''] = Ok as \<and> parse_local_layer (authorities_text as) = Ok (set as)"
proof -
  have "normalize_domains (\<lambda>_. None) [''*.Docs.RS'', ''docs.rs'', ''1.2.3.4''] = Ok [''docs.rs'', ''1.2.3.4'']"
    and "normalize_loopback_authorities [''LOCALHOST:80''] = Ok [\<lparr>la_host = Localhost, la_port = 80\<rparr>]"
    by code_simp+
  with stored_policy_is_enforced [OF this] show ?thesis
    by (auto simp: is_ok_iff)
qed

text \<open>Whatever the proxy accepts, the host reads as the same list.\<close>

lemma read_domains_of_layer:
  assumes "parse_domain_layer contents = Ok S" and "utf8_valid contents"
  shows "\<exists>ds. read_domains idna contents = Ok ds \<and> set ds = show_policy_entry ` S"
proof -
  obtain ls es where ls: "strict_lines contents = Ok ls" and es: "map policy_entry_from_str ls = map Ok es"
    and S: "S = set es"
    using assms(1) by (auto simp: parse_domain_layer_def and_then_eq_Ok map_err_eq_Ok collect_results_eq_Ok)
  have valid: "list_all valid_policy_domain ls"
  proof -
    have "is_ok (policy_entry_from_str l)" if "l \<in> set ls" for l
      using arg_cong [OF es, of set] that by (auto simp: is_ok_iff)
    then show ?thesis
      by (simp add: policy_entry_from_str_valid list_all_iff)
  qed
  have lines: "map show_policy_entry es = ls"
    using es by (intro entry_lines.layer_lines) (simp add: collect_results_eq_Ok)
  have "str_lines contents = ls"
    using strict_lines_str_lines [OF ls] valid domain_plain_line by (auto simp: list_all_iff)
  moreover have "map (normalize_domain idna) ls = map Ok ls"
    using valid by (simp add: list_all_iff normalize_domain_id)
  ultimately have "read_domains idna contents = Ok (foldl push_new [] ls)"
    using assms(2) normalize_domains_Ok by (fastforce simp: read_domains_def utf8_lines_def)
  moreover have "set (foldl push_new [] ls) = show_policy_entry ` S"
    using foldl_push_new [of "[]" ls] by (simp add: S flip: lines)
  ultimately show ?thesis
    by blast
qed

lemma read_authorities_of_layer:
  assumes "parse_local_layer contents = Ok S" and "utf8_valid contents"
  shows "\<exists>as. read_loopback_authorities contents = Ok as \<and> set as = S"
proof -
  obtain ls xs where ls: "strict_lines contents = Ok ls" and xs: "map parse_local_line ls = map Ok xs"
    and S: "S = set xs"
    using assms(1) by (auto simp: parse_local_layer_def and_then_eq_Ok collect_results_eq_Ok)
  have lines: "map show_loopback_authority xs = ls"
    using xs by (intro local_lines.layer_lines) (simp add: collect_results_eq_Ok)
  have "list_all plain_line ls"
    by (simp add: list.pred_map comp_def list_all_iff authority_plain_line flip: lines)
  then have "str_lines contents = ls"
    by (rule strict_lines_str_lines [OF ls])
  moreover have "map authority_of ls = map Ok xs"
    using xs by (induction ls arbitrary: xs) (auto simp: Cons_eq_map_conv authority_of_Ok parse_local_line_Ok)
  ultimately have "read_loopback_authorities contents = Ok (foldl push_new [] xs)"
    using assms(2) normalize_loopback_authorities_Ok by (fastforce simp: read_loopback_authorities_def utf8_lines_def)
  moreover have "set (foldl push_new [] xs) = S"
    using foldl_push_new [of "[]" xs] by (simp add: S)
  ultimately show ?thesis
    by blast
qed

section \<open>Quoting\<close>

text \<open>
  How a POSIX shell reads one word without parameter expansion: in single quotes everything up
  to the closing quote is literal, and outside a backslash makes the next character literal. No
  other character stands for itself outside the quotes here, so a word this reads is one word of
  any shell command.
\<close>

fun shell_word :: "bool \<Rightarrow> bytes \<Rightarrow> bytes option" where
  "shell_word False [] = Some []"
| "shell_word True [] = None"
| "shell_word True (c # cs) =
     (if c = APOSTROPHE then shell_word False cs else map_option ((#) c) (shell_word True cs))"
| "shell_word False (c # cs) =
     (if c = APOSTROPHE then shell_word True cs
      else if c = BACKSLASH then (case cs of [] \<Rightarrow> None | d # ds \<Rightarrow> map_option ((#) d) (shell_word False ds))
      else None)"

lemma shell_word_quoted:
  "shell_word True (concat (map (\<lambda>b. if b = APOSTROPHE then [APOSTROPHE, BACKSLASH, APOSTROPHE, APOSTROPHE] else [b]) bs)
     @ [APOSTROPHE]) = Some bs"
  by (induction bs) auto

fun unquote_path :: "bytes \<Rightarrow> bytes option" where
  "unquote_path [] = Some []"
| "unquote_path (c # cs) =
     (if c = BACKSLASH then
        (case cs of
           d # ds \<Rightarrow>
             if d = CHR ''x'' then
               (case ds of
                  h # l # rest \<Rightarrow>
                    map_option ((#) (char_of (16 * hex_digit_value h + hex_digit_value l))) (unquote_path rest)
                | _ \<Rightarrow> None)
             else map_option ((#) d) (unquote_path ds)
         | [] \<Rightarrow> None)
      else map_option ((#) c) (unquote_path cs))"

lemma octet_nibbles: "octet b div 16 < 16" "octet b mod 16 < 16"
  using octet_lt_256 [of b] by (simp_all add: less_mult_imp_div_less)

lemma hex_upper_value: "n < 16 \<Longrightarrow> hex_digit_value (hex_upper n) = n \<and> visible (hex_upper n)"
  by (auto simp: hex_upper_def hex_digit_value_def byte_class_defs visible_def of_char_of)

lemma unquote_quote_byte: "unquote_path (quote_byte b @ rest) = map_option ((#) b) (unquote_path rest)"
  using octet_nibbles [of b] by (auto simp: hex_upper_value)

lemma unquote_quoted: "unquote_path (concat (map quote_byte bs)) = Some bs"
  by (induction bs) (simp_all add: unquote_quote_byte del: quote_byte.simps)

lemma quote_byte_printable: "c \<in> set (quote_byte b) \<Longrightarrow> 32 \<le> octet c \<and> octet c \<le> 126"
  using hex_upper_value [OF octet_nibbles(1) [of b]] hex_upper_value [OF octet_nibbles(2) [of b]]
  by (auto simp: visible_def split: if_splits)

text \<open>
  C26: paths of any bytes can be shown and pasted. The shell form of a path is one word that any
  POSIX shell reads as exactly the path, so no byte of it is interpreted; the displayed form is
  printable ASCII, so no byte of a path reaches the terminal as a control sequence, and it can be
  read back too.
\<close>

theorem quoting_is_faithful:
  "shell_word False (shell_quote_bytes bs) = Some bs \<and>
   list_all (\<lambda>c. 32 \<le> octet c \<and> octet c \<le> 126) (quote_path_bytes bs) \<and>
   (\<exists>q. quote_path_bytes bs = [DQUOTE] @ q @ [DQUOTE] \<and> unquote_path q = Some bs)"
  using shell_word_quoted unquote_quoted
  by (auto simp: shell_quote_bytes_def quote_path_bytes_def list_all_iff simp del: quote_byte.simps
      dest: quote_byte_printable)

section \<open>The log of denials\<close>

definition visible_word :: "bytes \<Rightarrow> bool" where
  "visible_word w \<longleftrightarrow> w \<noteq> [] \<and> list_all visible w"

lemma visible_not_ws: "visible c \<Longrightarrow> ws_length (c # s) = 0"
  by (auto simp: visible_def is_ws1_def is_ws2_def is_ws3_def split: list.splits)

lemma visible_word_hd:
  assumes "visible_word w"
  shows "trim_start (w @ s) = w @ s"
proof -
  have "w \<noteq> []" and "visible (hd w)"
    using assms by (cases w; simp add: visible_word_def)+
  then show ?thesis
    by (intro trim_start_unspaced) (auto simp: visible_def is_ws1_def is_ascii_char_def)
qed

lemma take_word_visible:
  "list_all visible w \<Longrightarrow> take_word (w @ TAB # s) = (w, TAB # s)" "list_all visible w \<Longrightarrow> take_word w = (w, [])"
  by (induction w) (simp_all add: visible_not_ws is_ws1_def del: ws_length.simps(2), simp add: is_ws1_def)

lemma split_whitespace_record:
  assumes "visible_word t" and "visible_word d"
  shows "split_whitespace (t @ TAB # d) = [t, d]"
proof -
  obtain a t' where t: "t = a # t'" and t': "list_all visible t'"
    using assms(1) by (cases t) (auto simp: visible_word_def)
  obtain b d' where d: "d = b # d'" and d': "list_all visible d'"
    using assms(2) by (cases d) (auto simp: visible_word_def)
  have "trim_start (TAB # d) = d"
    using visible_word_hd [OF assms(2), of "[]"] by (simp add: is_ws1_def)
  then have "split_whitespace (TAB # d) = [d]"
    by (subst split_whitespace.simps) (simp add: d take_word_visible(2) [OF d'], simp add: split_whitespace.simps)
  then show ?thesis
    using visible_word_hd [OF assms(1), of "TAB # d"]
    by (subst split_whitespace.simps) (simp add: t take_word_visible(1) [OF t'])
qed

lemma read_denied_records:
  assumes "\<forall>(t, d) \<in> set rs. visible_word t \<and> visible_word d"
  shows "read_denied (concat (map (\<lambda>(t, d). render_denial t d) rs)) = Ok (snd ` set rs)"
proof -
  let ?ls = "map (\<lambda>(t, d). t @ TAB # d) rs"
  have written: "concat (map (\<lambda>(t, d). render_denial t d) rs) = concat (map (\<lambda>l. l @ [LF]) ?ls)"
    by (simp add: render_denial_def comp_def case_prod_unfold)
  have chars: "is_ascii_char c \<and> c \<noteq> LF \<and> c \<noteq> CR" if "c \<in> set l" and "l \<in> set ?ls" for c l
  proof -
    have "visible c \<or> c = TAB"
      using assms that by (fastforce simp: visible_word_def list_all_iff)
    then show ?thesis
      by (auto simp: visible_def is_ascii_char_def)
  qed
  have line: "list_all is_ascii ?ls"
    unfolding list_all_iff is_ascii_def using chars by blast
  have "list_all (\<lambda>l. LF \<notin> set l \<and> CR \<notin> set l) ?ls"
    unfolding list_all_iff using chars by blast
  then have "list_all plain_line ?ls"
    by (auto simp: list_all_iff plain_line_def)
  with line have "utf8_lines (concat (map (\<lambda>l. l @ [LF]) ?ls)) = Ok ?ls"
    by (rule utf8_lines_concat)
  moreover have "map (\<lambda>l. case split_whitespace l of _ # d # _ \<Rightarrow> [d] | _ \<Rightarrow> []) ?ls = map (\<lambda>(t, d). [d]) rs"
    using assms split_whitespace_record by (auto simp: case_prod_unfold)
  moreover have "set (concat (map (\<lambda>(t, d). [d]) rs)) = snd ` set rs"
    by (induction rs) auto
  ultimately show ?thesis
    unfolding read_denied_def written by (simp only: and_then.simps)
qed

lemma pad_visible: "list_all visible s \<Longrightarrow> list_all visible (pad n s)"
  by (auto simp: pad_def list_all_iff visible_def)

lemma show_nat_visible: "list_all visible (show_nat n)"
  using show_nat_digit digit_visible by (auto simp: list_all_iff)

lemma rfc3339_visible: "visible_word (rfc3339 now)"
  by (simp add: visible_word_def rfc3339_def pad_visible show_nat_visible visible_def split: prod.split)

lemma show_ipv6_not_Nil: "show_ipv6 a \<noteq> []"
proof -
  have "show_segments ss \<noteq> []" if "ss \<noteq> []" for ss
    using that by (cases ss rule: show_segments.cases) auto
  moreover have "segments a \<noteq> []"
    by (cases a) simp
  ultimately show ?thesis
    by (auto simp: show_ipv6_def Let_def split: option.split prod.split)
qed

lemma show_public_host_visible:
  assumes "public_host_wf host scope"
  shows "visible_word (show_public_host host)"
proof (cases host)
  case (Dns name)
  then have name: "valid_domain (domain_str name)"
    using assms by (simp add: public_host_wf_def normal_domain_def)
  have "visible c" if c: "c \<in> set (domain_str name)" for c
  proof (cases "c = CHR ''.''")
    case False
    then obtain l where "l \<in> set (split_on (CHR ''.'') (domain_str name))" "c \<in> set l"
      using split_on_chars [OF c False] by blast
    then have "is_ascii_alphanumeric c \<or> c = CHR ''-''"
      using name by (auto simp: valid_domain_def valid_label_def list_all_iff)
    then show ?thesis
      using alphanumeric_visible by (auto simp: visible_def)
  qed (simp add: visible_def)
  then show ?thesis
    using Dns valid_domain_nonempty [OF name] by (simp add: visible_word_def list_all_iff)
next
  case (IpHost address)
  then show ?thesis
    using show_ipv4_visible show_ipv6_visible show_ipv6_not_Nil
    by (cases address) (auto simp: visible_word_def list_all_iff)
qed

text \<open>
  What the router records for a target that it denies: \<open>authorize_public\<close> the host, \<open>authorize_local\<close> the
  loopback authority. The other targets are never denied by the policy.
\<close>

definition denied_destination :: "target \<Rightarrow> bytes option" where
  "denied_destination t =
     (case t of
        PublicHttp p \<Rightarrow> Some (destination_public p)
      | PublicConnect p \<Rightarrow> Some (destination_public p)
      | LocalHttp l \<Rightarrow> Some (destination_local l)
      | LocalConnect l \<Rightarrow> Some (destination_local l)
      | _ \<Rightarrow> None)"

lemma denied_destination_visible:
  assumes "denied_destination (classify request_method raw) = Some d"
  shows "visible_word d"
proof -
  have "visible_word (show_loopback_authority a)" for a
    using loopback_authority_visible [of _ a] show_loopback_not_Nil [of a] by (auto simp: visible_word_def list_all_iff)
  then show ?thesis
    using assms classify_wf [of request_method raw] show_public_host_visible
    by (auto simp: denied_destination_def target_wf_def destination_public_def destination_local_def split: target.split_asm)
qed

text \<open>
  C24: the user is shown what was denied. From a log that consists of the proxy's records of denied
  targets, public and local ones, for request lines of any form, the host's listing extracts
  exactly the set of denied destinations: a record's destination cannot be split, merged with the
  time stamp, or add a record of its own, whatever a client asked for.
\<close>

theorem denials_are_listed:
  assumes "\<forall>(now, t, d) \<in> set denials. \<exists>request_method raw. t = classify request_method raw \<and> denied_destination t = Some d"
  shows "read_denied (concat (map (\<lambda>(now, t, d). render_denial (rfc3339 now) d) denials))
    = Ok {d. \<exists>now t. (now, t, d) \<in> set denials}"
proof -
  have "\<forall>(t, d) \<in> set (map (\<lambda>(now, t, d). (rfc3339 now, d)) denials). visible_word t \<and> visible_word d"
    using assms rfc3339_visible denied_destination_visible by fastforce
  moreover have "snd ` (\<lambda>(now, t, d). (rfc3339 now, d)) ` set denials = {d. \<exists>now t. (now, t, d) \<in> set denials}"
    by force
  ultimately show ?thesis
    using read_denied_records [of "map (\<lambda>(now, t, d). (rfc3339 now, d)) denials"]
    by (simp add: comp_def case_prod_unfold)
qed

theorem denials_are_listed_witness:
  "read_denied (render_denial (rfc3339 0) ''docs.rs'' @ render_denial (rfc3339 86400) ''127.0.0.1:80'')
     = Ok {''docs.rs'', ''127.0.0.1:80''}"
proof -
  let ?p = "classify ''CONNECT'' ''docs.rs:443''" and ?l = "classify ''GET'' ''http://127.0.0.1/x''"
  have p: "denied_destination ?p = Some ''docs.rs''" and l: "denied_destination ?l = Some ''127.0.0.1:80''"
    by code_simp+
  have "\<forall>(now, t, d) \<in> set [(0, ?p, ''docs.rs''), (86400, ?l, ''127.0.0.1:80'')].
      \<exists>request_method raw. t = classify request_method raw \<and> denied_destination t = Some d"
    using p l by auto
  from denials_are_listed [OF this] show ?thesis
    by (simp add: insert_commute Collect_disj_eq) (auto intro: arg_cong)
qed

end
