(* ===== verification/Cli_Broker.thy ===== *)
theory Cli_Broker
  imports Cli_Text
begin

text \<open>
  The broker on the host (\<open>cli/src/broker.rs\<close>): the protocol from its side, the live policy it
  asks (\<open>loopback_allows_live\<close> of \<open>cli/src/net.rs\<close>), the addresses it connects to, its relay, and
  the shared state of its threads as a step relation. Locks are held for single steps only, so
  a step is what one thread does while it holds a lock. A client's socket is a script of reads and
  a sink; a deadline is the answer of the clock at each look.
\<close>

definition HANDSHAKE_DEADLINE :: nat where "HANDSHAKE_DEADLINE = 3"
definition CONNECT_DEADLINE :: nat where "CONNECT_DEADLINE = 10"
definition MAX_CONNECTIONS :: nat where "MAX_CONNECTIONS = 128"
definition MAX_BROKER_FRAME_SIZE :: nat where "MAX_BROKER_FRAME_SIZE = 256"

section \<open>Requests\<close>

definition cli_token_parse :: "bytes \<Rightarrow> broker_token option" where
  "cli_token_parse text =
     (if length text = 64 \<and> list_all (\<lambda>b. is_ascii_digit b \<or> 97 \<le> octet b \<and> octet b \<le> 102) text
      then Some (BrokerToken text) else None)"

datatype broker_request = ReadyRequest broker_token | ConnectRequest broker_token loopback_authority

primrec request_token :: "broker_request \<Rightarrow> broker_token" where
  "request_token (ReadyRequest token) = token"
| "request_token (ConnectRequest token _) = token"

definition request_of_fields :: "bytes list \<Rightarrow> broker_request option" where
  "request_of_fields ws =
     (case ws of
        [version, command, token] \<Rightarrow>
          if version = ''VHRN-BROKER/1'' \<and> command = ''READY''
          then map_option ReadyRequest (cli_token_parse token) else None
      | [version, command, token, raw] \<Rightarrow>
          if version = ''VHRN-BROKER/1'' \<and> command = ''CONNECT'' then
            Option.bind (cli_authority_parse raw) (\<lambda>authority.
              if cli_authority_display authority \<noteq> raw then None
              else map_option (\<lambda>token. ConnectRequest token authority) (cli_token_parse token))
          else None
      | _ \<Rightarrow> None)"

definition parse_broker_request :: "bytes \<Rightarrow> broker_request option" where
  "parse_broker_request bs =
     (if MAX_BROKER_FRAME_SIZE < length bs then None
      else
        Option.bind (strip_suffix [LF] bs) (\<lambda>bs.
          if LF \<in> set bs \<or> \<not> utf8_valid bs then None else request_of_fields (split_on (CHR '' '') bs)))"

section \<open>The handshake\<close>

datatype broker_failure =
    InvalidHandshake
  | Denied
  | PolicyUnreadable cli_error
  | BrokerStopped
  | LoopbackConnectionFailed

text \<open>\<open>late n\<close>: the deadline has passed when \<open>n\<close> bytes have been read.\<close>

function read_handshake_line :: "(nat \<Rightarrow> bool) \<Rightarrow> bytes \<Rightarrow> read_event list \<Rightarrow> bytes option \<times> read_event list" where
  "read_handshake_line late line events =
     (if late (length line) \<or> length line = MAX_BROKER_FRAME_SIZE then (None, events)
      else
        case io_read 1 events of
          (None, events) \<Rightarrow> (None, events)
        | (Some d, events) \<Rightarrow>
            if d = [] then (None, events)
            else if d = [LF] then (Some (line @ d), events)
            else read_handshake_line late (line @ d) events)"
  by pat_completeness auto
termination
proof (relation "measure (\<lambda>(_, _, events). length (script_data events))", goal_cases)
  case (2 late line events r events' d)
  then show ?case
    using io_read_Some(1) [of 1 events d events'] by (cases d) auto
qed simp

declare read_handshake_line.simps [simp del]

datatype host_request = HostReady | HostConnect loopback_authority

definition handshake ::
    "(nat \<Rightarrow> bool) \<Rightarrow> broker_token \<Rightarrow> read_event list \<Rightarrow> (host_request, broker_failure) result \<times> read_event list" where
  "handshake late token events =
     (case read_handshake_line late [] events of
        (None, events) \<Rightarrow> (Err InvalidHandshake, events)
      | (Some line, events) \<Rightarrow>
          (case parse_broker_request line of
             None \<Rightarrow> (Err InvalidHandshake, events)
           | Some req \<Rightarrow>
               if token_bytes token \<noteq> token_bytes (request_token req) then (Err Denied, events)
               else
                 (Ok (case req of
                        ReadyRequest _ \<Rightarrow> HostReady
                      | ConnectRequest _ authority \<Rightarrow> HostConnect authority), events)))"

section \<open>The live policy\<close>

definition read_to_string :: "file_system \<Rightarrow> bytes \<Rightarrow> bytes option" where
  "read_to_string fs path =
     (case fs path of
        Opened _ _ (Some contents) \<Rightarrow> if utf8_valid contents then Some contents else None
      | _ \<Rightarrow> None)"

definition live_layer :: "file_system \<Rightarrow> bytes \<Rightarrow> (loopback_authority list, cli_error) result" where
  "live_layer fs path = and_then (ok_or NotUtf8File (read_to_string fs path)) read_loopback_authorities"

record live_paths =
  lp_root :: bytes
  lp_project_key :: bytes
  lp_run_id :: bytes

definition global_loopback :: "live_paths \<Rightarrow> bytes" where
  "global_loopback p = lp_root p @ ''/loopback.allow''"

definition project_loopback :: "live_paths \<Rightarrow> bytes" where
  "project_loopback p = lp_root p @ ''/projects/'' @ lp_project_key p @ ''/loopback.allow''"

definition run_loopback :: "live_paths \<Rightarrow> bytes" where
  "run_loopback p = lp_root p @ ''/runs/'' @ lp_run_id p @ ''/loopback.allow''"

definition loopback_allows_live :: "file_system \<Rightarrow> live_paths \<Rightarrow> loopback_authority \<Rightarrow> (bool, cli_error) result" where
  "loopback_allows_live fs p authority =
     and_then (live_layer fs (global_loopback p)) (\<lambda>global_authorities.
     and_then (live_layer fs (project_loopback p)) (\<lambda>project_authorities.
     and_then (live_layer fs (run_loopback p)) (\<lambda>run_authorities.
       Ok (authority \<in> set global_authorities \<or> authority \<in> set project_authorities
             \<or> authority \<in> set run_authorities))))"

section \<open>Connecting\<close>

definition trim_matches_set :: "char set \<Rightarrow> bytes \<Rightarrow> bytes" where
  "trim_matches_set cs s = rev (dropWhile (\<lambda>c. c \<in> cs) (rev (dropWhile (\<lambda>c. c \<in> cs) s)))"

definition parse_std_ip :: "bytes \<Rightarrow> ip_addr option" where
  "parse_std_ip s = (case parse_std_ipv4 s of Some a \<Rightarrow> Some (V4 a) | None \<Rightarrow> map_option V6 (parse_std_ipv6 s))"

primrec socket_of :: "ip_addr \<Rightarrow> u16 \<Rightarrow> socket_addr" where
  "socket_of (V4 a) port = SocketV4 a port"
| "socket_of (V6 a) port = SocketV6 a port 0"

definition loopback_addresses :: "loopback_authority \<Rightarrow> socket_addr list option" where
  "loopback_addresses authority =
     Option.bind (rsplit_once (CHR '':'') (cli_authority_display authority)) (\<lambda>(host, port).
     Option.bind (parse_uint 65535 port) (\<lambda>port.
       let host = trim_matches_set {CHR ''['', CHR '']''} host
       in if host = ''localhost''
          then Some [SocketV4 (Ipv4Addr 127 0 0 1) (of_nat port), SocketV6 (Ipv6Addr 0 0 0 0 0 0 0 1) (of_nat port) 0]
          else map_option (\<lambda>a. [socket_of a (of_nat port)]) (parse_std_ip host)))"

text \<open>
  \<open>stopped i\<close> and \<open>late i\<close>: what the loop sees before the \<open>i\<close>-th attempt. The second component is
  what was dialled.
\<close>

fun connect_each ::
    "(nat \<Rightarrow> bool) \<Rightarrow> (nat \<Rightarrow> bool) \<Rightarrow> (socket_addr \<Rightarrow> read_event list option) \<Rightarrow> nat \<Rightarrow> socket_addr list
       \<Rightarrow> (read_event list, broker_failure) result \<times> socket_addr list" where
  "connect_each stopped late dial i [] = (Err LoopbackConnectionFailed, [])"
| "connect_each stopped late dial i (address # addresses) =
     (if stopped i then (Err BrokerStopped, [])
      else if late i then (Err LoopbackConnectionFailed, [])
      else
        (case dial address of
           Some stream \<Rightarrow> (Ok stream, [address])
         | None \<Rightarrow>
             (case connect_each stopped late dial (Suc i) addresses of
                (r, dialled) \<Rightarrow> (r, address # dialled))))"

definition connect_loopback ::
    "(nat \<Rightarrow> bool) \<Rightarrow> (nat \<Rightarrow> bool) \<Rightarrow> (socket_addr \<Rightarrow> read_event list option) \<Rightarrow> loopback_authority
       \<Rightarrow> (read_event list, broker_failure) result \<times> socket_addr list" where
  "connect_loopback stopped late dial authority =
     (case loopback_addresses authority of
        None \<Rightarrow> (Err LoopbackConnectionFailed, [])
      | Some addresses \<Rightarrow> connect_each stopped late dial 0 addresses)"

section \<open>The relay\<close>

text \<open>
  One turn of \<open>io::copy\<close>: \<open>False\<close> at the end of the stream or a failure. Then both sockets are
  shut down in both directions, which ends the other direction too.
\<close>

definition COPY_BUFFER_BYTES :: nat where "COPY_BUFFER_BYTES = 8 * 1024"

type_synonym pump = "read_event list \<times> byte_sink"

definition pump_step :: "pump \<Rightarrow> bool \<times> pump" where
  "pump_step p =
     (case io_read COPY_BUFFER_BYTES (fst p) of
        (None, events) \<Rightarrow> (False, events, snd p)
      | (Some d, events) \<Rightarrow>
          if d = [] then (False, events, snd p)
          else
            (case write_all [] d (snd p) of
               (Ok _, k) \<Rightarrow> (True, events, k)
             | (Err _, k) \<Rightarrow> (False, events, k)))"

fun host_relay :: "bool list \<Rightarrow> pump \<Rightarrow> pump \<Rightarrow> bool \<times> pump \<times> pump" where
  "host_relay [] forward backward = (False, forward, backward)"
| "host_relay (True # turns) forward backward =
     (case pump_step forward of
        (True, forward) \<Rightarrow> host_relay turns forward backward
      | (False, forward) \<Rightarrow> (True, forward, backward))"
| "host_relay (False # turns) forward backward =
     (case pump_step backward of
        (True, backward) \<Rightarrow> host_relay turns forward backward
      | (False, backward) \<Rightarrow> (True, forward, backward))"

section \<open>One client\<close>

record serve_world =
  sw_late :: "nat \<Rightarrow> bool"
  sw_fs :: file_system
  sw_paths :: live_paths
  sw_stopped :: "nat \<Rightarrow> bool"
  sw_connect_late :: "nat \<Rightarrow> bool"
  sw_dial :: "socket_addr \<Rightarrow> read_event list option"
  sw_registers :: bool
  sw_stopped_after :: bool
  sw_upstream :: byte_sink
  sw_turns :: "bool list"

record served =
  sd_ready :: bool
  sd_dialled :: "socket_addr list"
  sd_client :: byte_sink
  sd_tunnel :: "(bool \<times> pump \<times> pump) option"

text \<open>\<open>register\<close> of the upstream fails when the broker is stopped or the socket cannot be cloned.\<close>

definition serve_granted ::
    "serve_world \<Rightarrow> loopback_authority \<Rightarrow> (read_event list, broker_failure) result \<times> socket_addr list" where
  "serve_granted w authority =
     (case loopback_allows_live (sw_fs w) (sw_paths w) authority of
        Err e \<Rightarrow> (Err (PolicyUnreadable e), [])
      | Ok allowed \<Rightarrow>
          if \<not> allowed then (Err Denied, [])
          else
            (case connect_loopback (sw_stopped w) (sw_connect_late w) (sw_dial w) authority of
               (Err e, dialled) \<Rightarrow> (Err e, dialled)
             | (Ok upstream, dialled) \<Rightarrow>
                 if \<not> sw_registers w \<or> sw_stopped_after w then (Err BrokerStopped, dialled) else (Ok upstream, dialled)))"

definition ERR_LINE :: bytes where "ERR_LINE = ''ERR'' @ [LF]"

definition broker_serve :: "serve_world \<Rightarrow> broker_token \<Rightarrow> read_event list \<Rightarrow> byte_sink \<Rightarrow> served" where
  "broker_serve w token events client =
     (case handshake (sw_late w) token events of
        (Err _, _) \<Rightarrow>
          \<lparr>sd_ready = False, sd_dialled = [], sd_client = snd (write_all [] ERR_LINE client), sd_tunnel = None\<rparr>
      | (Ok HostReady, _) \<Rightarrow>
          \<lparr>sd_ready = True, sd_dialled = [], sd_client = snd (write_all [] OK_LINE client), sd_tunnel = None\<rparr>
      | (Ok (HostConnect authority), events) \<Rightarrow>
          (case serve_granted w authority of
             (Err _, dialled) \<Rightarrow>
               \<lparr>sd_ready = False, sd_dialled = dialled, sd_client = snd (write_all [] ERR_LINE client), sd_tunnel = None\<rparr>
           | (Ok upstream, dialled) \<Rightarrow>
               (case write_all [] OK_LINE client of
                  (Err _, client) \<Rightarrow> \<lparr>sd_ready = False, sd_dialled = dialled, sd_client = client, sd_tunnel = None\<rparr>
                | (Ok _, client) \<Rightarrow>
                    (case host_relay (sw_turns w) (events, sw_upstream w) (upstream, client) of
                       (ended, forward, backward) \<Rightarrow>
                         \<lparr>sd_ready = False, sd_dialled = dialled, sd_client = snd backward,
                          sd_tunnel = Some (ended, forward, backward)\<rparr>))))"


section \<open>The broker accepts what the proxy sends\<close>

lemma cli_token_parse_Some: "cli_token_parse text = Some token \<longleftrightarrow> broker_token_from_str text = Ok token"
  by (auto simp: cli_token_parse_def broker_token_from_str_def token_byte_def [abs_def] ok_or_def)

lemma broker_token_from_str_bytes: "broker_token_from_str text = Ok token \<Longrightarrow> token_bytes token = text"
  by (auto simp: broker_token_from_str_def ok_or_def split: if_splits)

lemma token_byte_plain: "token_byte b \<Longrightarrow> is_ascii_char b \<and> b \<noteq> CHR '' '' \<and> b \<noteq> LF"
  by (auto simp: token_byte_def byte_class_defs)

lemma visible_plain: "visible b \<Longrightarrow> is_ascii_char b \<and> b \<noteq> CHR '' '' \<and> b \<noteq> LF"
  by (auto simp: visible_def is_ascii_char_def)

text \<open>A frame is words of plain characters.\<close>

definition plain_word :: "bytes \<Rightarrow> bool" where
  "plain_word w \<longleftrightarrow> list_all (\<lambda>b. is_ascii_char b \<and> b \<noteq> CHR '' '' \<and> b \<noteq> LF) w"

lemma plain_words:
  assumes "broker_token_from_str text = Ok token"
  shows "plain_word text" and "plain_word (show_loopback_authority a)" and "plain_word ''VHRN-BROKER/1''"
    and "plain_word ''READY''" and "plain_word ''CONNECT''"
  using assms token_byte_plain visible_plain [OF loopback_authority_visible, of _ a]
  by (auto simp: plain_word_def list_all_iff broker_token_from_str_def ok_or_def is_ascii_char_def split: if_splits)

lemma set_join_with: "x \<in> set (join_with c ws) \<Longrightarrow> x = c \<or> (\<exists>w \<in> set ws. x \<in> set w)"
  by (induction c ws rule: join_with.induct) auto

lemma join_plain_words:
  assumes "ws \<noteq> []" and "list_all plain_word ws"
  shows "split_on (CHR '' '') (join_with (CHR '' '') ws) = ws" and "LF \<notin> set (join_with (CHR '' '') ws)"
    and "utf8_valid (join_with (CHR '' '') ws)"
proof -
  show "split_on (CHR '' '') (join_with (CHR '' '') ws) = ws"
    using assms by (intro split_join) (auto simp: plain_word_def list_all_iff)
  have word: "is_ascii_char x \<and> x \<noteq> LF" if "w \<in> set ws" "x \<in> set w" for x w
    using that assms(2) unfolding plain_word_def list_all_iff by blast
  have "is_ascii_char (CHR '' '') \<and> CHR '' '' \<noteq> LF"
    by (simp add: is_ascii_char_def)
  then have "is_ascii_char x \<and> x \<noteq> LF" if "x \<in> set (join_with (CHR '' '') ws)" for x
    using set_join_with [OF that] word by blast
  then show "LF \<notin> set (join_with (CHR '' '') ws)" and "utf8_valid (join_with (CHR '' '') ws)"
    by (auto intro!: is_ascii_utf8_valid simp: is_ascii_def list_all_iff)
qed

lemma parse_frame_words:
  assumes "ws \<noteq> []" and "list_all plain_word ws" and "length (join_with (CHR '' '') ws) < MAX_BROKER_FRAME_SIZE"
  shows "parse_broker_request (join_with (CHR '' '') ws @ [LF]) = request_of_fields ws"
proof -
  define body where "body = join_with (CHR '' '') ws"
  have "split_on (CHR '' '') body = ws" and "LF \<notin> set body" and "utf8_valid body" and "length body < MAX_BROKER_FRAME_SIZE"
    unfolding body_def using join_plain_words [OF assms(1,2)] assms(3) by blast+
  then have "parse_broker_request (body @ [LF]) = request_of_fields ws"
    by (simp add: parse_broker_request_def)
  then show ?thesis
    by (simp only: body_def)
qed

lemma parse_ready_frame:
  assumes "broker_token_from_str text = Ok token"
  shows "parse_broker_request (''VHRN-BROKER/1 READY '' @ text @ [LF]) = Some (ReadyRequest token)"
proof -
  have "length text = 64"
    using assms by (auto simp: broker_token_from_str_def ok_or_def split: if_splits)
  then show ?thesis
    using parse_frame_words [of "[''VHRN-BROKER/1'', ''READY'', text]"] plain_words [OF assms]
    by (simp add: MAX_BROKER_FRAME_SIZE_def request_of_fields_def cli_token_parse_Some assms)
qed

lemma parse_connect_frame:
  assumes "broker_token_from_str text = Ok token" and "valid_loopback_authority a"
  shows "parse_broker_request (''VHRN-BROKER/1 CONNECT '' @ text @ '' '' @ show_loopback_authority a @ [LF])
    = Some (ConnectRequest token a)"
proof -
  have "length text = 64"
    using assms by (auto simp: broker_token_from_str_def ok_or_def split: if_splits)
  then show ?thesis
    using parse_frame_words [of "[''VHRN-BROKER/1'', ''CONNECT'', text, show_loopback_authority a]"] plain_words [OF assms(1)]
      length_show_loopback_authority [of a] parse_show_loopback_authority [OF assms(2)]
    by (simp add: MAX_BROKER_FRAME_SIZE_def request_of_fields_def cli_token_parse_Some assms cli_authority_parse_eq cli_authority_display_eq)
qed

lemma split_on_three: "split_on c s = [u, v, w] \<Longrightarrow> s = u @ c # v @ c # w"
  by (metis join_split join_with.simps(2,3))

lemma split_on_four: "split_on c s = [u, v, w, x] \<Longrightarrow> s = u @ c # v @ c # w @ c # x"
  by (metis join_split join_with.simps(2,3))

lemma parse_broker_request_Some:
  assumes "parse_broker_request bs = Some req"
  shows "broker_token_from_str (token_bytes (request_token req)) = Ok (request_token req) \<and>
    (case req of
       ReadyRequest token \<Rightarrow> bs = ''VHRN-BROKER/1 READY '' @ token_bytes token @ [LF]
     | ConnectRequest token a \<Rightarrow> valid_loopback_authority a \<and>
         bs = ''VHRN-BROKER/1 CONNECT '' @ token_bytes token @ '' '' @ show_loopback_authority a @ [LF])"
proof -
  obtain body where bs: "bs = body @ [LF]" and body: "request_of_fields (split_on (CHR '' '') body) = Some req"
    using assms by (auto simp: parse_broker_request_def bind_eq_Some_conv strip_suffix_Some split: if_splits)
  consider t where "split_on (CHR '' '') body = [''VHRN-BROKER/1'', ''READY'', t]"
      "cli_token_parse t = Some (request_token req)" "req = ReadyRequest (request_token req)"
    | t raw a where "split_on (CHR '' '') body = [''VHRN-BROKER/1'', ''CONNECT'', t, raw]"
      "cli_token_parse t = Some (request_token req)" "req = ConnectRequest (request_token req) a"
      "cli_authority_parse raw = Some a" "cli_authority_display a = raw"
    using body by (auto simp: request_of_fields_def bind_eq_Some_conv split: list.splits if_splits)
  then show ?thesis
  proof cases
    case 1
    then have "broker_token_from_str t = Ok (request_token req)"
      by (simp add: cli_token_parse_Some)
    moreover have "bs = ''VHRN-BROKER/1 READY '' @ t @ [LF]"
      using split_on_three [OF 1(1)] bs by simp
    ultimately show ?thesis
      using broker_token_from_str_bytes [of t "request_token req"] 1(3) by (cases req) auto
  next
    case 2
    then have "broker_token_from_str t = Ok (request_token req)"
      by (simp add: cli_token_parse_Some)
    moreover have "bs = ''VHRN-BROKER/1 CONNECT '' @ t @ '' '' @ show_loopback_authority a @ [LF]"
      using split_on_four [OF 2(1)] bs 2(5) by (simp add: cli_authority_display_eq)
    moreover have "valid_loopback_authority a"
      using 2(4) loopback_authority_from_str_valid by (auto simp: cli_authority_parse_eq)
    ultimately show ?thesis
      using broker_token_from_str_bytes [of t "request_token req"] 2(3) by (cases req) auto
  qed
qed

text \<open>
  C14: the two ends of the broker protocol fit. The broker accepts exactly the frames that the
  proxy sends, and reads from them exactly the token and the authority that the proxy put in: no
  other bytes, in particular no second line, no other spelling of an authority and no authority
  that is not a loopback one, are accepted.
\<close>

theorem broker_accepts_exactly_proxy_frames:
  "(parse_broker_request bs = Some (ConnectRequest token a) \<longleftrightarrow>
      broker_token_from_str (token_bytes token) = Ok token \<and> valid_loopback_authority a \<and> connect_frame token a = Some bs) \<and>
   (parse_broker_request bs = Some (ReadyRequest token) \<longleftrightarrow>
      broker_token_from_str (token_bytes token) = Ok token \<and> ready_frame token = Some bs)"
proof -
  have "parse_broker_request bs = Some (ConnectRequest token a)"
    if "broker_token_from_str (token_bytes token) = Ok token" "valid_loopback_authority a" "connect_frame token a = Some bs"
    using parse_connect_frame [OF that(1,2)] frame_fits(2) [OF that(1), of a] that(3) by simp
  moreover have "parse_broker_request bs = Some (ReadyRequest token)"
    if "broker_token_from_str (token_bytes token) = Ok token" "ready_frame token = Some bs"
    using parse_ready_frame [OF that(1)] frame_fits(1) [OF that(1)] that(2) by simp
  moreover have "broker_token_from_str (token_bytes token) = Ok token \<and> valid_loopback_authority a \<and> connect_frame token a = Some bs"
    if "parse_broker_request bs = Some (ConnectRequest token a)"
    using parse_broker_request_Some [OF that] frame_fits(2) [of "token_bytes token" token a] by simp
  moreover have "broker_token_from_str (token_bytes token) = Ok token \<and> ready_frame token = Some bs"
    if "parse_broker_request bs = Some (ReadyRequest token)"
    using parse_broker_request_Some [OF that] frame_fits(1) [of "token_bytes token" token] by simp
  ultimately show ?thesis
    by blast
qed

section \<open>Reading the handshake\<close>

lemma read_handshake_line_Some:
  assumes "read_handshake_line late line events = (Some l, events')" and "script_ok events"
  shows "\<exists>t. l = line @ t \<and> script_data events = t @ script_data events' \<and> script_ok events' \<and>
    (\<exists>u. t = u @ [LF])"
  using assms
proof (induction late line events rule: read_handshake_line.induct)
  case (1 late line events)
  obtain d ev where r: "io_read 1 events = (Some d, ev)" and d: "d \<noteq> []"
    and going: "\<not> (late (length line) \<or> length line = MAX_BROKER_FRAME_SIZE)"
    using "1.prems"(1)
    by (auto simp: read_handshake_line.simps [of late line events] split: prod.splits option.splits if_splits)
  note s = io_read_Some(1,3) [OF r]
  show ?case
  proof (cases "d = [LF]")
    case True
    then show ?thesis
      using "1.prems" r s going by (auto simp: read_handshake_line.simps [of late line events])
  next
    case False
    then have "read_handshake_line late (line @ d) ev = (Some l, events')"
      using "1.prems"(1) r d going by (simp add: read_handshake_line.simps [of late line events])
    from "1.IH" [OF going r [symmetric] refl d False this] s "1.prems"(2) show ?thesis
      by auto
  qed
qed

lemma read_handshake_line_complete:
  assumes "script_data events = t @ LF # rest" and "LF \<notin> set t" and "length line + length t < MAX_BROKER_FRAME_SIZE"
    and "script_ok events" and "read_event.ReadError \<notin> set events" and "\<And>n. \<not> late n"
  shows "\<exists>events'. read_handshake_line late line events = (Some (line @ t @ [LF]), events') \<and> script_data events' = rest"
  using assms
proof (induction late line events arbitrary: t rule: read_handshake_line.induct)
  case (1 late line events)
  obtain d ev where r: "io_read 1 events = (Some d, ev)" and noerr: "read_event.ReadError \<notin> set ev"
    using io_read_error_free [OF "1.prems"(5)] by blast
  have data: "script_data events = d @ script_data ev" and ok: "script_ok ev" and "length d \<le> 1"
    using io_read_Some [OF r] "1.prems"(4) by simp_all
  have "d \<noteq> []"
    using io_read_Some(4) [OF r "1.prems"(4)] "1.prems"(1) by auto
  then obtain x where d: "d = [x]"
    using \<open>length d \<le> 1\<close> by (cases d) auto
  have going: "\<not> (late (length line) \<or> length line = MAX_BROKER_FRAME_SIZE)"
    using "1.prems"(3,6) by simp
  show ?case
  proof (cases t)
    case Nil
    then have "x = LF" and "script_data ev = rest"
      using data d "1.prems"(1) by auto
    then show ?thesis
      using r d going Nil by (simp add: read_handshake_line.simps [of late line events])
  next
    case (Cons y u)
    then have x: "x = y" "script_data ev = u @ LF # rest" "d \<noteq> [LF]"
      using data d "1.prems"(1,2) by auto
    have "\<exists>events'. read_handshake_line late (line @ d) ev = (Some ((line @ d) @ u @ [LF]), events') \<and> script_data events' = rest"
      using "1.IH" [OF going r [symmetric] refl \<open>d \<noteq> []\<close> x(3) x(2) _ _ ok noerr "1.prems"(6)] "1.prems"(2,3) Cons d
      by simp
    then show ?thesis
      using r d going Cons x by (simp add: read_handshake_line.simps [of late line events])
  qed
qed

section \<open>Only loopback services\<close>

definition loopback_socket :: "socket_addr \<Rightarrow> bool" where
  "loopback_socket a = (case a of SocketV4 v _ \<Rightarrow> ipv4_is_loopback v | SocketV6 v _ scope \<Rightarrow> ipv6_is_loopback v)"

lemma read_dec_show_u8:
  assumes "rest = [] \<or> \<not> is_ascii_digit (hd rest)"
  shows "read_dec 3 255 (show_u8 x @ rest) = Some (unat x, rest)"
proof -
  have digits: "\<forall>c \<in> set (show_u8 x). is_ascii_digit c"
    using show_u8_digit by blast
  then have t: "takeWhile is_ascii_digit (show_u8 x @ rest) = show_u8 x"
    using assms by (cases rest) (simp_all add: takeWhile_tail)
  have "canonical_digits (show_u8 x)"
    by (simp add: show_u8_def show_nat_canonical)
  moreover have "dec_value (show_u8 x) = unat x"
    by (simp add: show_u8_def)
  ultimately show ?thesis
    using length_show_u8 [of x] u8_bound [of x] by (auto simp: read_dec_def t canonical_digits_def)
qed

lemma parse_std_ipv4_show: "parse_std_ipv4 (show_ipv4 a) = Some a"
proof (cases a)
  case (Ipv4Addr p q r s)
  have dot: "\<not> is_ascii_digit (CHR ''.'')"
    by (simp add: is_ascii_digit_def)
  have "read_octets 0 4 (show_ipv4 a) = Some ([p, q, r, s], [])"
    using read_dec_show_u8 [of "[]" s] read_dec_show_u8 [of "CHR ''.'' # z" for z]
    by (simp add: Ipv4Addr numeral_eq_Suc read_separator_def read_given_char_def dot)
  then show ?thesis
    using length_show_ipv4 [of a] by (simp add: parse_std_ipv4_def read_ipv4_def Ipv4Addr)
qed

lemma parse_uint_show_port: "parse_uint 65535 (show_port p) = Some (unat p)"
  using u16_bound [of p] by (simp add: show_port_def parse_uint_show_nat)

lemma loopback_addresses_valid:
  assumes "valid_loopback_authority a"
  shows "\<exists>addresses. loopback_addresses a = Some addresses \<and> addresses \<noteq> [] \<and>
    list_all (\<lambda>s. loopback_socket s \<and> socket_port s = la_port a) addresses"
proof (cases "la_host a")
  case Localhost
  then have "cli_authority_display a = ''localhost'' @ CHR '':'' # show_port (la_port a)"
    by (simp add: cli_authority_display_def)
  then show ?thesis
    using rsplit_show_port [of "''localhost''" "la_port a"]
    by (simp add: loopback_addresses_def parse_uint_show_port trim_matches_set_def loopback_socket_def
        ipv4_is_loopback_def ipv6_is_loopback_def ipv6_loopback_def)
next
  case (LoopbackIpv4 v)
  have display: "cli_authority_display a = show_ipv4 v @ CHR '':'' # show_port (la_port a)"
    using LoopbackIpv4 by (simp add: cli_authority_display_eq show_loopback_authority_def)
  have plain: "c \<notin> {CHR ''['', CHR '']''}" if "c \<in> set (show_ipv4 v)" for c
    using show_ipv4_chars [OF that] by (auto simp: is_ascii_digit_def)
  then have "dropWhile (\<lambda>c. c \<in> {CHR ''['', CHR '']''}) (show_ipv4 v) = show_ipv4 v"
    and "dropWhile (\<lambda>c. c \<in> {CHR ''['', CHR '']''}) (rev (show_ipv4 v)) = rev (show_ipv4 v)"
    by (auto intro!: dropWhile_id dest: plain [OF hd_in_set] plain [OF last_in_set] simp: hd_rev)
  then have trim: "trim_matches_set {CHR ''['', CHR '']''} (show_ipv4 v) = show_ipv4 v"
    by (simp add: trim_matches_set_def)
  have "show_ipv4 v \<noteq> ''localhost''"
    using show_ipv4_hd [of v] by (auto simp: is_ascii_digit_def)
  then show ?thesis
    using assms LoopbackIpv4 rsplit_show_port [of "show_ipv4 v" "la_port a"] trim
    by (simp add: loopback_addresses_def display parse_uint_show_port parse_std_ip_def parse_std_ipv4_show
        loopback_socket_def valid_loopback_authority_def Let_def)
next
  case Ipv6Loopback
  have display: "cli_authority_display a = ''[::1]'' @ CHR '':'' # show_port (la_port a)"
    using Ipv6Loopback by (simp add: cli_authority_display_def)
  have "parse_std_ipv4 ''::1'' = None"
    by code_simp
  then show ?thesis
    using rsplit_show_port [of "''[::1]''" "la_port a"]
    by (simp add: loopback_addresses_def display parse_uint_show_port trim_matches_set_def parse_std_ip_def
        parse_std_ipv6_loopback loopback_socket_def ipv6_is_loopback_def)
qed

lemma connect_each_subset: "connect_each stopped late dial i addresses = (r, dialled) \<Longrightarrow> set dialled \<subseteq> set addresses"
  by (induction stopped late dial i addresses arbitrary: r dialled rule: connect_each.induct)
    (auto split: if_splits option.splits prod.splits)

lemma connect_each_Ok:
  "connect_each stopped late dial i addresses = (Ok stream, dialled) \<Longrightarrow> \<exists>d \<in> set dialled. dial d = Some stream"
  by (induction stopped late dial i addresses arbitrary: dialled rule: connect_each.induct)
    (auto split: if_splits option.splits prod.splits)

lemma connect_each_reaches:
  assumes "d \<in> set addresses" and "dial d \<noteq> None" and "\<And>i. \<not> stopped i" and "\<And>i. \<not> late i"
  shows "\<exists>stream dialled. connect_each stopped late dial i addresses = (Ok stream, dialled)"
  using assms
proof (induction addresses arbitrary: i)
  case (Cons a addresses)
  show ?case
  proof (cases "dial a")
    case None
    then obtain stream dialled where "connect_each stopped late dial (Suc i) addresses = (Ok stream, dialled)"
      using Cons by fastforce
    then show ?thesis
      using None Cons.prems(3) [of i] Cons.prems(4) [of i] by simp
  qed (use Cons.prems(3) [of i] Cons.prems(4) [of i] in simp)
qed simp

text \<open>What a relay has handed on in a direction.\<close>

definition handed_on :: "pump \<Rightarrow> pump \<Rightarrow> bool" where
  "handed_on p p' \<longleftrightarrow> (\<exists>x. sk_out (snd p') = sk_out (snd p) @ x \<and> prefix x (script_data (fst p)))"

lemma pump_step_hands_on:
  assumes "pump_step p = (going, p')"
  shows "handed_on p p' \<and>
    (going \<longrightarrow> (\<exists>x. sk_out (snd p') = sk_out (snd p) @ x \<and> script_data (fst p) = x @ script_data (fst p')))"
proof -
  obtain d events where r: "io_read COPY_BUFFER_BYTES (fst p) = (d, events)"
    by fastforce
  show ?thesis
  proof (cases "d = None \<or> d = Some []")
    case True
    then have "\<not> going" and "snd p' = snd p"
      using assms r by (auto simp: pump_step_def)
    then show ?thesis
      by (simp add: handed_on_def)
  next
    case False
    then obtain bs where d: "d = Some bs" "bs \<noteq> []"
      by auto
    obtain x k where w: "write_all [] bs (snd p) = (x, k)"
      by fastforce
    have "script_data (fst p) = bs @ script_data events"
      using r d io_read_Some(1) by blast
    moreover have "p' = (events, k)" and "going \<longleftrightarrow> x = Ok ()"
      using assms r d w by (auto simp: pump_step_def split: result.split_asm)
    ultimately show ?thesis
      using write_all_prefix [OF w] write_all_Ok [of "[]" bs "snd p" k] w
      by (auto simp: handed_on_def prefix_def)
  qed
qed

lemma handed_on_refl: "handed_on p p"
  by (simp add: handed_on_def)

lemma handed_on_step:
  assumes "pump_step p = (True, p1)" and "handed_on p1 p'"
  shows "handed_on p p'"
  using pump_step_hands_on [OF assms(1)] assms(2) by (auto simp: handed_on_def prefix_def) metis

lemma host_relay_hands_on:
  "host_relay turns forward backward = (ended, forward', backward') \<Longrightarrow> handed_on forward forward' \<and> handed_on backward backward'"
proof (induction turns forward backward rule: host_relay.induct)
  case (2 turns forward backward)
  obtain going p where s: "pump_step forward = (going, p)"
    by (cases "pump_step forward")
  then show ?case
    using 2 handed_on_step [of forward p forward'] pump_step_hands_on [OF s] handed_on_refl
    by (cases going) auto
next
  case (3 turns forward backward)
  obtain going p where s: "pump_step backward = (going, p)"
    by (cases "pump_step backward")
  then show ?case
    using 3 handed_on_step [of backward p backward'] pump_step_hands_on [OF s] handed_on_refl
    by (cases going) auto
qed (simp add: handed_on_refl)

lemma handshake_Ok:
  assumes "handshake late token events = (Ok r, events')" and "script_ok events"
  shows "\<exists>f. script_data events = f @ script_data events' \<and>
    (case r of
       HostReady \<Rightarrow> ready_frame token = Some f
     | HostConnect a \<Rightarrow> connect_frame token a = Some f \<and> valid_loopback_authority a)"
proof -
  obtain l req where l: "read_handshake_line late [] events = (Some l, events')"
    and req: "parse_broker_request l = Some req" "token_bytes token = token_bytes (request_token req)"
    and r: "r = (case req of ReadyRequest _ \<Rightarrow> HostReady | ConnectRequest _ a \<Rightarrow> HostConnect a)"
    using assms(1) by (auto simp: handshake_def split: prod.splits option.splits if_splits)
  have "request_token req = token"
    using req(2) by (simp add: broker_token.expand)
  moreover have "script_data events = l @ script_data events'"
    using read_handshake_line_Some [OF l assms(2)] by auto
  ultimately show ?thesis
    using parse_broker_request_Some [OF req(1)] frame_fits [of "token_bytes token" token] r
    by (cases req) auto
qed

lemma serve_granted_sound:
  assumes "serve_granted w a = (g, dialled)" and "valid_loopback_authority a"
  shows "dialled \<noteq> [] \<or> is_ok g \<Longrightarrow> loopback_allows_live (sw_fs w) (sw_paths w) a = Ok True"
    and "\<forall>d \<in> set dialled. loopback_socket d \<and> socket_port d = la_port a"
    and "g = Ok upstream \<Longrightarrow> \<exists>d \<in> set dialled. sw_dial w d = Some upstream"
proof -
  obtain addresses where addresses: "loopback_addresses a = Some addresses"
    and lo: "list_all (\<lambda>s. loopback_socket s \<and> socket_port s = la_port a) addresses"
    using loopback_addresses_valid [OF assms(2)] by blast
  obtain c tried where c: "connect_each (sw_stopped w) (sw_connect_late w) (sw_dial w) 0 addresses = (c, tried)"
    by fastforce
  have r: "(g, dialled) =
      (case loopback_allows_live (sw_fs w) (sw_paths w) a of
         Err e \<Rightarrow> (Err (PolicyUnreadable e), [])
       | Ok allowed \<Rightarrow>
           if \<not> allowed then (Err Denied, [])
           else
             (case c of
                Err e \<Rightarrow> (Err e, tried)
              | Ok upstream \<Rightarrow>
                  if \<not> sw_registers w \<or> sw_stopped_after w then (Err BrokerStopped, tried) else (Ok upstream, tried)))"
    using assms(1) c by (auto simp: serve_granted_def connect_loopback_def addresses split: result.split)
  show "loopback_allows_live (sw_fs w) (sw_paths w) a = Ok True" if "dialled \<noteq> [] \<or> is_ok g"
    using r that by (auto split: result.split_asm if_split_asm)
  show "\<forall>d \<in> set dialled. loopback_socket d \<and> socket_port d = la_port a"
    using r connect_each_subset [OF c] lo by (auto simp: list_all_iff split: result.split_asm if_split_asm)
  show "\<exists>d \<in> set dialled. sw_dial w d = Some upstream" if "g = Ok upstream"
    using r that c connect_each_Ok [of "sw_stopped w" "sw_connect_late w" "sw_dial w" 0 addresses upstream tried]
    by (auto split: result.split_asm if_split_asm)
qed

text \<open>
  C7: the broker reaches nothing but what was granted. If a client makes it dial, then the client
  began with a frame that carries the run's secret token and an authority, that authority is in
  one of the three policy files as they are at that moment, and every address that is dialled is a
  loopback address with the authority's port. If a tunnel is made, the service then receives a
  prefix of what the client sent after its frame, and the client receives the granting line and a
  prefix of what the service sent; in every other case the client receives nothing but a part of
  one of the two answer lines.
\<close>

theorem broker_serves_only_what_is_granted:
  assumes "broker_serve w token io client = r" and "script_ok io"
  shows "(sd_dialled r \<noteq> [] \<or> sd_tunnel r \<noteq> None \<longrightarrow>
      (\<exists>a f. connect_frame token a = Some f \<and> prefix f (script_data io) \<and>
         loopback_allows_live (sw_fs w) (sw_paths w) a = Ok True \<and>
         (\<forall>d \<in> set (sd_dialled r). loopback_socket d \<and> socket_port d = la_port a))) \<and>
    (case sd_tunnel r of
       None \<Rightarrow> \<exists>p. sk_out (sd_client r) = sk_out client @ p \<and> (prefix p OK_LINE \<or> prefix p ERR_LINE)
     | Some (ended, forward, backward) \<Rightarrow>
         \<exists>f rest d upstream p q. script_data io = f @ rest \<and> d \<in> set (sd_dialled r) \<and> sw_dial w d = Some upstream \<and>
           sk_out (snd forward) = sk_out (sw_upstream w) @ p \<and> prefix p rest \<and>
           sk_out (sd_client r) = sk_out client @ OK_LINE @ q \<and> prefix q (script_data upstream))"
proof -
  obtain h events where h: "handshake (sw_late w) token io = (h, events)"
    by fastforce
  have wrote: "\<exists>p. sk_out (snd (write_all [] l client)) = sk_out client @ p \<and> prefix p l" for l
    using write_all_prefix [of "[]" l client] by (cases "write_all [] l client") auto
  show ?thesis
  proof (cases "\<exists>a. h = Ok (HostConnect a)")
    case False
    then show ?thesis
      using assms(1) h wrote [of OK_LINE] wrote [of ERR_LINE]
      by (auto simp: broker_serve_def split: result.splits host_request.splits)
  next
    case True
    then obtain a where a: "h = Ok (HostConnect a)"
      by blast
    obtain f where f: "script_data io = f @ script_data events" "connect_frame token a = Some f" "valid_loopback_authority a"
      using handshake_Ok [OF h [unfolded a] assms(2)] by auto
    obtain g dialled where g: "serve_granted w a = (g, dialled)"
      by fastforce
    note sound = serve_granted_sound [OF g f(3)]
    show ?thesis
    proof (cases g)
      case (Err e)
      then have "sd_dialled r = dialled \<and> sd_tunnel r = None \<and> sd_client r = snd (write_all [] ERR_LINE client)"
        using assms(1) h a g by (auto simp: broker_serve_def)
      then show ?thesis
        using f sound wrote [of ERR_LINE] by (auto simp: prefix_def)
    next
      case (Ok upstream)
      obtain d where d: "d \<in> set dialled" "sw_dial w d = Some upstream"
        using sound(3) [OF Ok] by blast
      obtain x k where x: "write_all [] OK_LINE client = (x, k)"
        by fastforce
      obtain ended forward backward where relay: "host_relay (sw_turns w) (events, sw_upstream w) (upstream, k) = (ended, forward, backward)"
        by (metis prod_cases3)
      have handed: "handed_on (events, sw_upstream w) forward" "handed_on (upstream, k) backward"
        using host_relay_hands_on [OF relay] by simp_all
      show ?thesis
      proof (cases x)
        case Err': (Err e)
        then have "r = \<lparr>sd_ready = False, sd_dialled = dialled, sd_client = k, sd_tunnel = None\<rparr>"
          using assms(1) h a g Ok x by (simp add: broker_serve_def)
        then show ?thesis
          using f sound Ok wrote [of OK_LINE] x by (auto simp: prefix_def)
      next
        case Ok': (Ok u)
        then have r: "r = \<lparr>sd_ready = False, sd_dialled = dialled, sd_client = snd backward,
            sd_tunnel = Some (ended, forward, backward)\<rparr>"
          using assms(1) h a g Ok x relay by (simp add: broker_serve_def)
        have out: "sk_out k = sk_out client @ OK_LINE"
          using write_all_Ok [of "[]" OK_LINE client k] x Ok' by simp
        obtain p q where pq: "sk_out (snd forward) = sk_out (sw_upstream w) @ p" "prefix p (script_data events)"
          "sk_out (snd backward) = sk_out k @ q" "prefix q (script_data upstream)"
          using handed by (auto simp: handed_on_def)
        have "\<exists>f rest d upstream p q. script_data io = f @ rest \<and> d \<in> set dialled \<and> sw_dial w d = Some upstream \<and>
           sk_out (snd forward) = sk_out (sw_upstream w) @ p \<and> prefix p rest \<and>
           sk_out (snd backward) = sk_out client @ OK_LINE @ q \<and> prefix q (script_data upstream)"
          by (rule exI [of _ f], rule exI [of _ "script_data events"]) (use out pq f(1) d in auto)
        then show ?thesis
          using r f sound Ok by (auto simp: prefix_def)
      qed
    qed
  qed
qed

section \<open>What the proxy allows is served\<close>

definition live_files :: "live_paths \<Rightarrow> bytes list" where
  "live_files p = [global_loopback p, project_loopback p, run_loopback p]"

lemma live_layer_strict:
  assumes "readable fs path contents" and "parse_local_layer contents = Ok S"
  shows "\<exists>as. live_layer fs path = Ok as \<and> set as = S"
proof -
  obtain as where "read_loopback_authorities contents = Ok as" "set as = S"
    using read_authorities_of_layer [OF assms(2)] assms(1) by (auto simp: readable_def)
  moreover have "read_to_string fs path = Some contents"
    using assms(1) by (auto simp: readable_def read_to_string_def)
  ultimately show ?thesis
    by (simp add: live_layer_def ok_or_def)
qed

lemma decide_local_allows_live:
  assumes "decide_local fs (live_files p) a"
  shows "loopback_allows_live fs p a = Ok True"
proof -
  obtain A where A: "extend_local_layers fs 0 {} (live_files p) = Ok A" and a: "a \<in> A"
    using assms
    by (auto simp: decide_local_def decide_local_live_def load_local_strict_def local_decide_def local_empty_def
        split: result.splits)
  obtain c1 c2 c3 S1 S2 S3 where c: "readable fs (global_loopback p) c1" "readable fs (project_loopback p) c2"
      "readable fs (run_loopback p) c3"
    and S: "parse_local_layer c1 = Ok S1" "parse_local_layer c2 = Ok S2" "parse_local_layer c3 = Ok S3" "A = S1 \<union> S2 \<union> S3"
    using A by (auto simp: live_files_def read_bounded_utf8_Ok parse_local_layer_at_def map_err_eq_Ok)
  obtain l1 where "live_layer fs (global_loopback p) = Ok l1" "set l1 = S1"
    using live_layer_strict [OF c(1) S(1)] by blast
  moreover obtain l2 where "live_layer fs (project_loopback p) = Ok l2" "set l2 = S2"
    using live_layer_strict [OF c(2) S(2)] by blast
  moreover obtain l3 where "live_layer fs (run_loopback p) = Ok l3" "set l3 = S3"
    using live_layer_strict [OF c(3) S(3)] by blast
  ultimately show ?thesis
    using a S(4) by (auto simp: loopback_allows_live_def)
qed

lemma write_all_accepting: "sk_events k = [] \<Longrightarrow> \<exists>k'. write_all [] bs k = (Ok (), k')"
  by (cases "bs = []") (simp_all add: write_all.simps [of _ bs] write_all.simps [of _ "[]"] sink_write_def)

lemma frame_one_line:
  assumes "broker_token_from_str text = Ok token" and "connect_frame token a = Some f"
  shows "\<exists>t. f = t @ [LF] \<and> LF \<notin> set t \<and> length t < MAX_BROKER_FRAME_SIZE"
proof -
  note fits = frame_fits(2) [OF assms(1), of a]
  have "LF \<notin> set text" and len: "length text = 64"
    using assms(1) token_byte_plain
    by (auto simp: broker_token_from_str_def ok_or_def list_all_iff split: if_splits)
  moreover have "LF \<notin> set (show_loopback_authority a)"
    using loopback_authority_visible visible_plain by blast
  ultimately show ?thesis
    using fits assms(2) length_show_loopback_authority [of a]
    by (intro exI [of _ "''VHRN-BROKER/1 CONNECT '' @ text @ '' '' @ show_loopback_authority a"])
      (auto simp: MAX_BROKER_FRAME_SIZE_def)
qed

text \<open>
  C8: what the proxy allows, the broker serves. If the proxy's decision on the three loopback
  files grants an authority, and the proxy sends its frame for it with the run's token, then the
  broker, which reads the same files with a parser of its own, grants it too: it answers with the
  line the proxy waits for and connects the two sides, provided that one of the authority's
  loopback addresses accepts the connection and nothing is late or stopped.
\<close>

theorem broker_serves_what_the_proxy_allows:
  assumes "decide_local (sw_fs w) (live_files (sw_paths w)) a"
    and "broker_token_from_str text = Ok token" and "valid_loopback_authority a" and "connect_frame token a = Some f"
    and "script_data io = f @ rest" and "script_ok io" and "read_event.ReadError \<notin> set io"
    and "\<exists>d \<in> set (the (loopback_addresses a)). sw_dial w d \<noteq> None"
    and "\<And>i. \<not> sw_late w i" and "\<And>i. \<not> sw_stopped w i" and "\<And>i. \<not> sw_connect_late w i"
    and "sw_registers w" and "\<not> sw_stopped_after w" and "sk_events client = []"
  shows "\<exists>ended forward backward. sd_tunnel (broker_serve w token io client) = Some (ended, forward, backward) \<and>
    prefix (sk_out client @ OK_LINE) (sk_out (sd_client (broker_serve w token io client)))"
proof -
  obtain t where t: "f = t @ [LF]" "LF \<notin> set t" "length t < MAX_BROKER_FRAME_SIZE"
    using frame_one_line [OF assms(2,4)] by blast
  obtain events where "read_handshake_line (sw_late w) [] io = (Some f, events)"
    using read_handshake_line_complete [of io t rest "[]" "sw_late w"] assms(5-7,9) t by auto
  moreover have "parse_broker_request f = Some (ConnectRequest token a)"
    using parse_connect_frame [OF assms(2,3)] frame_fits(2) [OF assms(2), of a] assms(4) by simp
  ultimately have h: "handshake (sw_late w) token io = (Ok (HostConnect a), events)"
    by (simp add: handshake_def)
  obtain addresses where addresses: "loopback_addresses a = Some addresses"
    using loopback_addresses_valid [OF assms(3)] by blast
  obtain d where d: "d \<in> set addresses" "sw_dial w d \<noteq> None"
    using assms(8) addresses by auto
  obtain stream dialled where "connect_each (sw_stopped w) (sw_connect_late w) (sw_dial w) 0 addresses = (Ok stream, dialled)"
    using connect_each_reaches [of d addresses "sw_dial w" "sw_stopped w" "sw_connect_late w" 0] d assms(10,11) by blast
  then have g: "serve_granted w a = (Ok stream, dialled)"
    using decide_local_allows_live [OF assms(1)] assms(12,13)
    by (simp add: serve_granted_def connect_loopback_def addresses)
  obtain k where k: "write_all [] OK_LINE client = (Ok (), k)"
    using write_all_accepting [OF assms(14)] by blast
  obtain ended forward backward where relay: "host_relay (sw_turns w) (events, sw_upstream w) (stream, k) = (ended, forward, backward)"
    by (metis prod_cases3)
  have "handed_on (stream, k) backward"
    using host_relay_hands_on [OF relay] by simp
  then show ?thesis
    using h g k relay write_all_Ok [OF k] by (auto simp: broker_serve_def handed_on_def)
qed

section \<open>The shared state\<close>

record broker_state =
  bk_stopped :: bool
  bk_listening :: bool
  bk_accepting :: bool
  bk_workers :: "nat list"
  bk_sockets :: "nat list"
  bk_next_socket :: nat
  bk_secret :: bool
  bk_ready :: bool
  bk_ready_stopped :: bool
  bk_permits :: nat
  bk_args :: bool

definition broker_bind :: "nat \<Rightarrow> broker_state" where
  "broker_bind limit =
     \<lparr>bk_stopped = False, bk_listening = True, bk_accepting = False, bk_workers = [], bk_sockets = [],
      bk_next_socket = 0, bk_secret = True, bk_ready = False, bk_ready_stopped = False, bk_permits = limit,
      bk_args = True\<rparr>"

definition broker_try_acquire :: "broker_state \<Rightarrow> broker_state option" where
  "broker_try_acquire s =
     (if bk_permits s = 0 \<or> bk_stopped s then None else Some (s\<lparr>bk_permits := bk_permits s - 1\<rparr>))"

definition drop_connection_permit :: "broker_state \<Rightarrow> broker_state" where
  "drop_connection_permit s = s\<lparr>bk_permits := bk_permits s + 1\<rparr>"

definition broker_register :: "broker_state \<Rightarrow> (nat \<times> broker_state) option" where
  "broker_register s =
     (if bk_stopped s then None
      else
        Some (bk_next_socket s,
          s\<lparr>bk_next_socket := bk_next_socket s + 1, bk_sockets := bk_next_socket s # bk_sockets s\<rparr>))"

definition drop_socket_registration :: "nat \<Rightarrow> broker_state \<Rightarrow> broker_state" where
  "drop_socket_registration i s = s\<lparr>bk_sockets := filter (\<lambda>j. j \<noteq> i) (bk_sockets s)\<rparr>"

definition reap_workers :: "(nat \<Rightarrow> bool) \<Rightarrow> broker_state \<Rightarrow> broker_state" where
  "reap_workers finished s = s\<lparr>bk_workers := filter (\<lambda>i. \<not> finished i) (bk_workers s)\<rparr>"

text \<open>\<open>False\<close>: somebody else stops the broker already.\<close>

definition stop_swap :: "broker_state \<Rightarrow> bool \<times> broker_state" where
  "stop_swap s =
     (if bk_stopped s then (False, s)
      else (True, s\<lparr>bk_stopped := True, bk_listening := False, bk_accepting := False\<rparr>))"

definition stop_notify :: "broker_state \<Rightarrow> broker_state" where
  "stop_notify s = s\<lparr>bk_ready_stopped := True\<rparr>"

definition stop_take_sockets :: "broker_state \<Rightarrow> nat list \<times> broker_state" where
  "stop_take_sockets s = (bk_sockets s, s\<lparr>bk_sockets := []\<rparr>)"

definition stop_joined :: "broker_state \<Rightarrow> broker_state" where
  "stop_joined s = s\<lparr>bk_workers := [], bk_secret := False\<rparr>"

definition mark_ready :: "broker_state \<Rightarrow> broker_state" where
  "mark_ready s = s\<lparr>bk_ready := True\<rparr>"

datatype start_failure = AlreadyStarted | StartStopped | ListenerUnavailable | SpawnFailed

text \<open>When the thread cannot be spawned the caller stops the broker; \<open>spawns\<close> says whether it can.\<close>

definition start_accepting :: "bool \<Rightarrow> broker_state \<Rightarrow> (unit, start_failure) result \<times> broker_state" where
  "start_accepting spawns s =
     (if \<not> bk_args s then (Err AlreadyStarted, s)
      else
        (let s = s\<lparr>bk_args := False\<rparr>
         in if bk_stopped s then (Err StartStopped, s)
            else if \<not> bk_listening s then (Err ListenerUnavailable, s)
            else if \<not> spawns then (Err SpawnFailed, s\<lparr>bk_listening := False\<rparr>)
            else (Ok (), s\<lparr>bk_listening := False, bk_accepting := True\<rparr>)))"

text \<open>
  Waiting for the first ready client: each element is what one pass through the loop sees, the
  two flags, whether no time remains, and whether the wait times out. \<open>None\<close>: still waiting.
\<close>

record ready_look =
  rl_ready :: bool
  rl_stopped :: bool
  rl_no_time :: bool
  rl_timed_out :: bool

datatype ready_failure = ReadinessTimedOut | ReadinessStopped

fun wait_ready :: "ready_look list \<Rightarrow> (unit, ready_failure) result option" where
  "wait_ready [] = None"
| "wait_ready (l # ls) =
     (if rl_ready l \<or> rl_stopped l then Some (if rl_stopped l then Err ReadinessStopped else Ok ())
      else if rl_no_time l then Some (Err ReadinessTimedOut)
      else
        (case ls of
           [] \<Rightarrow> None
         | m # _ \<Rightarrow> if rl_timed_out l \<and> \<not> rl_ready m then Some (Err ReadinessTimedOut) else wait_ready ls))"

section \<open>The broker as a step relation\<close>

text \<open>
  The accept loop, the workers and the caller of \<open>stop\<close> take steps in any order. \<open>bw_pending\<close>
  permits are held by the accept loop for a client that is not registered yet; a connection is
  the registration of its client and, while it has one, of its upstream. \<open>bw_shut\<close> are the
  sockets that were shut down.

  A worker ends in the order in which Rust drops what it owns, each under its own lock: the
  registration of the upstream, at the end of its match arm, then the remaining fields of the
  \<open>ClientConnection\<close> in the order of their declaration, the permit and then the registration of
  the client. \<open>bw_closing\<close> are the clients whose permit is back and that are still registered.
\<close>

datatype upstream_slot = NoUpstream | UpstreamHeld nat | UpstreamGone

primrec slot_ids :: "upstream_slot \<Rightarrow> nat list" where
  "slot_ids NoUpstream = []"
| "slot_ids (UpstreamHeld j) = [j]"
| "slot_ids UpstreamGone = []"

datatype stop_stage = Running | Swapped | Taken | Joined

record broker_world =
  bw_state :: broker_state
  bw_pending :: nat
  bw_conns :: "(nat \<times> upstream_slot) list"
  bw_closing :: "nat list"
  bw_shut :: "nat set"
  bw_stage :: stop_stage

datatype broker_event =
    PermitTaken
  | ClientRegistered nat
  | ClientRefused
  | UpstreamRegistered nat nat
  | UpstreamDropped nat nat
  | PermitDropped nat
  | WorkerDone nat
  | BecameReady
  | StopBegun
  | SocketsTaken
  | StopDone

inductive broker_step :: "broker_world \<Rightarrow> broker_event \<Rightarrow> broker_world \<Rightarrow> bool" where
  permit_taken: "broker_try_acquire (bw_state w) = Some s \<Longrightarrow>
    broker_step w PermitTaken (w\<lparr>bw_state := s, bw_pending := bw_pending w + 1\<rparr>)"
| client_registered: "0 < bw_pending w \<Longrightarrow> broker_register (bw_state w) = Some (i, s) \<Longrightarrow>
    broker_step w (ClientRegistered i)
      (w\<lparr>bw_state := s\<lparr>bk_workers := i # bk_workers s\<rparr>, bw_pending := bw_pending w - 1,
         bw_conns := (i, NoUpstream) # bw_conns w\<rparr>)"
| client_refused: "0 < bw_pending w \<Longrightarrow> broker_register (bw_state w) = None \<Longrightarrow>
    broker_step w ClientRefused
      (w\<lparr>bw_state := drop_connection_permit (bw_state w), bw_pending := bw_pending w - 1\<rparr>)"
| upstream_registered: "(i, NoUpstream) \<in> set (bw_conns w) \<Longrightarrow> broker_register (bw_state w) = Some (j, s) \<Longrightarrow>
    broker_step w (UpstreamRegistered i j)
      (w\<lparr>bw_state := s, bw_conns := (i, UpstreamHeld j) # remove1 (i, NoUpstream) (bw_conns w)\<rparr>)"
| upstream_dropped: "(i, UpstreamHeld j) \<in> set (bw_conns w) \<Longrightarrow>
    broker_step w (UpstreamDropped i j)
      (w\<lparr>bw_state := drop_socket_registration j (bw_state w),
         bw_conns := (i, UpstreamGone) # remove1 (i, UpstreamHeld j) (bw_conns w)\<rparr>)"
| permit_dropped: "(i, u) \<in> set (bw_conns w) \<Longrightarrow> slot_ids u = [] \<Longrightarrow>
    broker_step w (PermitDropped i)
      (w\<lparr>bw_state := drop_connection_permit (bw_state w), bw_conns := remove1 (i, u) (bw_conns w),
         bw_closing := i # bw_closing w\<rparr>)"
| worker_done: "i \<in> set (bw_closing w) \<Longrightarrow>
    broker_step w (WorkerDone i)
      (w\<lparr>bw_state := drop_socket_registration i (bw_state w), bw_closing := remove1 i (bw_closing w)\<rparr>)"
| became_ready: "broker_step w BecameReady (w\<lparr>bw_state := mark_ready (bw_state w)\<rparr>)"
| stop_begun: "stop_swap (bw_state w) = (True, s) \<Longrightarrow>
    broker_step w StopBegun (w\<lparr>bw_state := stop_notify s, bw_stage := Swapped\<rparr>)"
| sockets_taken: "bw_stage w = Swapped \<Longrightarrow> stop_take_sockets (bw_state w) = (taken, s) \<Longrightarrow>
    broker_step w SocketsTaken (w\<lparr>bw_state := s, bw_shut := bw_shut w \<union> set taken, bw_stage := Taken\<rparr>)"
| stop_done: "bw_stage w = Taken \<Longrightarrow> bw_pending w = 0 \<Longrightarrow> bw_conns w = [] \<Longrightarrow> bw_closing w = [] \<Longrightarrow>
    broker_step w StopDone (w\<lparr>bw_state := stop_joined (bw_state w), bw_stage := Joined\<rparr>)"

definition broker_world_new :: "nat \<Rightarrow> broker_world" where
  "broker_world_new limit =
     \<lparr>bw_state = broker_bind limit, bw_pending = 0, bw_conns = [], bw_closing = [], bw_shut = {}, bw_stage = Running\<rparr>"

definition conn_ids :: "(nat \<times> upstream_slot) list \<Rightarrow> nat list" where
  "conn_ids cs = concat (map (\<lambda>(i, u). i # slot_ids u) cs)"

text \<open>The registrations of every worker that has not ended.\<close>

definition live_ids :: "broker_world \<Rightarrow> nat list" where
  "live_ids w = conn_ids (bw_conns w) @ bw_closing w"

definition broker_inv :: "nat \<Rightarrow> broker_world \<Rightarrow> bool" where
  "broker_inv limit w \<longleftrightarrow>
     bk_permits (bw_state w) + bw_pending w + length (bw_conns w) = limit \<and>
     distinct (live_ids w) \<and> (\<forall>i \<in> set (live_ids w). i < bk_next_socket (bw_state w)) \<and>
     (bk_stopped (bw_state w) \<longleftrightarrow> bw_stage w \<noteq> Running) \<and>
     (if bw_stage w \<in> {Taken, Joined}
      then set (live_ids w) \<subseteq> bw_shut w \<and> bk_sockets (bw_state w) = []
      else set (live_ids w) = set (bk_sockets (bw_state w)))"

lemma conn_ids_simps [simp]:
  "conn_ids [] = []" "conn_ids ((i, u) # cs) = i # slot_ids u @ conn_ids cs"
  by (simp_all add: conn_ids_def)

lemma conn_ids_append [simp]: "conn_ids (cs @ ds) = conn_ids cs @ conn_ids ds"
  by (simp add: conn_ids_def)

lemma remove1_split: "x \<in> set cs \<Longrightarrow> \<exists>us vs. cs = us @ x # vs \<and> remove1 x cs = us @ vs"
  using split_list_first by (metis remove1.simps(2) remove1_append)

lemma broker_inv_new: "broker_inv limit (broker_world_new limit)"
  by (simp add: broker_inv_def broker_world_new_def broker_bind_def live_ids_def)

lemma broker_inv_step:
  assumes "broker_inv limit w" and "broker_step w e w'"
  shows "broker_inv limit w'"
  using assms(2,1)
proof (cases rule: broker_step.cases)
  case (permit_taken s)
  then show ?thesis
    using assms(1) by (auto simp: broker_inv_def live_ids_def broker_try_acquire_def split: if_splits)
next
  case (client_registered i s)
  then show ?thesis
    using assms(1) by (auto simp: broker_inv_def live_ids_def broker_register_def split: if_splits)
next
  case client_refused
  then show ?thesis
    using assms(1) by (auto simp: broker_inv_def live_ids_def drop_connection_permit_def split: if_splits)
next
  case (upstream_registered i j s)
  obtain us vs where cs: "bw_conns w = us @ (i, NoUpstream) # vs"
    and rest: "remove1 (i, NoUpstream) (bw_conns w) = us @ vs"
    using remove1_split [OF upstream_registered(3)] by blast
  have reg: "\<not> bk_stopped (bw_state w)" "j = bk_next_socket (bw_state w)"
    "s = (bw_state w)\<lparr>bk_next_socket := bk_next_socket (bw_state w) + 1, bk_sockets := bk_next_socket (bw_state w) # bk_sockets (bw_state w)\<rparr>"
    using upstream_registered(4) by (auto simp: broker_register_def split: if_splits)
  have stage: "bw_stage w = Running"
    using assms(1) reg(1) by (simp add: broker_inv_def)
  have w': "w' = w\<lparr>bw_state := s, bw_conns := (i, UpstreamHeld j) # us @ vs\<rparr>"
    using upstream_registered(2) rest by simp
  have "set (live_ids w') = insert j (set (live_ids w))"
    and "distinct (live_ids w) \<and> j \<notin> set (live_ids w) \<Longrightarrow> distinct (live_ids w')"
    by (auto simp: live_ids_def w' cs)
  then show ?thesis
    using assms(1) stage reg(2) unfolding broker_inv_def
    by (auto simp: w' reg(3) cs less_Suc_eq)
next
  case (upstream_dropped i j)
  obtain us vs where cs: "bw_conns w = us @ (i, UpstreamHeld j) # vs"
    and rest: "remove1 (i, UpstreamHeld j) (bw_conns w) = us @ vs"
    using remove1_split [OF upstream_dropped(3)] by blast
  then show ?thesis
    using assms(1) upstream_dropped(2)
    by (auto simp: broker_inv_def live_ids_def drop_socket_registration_def split: if_splits)
next
  case (permit_dropped i u)
  obtain us vs where cs: "bw_conns w = us @ (i, u) # vs"
    and rest: "remove1 (i, u) (bw_conns w) = us @ vs"
    using remove1_split [OF permit_dropped(3)] by blast
  then show ?thesis
    using assms(1) permit_dropped(2,4)
    by (auto simp: broker_inv_def live_ids_def drop_connection_permit_def split: if_splits)
next
  case (worker_done i)
  obtain us vs where cs: "bw_closing w = us @ i # vs" and rest: "remove1 i (bw_closing w) = us @ vs"
    using remove1_split [OF worker_done(3)] by blast
  then show ?thesis
    using assms(1) worker_done(2)
    by (auto simp: broker_inv_def live_ids_def drop_socket_registration_def split: if_splits)
next
  case became_ready
  then show ?thesis
    using assms(1) by (auto simp: broker_inv_def live_ids_def mark_ready_def)
next
  case (stop_begun s)
  then show ?thesis
    using assms(1) by (auto simp: broker_inv_def live_ids_def stop_swap_def stop_notify_def split: if_splits)
next
  case (sockets_taken taken s)
  then show ?thesis
    using assms(1) by (auto simp: broker_inv_def live_ids_def stop_take_sockets_def)
next
  case stop_done
  then show ?thesis
    using assms(1) by (auto simp: broker_inv_def live_ids_def stop_joined_def)
qed

text \<open>
  C15: the broker's capacity stays bounded and stopping misses nothing. However the accept loop,
  the workers and the caller of \<open>stop\<close> interleave, with every lock taken by itself, free permits,
  permits held for a client and connections always add up to the limit. From the moment \<open>stop\<close>
  has taken the sockets, every socket of every worker that has not ended has been shut down,
  also of one whose permit is back already, no new one is ever registered, and none appears in
  the map again.
\<close>

theorem broker_stop_misses_nothing:
  assumes "history broker_step (broker_world_new limit) es w"
  shows "length (bw_conns w) + bw_pending w + bk_permits (bw_state w) = limit \<and>
    (bw_stage w \<in> {Taken, Joined} \<longrightarrow>
       set (live_ids w) \<subseteq> bw_shut w \<and> bk_sockets (bw_state w) = [] \<and>
       broker_register (bw_state w) = None \<and> broker_try_acquire (bw_state w) = None) \<and>
    (bw_stage w \<in> {Running, Swapped} \<longrightarrow> set (bk_sockets (bw_state w)) = set (live_ids w))"
proof -
  have "broker_inv limit w"
    by (rule history_invariant [OF assms, of "broker_inv limit"]) (rule broker_inv_new, rule broker_inv_step)
  then show ?thesis
    by (auto simp: broker_inv_def broker_register_def broker_try_acquire_def split: if_splits)
qed


section \<open>Examples\<close>

definition example_host_token :: broker_token where
  "example_host_token = BrokerToken (replicate 64 (CHR ''a''))"

definition example_host_request :: "read_event list" where
  "example_host_request =
     [ReadData (''VHRN-BROKER/1 CONNECT '' @ replicate 64 (CHR ''a'') @ '' localhost:3000'' @ [LF]), ReadData ''hi'']"

definition example_serve_world :: serve_world where
  "example_serve_world =
     \<lparr>sw_late = (\<lambda>_. False),
      sw_fs = (\<lambda>path. if path = ''/net/runs/r/loopback.allow'' then Opened True 15 (Some (''localhost:3000'' @ [LF]))
                       else Opened True 0 (Some [])),
      sw_paths = \<lparr>lp_root = ''/net'', lp_project_key = ''k'', lp_run_id = ''r''\<rparr>,
      sw_stopped = (\<lambda>_. False), sw_connect_late = (\<lambda>_. False), sw_dial = (\<lambda>_. Some [ReadData ''yo'']),
      sw_registers = True, sw_stopped_after = False, sw_upstream = \<lparr>sk_events = [], sk_out = []\<rparr>,
      sw_turns = [True, False, True]\<rparr>"

theorem broker_serves_only_what_is_granted_witness:
  "\<exists>a f r. broker_serve example_serve_world example_host_token example_host_request \<lparr>sk_events = [], sk_out = []\<rparr> = r \<and>
     sd_dialled r = [SocketV4 (Ipv4Addr 127 0 0 1) 3000] \<and> connect_frame example_host_token a = Some f \<and>
     loopback_allows_live (sw_fs example_serve_world) (sw_paths example_serve_world) a = Ok True"
proof -
  let ?r = "broker_serve example_serve_world example_host_token example_host_request \<lparr>sk_events = [], sk_out = []\<rparr>"
  have d: "sd_dialled ?r = [SocketV4 (Ipv4Addr 127 0 0 1) 3000]"
    by code_simp
  have "script_ok example_host_request"
    by (simp add: script_ok_def example_host_request_def)
  from broker_serves_only_what_is_granted [OF refl this, of example_serve_world example_host_token "\<lparr>sk_events = [], sk_out = []\<rparr>"] d
  show ?thesis
    by auto
qed

theorem broker_serves_what_the_proxy_allows_witness:
  "\<exists>t. sd_tunnel (broker_serve example_serve_world example_host_token example_host_request \<lparr>sk_events = [], sk_out = []\<rparr>) = Some t"
proof -
  let ?a = "\<lparr>la_host = Localhost, la_port = 3000\<rparr>"
  let ?f = "''VHRN-BROKER/1 CONNECT '' @ replicate 64 (CHR ''a'') @ '' localhost:3000'' @ [LF]"
  have decided: "decide_local (sw_fs example_serve_world) (live_files (sw_paths example_serve_world)) ?a"
    by code_simp
  have token: "broker_token_from_str (replicate 64 (CHR ''a'')) = Ok example_host_token"
    by code_simp
  have f: "connect_frame example_host_token ?a = Some ?f"
    by code_simp
  have data: "script_data example_host_request = ?f @ ''hi''" "script_ok example_host_request"
    "read_event.ReadError \<notin> set example_host_request"
    by (simp_all add: example_host_request_def script_ok_def)
  have "valid_loopback_authority ?a"
    by (simp add: valid_loopback_authority_def)
  moreover have "\<exists>d \<in> set (the (loopback_addresses ?a)). sw_dial example_serve_world d \<noteq> None"
    using loopback_addresses_valid [OF calculation] by (auto simp: example_serve_world_def neq_Nil_conv)
  moreover have "\<not> sw_late example_serve_world i" "\<not> sw_stopped example_serve_world i" "\<not> sw_connect_late example_serve_world i"
    "sw_registers example_serve_world" "\<not> sw_stopped_after example_serve_world" for i
    by (simp_all add: example_serve_world_def)
  ultimately show ?thesis
    using broker_serves_what_the_proxy_allows [OF decided token _ f data, of "\<lparr>sk_events = [], sk_out = []\<rparr>"] by auto
qed

theorem broker_stop_misses_nothing_witness:
  "\<exists>w. history broker_step (broker_world_new 1) [PermitTaken, ClientRegistered 0, StopBegun, SocketsTaken] w \<and>
     bw_shut w = {0} \<and> broker_register (bw_state w) = None"
proof -
  let ?s1 = "(broker_bind 1)\<lparr>bk_permits := 0\<rparr>"
  let ?w1 = "(broker_world_new 1)\<lparr>bw_state := ?s1, bw_pending := 1\<rparr>"
  let ?s2 = "?s1\<lparr>bk_next_socket := 1, bk_sockets := [0]\<rparr>"
  let ?w2 = "?w1\<lparr>bw_state := ?s2\<lparr>bk_workers := [0]\<rparr>, bw_pending := 0, bw_conns := [(0, NoUpstream)]\<rparr>"
  let ?s3 = "?s2\<lparr>bk_workers := [0], bk_stopped := True, bk_listening := False, bk_accepting := False\<rparr>"
  let ?w3 = "?w2\<lparr>bw_state := stop_notify ?s3, bw_stage := Swapped\<rparr>"
  let ?w4 = "?w3\<lparr>bw_state := (stop_notify ?s3)\<lparr>bk_sockets := []\<rparr>, bw_shut := {0}, bw_stage := Taken\<rparr>"
  have 1: "broker_step (broker_world_new 1) PermitTaken ?w1"
    using broker_step.permit_taken [of "broker_world_new 1" ?s1]
    by (simp add: broker_try_acquire_def broker_world_new_def broker_bind_def)
  have 2: "broker_step ?w1 (ClientRegistered 0) ?w2"
    using broker_step.client_registered [of ?w1 0 ?s2]
    by (simp add: broker_register_def broker_world_new_def broker_bind_def)
  have 3: "broker_step ?w2 StopBegun ?w3"
    using broker_step.stop_begun [of ?w2 ?s3] by (simp add: stop_swap_def broker_world_new_def broker_bind_def)
  have 4: "broker_step ?w3 SocketsTaken ?w4"
    using broker_step.sockets_taken [of ?w3 "[0]" "(stop_notify ?s3)\<lparr>bk_sockets := []\<rparr>"]
    by (simp add: stop_take_sockets_def stop_notify_def broker_world_new_def broker_bind_def)
  let ?w0 = "broker_world_new 1"
  have a: "history broker_step ?w0 [PermitTaken] ?w1"
    using history.more [of broker_step ?w0 "[]" ?w0 PermitTaken ?w1, OF history.start 1] by simp
  have b: "history broker_step ?w0 [PermitTaken, ClientRegistered 0] ?w2"
    using history.more [of broker_step ?w0 "[PermitTaken]" ?w1 "ClientRegistered 0" ?w2, OF a 2] by simp
  have c: "history broker_step ?w0 [PermitTaken, ClientRegistered 0, StopBegun] ?w3"
    using history.more [of broker_step ?w0 "[PermitTaken, ClientRegistered 0]" ?w2 StopBegun ?w3, OF b 3] by simp
  have h: "history broker_step ?w0 [PermitTaken, ClientRegistered 0, StopBegun, SocketsTaken] ?w4"
    using history.more [of broker_step ?w0 "[PermitTaken, ClientRegistered 0, StopBegun]" ?w3 SocketsTaken ?w4, OF c 4] by simp
  have "broker_register (bw_state ?w4) = None"
    using broker_stop_misses_nothing [OF h] by simp
  with h show ?thesis
    by (intro exI [of _ ?w4]) simp
qed

end
