(* ===== verification/Host_Fs.thy ===== *)
theory Host_Fs
  imports Cli_Text "HOL-Library.AList" "HOL-Library.Char_ord" "HOL-Library.List_Lexorder"
begin

text \<open>
  The files of the host's policy store, and the calls of \<open>std::fs\<close> that the store makes. Paths
  are lists of names below the root of the store. Every call can fail for reasons the program
  does not see (a full disk, a permission): the state holds a list of faults, one for each call
  that reports its failure, and a second one for the calls of \<open>Path::exists\<close>, which take a
  failure for an absence. What holds for all fault lists holds for all failures and, because
  the clean-up can fail too, for a crash between two calls. \<open>write_atomic\<close> of
  \<open>cli/src/net.rs\<close> is built from these calls.
\<close>

section \<open>Files\<close>

type_synonym path = "bytes list"

datatype node =
    FileNode (file_contents: bytes) (file_mode: nat) (file_locked: bool)
  | DirNode nat
  | SymlinkNode "bytes option"
  | OtherNode

record host =
  hs_tree :: "(path \<times> node) list"
  hs_faults :: "nat option list"
  hs_stat_faults :: "bool list"
  hs_next_tmp :: nat
  hs_pid :: nat

abbreviation node_at :: "host \<Rightarrow> path \<Rightarrow> node option" where
  "node_at h p \<equiv> map_of (hs_tree h) p"

datatype store_error =
    IoNotFound
  | IoExists
  | IoOther
  | IoInvalid bytes
  | IoText cli_error
  | IoPanic

text \<open>The permissions the program sets: 0o600, 0o622, 0o644 and 0o755.\<close>

abbreviation MODE_600 :: nat where "MODE_600 \<equiv> 384"
abbreviation MODE_622 :: nat where "MODE_622 \<equiv> 402"
abbreviation MODE_644 :: nat where "MODE_644 \<equiv> 420"
abbreviation MODE_755 :: nat where "MODE_755 \<equiv> 493"

section \<open>Sequences of calls\<close>

type_synonym 'a io = "host \<Rightarrow> ('a, store_error) result \<times> host"

definition io_return :: "'a \<Rightarrow> 'a io" where
  "io_return x h = (Ok x, h)"

definition io_fail :: "store_error \<Rightarrow> 'a io" where
  "io_fail e h = (Err e, h)"

definition io_bind :: "'a io \<Rightarrow> ('a \<Rightarrow> 'b io) \<Rightarrow> 'b io" where
  "io_bind m f h = (case m h of (Ok x, h) \<Rightarrow> f x h | (Err e, h) \<Rightarrow> (Err e, h))"

definition io_then :: "'a io \<Rightarrow> 'b io \<Rightarrow> 'b io" where
  "io_then m n = io_bind m (\<lambda>_. n)"

definition io_result :: "('a, cli_error) result \<Rightarrow> 'a io" where
  "io_result r h = (map_err IoText r, h)"

text \<open>What runs after a failure, and does not change the result.\<close>

definition io_cleanup :: "'a io \<Rightarrow> unit io \<Rightarrow> 'a io" where
  "io_cleanup m c h = (case m h of (Ok x, h) \<Rightarrow> (Ok x, h) | (Err e, h) \<Rightarrow> (Err e, snd (c h)))"

primrec io_each :: "('a \<Rightarrow> unit io) \<Rightarrow> 'a list \<Rightarrow> unit io" where
  "io_each f [] = io_return ()"
| "io_each f (x # xs) = io_then (f x) (io_each f xs)"

primrec io_map :: "('a \<Rightarrow> 'b io) \<Rightarrow> 'a list \<Rightarrow> 'b list io" where
  "io_map f [] = io_return []"
| "io_map f (x # xs) = io_bind (f x) (\<lambda>y. io_bind (io_map f xs) (\<lambda>ys. io_return (y # ys)))"

text \<open>The next fault: \<open>Some k\<close> makes the call fail after \<open>k\<close> units of work.\<close>

definition io_faulty :: "(nat \<Rightarrow> unit io) \<Rightarrow> 'a io \<Rightarrow> 'a io" where
  "io_faulty partly m h =
     (case hs_faults h of
        [] \<Rightarrow> m h
      | None # fs \<Rightarrow> m (h\<lparr>hs_faults := fs\<rparr>)
      | Some k # fs \<Rightarrow> (Err IoOther, snd (partly k (h\<lparr>hs_faults := fs\<rparr>))))"

abbreviation io_fault :: "'a io \<Rightarrow> 'a io" where
  "io_fault \<equiv> io_faulty (\<lambda>_. io_return ())"

section \<open>Calls\<close>

definition set_node :: "path \<Rightarrow> node \<Rightarrow> unit io" where
  "set_node p n h = (Ok (), h\<lparr>hs_tree := AList.update p n (hs_tree h)\<rparr>)"

definition lookup :: "path \<Rightarrow> node io" where
  "lookup p h = (ok_or IoNotFound (node_at h p), h)"

definition symlink_metadata :: "path \<Rightarrow> node io" where
  "symlink_metadata p = io_fault (lookup p)"

text \<open>
  \<open>Path::exists\<close> follows a symbolic link and takes any failure for an absence: \<open>True\<close> in the list of
  its faults makes the call answer that nothing is there.
\<close>

definition there :: "node option \<Rightarrow> bool" where
  "there n = (case n of None \<Rightarrow> False | Some (SymlinkNode c) \<Rightarrow> c \<noteq> None | Some _ \<Rightarrow> True)"

definition path_exists :: "path \<Rightarrow> bool io" where
  "path_exists p h =
     (case hs_stat_faults h of
        [] \<Rightarrow> (Ok (there (node_at h p)), h)
      | f # fs \<Rightarrow> (Ok (\<not> f \<and> there (node_at h p)), h\<lparr>hs_stat_faults := fs\<rparr>))"

definition stat_fails :: "host \<Rightarrow> bool" where
  "stat_fails h \<longleftrightarrow> True \<in> set (hs_stat_faults h)"

definition contents_at :: "path \<Rightarrow> bytes io" where
  "contents_at p h =
     (case node_at h p of
        None \<Rightarrow> Err IoNotFound
      | Some (FileNode c _ _) \<Rightarrow> Ok c
      | Some (SymlinkNode c) \<Rightarrow> ok_or IoNotFound c
      | Some _ \<Rightarrow> Err IoOther, h)"

definition read_file :: "path \<Rightarrow> bytes io" where
  "read_file p = io_fault (contents_at p)"

text \<open>The names in a directory, in the order in which the file system lists them.\<close>

definition names_in :: "path \<Rightarrow> (path \<times> node) list \<Rightarrow> bytes list" where
  "names_in p t = concat (map (\<lambda>(q, _). if q \<noteq> [] \<and> butlast q = p then [last q] else []) t)"

definition read_dir :: "path \<Rightarrow> bytes list io" where
  "read_dir p =
     io_fault (\<lambda>h.
       (case node_at h p of
          None \<Rightarrow> Err IoNotFound
        | Some (DirNode _) \<Rightarrow> Ok (names_in p (hs_tree h))
        | Some _ \<Rightarrow> Err IoOther, h))"

definition is_dir :: "path \<Rightarrow> bool io" where
  "is_dir p = io_bind (symlink_metadata p) (\<lambda>n. io_return (case n of DirNode _ \<Rightarrow> True | _ \<Rightarrow> False))"

definition set_mode :: "path \<Rightarrow> nat \<Rightarrow> unit io" where
  "set_mode p m =
     io_fault
       (io_bind (lookup p) (\<lambda>n.
          case n of
            FileNode c _ l \<Rightarrow> set_node p (FileNode c m l)
          | DirNode _ \<Rightarrow> set_node p (DirNode m)
          | SymlinkNode c \<Rightarrow> if c = None then io_fail IoNotFound else io_return ()
          | OtherNode \<Rightarrow> io_return ()))"

text \<open>A new name needs a directory to be in, and a name that is taken is refused.\<close>

definition parent_error :: "host \<Rightarrow> path \<Rightarrow> store_error option" where
  "parent_error h p =
     (if p = [] then None
      else
        (case node_at h (butlast p) of
           None \<Rightarrow> Some IoNotFound
         | Some (DirNode _) \<Rightarrow> None
         | Some _ \<Rightarrow> Some IoOther))"

definition create_node :: "path \<Rightarrow> node \<Rightarrow> unit io" where
  "create_node p n =
     io_fault (\<lambda>h.
       case parent_error h p of
         Some e \<Rightarrow> (Err e, h)
       | None \<Rightarrow> if node_at h p \<noteq> None then (Err IoExists, h) else set_node p n h)"

definition create_dir :: "path \<Rightarrow> unit io" where
  "create_dir p = create_node p (DirNode MODE_755)"

definition create_dir_all :: "path \<Rightarrow> unit io" where
  "create_dir_all p =
     io_each (\<lambda>q h.
         case node_at h q of
           None \<Rightarrow> create_dir q h
         | Some (DirNode _) \<Rightarrow> (Ok (), h)
         | Some _ \<Rightarrow> (Err IoExists, h))
       (prefixes p)"

definition open_new :: "path \<Rightarrow> unit io" where
  "open_new p = create_node p (FileNode [] MODE_644 False)"

definition open_existing :: "path \<Rightarrow> unit io" where
  "open_existing p = io_fault (io_then (contents_at p) (io_return ()))"

text \<open>A write that fails may leave a beginning of the bytes.\<close>

definition set_contents :: "path \<Rightarrow> bytes \<Rightarrow> unit io" where
  "set_contents p c =
     io_bind (lookup p) (\<lambda>n.
       case n of FileNode _ m l \<Rightarrow> set_node p (FileNode c m l) | _ \<Rightarrow> io_fail IoOther)"

definition write_file :: "path \<Rightarrow> bytes \<Rightarrow> unit io" where
  "write_file p c = io_faulty (\<lambda>k. set_contents p (take k c)) (set_contents p c)"

definition sync_file :: "path \<Rightarrow> unit io" where
  "sync_file p = io_fault (io_return ())"

definition under :: "path \<Rightarrow> path \<times> node \<Rightarrow> bool" where
  "under p e \<longleftrightarrow> prefix p (fst e)"

definition remove_entries :: "path \<Rightarrow> nat \<Rightarrow> unit io" where
  "remove_entries p k h =
     (let gone = set (map fst (take k (filter (under p) (hs_tree h))))
      in (Ok (), h\<lparr>hs_tree := filter (\<lambda>e. fst e \<notin> gone) (hs_tree h)\<rparr>))"

definition remove_file :: "path \<Rightarrow> unit io" where
  "remove_file p =
     io_fault
       (io_bind (lookup p) (\<lambda>n.
          case n of DirNode _ \<Rightarrow> io_fail IoOther | _ \<Rightarrow> (\<lambda>h. (Ok (), h\<lparr>hs_tree := AList.delete p (hs_tree h)\<rparr>))))"

text \<open>A directory and everything in it; when that fails half way, a part of it is gone.\<close>

definition remove_dir_all :: "path \<Rightarrow> unit io" where
  "remove_dir_all p =
     io_bind (lookup p) (\<lambda>n.
       case n of
         DirNode _ \<Rightarrow>
           io_faulty (remove_entries p) (\<lambda>h. (Ok (), h\<lparr>hs_tree := filter (\<lambda>e. \<not> under p e) (hs_tree h)\<rparr>))
       | SymlinkNode _ \<Rightarrow> io_fault (\<lambda>h. (Ok (), h\<lparr>hs_tree := AList.delete p (hs_tree h)\<rparr>))
       | _ \<Rightarrow> io_fail IoOther)"

text \<open>
  A rename replaces a file by a file and an empty directory by a directory; a directory takes
  everything below it along.
\<close>

definition moved :: "node \<Rightarrow> path \<Rightarrow> path \<Rightarrow> path \<Rightarrow> path" where
  "moved n a b p =
     (case n of
        DirNode _ \<Rightarrow> if prefix a p then b @ drop (length a) p else p
      | _ \<Rightarrow> if p = a then b else p)"

definition replaced :: "node \<Rightarrow> path \<Rightarrow> path \<Rightarrow> bool" where
  "replaced n b p = (case n of DirNode _ \<Rightarrow> prefix b p | _ \<Rightarrow> p = b)"

primrec dir_node :: "node \<Rightarrow> bool" where
  "dir_node (FileNode c m l) = False"
| "dir_node (DirNode m) = True"
| "dir_node (SymlinkNode c) = False"
| "dir_node OtherNode = False"

fun may_replace :: "node \<Rightarrow> node option \<Rightarrow> bool \<Rightarrow> bool" where
  "may_replace n None vacant = (dir_node n \<longrightarrow> vacant)"
| "may_replace (DirNode _) (Some (DirNode _)) vacant = vacant"
| "may_replace (DirNode _) (Some _) _ = False"
| "may_replace _ (Some (DirNode _)) _ = False"
| "may_replace _ (Some _) _ = True"

definition vacant :: "path \<Rightarrow> host \<Rightarrow> bool" where
  "vacant p h \<longleftrightarrow> \<not> list_ex (\<lambda>e. strict_prefix p (fst e)) (hs_tree h)"

definition rename :: "path \<Rightarrow> path \<Rightarrow> unit io" where
  "rename a b =
     io_fault
       (io_bind (lookup a) (\<lambda>n h.
          if a = b then (Ok (), h)
          else if parent_error h b \<noteq> None then (Err (the (parent_error h b)), h)
          else if prefix a b \<or> prefix b a
            \<or> \<not> may_replace n (node_at h b) (vacant b h)
          then (Err IoOther, h)
          else
            (Ok (), h\<lparr>hs_tree := map (\<lambda>(p, m). (moved n a b p, m)) (filter (\<lambda>e. \<not> replaced n b (fst e)) (hs_tree h))\<rparr>)))"

section \<open>Atomic replacement\<close>

definition tmp_name :: "path \<Rightarrow> nat \<Rightarrow> nat \<Rightarrow> path" where
  "tmp_name p pid n = butlast p @ [''.'' @ last p @ ''.'' @ show_nat pid @ ''.'' @ show_nat n]"

definition next_tmp_id :: "nat io" where
  "next_tmp_id h = (Ok (hs_next_tmp h), h\<lparr>hs_next_tmp := hs_next_tmp h + 1\<rparr>)"

definition fill_temporary :: "path \<Rightarrow> path \<Rightarrow> bytes \<Rightarrow> nat \<Rightarrow> unit io" where
  "fill_temporary tmp p c mode =
     io_cleanup
       (io_then (write_file tmp c) (io_then (sync_file tmp) (io_then (set_mode tmp mode) (rename tmp p))))
       (remove_file tmp)"

function write_attempts :: "nat \<Rightarrow> nat \<Rightarrow> path \<Rightarrow> bytes \<Rightarrow> nat \<Rightarrow> unit io" where
  "write_attempts n attempt p c mode =
     (if n \<le> attempt then io_fail IoExists
      else
        io_bind next_tmp_id (\<lambda>i h.
          let tmp = tmp_name p (hs_pid h) (i + attempt)
          in case open_new tmp h of
               (Ok _, h) \<Rightarrow> fill_temporary tmp p c mode h
             | (Err e, h) \<Rightarrow> if e = IoExists then write_attempts n (attempt + 1) p c mode h else (Err e, h)))"
  by pat_completeness auto
termination
  by (relation "measure (\<lambda>(n, attempt, _). n - attempt)") auto

declare write_attempts.simps [simp del]

definition write_atomic :: "path \<Rightarrow> bytes \<Rightarrow> nat \<Rightarrow> unit io" where
  "write_atomic p c mode = (if p = [] then io_fail (IoInvalid ''state file has no parent'') else write_attempts 100 0 p c mode)"


section \<open>What the calls do to the files\<close>

lemma map_of_filter_key: "map_of (filter (\<lambda>e. P (fst e)) t) p = (if P p then map_of t p else None)"
  by (induction t) auto

lemma node_at_set_node: "node_at (snd (set_node p n h)) q = (if q = p then Some n else node_at h q)"
  by (simp add: set_node_def update_conv')

lemma map_of_moved_file:
  assumes "a \<noteq> b" and "\<forall>m. n \<noteq> DirNode m"
  shows "map_of (map (\<lambda>(p, m). (moved n a b p, m)) (filter (\<lambda>e. \<not> replaced n b (fst e)) t)) q
    = (if q = b then map_of t a else if q = a then None else map_of t q)"
proof -
  have m: "moved n a b p = (if p = a then b else p)" for p
    using assms(2) by (cases n) (auto simp: moved_def)
  have r: "replaced n b p \<longleftrightarrow> p = b" for p
    using assms(2) by (cases n) (auto simp: replaced_def)
  show ?thesis
    unfolding m r
  proof (induction t)
    case (Cons e t)
    obtain p x where "e = (p, x)"
      by fastforce
    then show ?case
      using Cons assms(1) by (auto split: if_split_asm)
  qed simp
qed

lemma map_of_moved_dir:
  assumes "\<not> prefix a b" and "\<not> prefix b a" and "n = DirNode m"
  shows "map_of (map (\<lambda>(p, m). (moved n a b p, m)) (filter (\<lambda>e. \<not> replaced n b (fst e)) t)) q
    = (if prefix b q then map_of t (a @ drop (length b) q) else if prefix a q then None else map_of t q)"
  using assms
proof (induction t)
  case (Cons e t)
  obtain p x where e: "e = (p, x)"
    by fastforce
  have apart: "\<not> (prefix a y \<and> prefix b y)" for y
    using assms(1,2) prefix_same_cases by blast
  have origin: "a @ drop (length b) q = p \<longleftrightarrow> prefix a p \<and> q = b @ drop (length a) p" if "prefix b q"
    using that by (auto simp: prefix_def)
  consider "prefix b p" | "prefix a p" "\<not> prefix b p" | "\<not> prefix a p" "\<not> prefix b p"
    by blast
  then show ?case
  proof cases
    case 1
    then show ?thesis
      using Cons apart [of p] origin by (auto simp: e moved_def replaced_def)
  next
    case 2
    then have "p \<noteq> b @ drop (length a) p"
      by (metis prefixI)
    then show ?thesis
      using 2 Cons apart [of p] apart [of q] origin by (auto simp: e moved_def replaced_def)
  next
    case 3
    then show ?thesis
      using Cons apart [of q] origin by (auto simp: e moved_def replaced_def)
  qed
qed simp


section \<open>Rules for sequences of calls\<close>

text \<open>
  \<open>triple P m Q E\<close>: from a state with \<open>P\<close>, a result \<open>x\<close> leaves one with \<open>Q x\<close> and a failure one
  with \<open>E\<close>, whatever the faults are.
\<close>

definition triple :: "(host \<Rightarrow> bool) \<Rightarrow> 'a io \<Rightarrow> ('a \<Rightarrow> host \<Rightarrow> bool) \<Rightarrow> (host \<Rightarrow> bool) \<Rightarrow> bool" where
  "triple P m Q E \<longleftrightarrow> (\<forall>h r h'. P h \<longrightarrow> m h = (r, h') \<longrightarrow> (case r of Ok x \<Rightarrow> Q x h' | Err _ \<Rightarrow> E h'))"

named_theorems triple_rules

lemma tripleI: "(\<And>h r h'. P h \<Longrightarrow> m h = (r, h') \<Longrightarrow> case r of Ok x \<Rightarrow> Q x h' | Err _ \<Rightarrow> E h') \<Longrightarrow> triple P m Q E"
  by (simp add: triple_def)

lemma tripleD: "triple P m Q E \<Longrightarrow> P h \<Longrightarrow> m h = (r, h') \<Longrightarrow> (case r of Ok x \<Rightarrow> Q x h' | Err _ \<Rightarrow> E h')"
  by (simp add: triple_def)

lemma triple_return [triple_rules]: "triple (Q x) (io_return x) Q E"
  by (simp add: triple_def io_return_def)

lemma triple_fail [triple_rules]: "triple E (io_fail e) Q E"
  by (simp add: triple_def io_fail_def)

lemma triple_bind [triple_rules]:
  assumes "triple P m Q E" and "\<And>x. triple (Q x) (f x) S E"
  shows "triple P (io_bind m f) S E"
proof (rule tripleI)
  fix h r h'
  assume "P h" and b: "io_bind m f h = (r, h')"
  obtain q h'' where m: "m h = (q, h'')"
    by fastforce
  then show "case r of Ok x \<Rightarrow> S x h' | Err _ \<Rightarrow> E h'"
    using b tripleD [OF assms(1) \<open>P h\<close> m] tripleD [OF assms(2)]
    by (cases q) (auto simp: io_bind_def)
qed

lemma triple_then [triple_rules]:
  "triple P m (\<lambda>_. Q) E \<Longrightarrow> triple Q n S E \<Longrightarrow> triple P (io_then m n) S E"
  unfolding io_then_def by (rule triple_bind)

lemma triple_cleanup [triple_rules]:
  assumes "triple P m Q F" and "triple F c (\<lambda>_. E) E"
  shows "triple P (io_cleanup m c) Q E"
proof (rule tripleI)
  fix h r h'
  assume "P h" and b: "io_cleanup m c h = (r, h')"
  obtain q h1 where m: "m h = (q, h1)"
    by fastforce
  obtain q' h2 where c: "c h1 = (q', h2)"
    by fastforce
  show "case r of Ok x \<Rightarrow> Q x h' | Err _ \<Rightarrow> E h'"
    using b m c tripleD [OF assms(1) \<open>P h\<close> m] tripleD [OF assms(2) _ c]
    by (cases q; cases q') (auto simp: io_cleanup_def)
qed

lemma triple_weaken:
  assumes "triple P m Q E" and "\<And>h. P' h \<Longrightarrow> P h" and "\<And>x h. Q x h \<Longrightarrow> Q' x h" and "\<And>h. E h \<Longrightarrow> E' h"
  shows "triple P' m Q' E'"
proof (rule tripleI)
  fix h r h'
  assume "P' h" and m: "m h = (r, h')"
  then show "case r of Ok x \<Rightarrow> Q' x h' | Err _ \<Rightarrow> E' h'"
    using tripleD [OF assms(1) assms(2) m] assms(3,4) by (cases r) auto
qed

text \<open>A condition on the files does not depend on the faults of the calls that report them.\<close>

definition on_files :: "(host \<Rightarrow> bool) \<Rightarrow> bool" where
  "on_files P \<longleftrightarrow>
     (\<forall>h h'. P h \<longrightarrow> hs_tree h' = hs_tree h \<longrightarrow> hs_pid h' = hs_pid h \<longrightarrow> hs_stat_faults h' = hs_stat_faults h \<longrightarrow> P h')"

lemma on_filesD:
  "on_files P \<Longrightarrow> P h \<Longrightarrow> hs_tree h' = hs_tree h \<Longrightarrow> hs_pid h' = hs_pid h \<Longrightarrow> hs_stat_faults h' = hs_stat_faults h \<Longrightarrow> P h'"
  unfolding on_files_def by blast

lemma triple_faulty:
  assumes "on_files P" and "\<And>k. triple P (partly k) (\<lambda>_. E) E" and "triple P m Q E"
  shows "triple P (io_faulty partly m) Q E"
proof (rule tripleI)
  fix h r h'
  assume "P h" and m: "io_faulty partly m h = (r, h')"
  then have P: "P (h\<lparr>hs_faults := fs\<rparr>)" for fs
    using assms(1) by (auto intro: on_filesD)
  show "case r of Ok x \<Rightarrow> Q x h' | Err _ \<Rightarrow> E h'"
  proof (cases "hs_faults h")
    case Nil
    then show ?thesis
      using m \<open>P h\<close> tripleD [OF assms(3)] by (simp add: io_faulty_def)
  next
    case (Cons f fs)
    show ?thesis
    proof (cases f)
      case None
      then show ?thesis
        using m Cons tripleD [OF assms(3) P] by (simp add: io_faulty_def)
    next
      case (Some k)
      obtain q h'' where p: "partly k (h\<lparr>hs_faults := fs\<rparr>) = (q, h'')"
        by fastforce
      then show ?thesis
        using m Cons Some tripleD [OF assms(2) P p] by (auto simp: io_faulty_def split: result.split_asm)
    qed
  qed
qed

lemma triple_fault:
  assumes "on_files P" and "triple P m Q E" and "\<And>h. P h \<Longrightarrow> E h"
  shows "triple P (io_fault m) Q E"
proof (rule triple_faulty [OF assms(1) _ assms(2)])
  show "triple P (io_return ()) (\<lambda>_. E) E" for k :: nat
    using assms(3) by (simp add: triple_def io_return_def)
qed

lemma io_faulty_cases:
  assumes "io_faulty partly m h = (r, h')"
  obtains (works) fs where "m (h\<lparr>hs_faults := fs\<rparr>) = (r, h')"
    | (fails) k fs where "h' = snd (partly k (h\<lparr>hs_faults := fs\<rparr>))" and "r = Err IoOther"
proof (cases "hs_faults h")
  case Nil
  then have "h\<lparr>hs_faults := []\<rparr> = h"
    by simp
  moreover have "m h = (r, h')"
    using assms Nil by (simp add: io_faulty_def)
  ultimately show thesis
    using works [of "[]"] by metis
next
  case (Cons f fs)
  then show thesis
    using assms works fails by (cases f) (auto simp: io_faulty_def)
qed

lemma io_bind_Ok: "io_bind m f h = (Ok y, h') \<longleftrightarrow> (\<exists>x h1. m h = (Ok x, h1) \<and> f x h1 = (Ok y, h'))"
  by (auto simp: io_bind_def split: prod.splits result.splits)

lemma io_cleanup_Ok: "io_cleanup m c h = (Ok y, h') \<longleftrightarrow> m h = (Ok y, h')"
  by (auto simp: io_cleanup_def split: prod.splits result.splits)

end
