(* ===== verification/Cli_Policy.thy ===== *)
theory Cli_Policy
  imports Host_Fs
begin

text \<open>
  The host's policy store (\<open>PolicyStore\<close> of \<open>cli/src/net.rs\<close>): global, project and run layers
  as files, and the operations that change them. The policy lock serialises the operations of all
  processes, so an operation is one function of the files. What the environment gives is a
  record: the \<open>idna\<close> crate, the key that \<open>sha2\<close> and \<open>hex\<close> make of a project's path, and the
  harnesses with their domains.
\<close>

record policy_env =
  pe_idna :: idna
  pe_key_of :: "bytes \<Rightarrow> bytes"
  pe_harnesses :: "(bytes \<times> bytes list) list"

record project_identity =
  pj_key :: bytes
  pj_path :: bytes

definition project_identity_of :: "policy_env \<Rightarrow> bytes \<Rightarrow> project_identity" where
  "project_identity_of env path = \<lparr>pj_key = pe_key_of env path, pj_path = path\<rparr>"

section \<open>Paths of the store\<close>

definition LOCK_PATH :: path where "LOCK_PATH = [''policy.lock'']"
definition GLOBAL :: path where "GLOBAL = [''allow.local'']"
definition GLOBAL_LOOPBACK :: path where "GLOBAL_LOOPBACK = [''loopback.allow'']"
definition PROJECTS :: path where "PROJECTS = [''projects'']"
definition RUNS :: path where "RUNS = [''runs'']"
definition DENIED_LOG :: path where "DENIED_LOG = [''log'', ''denied.log'']"

section \<open>Creating what is missing\<close>

definition mkdir :: "path \<Rightarrow> unit io" where
  "mkdir p = io_then (create_dir_all p) (set_mode p MODE_755)"

definition file_if_absent :: "path \<Rightarrow> bytes \<Rightarrow> nat \<Rightarrow> unit io" where
  "file_if_absent p c mode =
     io_bind (path_exists p) (\<lambda>e. if e then set_mode p mode else write_atomic p c mode)"

definition regular_file :: "node \<Rightarrow> nat option \<Rightarrow> bool" where
  "regular_file n mode = (case n of FileNode _ m _ \<Rightarrow> mode = None \<or> mode = Some m | _ \<Rightarrow> False)"

definition ensure_lock :: "path \<Rightarrow> unit io" where
  "ensure_lock p h =
     (case open_new p h of
        (Ok _, h) \<Rightarrow> set_mode p MODE_600 h
      | (Err e, h) \<Rightarrow>
          if e = IoExists then
            io_bind (symlink_metadata p) (\<lambda>n.
              if regular_file n None then set_mode p MODE_600
              else io_fail (IoInvalid ''policy lock must be a regular file'')) h
          else (Err e, h))"

definition ensure_log :: "path \<Rightarrow> unit io" where
  "ensure_log p h =
     (case symlink_metadata p h of
        (Ok (SymlinkNode _), h) \<Rightarrow> (Ok (), h)
      | (Ok (FileNode _ _ _), h) \<Rightarrow> set_mode p MODE_622 h
      | (Ok _, h) \<Rightarrow> (Err (IoInvalid ''denied log must be a regular file''), h)
      | (Err e, h) \<Rightarrow> if e = IoNotFound then write_atomic p [] MODE_622 h else (Err e, h))"

definition hidden :: "bytes \<Rightarrow> bool" where
  "hidden name \<longleftrightarrow> starts_with ''.'' name"

definition loopback_in_each :: "(bytes \<Rightarrow> bool) \<Rightarrow> path \<Rightarrow> unit io" where
  "loopback_in_each wanted base =
     io_bind (read_dir base) (io_each (\<lambda>name.
       io_bind (is_dir (base @ [name])) (\<lambda>d.
         if d \<and> wanted name then file_if_absent (base @ [name, ''loopback.allow'']) [] MODE_644 else io_return ())))"

definition ensure_files :: "unit io" where
  "ensure_files =
     io_then (file_if_absent GLOBAL [] MODE_644)
     (io_then (file_if_absent GLOBAL_LOOPBACK [] MODE_644)
     (io_then (loopback_in_each (\<lambda>_. True) PROJECTS)
     (io_then (loopback_in_each (\<lambda>name. \<not> hidden name) RUNS)
       (ensure_log DENIED_LOG))))"

text \<open>
  Taking or releasing the policy lock can fail; it changes nothing here. When releasing fails, the
  result of the operation is dropped; \<open>dropped\<close> is what its \<open>Drop\<close> does.
\<close>

definition lock_call :: "unit io" where
  "lock_call = io_fault (io_return ())"

definition with_lock :: "('a \<Rightarrow> unit io) \<Rightarrow> 'a io \<Rightarrow> 'a io" where
  "with_lock dropped f =
     io_then (open_existing LOCK_PATH)
     (io_then lock_call
       (\<lambda>h. case f h of
          (r, h) \<Rightarrow>
            (case lock_call h of
               (Ok _, h) \<Rightarrow> (r, h)
             | (Err e, h) \<Rightarrow> (Err e, (case r of Ok x \<Rightarrow> snd (dropped x h) | Err _ \<Rightarrow> h)))))"

definition ensure :: "unit io" where
  "ensure =
     io_then (mkdir [])
     (io_then (mkdir PROJECTS)
     (io_then (mkdir [''log''])
     (io_then (mkdir RUNS)
     (io_then (ensure_lock LOCK_PATH)
       (with_lock (\<lambda>_. io_return ()) ensure_files)))))"

definition locked_dropping :: "('a \<Rightarrow> unit io) \<Rightarrow> 'a io \<Rightarrow> 'a io" where
  "locked_dropping dropped f = io_then ensure (with_lock dropped f)"

definition locked :: "'a io \<Rightarrow> 'a io" where
  "locked = locked_dropping (\<lambda>_. io_return ())"

definition project_dir :: "project_identity \<Rightarrow> path" where
  "project_dir project = PROJECTS @ [pj_key project]"

definition project_files_locked :: "project_identity \<Rightarrow> (path \<times> path) io" where
  "project_files_locked project =
     (let dir = project_dir project; metadata = dir @ [''path'']
      in io_then (mkdir dir)
         (io_then
            (io_bind (path_exists metadata) (\<lambda>e.
               if e then io_bind (read_file metadata) (\<lambda>c. if c \<noteq> pj_path project then io_fail IoExists else io_return ())
               else write_atomic metadata (pj_path project) MODE_600))
         (io_then (set_mode metadata MODE_600)
         (io_then (file_if_absent (dir @ [''allow.local'']) [] MODE_644)
         (io_then (file_if_absent (dir @ [''loopback.allow'']) [] MODE_644)
            (io_return (dir @ [''allow.local''], dir @ [''loopback.allow''])))))))"

section \<open>Changing a layer\<close>

text \<open>
  The two copies of the mutation, for domains and for authorities, as one function of the reader,
  the writer and the error.
\<close>

definition read_list :: "(bytes \<Rightarrow> ('a list, cli_error) result) \<Rightarrow> path \<Rightarrow> 'a list io" where
  "read_list reader p = io_bind (read_file p) (\<lambda>c. io_result (reader c))"

definition mutate_list ::
    "(bytes \<Rightarrow> ('a list, cli_error) result) \<Rightarrow> ('a list \<Rightarrow> bytes) \<Rightarrow> ('a set \<Rightarrow> cli_error) \<Rightarrow> path
       \<Rightarrow> 'a list \<Rightarrow> 'a set \<Rightarrow> unit io" where
  "mutate_list reader writer not_allowed p add remove =
     io_bind (read_list reader p) (\<lambda>xs.
       let xs = foldl push_new xs add
       in if \<not> remove \<subseteq> set xs then io_fail (IoText (not_allowed (remove - set xs)))
          else write_atomic p (writer (filter (\<lambda>x. x \<notin> remove) xs)) MODE_644)"

definition mutate_file_locked :: "idna \<Rightarrow> path \<Rightarrow> bytes list \<Rightarrow> bytes set \<Rightarrow> unit io" where
  "mutate_file_locked idna = mutate_list (read_domains idna) domains_text DomainsNotAllowed"

definition mutate_loopback_file_locked :: "path \<Rightarrow> loopback_authority list \<Rightarrow> loopback_authority set \<Rightarrow> unit io" where
  "mutate_loopback_file_locked = mutate_list read_loopback_authorities authorities_text AuthoritiesNotAllowed"

definition mutate_global :: "policy_env \<Rightarrow> bytes list \<Rightarrow> bytes list \<Rightarrow> unit io" where
  "mutate_global env add remove =
     io_bind (io_result (normalize_batch (pe_idna env) add remove)) (\<lambda>(add, remove).
       locked (mutate_file_locked (pe_idna env) GLOBAL add remove))"

definition mutate_project :: "policy_env \<Rightarrow> project_identity \<Rightarrow> bytes list \<Rightarrow> bytes list \<Rightarrow> unit io" where
  "mutate_project env project add remove =
     io_bind (io_result (normalize_batch (pe_idna env) add remove)) (\<lambda>(add, remove).
       locked (io_bind (project_files_locked project) (\<lambda>(file, _).
         mutate_file_locked (pe_idna env) file add remove)))"

definition mutate_loopback_global :: "bytes list \<Rightarrow> bytes list \<Rightarrow> unit io" where
  "mutate_loopback_global add remove =
     io_bind (io_result (normalize_loopback_batch add remove)) (\<lambda>(add, remove).
       locked (mutate_loopback_file_locked GLOBAL_LOOPBACK add remove))"

definition mutate_loopback_project :: "project_identity \<Rightarrow> bytes list \<Rightarrow> bytes list \<Rightarrow> unit io" where
  "mutate_loopback_project project add remove =
     io_bind (io_result (normalize_loopback_batch add remove)) (\<lambda>(add, remove).
       locked (io_bind (project_files_locked project) (\<lambda>(_, file).
         mutate_loopback_file_locked file add remove)))"

section \<open>Where an entry comes from\<close>

definition BASE_ALLOWLIST :: "bytes list" where
  "BASE_ALLOWLIST =
     [''github.com'', ''githubusercontent.com'', ''registry.npmjs.org'', ''pypi.org'',
      ''files.pythonhosted.org'', ''astral.sh'']"

datatype layer_source =
    BaseSource
  | HarnessSource bytes
  | GlobalSource
  | ProjectSource bytes
  | RunSource bytes

type_synonym 'a resolved = "'a \<times> layer_source list"

definition add_resolved :: "layer_source \<Rightarrow> 'a resolved list \<Rightarrow> 'a \<Rightarrow> 'a resolved list" where
  "add_resolved source output x =
     (case position (\<lambda>r. fst r = x) output of
        Some i \<Rightarrow> output[i := (x, snd (output ! i) @ [source])]
      | None \<Rightarrow> output @ [(x, [source])])"

definition add_layer :: "'a resolved list \<Rightarrow> 'a list \<times> layer_source \<Rightarrow> 'a resolved list" where
  "add_layer output l = foldl (add_resolved (snd l)) output (fst l)"

definition resolve_loopback_layers :: "('a list \<times> layer_source) list \<Rightarrow> 'a resolved list" where
  "resolve_loopback_layers layers = foldl add_layer [] layers"

text \<open>Domains are normalised once more on the way.\<close>

definition resolve_layers :: "idna \<Rightarrow> (bytes list \<times> layer_source) list \<Rightarrow> (bytes resolved list, cli_error) result" where
  "resolve_layers idna layers =
     and_then (collect_results (map (\<lambda>(domains, source).
         and_then (collect_results (map (normalize_domain idna) domains)) (\<lambda>ds. Ok (ds, source))) layers))
       (\<lambda>layers. Ok (resolve_loopback_layers layers))"

text \<open>\<open>resolved\<close> normalises a layer as soon as it has read it.\<close>

definition normal_layer :: "idna \<Rightarrow> bytes list \<Rightarrow> layer_source \<Rightarrow> (bytes list \<times> layer_source) io" where
  "normal_layer idna domains source =
     io_result (and_then (collect_results (map (normalize_domain idna) domains)) (\<lambda>ds. Ok (ds, source)))"

definition project_layer ::
    "(path \<Rightarrow> ('a list \<times> layer_source) io) \<Rightarrow> bytes \<Rightarrow> project_identity option \<Rightarrow> ('a list \<times> layer_source) list io" where
  "project_layer reader name project =
     (case project of
        None \<Rightarrow> io_return []
      | Some p \<Rightarrow>
          (let file = project_dir p @ [name]
           in io_bind (path_exists file) (\<lambda>e.
                if e then io_bind (reader file) (\<lambda>l. io_return [l]) else io_return [])))"

definition resolved_domains ::
    "policy_env \<Rightarrow> bytes \<Rightarrow> bytes list \<Rightarrow> project_identity option \<Rightarrow> bytes \<Rightarrow> bytes list \<Rightarrow> bytes resolved list io" where
  "resolved_domains env harness harness_domains project run_id run_list =
     (let read_layer = (\<lambda>source p.
            io_bind (read_list (read_domains (pe_idna env)) p) (\<lambda>ds. normal_layer (pe_idna env) ds source))
      in io_then ensure
         (io_bind (normal_layer (pe_idna env) BASE_ALLOWLIST BaseSource) (\<lambda>base_layer.
         io_bind (normal_layer (pe_idna env) harness_domains (HarnessSource harness)) (\<lambda>harness_layer.
         io_bind (read_layer GlobalSource GLOBAL) (\<lambda>global_layer.
         io_bind (project_layer (read_layer (ProjectSource (case project of None \<Rightarrow> [] | Some p \<Rightarrow> pj_path p)))
             ''allow.local'' project) (\<lambda>project_layers.
         io_bind (normal_layer (pe_idna env) run_list (RunSource run_id)) (\<lambda>run_layer.
           io_return (resolve_loopback_layers
             ([base_layer, harness_layer, global_layer] @ project_layers @ [run_layer])))))))))"

definition resolved_loopback ::
    "project_identity option \<Rightarrow> bytes \<Rightarrow> bytes list \<Rightarrow> loopback_authority resolved list io" where
  "resolved_loopback project run_id run_list =
     (let read_layer = (\<lambda>source p.
            io_bind (read_list read_loopback_authorities p) (\<lambda>as. io_return (as, source)))
      in io_bind (io_result (normalize_loopback_authorities run_list)) (\<lambda>run_list.
         io_then ensure
         (io_bind (read_layer GlobalSource GLOBAL_LOOPBACK) (\<lambda>global_layer.
         io_bind (project_layer (read_layer (ProjectSource (case project of None \<Rightarrow> [] | Some p \<Rightarrow> pj_path p)))
             ''loopback.allow'' project) (\<lambda>project_layers.
           io_return (resolve_loopback_layers
             ([global_layer] @ project_layers @ [(run_list, RunSource run_id)])))))))"

definition denied_domains :: "bytes list io" where
  "denied_domains =
     io_then ensure
     (io_bind (symlink_metadata DENIED_LOG) (\<lambda>n.
        if regular_file n None then
          io_bind (read_file DENIED_LOG) (\<lambda>c.
          io_bind (io_result (read_denied c)) (\<lambda>ds. io_return (sorted_list_of_set ds)))
        else io_fail (IoInvalid ''denied log must be a regular file'')))"

section \<open>Runs\<close>

record active_run =
  ar_id :: bytes
  ar_harness :: bytes
  ar_project_key :: bytes
  ar_project_path :: bytes
  ar_mode :: bytes
  ar_effective :: "bytes resolved list"
  ar_effective_loopback :: "loopback_authority resolved list"

record policy_project =
  pp_key :: bytes
  pp_path :: bytes
  pp_domains :: "bytes list"
  pp_loopback :: "loopback_authority list"

record policy_snapshot =
  sn_global :: "bytes list"
  sn_loopback :: "loopback_authority list"
  sn_projects :: "policy_project list"
  sn_runs :: "active_run list"

definition invalid_data :: "bytes \<Rightarrow> 'a io" where
  "invalid_data message = io_fail (IoInvalid message)"

text \<open>
  A hidden name is a half-made or half-removed run. Any other is kept while its lease is locked,
  which the process of the run holds, and removed once it is free.
\<close>

definition reap_run :: "bytes \<Rightarrow> unit io" where
  "reap_run name =
     (let p = RUNS @ [name] in
      io_bind (is_dir p) (\<lambda>d.
        if hidden name then
          (if \<not> d then invalid_data ''temporary run state is not a directory'' else remove_dir_all p)
        else if \<not> d then invalid_data ''published run state is not a directory''
        else
          io_bind (symlink_metadata (p @ [''lease''])) (\<lambda>n.
            if \<not> regular_file n (Some MODE_600) then invalid_data ''published run lease must be a regular 0600 file''
            else
              io_then (open_existing (p @ [''lease'']))
              (io_then lock_call
                (if file_locked n then io_return () else io_then lock_call (remove_dir_all p))))))"

definition reap_runs_locked :: "unit io" where
  "reap_runs_locked = io_bind (read_dir RUNS) (io_each reap_run)"

definition project_locked :: "policy_env \<Rightarrow> bytes \<Rightarrow> policy_project io" where
  "project_locked env key =
     (let p = PROJECTS @ [key] in
      io_bind (is_dir p) (\<lambda>d.
        if \<not> d then invalid_data ''project state is not a directory''
        else
          io_bind (read_file (p @ [''path''])) (\<lambda>project_path.
            if pe_key_of env project_path \<noteq> key then invalid_data ''project key does not match project path''
            else
              io_bind (read_list (read_domains (pe_idna env)) (p @ [''allow.local''])) (\<lambda>ds.
              io_bind (read_list read_loopback_authorities (p @ [''loopback.allow''])) (\<lambda>as.
                io_return \<lparr>pp_key = key, pp_path = project_path, pp_domains = ds, pp_loopback = as\<rparr>)))))"

definition projects_locked :: "policy_env \<Rightarrow> policy_project list io" where
  "projects_locked env =
     io_bind (read_dir PROJECTS) (\<lambda>names.
     io_bind (io_map (project_locked env) names) (\<lambda>projects. io_return (sort_key pp_path projects)))"

definition trimmed_file :: "path \<Rightarrow> bytes \<Rightarrow> bytes io" where
  "trimmed_file p label = io_bind (read_file p) (\<lambda>c. io_result (read_trimmed c label))"

definition active_run_locked ::
    "policy_env \<Rightarrow> bytes list \<Rightarrow> loopback_authority list \<Rightarrow> policy_project list \<Rightarrow> bytes \<Rightarrow> active_run io" where
  "active_run_locked env global_list loopback_list projects run_id =
     (let p = RUNS @ [run_id]; domains = read_list (read_domains (pe_idna env)) in
      io_bind (trimmed_file (p @ [''harness'']) ''run harness'') (\<lambda>harness.
      io_bind (trimmed_file (p @ [''mode'']) ''run mode'') (\<lambda>mode.
        if cli_mode_parse mode = None then invalid_data ''invalid run mode''
        else
      io_bind (trimmed_file (p @ [''project-key'']) ''run project key'') (\<lambda>key.
      io_bind (read_file (p @ [''project-path''])) (\<lambda>project_path.
        if pe_key_of env project_path \<noteq> key then invalid_data ''run project key does not match project path''
        else
          (case find (\<lambda>q. pp_key q = key) projects of
             None \<Rightarrow> invalid_data ''run project policy is missing''
           | Some project \<Rightarrow>
               if pp_path project \<noteq> project_path then invalid_data ''run project path does not match project policy''
               else
                 io_bind (domains (p @ [''base.allow''])) (\<lambda>base_list.
                 io_bind (domains (p @ [''harness.allow''])) (\<lambda>harness_list.
                 io_bind (domains (p @ [''run.allow''])) (\<lambda>run_list.
                 io_bind (read_list read_loopback_authorities (p @ [''loopback.allow''])) (\<lambda>run_loopback_list.
                 io_bind (io_result (resolve_layers (pe_idna env)
                     [(base_list, BaseSource), (harness_list, HarnessSource harness), (global_list, GlobalSource),
                      (pp_domains project, ProjectSource project_path), (run_list, RunSource run_id)])) (\<lambda>effective.
                   io_return
                     \<lparr>ar_id = run_id, ar_harness = harness, ar_project_key = key, ar_project_path = project_path,
                      ar_mode = mode, ar_effective = effective,
                      ar_effective_loopback =
                        resolve_loopback_layers
                          [(loopback_list, GlobalSource), (pp_loopback project, ProjectSource project_path),
                           (run_loopback_list, RunSource run_id)]\<rparr>)))))))))))"

definition snapshot_locked :: "policy_env \<Rightarrow> policy_snapshot io" where
  "snapshot_locked env =
     io_then reap_runs_locked
     (io_bind (read_list (read_domains (pe_idna env)) GLOBAL) (\<lambda>global_list.
     io_bind (read_list read_loopback_authorities GLOBAL_LOOPBACK) (\<lambda>loopback_list.
     io_bind (projects_locked env) (\<lambda>projects.
     io_bind (read_dir RUNS) (\<lambda>names.
     io_bind (io_map (\<lambda>name.
         io_bind (is_dir (RUNS @ [name])) (\<lambda>d.
           if \<not> d then invalid_data ''published run state is not a directory''
           else active_run_locked env global_list loopback_list projects name))
       (filter (\<lambda>name. \<not> hidden name) names)) (\<lambda>runs.
       io_return \<lparr>sn_global = global_list, sn_loopback = loopback_list, sn_projects = projects,
                  sn_runs = sort_key ar_id runs\<rparr>))))))"

definition snapshot :: "policy_env \<Rightarrow> policy_snapshot io" where
  "snapshot env = locked (snapshot_locked env)"

definition active_runs :: "policy_env \<Rightarrow> active_run list io" where
  "active_runs env = io_bind (snapshot env) (\<lambda>s. io_return (sn_runs s))"

section \<open>Denying\<close>

text \<open>
  The host has a report type for domains and one for authorities; here both hold the text of an
  entry and where it is still allowed.
\<close>

type_synonym deny_entry = "bytes \<times> bytes list"

record deny_report =
  dr_selected :: bytes
  dr_missing :: "deny_entry list"
  dr_remaining :: "deny_entry list"

definition add_source :: "bytes \<Rightarrow> bytes list \<Rightarrow> bytes \<Rightarrow> bytes list" where
  "add_source selected sources source =
     (if source \<noteq> selected \<and> source \<notin> set sources then sources @ [source] else sources)"

definition project_label :: "bytes \<Rightarrow> bytes" where
  "project_label project_path = ''project:'' @ quote_path_bytes project_path"

definition run_sources :: "'a \<Rightarrow> 'a resolved list \<Rightarrow> bytes list" where
  "run_sources x effective =
     (case find (\<lambda>r. fst r = x) effective of
        None \<Rightarrow> []
      | Some r \<Rightarrow> concat (map (\<lambda>source. case source of RunSource i \<Rightarrow> [''run:'' @ i] | _ \<Rightarrow> []) (snd r)))"

definition concerns :: "project_identity option \<Rightarrow> active_run \<Rightarrow> bool" where
  "concerns selected prun = (case selected of None \<Rightarrow> True | Some p \<Rightarrow> pj_key p = ar_project_key prun)"

definition other_sources ::
    "policy_env \<Rightarrow> policy_snapshot \<Rightarrow> project_identity option \<Rightarrow> bytes \<Rightarrow> bytes \<Rightarrow> bytes list" where
  "other_sources env s selected_project domain selected =
     foldl (add_source selected) []
       ((if domain \<in> set BASE_ALLOWLIST then [''base''] else [])
          @ map (\<lambda>h. ''harness:'' @ fst h) (filter (\<lambda>h. domain \<in> set (snd h)) (pe_harnesses env))
          @ (if domain \<in> set (sn_global s) then [''global''] else [])
          @ (if selected_project = None
             then map (\<lambda>p. project_label (pp_path p)) (filter (\<lambda>p. domain \<in> set (pp_domains p)) (sn_projects s))
             else [])
          @ concat (map (\<lambda>r. run_sources domain (ar_effective r)) (filter (concerns selected_project) (sn_runs s))))"

definition other_loopback_sources ::
    "policy_snapshot \<Rightarrow> project_identity option \<Rightarrow> loopback_authority \<Rightarrow> bytes \<Rightarrow> bytes list" where
  "other_loopback_sources s selected_project authority selected =
     foldl (add_source selected) []
       ((if authority \<in> set (sn_loopback s) then [''global''] else [])
          @ (if selected_project = None
             then map (\<lambda>p. project_label (pp_path p)) (filter (\<lambda>p. authority \<in> set (pp_loopback p)) (sn_projects s))
             else [])
          @ concat (map (\<lambda>r. run_sources authority (ar_effective_loopback r))
              (filter (concerns selected_project) (sn_runs s))))"

definition stored_project :: "policy_snapshot \<Rightarrow> project_identity \<Rightarrow> policy_project option" where
  "stored_project s project = find (\<lambda>e. pp_key e = pj_key project \<and> pp_path e = pj_path project) (sn_projects s)"

primrec update_first :: "('a \<Rightarrow> bool) \<Rightarrow> ('a \<Rightarrow> 'a) \<Rightarrow> 'a list \<Rightarrow> 'a list" where
  "update_first P f [] = []"
| "update_first P f (x # xs) = (if P x then f x # xs else x # update_first P f xs)"

definition selected_label :: "project_identity option \<Rightarrow> bytes" where
  "selected_label project = (case project of None \<Rightarrow> ''global'' | Some p \<Rightarrow> project_label (pj_path p))"

text \<open>An empty batch on a project without a file reaches an \<open>expect\<close>: \<open>IoPanic\<close>.\<close>

definition deny_locked :: "policy_env \<Rightarrow> project_identity option \<Rightarrow> bytes list \<Rightarrow> deny_report io" where
  "deny_locked env project domains =
     io_bind (snapshot_locked env) (\<lambda>s.
     let label = selected_label project;
         selected =
           (case project of
              None \<Rightarrow> Some GLOBAL
            | Some p \<Rightarrow> map_option (\<lambda>e. PROJECTS @ [pp_key e, ''allow.local'']) (stored_project s p))
     in io_bind (case selected of None \<Rightarrow> io_return [] | Some file \<Rightarrow> read_list (read_domains (pe_idna env)) file)
          (\<lambda>allowed.
            let missing = filter (\<lambda>d. d \<notin> set allowed) domains
            in if missing \<noteq> [] then
                 io_return \<lparr>dr_selected = label,
                   dr_missing = map (\<lambda>d. (d, other_sources env s project d label)) missing, dr_remaining = []\<rparr>
               else
                 (case selected of
                    None \<Rightarrow> io_fail IoPanic
                  | Some file \<Rightarrow>
                      (let retained = filter (\<lambda>d. d \<notin> set domains) allowed;
                           after =
                             (case project of
                                None \<Rightarrow> s\<lparr>sn_global := retained\<rparr>
                              | Some p \<Rightarrow>
                                  s\<lparr>sn_projects :=
                                      update_first (\<lambda>e. pp_key e = pj_key p) (\<lambda>e. e\<lparr>pp_domains := retained\<rparr>) (sn_projects s)\<rparr>)
                       in io_then (write_atomic file (domains_text retained) MODE_644)
                            (io_return \<lparr>dr_selected = label, dr_missing = [],
                               dr_remaining = map (\<lambda>d. (d, other_sources env after project d [])) domains\<rparr>)))))"

definition deny :: "policy_env \<Rightarrow> project_identity option \<Rightarrow> bytes list \<Rightarrow> deny_report io" where
  "deny env project domains =
     io_bind (io_result (normalize_domains (pe_idna env) domains)) (\<lambda>domains. locked (deny_locked env project domains))"

definition deny_loopback_locked ::
    "policy_env \<Rightarrow> project_identity option \<Rightarrow> loopback_authority list \<Rightarrow> deny_report io" where
  "deny_loopback_locked env project authorities =
     io_bind (snapshot_locked env) (\<lambda>s.
     let label = selected_label project;
         stored = Option.bind project (stored_project s);
         selected =
           (case project of
              None \<Rightarrow> Some GLOBAL_LOOPBACK
            | Some _ \<Rightarrow> map_option (\<lambda>e. PROJECTS @ [pp_key e, ''loopback.allow'']) stored);
         allowed =
           (case project of
              None \<Rightarrow> sn_loopback s
            | Some _ \<Rightarrow> (case stored of None \<Rightarrow> [] | Some e \<Rightarrow> pp_loopback e));
         missing = filter (\<lambda>a. a \<notin> set allowed) authorities
     in if missing \<noteq> [] then
          io_return \<lparr>dr_selected = label,
            dr_missing =
              map (\<lambda>a. (cli_authority_display a, other_loopback_sources s project a label)) missing,
            dr_remaining = []\<rparr>
        else
          (case selected of
             None \<Rightarrow> io_fail IoPanic
           | Some file \<Rightarrow>
               (let retained = filter (\<lambda>a. a \<notin> set authorities) allowed;
                    after =
                      (case project of
                         None \<Rightarrow> s\<lparr>sn_loopback := retained\<rparr>
                       | Some p \<Rightarrow>
                           s\<lparr>sn_projects :=
                               update_first (\<lambda>e. pp_key e = pj_key p) (\<lambda>e. e\<lparr>pp_loopback := retained\<rparr>) (sn_projects s)\<rparr>)
                in io_then (write_atomic file (authorities_text retained) MODE_644)
                     (io_return \<lparr>dr_selected = label, dr_missing = [],
                        dr_remaining =
                          map (\<lambda>a. (cli_authority_display a, other_loopback_sources after project a []))
                            authorities\<rparr>))))"

definition deny_loopback :: "policy_env \<Rightarrow> project_identity option \<Rightarrow> bytes list \<Rightarrow> deny_report io" where
  "deny_loopback env project authorities =
     io_bind (io_result (normalize_loopback_authorities authorities)) (\<lambda>authorities.
       locked (deny_loopback_locked env project authorities))"

section \<open>Modes of the active runs\<close>

primrec cli_mode_as_str :: "mode \<Rightarrow> bytes" where
  "cli_mode_as_str Enforce = ''enforce''"
| "cli_mode_as_str Report = ''report''"
| "cli_mode_as_str Open = ''open''"

text \<open>A mode file that is not there is passed over; anything but a plain file is an error.\<close>

definition mode_file :: "path \<Rightarrow> path list io" where
  "mode_file p h =
     (case symlink_metadata p h of
        (Ok n, h) \<Rightarrow>
          (if regular_file n (Some MODE_644) then Ok [p] else Err (IoInvalid ''run mode must be a regular 0644 file''), h)
      | (Err e, h) \<Rightarrow> if e = IoNotFound then (Ok [], h) else (Err e, h))"

primrec change_modes :: "bytes \<Rightarrow> path list \<Rightarrow> nat \<Rightarrow> nat io" where
  "change_modes text [] changed = io_return changed"
| "change_modes text (p # ps) changed = (\<lambda>h.
     case write_atomic p text MODE_644 h of
       (Ok _, h) \<Rightarrow> change_modes text ps (changed + 1) h
     | (Err e, h) \<Rightarrow> if e = IoNotFound then change_modes text ps changed h else (Err e, h))"

definition set_active_mode_locked :: "mode \<Rightarrow> nat io" where
  "set_active_mode_locked mode =
     io_then reap_runs_locked
     (io_bind (read_dir RUNS) (\<lambda>names.
      io_bind (io_map mode_file (sort (map (\<lambda>name. RUNS @ [name, ''mode'']) (filter (\<lambda>name. \<not> hidden name) names))))
        (\<lambda>valid. change_modes (cli_mode_as_str mode @ [LF]) (concat valid) 0)))"

definition set_active_mode :: "mode \<Rightarrow> nat io" where
  "set_active_mode mode = locked (set_active_mode_locked mode)"

section \<open>The life of a run\<close>

definition reset_log_if_idle_locked :: "unit io" where
  "reset_log_if_idle_locked =
     io_bind (read_dir RUNS) (\<lambda>names.
       if list_ex (\<lambda>name. \<not> hidden name) names then io_return () else write_atomic DENIED_LOG [] MODE_622)"

record policy_run =
  pr_published :: path
  pr_dead :: path
  pr_retired :: bool

text \<open>\<open>None\<close>: the clock is before the epoch.\<close>

definition run_id :: "nat option \<Rightarrow> bytes io" where
  "run_id nanos h =
     (case nanos of
        None \<Rightarrow> (Err IoOther, h)
      | Some n \<Rightarrow> (Ok (show_nat (hs_pid h) @ ''-'' @ show_nat n), h))"

definition lock_lease :: "path \<Rightarrow> unit io" where
  "lock_lease p =
     io_fault
       (io_bind (lookup p) (\<lambda>n.
          case n of FileNode c m _ \<Rightarrow> set_node p (FileNode c m True) | _ \<Rightarrow> io_return ()))"

text \<open>The lock goes with the last descriptor, when the run's process drops it or ends.\<close>

definition release_lease :: "path \<Rightarrow> unit io" where
  "release_lease p h =
     (case node_at h p of
        Some (FileNode c m _) \<Rightarrow> set_node p (FileNode c m False) h
      | _ \<Rightarrow> (Ok (), h))"

definition write_domains :: "idna \<Rightarrow> path \<Rightarrow> bytes list \<Rightarrow> unit io" where
  "write_domains idna p domains =
     io_bind (io_result (normalize_domains idna domains)) (\<lambda>ds. write_atomic p (domains_text ds) MODE_644)"

definition write_loopback_authorities :: "path \<Rightarrow> loopback_authority list \<Rightarrow> unit io" where
  "write_loopback_authorities p authorities = write_atomic p (authorities_text authorities) MODE_644"

definition run_temporary :: "bytes \<Rightarrow> path" where
  "run_temporary i = RUNS @ [''.'' @ i @ ''.tmp'']"

definition run_dead :: "bytes \<Rightarrow> path" where
  "run_dead i = RUNS @ [''.'' @ i @ ''.dead'']"

definition fill_run ::
    "policy_env \<Rightarrow> path \<Rightarrow> bytes \<Rightarrow> project_identity \<Rightarrow> bytes list \<Rightarrow> bytes list \<Rightarrow> loopback_authority list
       \<Rightarrow> mode \<Rightarrow> unit io" where
  "fill_run env dir harness project harness_domains run_domains run_loopback mode =
     io_then (write_atomic (dir @ [''lease'']) [] MODE_600)
     (io_then (open_existing (dir @ [''lease'']))
     (io_then (lock_lease (dir @ [''lease'']))
     (io_then (write_atomic (dir @ [''harness'']) harness MODE_600)
     (io_then (write_atomic (dir @ [''project-key'']) (pj_key project) MODE_600)
     (io_then (write_atomic (dir @ [''project-path'']) (pj_path project) MODE_600)
     (io_then (write_domains (pe_idna env) (dir @ [''base.allow'']) BASE_ALLOWLIST)
     (io_then (write_domains (pe_idna env) (dir @ [''harness.allow'']) harness_domains)
     (io_then (write_domains (pe_idna env) (dir @ [''run.allow'']) run_domains)
     (io_then (write_loopback_authorities (dir @ [''loopback.allow'']) run_loopback)
       (write_atomic (dir @ [''mode'']) (cli_mode_as_str mode @ [LF]) MODE_644))))))))))"

definition publish_locked ::
    "policy_env \<Rightarrow> nat option \<Rightarrow> bytes \<Rightarrow> project_identity \<Rightarrow> bytes list \<Rightarrow> bytes list \<Rightarrow> loopback_authority list
       \<Rightarrow> mode \<Rightarrow> policy_run io" where
  "publish_locked env nanos harness project harness_domains run_domains run_loopback mode =
     io_then reap_runs_locked
     (io_then (io_bind (project_files_locked project) (\<lambda>_. io_return ()))
     (io_then reset_log_if_idle_locked
     (io_bind (run_id nanos) (\<lambda>i.
      io_then (create_dir (run_temporary i))
      (io_then (set_mode (run_temporary i) MODE_755)
      (io_cleanup
         (io_then (fill_run env (run_temporary i) harness project harness_domains run_domains run_loopback mode)
         (io_then (rename (run_temporary i) (RUNS @ [i]))
           (io_return \<lparr>pr_published = RUNS @ [i], pr_dead = run_dead i, pr_retired = False\<rparr>)))
         (io_then (release_lease (run_temporary i @ [''lease'']))
           (remove_dir_all (run_temporary i)))))))))"

text \<open>Retiring takes no lock: the rename decides.\<close>

definition retire_inner :: "policy_run \<Rightarrow> host \<Rightarrow> (unit, store_error) result \<times> policy_run \<times> host" where
  "retire_inner prun h =
     (if pr_retired prun then (Ok (), prun, h)
      else
        (case rename (pr_published prun) (pr_dead prun) h of
           (Ok _, h) \<Rightarrow> (case remove_dir_all (pr_dead prun) h of (r, h) \<Rightarrow> (r, prun\<lparr>pr_retired := True\<rparr>, h))
         | (Err e, h) \<Rightarrow>
             if e = IoNotFound then (Ok (), prun\<lparr>pr_retired := True\<rparr>, h) else (Err e, prun, h)))"

text \<open>Dropping a run retires it, and its lease is free.\<close>

definition drop_run :: "policy_run \<Rightarrow> unit io" where
  "drop_run prun h =
     (case retire_inner prun h of (_, prun, h) \<Rightarrow> release_lease (pr_published prun @ [''lease'']) h)"

definition publish_run ::
    "policy_env \<Rightarrow> nat option \<Rightarrow> bytes \<Rightarrow> project_identity \<Rightarrow> bytes list \<Rightarrow> bytes list \<Rightarrow> bytes list \<Rightarrow> mode
       \<Rightarrow> policy_run io" where
  "publish_run env nanos harness project harness_domains run_domains run_loopback mode =
     io_bind (io_result (normalize_domains (pe_idna env) harness_domains)) (\<lambda>harness_domains.
     io_bind (io_result (normalize_domains (pe_idna env) run_domains)) (\<lambda>run_domains.
     io_bind (io_result (normalize_loopback_authorities run_loopback)) (\<lambda>run_loopback.
       locked_dropping drop_run (publish_locked env nanos harness project harness_domains run_domains run_loopback mode))))"

end
