(* ===== verification/Host_Atomic.thy ===== *)
theory Host_Atomic
  imports Host_Fs
begin

text \<open>
  What \<open>write_atomic\<close> guarantees under all faults, and the changes each call can make.
\<close>

section \<open>The temporary file\<close>

definition temp_is :: "(path \<Rightarrow> node option) \<Rightarrow> path \<Rightarrow> (node option \<Rightarrow> bool) \<Rightarrow> host \<Rightarrow> bool" where
  "temp_is M tmp N h \<longleftrightarrow> (\<forall>q. q \<noteq> tmp \<longrightarrow> node_at h q = M q) \<and> N (node_at h tmp)"

abbreviation temp_any :: "(path \<Rightarrow> node option) \<Rightarrow> path \<Rightarrow> host \<Rightarrow> bool" where
  "temp_any M tmp \<equiv> temp_is M tmp (\<lambda>_. True)"

lemma on_files_temp_is [simp]: "on_files (temp_is M tmp N)"
  by (simp add: on_files_def temp_is_def)

lemma temp_is_weaken: "temp_is M tmp N h \<Longrightarrow> temp_any M tmp h"
  by (simp add: temp_is_def)

lemma lookup_Ok: "lookup p h = (r, h') \<longleftrightarrow> h' = h \<and> r = ok_or IoNotFound (node_at h p)"
  by (auto simp: lookup_def)

lemma temp_set_contents:
  "triple (temp_is M tmp (\<lambda>n. \<exists>c m. n = Some (FileNode c m False))) (set_contents tmp c)
     (\<lambda>_. temp_is M tmp (\<lambda>n. \<exists>m. n = Some (FileNode c m False))) (temp_any M tmp)"
  by (rule tripleI)
    (auto simp: set_contents_def io_bind_def lookup_def temp_is_def set_node_def update_conv' io_fail_def
      split: prod.splits result.splits)

lemma temp_write_file:
  "triple (temp_is M tmp (\<lambda>n. \<exists>c m. n = Some (FileNode c m False))) (write_file tmp c)
     (\<lambda>_. temp_is M tmp (\<lambda>n. \<exists>m. n = Some (FileNode c m False))) (temp_any M tmp)"
  unfolding write_file_def
  by (rule triple_faulty [OF on_files_temp_is _ temp_set_contents])
    (rule triple_weaken [OF temp_set_contents], auto intro: temp_is_weaken)

lemma temp_sync_file:
  "triple (temp_is M tmp N) (sync_file tmp) (\<lambda>_. temp_is M tmp N) (temp_any M tmp)"
  unfolding sync_file_def
  by (rule triple_fault [OF on_files_temp_is]) (rule triple_return, rule temp_is_weaken)

lemma temp_set_mode:
  "triple (temp_is M tmp (\<lambda>n. \<exists>m. n = Some (FileNode c m False))) (set_mode tmp mode)
     (\<lambda>_. temp_is M tmp (\<lambda>n. n = Some (FileNode c mode False))) (temp_any M tmp)"
  unfolding set_mode_def
  by (rule triple_fault [OF on_files_temp_is], rule tripleI)
    (auto simp: io_bind_def lookup_def temp_is_def set_node_def update_conv' split: prod.splits result.splits)

lemma temp_rename:
  assumes "tmp \<noteq> p" and "M tmp = None"
  shows "triple (temp_is M tmp (\<lambda>n. n = Some (FileNode c mode False))) (rename tmp p)
     (\<lambda>_ h. node_at h p = Some (FileNode c mode False) \<and> (\<forall>q. q \<noteq> p \<longrightarrow> node_at h q = M q)) (temp_any M tmp)"
  unfolding rename_def
proof (rule triple_fault [OF on_files_temp_is], rule tripleI)
  fix h h' :: host and r
  let ?n = "FileNode c mode False"
  let ?t = "map (\<lambda>(q, m). (moved ?n tmp p q, m)) (filter (\<lambda>e. \<not> replaced ?n p (fst e)) (hs_tree h))"
  assume h: "temp_is M tmp (\<lambda>n. n = Some ?n) h"
    and r: "(io_bind (lookup tmp) (\<lambda>n h.
          if tmp = p then (Ok (), h)
          else if parent_error h p \<noteq> None then (Err (the (parent_error h p)), h)
          else if prefix tmp p \<or> prefix p tmp \<or> \<not> may_replace n (node_at h p) (vacant p h) then (Err IoOther, h)
          else (Ok (), h\<lparr>hs_tree := map (\<lambda>(q, m). (moved n tmp p q, m)) (filter (\<lambda>e. \<not> replaced n p (fst e)) (hs_tree h))\<rparr>))) h
        = (r, h')"
  have n: "node_at h tmp = Some ?n"
    using h by (simp add: temp_is_def)
  have m: "map_of ?t q = (if q = p then Some ?n else M q)" for q
    using map_of_moved_file [OF assms(1), of ?n "hs_tree h" q] h assms(2) by (auto simp: temp_is_def)
  have "(r = Ok () \<and> h' = h\<lparr>hs_tree := ?t\<rparr>) \<or> ((\<exists>e. r = Err e) \<and> h' = h)"
    using r n assms(1) by (auto simp: io_bind_def lookup_def split: if_split_asm)
  then show "case r of
       Ok x \<Rightarrow> node_at h' p = Some ?n \<and> (\<forall>q. q \<noteq> p \<longrightarrow> node_at h' q = M q)
     | Err _ \<Rightarrow> temp_any M tmp h'"
    using h m by (auto simp: temp_is_def)
qed (rule temp_is_weaken)

lemma temp_remove_file: "triple (temp_any M tmp) (remove_file tmp) (\<lambda>_. temp_any M tmp) (temp_any M tmp)"
  unfolding remove_file_def
  by (rule triple_fault [OF on_files_temp_is], rule tripleI)
    (auto simp: io_bind_def lookup_def temp_is_def io_fail_def delete_conv' split: prod.splits result.splits node.splits)

lemma fill_temporary_atomic:
  assumes "tmp \<noteq> p" and "M tmp = None"
  shows "triple (temp_is M tmp (\<lambda>n. \<exists>c m. n = Some (FileNode c m False))) (fill_temporary tmp p c mode)
     (\<lambda>_ h. node_at h p = Some (FileNode c mode False) \<and> (\<forall>q. q \<noteq> p \<longrightarrow> node_at h q = M q)) (temp_any M tmp)"
  unfolding fill_temporary_def
  by (rule triple_cleanup [OF _ temp_remove_file])
    (rule triple_then [OF temp_write_file triple_then [OF temp_sync_file triple_then [OF temp_set_mode temp_rename]]],
     (fact assms)+)

section \<open>Atomic replacement under all faults\<close>

lemma create_node_cases:
  assumes "create_node p n h = (r, h')"
  shows "(r = Ok () \<and> node_at h p = None \<and> (\<forall>q. node_at h' q = (if q = p then Some n else node_at h q)))
      \<or> ((\<exists>e. r = Err e) \<and> hs_tree h' = hs_tree h)"
  using assms
  by (auto simp: create_node_def io_faulty_def io_return_def set_node_def update_conv' fun_eq_iff
      split: list.splits option.splits if_split_asm)

lemma hs_pid_faulty:
  assumes "\<And>h k. hs_pid (snd (partly k h)) = hs_pid h" and "\<And>h. hs_pid (snd (m h)) = hs_pid h"
  shows "hs_pid (snd (io_faulty partly m h)) = hs_pid h"
  using assms by (auto simp: io_faulty_def split: list.splits option.splits)

lemma hs_pid_create_node: "hs_pid (snd (create_node p n h)) = hs_pid h"
  unfolding create_node_def
  by (rule hs_pid_faulty) (auto simp: io_return_def set_node_def split: option.splits)

lemma length_tmp_name: "p \<noteq> [] \<Longrightarrow> tmp_name p pid n \<noteq> p"
proof
  assume "p \<noteq> []" and "tmp_name p pid n = p"
  then have "''.'' @ last p @ ''.'' @ show_nat pid @ ''.'' @ show_nat n = last p"
    unfolding tmp_name_def by (metis last_snoc)
  then have "length (''.'' @ last p @ ''.'' @ show_nat pid @ ''.'' @ show_nat n) = length (last p)"
    by (rule arg_cong)
  then show False
    by simp
qed

lemma write_attempts_atomic:
  assumes "p \<noteq> []" and "write_attempts n k p c mode h = (r, h')"
  shows "case r of
      Ok _ \<Rightarrow> node_at h' p = Some (FileNode c mode False) \<and> (\<forall>q. q \<noteq> p \<longrightarrow> node_at h' q = node_at h q)
    | Err _ \<Rightarrow> \<exists>i. \<forall>q. node_at h' q = node_at h q \<or> q = tmp_name p (hs_pid h) i \<and> node_at h q = None"
  using assms(2)
proof (induction "n - k" arbitrary: k h)
  case 0
  then show ?case
    by (subst (asm) write_attempts.simps) (auto simp: io_fail_def)
next
  case (Suc d)
  let ?h = "h\<lparr>hs_next_tmp := hs_next_tmp h + 1\<rparr>"
  let ?tmp = "tmp_name p (hs_pid h) (hs_next_tmp h + k)"
  obtain q h1 where o: "open_new ?tmp ?h = (q, h1)"
    by fastforce
  note cases = create_node_cases [OF o [unfolded open_new_def]]
  have more_attempts: "\<not> n \<le> k"
    using Suc(2) by simp
  show ?case
  proof (cases q)
    case (Ok u)
    then have "write_attempts n k p c mode h = fill_temporary ?tmp p c mode h1"
      using more_attempts o by (subst write_attempts.simps) (simp add: io_bind_def next_tmp_id_def)
    moreover have "temp_is (map_of (hs_tree h)) ?tmp (\<lambda>n. \<exists>c m. n = Some (FileNode c m False)) h1"
      and "node_at h ?tmp = None"
      using cases Ok by (auto simp: temp_is_def)
    ultimately show ?thesis
      using tripleD [OF fill_temporary_atomic [OF length_tmp_name [OF assms(1)], of "map_of (hs_tree h)" "hs_pid h"
            "hs_next_tmp h + k" c mode], of h1 r h'] Suc(3)
      unfolding temp_is_def
      by (cases r) (simp_all, metis)
  next
    case (Err e)
    then have same: "hs_tree h1 = hs_tree h"
      using cases by auto
    have pid: "hs_pid h1 = hs_pid h"
      using hs_pid_create_node [of ?tmp "FileNode [] MODE_644 False" ?h] o by (simp add: open_new_def)
    show ?thesis
    proof (cases "e = IoExists")
      case True
      then have "write_attempts n (k + 1) p c mode h1 = (r, h')"
        using more_attempts Suc(3) o Err by (subst (asm) write_attempts.simps) (simp add: io_bind_def next_tmp_id_def)
      moreover have "d = n - (k + 1)"
        using Suc(2) by simp
      ultimately show ?thesis
        using Suc(1) [of "k + 1" h1] same pid by (cases r) simp_all
    next
      case False
      then have "r = Err e" and "h' = h1"
        using more_attempts Suc(3) o Err by (subst (asm) write_attempts.simps; simp add: io_bind_def next_tmp_id_def)+
      then show ?thesis
        using same by auto
    qed
  qed
qed

lemma write_atomic_cases:
  assumes "write_atomic p c mode h = (r, h')"
  shows "case r of
      Ok _ \<Rightarrow> node_at h' p = Some (FileNode c mode False) \<and> (\<forall>q. q \<noteq> p \<longrightarrow> node_at h' q = node_at h q)
    | Err _ \<Rightarrow> \<exists>i. \<forall>q. node_at h' q = node_at h q \<or> q = tmp_name p (hs_pid h) i \<and> node_at h q = None"
proof (cases "p = []")
  case True
  then show ?thesis
    using assms by (auto simp: write_atomic_def io_fail_def)
next
  case False
  then show ?thesis
    using assms write_attempts_atomic [OF False] by (simp add: write_atomic_def)
qed

lemma write_atomic_Ok:
  assumes "write_atomic p c mode h = (Ok u, h')"
  shows "node_at h' q = (if q = p then Some (FileNode c mode False) else node_at h q)"
  using write_atomic_cases [OF assms] by simp

lemma write_atomic_Err:
  assumes "write_atomic p c mode h = (Err e, h')"
  obtains i where "\<And>q. node_at h' q = node_at h q \<or> q = tmp_name p (hs_pid h) i \<and> node_at h q = None"
  using write_atomic_cases [OF assms] by auto

lemma write_atomic_others:
  assumes "write_atomic p c mode h = (r, h')" and "node_at h q = Some n" and "q \<noteq> p \<or> \<not> is_ok r"
  shows "node_at h' q = Some n"
proof (cases r)
  case (Ok u)
  then show ?thesis
    using write_atomic_Ok assms by (auto simp: is_ok_iff)
next
  case (Err e)
  then obtain i where "\<And>q. node_at h' q = node_at h q \<or> q = tmp_name p (hs_pid h) i \<and> node_at h q = None"
    using assms(1) write_atomic_Err by blast
  then show ?thesis
    using assms(2) by (metis option.distinct(1))
qed

section \<open>Removing and renaming directories\<close>

lemma remove_entries_cases:
  "node_at (snd (remove_entries p k h)) q = node_at h q \<or> prefix p q \<and> node_at (snd (remove_entries p k h)) q = None"
proof -
  let ?gone = "set (map fst (take k (filter (under p) (hs_tree h))))"
  have "prefix p q" if "q \<in> ?gone"
    using that by (auto simp: under_def dest: in_set_takeD)
  moreover have "node_at (snd (remove_entries p k h)) q = (if q \<notin> ?gone then node_at h q else None)"
  proof -
    have t: "hs_tree (h\<lparr>hs_tree := t\<rparr>) = t" for t
      by simp
    show ?thesis
      unfolding remove_entries_def Let_def snd_conv t by (rule map_of_filter_key [of "\<lambda>x. x \<notin> ?gone"])
  qed
  ultimately show ?thesis
    by auto
qed

lemma remove_dir_all_cases:
  assumes "remove_dir_all p h = (r, h')"
  shows "node_at h' q = node_at h q \<or> prefix p q \<and> node_at h' q = None"
proof (cases "node_at h p")
  case None
  then show ?thesis
    using assms by (auto simp: remove_dir_all_def io_bind_def lookup_def)
next
  case (Some n)
  then have "h' = h \<or> (\<exists>m. io_faulty (remove_entries p) (\<lambda>h. (Ok (), h\<lparr>hs_tree := filter (\<lambda>e. \<not> under p e) (hs_tree h)\<rparr>)) h = (m, h'))
      \<or> (\<exists>m. io_fault (\<lambda>h. (Ok (), h\<lparr>hs_tree := AList.delete p (hs_tree h)\<rparr>)) h = (m, h'))"
    using assms by (cases n) (auto simp: remove_dir_all_def io_bind_def lookup_def io_fail_def)
  moreover have "node_at h' q = node_at h q \<or> prefix p q \<and> node_at h' q = None"
    if "io_faulty (remove_entries p) (\<lambda>h. (Ok (), h\<lparr>hs_tree := filter (\<lambda>e. \<not> under p e) (hs_tree h)\<rparr>)) h = (m, h')" for m
    using that
  proof (cases rule: io_faulty_cases)
    case (works fs)
    then have "hs_tree h' = filter (\<lambda>e. \<not> prefix p (fst e)) (hs_tree h)"
      by (auto simp: under_def)
    then show ?thesis
      by (simp add: map_of_filter_key [of "\<lambda>x. \<not> prefix p x"])
  next
    case (fails k fs)
    then show ?thesis
      using remove_entries_cases [of p k "h\<lparr>hs_faults := fs\<rparr>" q] by simp
  qed
  moreover have "node_at h' q = node_at h q \<or> prefix p q \<and> node_at h' q = None"
    if "io_fault (\<lambda>h. (Ok (), h\<lparr>hs_tree := AList.delete p (hs_tree h)\<rparr>)) h = (m, h')" for m
    using that by (cases rule: io_faulty_cases) (auto simp: delete_conv' io_return_def split: if_splits)
  ultimately show ?thesis
    by blast
qed

lemma vacantD: "vacant p h \<Longrightarrow> strict_prefix p q \<Longrightarrow> node_at h q = None"
  by (auto simp: vacant_def list_ex_iff map_of_eq_None_iff)

text \<open>Either nothing happens, or everything at and below \<open>b\<close> is what was at and below \<open>a\<close>.\<close>

lemma rename_cases:
  assumes "rename a b h = (r, h')" and "a \<noteq> b"
  obtains (renamed) n where "r = Ok ()" and "node_at h a = Some n" and "may_replace n (node_at h b) (vacant b h)"
      and "\<not> prefix a b" and "\<not> prefix b a"
      and "\<And>q. node_at h' q =
        (if \<exists>m. n = DirNode m
         then (if prefix b q then node_at h (a @ drop (length b) q) else if prefix a q then None else node_at h q)
         else (if q = b then Some n else if q = a then None else node_at h q))"
    | (refused) "\<not> is_ok r" and "hs_tree h' = hs_tree h"
proof -
  let ?t = "\<lambda>n. map (\<lambda>(p, x). (moved n a b p, x)) (filter (\<lambda>e. \<not> replaced n b (fst e)) (hs_tree h))"
  have v: "vacant b (h\<lparr>hs_faults := fs\<rparr>) = vacant b h" for fs
    by (simp add: vacant_def)
  have moves: "map_of (?t n) q =
      (if \<exists>m. n = DirNode m
       then (if prefix b q then node_at h (a @ drop (length b) q) else if prefix a q then None else node_at h q)
       else (if q = b then Some n else if q = a then None else node_at h q))"
    if "\<not> prefix a b" "\<not> prefix b a" "node_at h a = Some n" for q n
    using map_of_moved_dir [OF that(1,2), of n _ "hs_tree h" q] map_of_moved_file [OF assms(2), of n "hs_tree h" q] that(3)
    by auto
  from assms(1) show thesis
    unfolding rename_def
  proof (cases rule: io_faulty_cases)
    case (works fs)
    show thesis
    proof (cases "is_ok r")
      case True
      then obtain n where n: "node_at h a = Some n" "r = Ok ()" "h' = h\<lparr>hs_faults := fs, hs_tree := ?t n\<rparr>"
          "may_replace n (node_at h b) (vacant b h)" "\<not> prefix a b" "\<not> prefix b a"
        using works assms(2) by (cases "node_at h a") (auto simp: io_bind_def lookup_def v split: if_split_asm)
      show thesis
        by (rule renamed [OF n(2,1,4,5,6)]) (simp only: n(3) moves [OF n(5,6,1), symmetric], simp)
    next
      case False
      then have "hs_tree h' = hs_tree h"
        using works assms(2) by (cases "node_at h a") (auto simp: io_bind_def lookup_def split: if_split_asm)
      then show thesis
        using False refused by blast
    qed
  next
    case (fails k fs)
    then show thesis
      using refused by (simp add: io_return_def)
  qed
qed

lemma may_replace_dir: "may_replace n (Some (DirNode m)) v \<Longrightarrow> v \<and> (\<exists>m. n = DirNode m)"
  by (cases n) auto

end
