(* ===== verification/Cli_Store.thy ===== *)
theory Cli_Store
  imports Cli_Policy Host_Atomic
begin

text \<open>
  What the operations of the policy store preserve, whatever fails. A relation between the files
  before and after a call is respected by a sequence of calls when each call respects it; the
  locales \<open>host_order\<close> and \<open>store_order\<close> state what is needed of the relation. They are interpreted
  here for files that keep their contents, and in the theories that follow for layers that the
  proxy accepts, runs that stay alive, and runs that can be seen.
\<close>

section \<open>Relations between the files before and after\<close>

definition obeys :: "(host \<Rightarrow> host \<Rightarrow> bool) \<Rightarrow> 'a io \<Rightarrow> bool" where
  "obeys R m \<longleftrightarrow> (\<forall>h. R h (snd (m h)))"

named_theorems host_rules

lemma obeys_if [host_rules]:
  "(b \<Longrightarrow> obeys R m) \<Longrightarrow> (\<not> b \<Longrightarrow> obeys R n) \<Longrightarrow> obeys R (if b then m else n)"
  by simp

lemma obeys_option [host_rules]:
  "(x = None \<Longrightarrow> obeys R m) \<Longrightarrow> (\<And>y. x = Some y \<Longrightarrow> obeys R (f y)) \<Longrightarrow> obeys R (case_option m f x)"
  by (cases x) simp_all

lemma obeys_pair [host_rules]: "(\<And>a b. x = (a, b) \<Longrightarrow> obeys R (f a b)) \<Longrightarrow> obeys R (case_prod f x)"
  by (cases x) simp

lemma obeys_let [host_rules]: "obeys R (f t) \<Longrightarrow> obeys R (Let t f)"
  by simp

locale host_order =
  fixes R :: "host \<Rightarrow> host \<Rightarrow> bool"
  assumes same_files: "hs_tree h' = hs_tree h \<Longrightarrow> set (hs_stat_faults h') \<subseteq> set (hs_stat_faults h) \<Longrightarrow> R h h'"
    and steps: "R a b \<Longrightarrow> R b c \<Longrightarrow> R a c"
begin

lemma same: "R h h"
  by (simp add: same_files)

lemma reads:
  assumes "\<And>h. hs_tree (snd (m h)) = hs_tree h" and "\<And>h. set (hs_stat_faults (snd (m h))) \<subseteq> set (hs_stat_faults h)"
  shows "obeys R m"
  by (simp add: obeys_def same_files assms)

lemma returned [host_rules]: "obeys R (io_return x)"
  by (rule reads) (simp_all add: io_return_def)

lemma failed [host_rules]: "obeys R (io_fail e)"
  by (rule reads) (simp_all add: io_fail_def)

lemma resulted [host_rules]: "obeys R (io_result x)"
  by (rule reads) (simp_all add: io_result_def)

lemma bound [host_rules]:
  assumes "obeys R m" and "\<And>x. obeys R (f x)"
  shows "obeys R (io_bind m f)"
  unfolding obeys_def
proof
  fix h
  obtain r h' where m: "m h = (r, h')"
    by fastforce
  then have "R h h'"
    using assms(1) unfolding obeys_def by (metis snd_conv)
  moreover have "R h' (snd (f x h'))" for x
    using assms(2) unfolding obeys_def by blast
  ultimately show "R h (snd (io_bind m f h))"
    using m steps by (auto simp: io_bind_def split: result.split)
qed

lemma sequenced [host_rules]: "obeys R m \<Longrightarrow> obeys R n \<Longrightarrow> obeys R (io_then m n)"
  unfolding io_then_def by (rule bound)

lemma cleaned_up [host_rules]:
  assumes "obeys R m" and "obeys R c"
  shows "obeys R (io_cleanup m c)"
  unfolding obeys_def
proof
  fix h
  obtain r h' where m: "m h = (r, h')"
    by fastforce
  then have "R h h'" and "R h' (snd (c h'))"
    using assms unfolding obeys_def by (metis snd_conv)+
  then show "R h (snd (io_cleanup m c h))"
    using m steps by (auto simp: io_cleanup_def split: result.split)
qed

lemma each [host_rules]: "(\<And>x. x \<in> set xs \<Longrightarrow> obeys R (f x)) \<Longrightarrow> obeys R (io_each f xs)"
  by (induction xs) (simp_all add: returned sequenced)

lemma mapped [host_rules]: "(\<And>x. x \<in> set xs \<Longrightarrow> obeys R (f x)) \<Longrightarrow> obeys R (io_map f xs)"
proof (induction xs)
  case (Cons x xs)
  then show ?case
    unfolding io_map.simps by (intro bound returned) simp_all
qed (simp add: returned)

lemma faulty:
  assumes "\<And>k. obeys R (partly k)" and "obeys R m"
  shows "obeys R (io_faulty partly m)"
  unfolding obeys_def
proof
  fix h
  have "R h (h\<lparr>hs_faults := fs\<rparr>)" for fs
    by (simp add: same_files)
  then show "R h (snd (io_faulty partly m h))"
    using assms steps unfolding obeys_def io_faulty_def by (auto split: list.split option.split) blast+
qed

lemma fault [host_rules]: "obeys R m \<Longrightarrow> obeys R (io_fault m)"
  by (rule faulty) (rule returned)

lemma looked_up [host_rules]: "obeys R (lookup p)"
  by (rule reads) (simp_all add: lookup_def)

lemma metadata_read [host_rules]: "obeys R (symlink_metadata p)"
  unfolding symlink_metadata_def by (intro host_rules)

lemma existence_read [host_rules]: "obeys R (path_exists p)"
  by (rule reads) (auto simp: path_exists_def split: list.split)

lemma contents_read [host_rules]: "obeys R (contents_at p)"
  by (rule reads) (simp_all add: contents_at_def)

lemma file_read [host_rules]: "obeys R (read_file p)"
  unfolding read_file_def by (intro host_rules)

lemma dir_read [host_rules]: "obeys R (read_dir p)"
  unfolding read_dir_def by (intro fault reads) simp_all

lemma kind_read [host_rules]: "obeys R (is_dir p)"
  unfolding is_dir_def by (intro host_rules)

lemma opened [host_rules]: "obeys R (open_existing p)"
  unfolding open_existing_def by (intro host_rules)

lemma lock_called [host_rules]: "obeys R lock_call"
  unfolding lock_call_def by (intro host_rules)

lemma list_read [host_rules]: "obeys R (read_list reader p)"
  unfolding read_list_def by (intro host_rules)

lemma trimmed_read [host_rules]: "obeys R (trimmed_file p label)"
  unfolding trimmed_file_def by (intro host_rules)

lemma data_refused [host_rules]: "obeys R (invalid_data message)"
  unfolding invalid_data_def by (intro host_rules)

lemma run_named [host_rules]: "obeys R (run_id nanos)"
  by (rule reads) (simp_all add: run_id_def split: option.split)

lemma run_reaped: "obeys R (remove_dir_all (RUNS @ [name])) \<Longrightarrow> obeys R (reap_run name)"
  unfolding reap_run_def Let_def by (intro host_rules)

lemma reaps_runs: "(\<And>name. obeys R (reap_run name)) \<Longrightarrow> obeys R reap_runs_locked"
  unfolding reap_runs_locked_def by (intro host_rules)

lemma project_obeys: "obeys R (project_locked env key)"
  unfolding project_locked_def Let_def by (intro host_rules)

lemma projects_obeys: "obeys R (projects_locked env)"
  unfolding projects_locked_def by (intro host_rules project_obeys)

lemma active_run_obeys: "obeys R (active_run_locked env gs ls projects i)"
  unfolding active_run_locked_def Let_def by (intro host_rules)

lemma takes_snapshot: "(\<And>name. obeys R (reap_run name)) \<Longrightarrow> obeys R (snapshot_locked env)"
  unfolding snapshot_locked_def by (intro host_rules reaps_runs projects_obeys active_run_obeys)

lemma bound_Ok:
  assumes "obeys R m" and "\<And>x h h'. m h = (Ok x, h') \<Longrightarrow> obeys R (f x)"
  shows "obeys R (io_bind m f)"
  unfolding obeys_def
proof
  fix h
  obtain r h' where m: "m h = (r, h')"
    by fastforce
  then have "R h h'"
    using assms(1) unfolding obeys_def by (metis snd_conv)
  moreover have "R h' (snd (f x h'))" if "r = Ok x" for x
    using assms(2) m that unfolding obeys_def by blast
  ultimately show "R h (snd (io_bind m f h))"
    using m steps by (auto simp: io_bind_def split: result.split)
qed

lemma with_lock_obeys:
  assumes "obeys R f"
    and "\<And>x h h1 h2. f h = (Ok x, h1) \<Longrightarrow> hs_tree h2 = hs_tree h1 \<Longrightarrow> hs_stat_faults h2 = hs_stat_faults h1 \<Longrightarrow>
      R h (snd (dropped x h2))"
  shows "obeys R (with_lock dropped f)"
proof -
  have "R h (snd (case f h of (r, h) \<Rightarrow>
      (case lock_call h of
         (Ok _, h) \<Rightarrow> (r, h)
       | (Err e, h) \<Rightarrow> (Err e, (case r of Ok x \<Rightarrow> snd (dropped x h) | Err _ \<Rightarrow> h)))))" for h
  proof -
    obtain r h1 where f: "f h = (r, h1)"
      by fastforce
    obtain s h2 where l: "lock_call h1 = (s, h2)"
      by fastforce
    have "hs_tree h2 = hs_tree h1" and "hs_stat_faults h2 = hs_stat_faults h1"
      using l by (auto simp: lock_call_def io_faulty_def io_return_def split: list.split_asm option.split_asm)
    moreover have "R h h1" and "R h1 h2"
      using assms(1) lock_called f l unfolding obeys_def by (metis snd_conv)+
    ultimately have "R h h2" and "r = Ok x \<Longrightarrow> R h (snd (dropped x h2))" for x
      using steps assms(2) [of h x h1 h2] f by blast+
    then show ?thesis
      by (auto simp: f l split: result.split)
  qed
  then show ?thesis
    unfolding with_lock_def by (intro host_rules) (simp add: obeys_def)
qed

lemma with_lock_plain: "obeys R f \<Longrightarrow> obeys R (with_lock (\<lambda>_. io_return ()) f)"
proof (rule with_lock_obeys)
  show "R h (snd (io_return () h2))"
    if "obeys R f" "f h = (Ok x, h1)" "hs_tree h2 = hs_tree h1" "hs_stat_faults h2 = hs_stat_faults h1" for x h h1 h2
  proof -
    have "R h h1"
      using that(1,2) unfolding obeys_def by (metis snd_conv)
    then show ?thesis
      using steps same_files [OF that(3)] that(4) by (auto simp: io_return_def)
  qed
qed

end

text \<open>A file that is missing, or a symbolic link that leads nowhere.\<close>

definition path_absent :: "host \<Rightarrow> path \<Rightarrow> bool" where
  "path_absent h p \<longleftrightarrow> node_at h p = None \<or> node_at h p = Some (SymlinkNode None)"

text \<open>
  The files that are made when they are missing: by every operation, for a project, and the log.
  Except for the log, a failed \<open>stat\<close> has them made anew although they are there.
\<close>

definition ensured_file :: "path \<Rightarrow> bytes \<Rightarrow> bool" where
  "ensured_file p c \<longleftrightarrow> c = [] \<and>
     (p \<in> {GLOBAL, GLOBAL_LOOPBACK} \<or> (\<exists>k. p \<in> {PROJECTS @ [k, ''loopback.allow''], RUNS @ [k, ''loopback.allow'']}))"

definition project_file :: "path \<Rightarrow> bytes \<Rightarrow> bool" where
  "project_file p c \<longleftrightarrow>
     (\<exists>k. p = PROJECTS @ [k, ''path''] \<or> c = [] \<and> p \<in> {PROJECTS @ [k, ''allow.local''], PROJECTS @ [k, ''loopback.allow'']})"

definition restartable :: "path \<Rightarrow> bytes \<Rightarrow> bool" where
  "restartable p c \<longleftrightarrow> ensured_file p c \<or> project_file p c"

definition starting_file :: "path \<Rightarrow> bytes \<Rightarrow> bool" where
  "starting_file p c \<longleftrightarrow> restartable p c \<or> p = DENIED_LOG \<and> c = []"

lemma starting_outside: "starting_file p c \<Longrightarrow> butlast p \<noteq> RUNS"
  by (auto simp: starting_file_def restartable_def ensured_file_def project_file_def GLOBAL_def GLOBAL_LOOPBACK_def
      DENIED_LOG_def PROJECTS_def RUNS_def)

locale ensure_order = host_order +
  assumes mode_set: "obeys R (set_mode p m)"
    and dir_created: "butlast p \<noteq> RUNS \<or> hidden (last p) \<Longrightarrow> obeys R (create_dir p)"
    and lock_created: "obeys R (open_new LOCK_PATH)"
    and file_started: "path_absent h p \<Longrightarrow> starting_file p c \<Longrightarrow> R h (snd (write_atomic p c m h))"
    and file_restarted: "hs_stat_faults h = True # fs \<Longrightarrow> ensured_file p c \<Longrightarrow>
      R h (snd (write_atomic p c m (h\<lparr>hs_stat_faults := fs\<rparr>)))"
begin

lemma dirs_created:
  assumes "\<And>q. prefix q p \<Longrightarrow> butlast q \<noteq> RUNS"
  shows "obeys R (create_dir_all p)"
proof -
  have "obeys R (\<lambda>h. case node_at h q of
      None \<Rightarrow> create_dir q h | Some (DirNode _) \<Rightarrow> (Ok (), h) | Some _ \<Rightarrow> (Err IoExists, h))" if "prefix q p" for q
    using dir_created [of q] assms [OF that] same unfolding obeys_def by (auto split: option.split node.split)
  then show ?thesis
    unfolding create_dir_all_def by (intro each) simp
qed

lemma dir_made: "(\<And>q. prefix q p \<Longrightarrow> butlast q \<noteq> RUNS) \<Longrightarrow> obeys R (mkdir p)"
  unfolding mkdir_def by (intro host_rules dirs_created mode_set)

lemma store_dirs: "prefix q p \<Longrightarrow> p \<in> {[], PROJECTS, [''log''], RUNS, project_dir project} \<Longrightarrow> butlast q \<noteq> RUNS"
  by (auto simp: PROJECTS_def RUNS_def project_dir_def prefix_Cons)

text \<open>What follows the question whether a file exists.\<close>

lemma existence_decides:
  assumes "obeys R a" and "\<And>h. path_absent h p \<Longrightarrow> R h (snd (b h))"
    and "\<And>h fs. hs_stat_faults h = True # fs \<Longrightarrow> R h (snd (b (h\<lparr>hs_stat_faults := fs\<rparr>)))"
  shows "obeys R (io_bind (path_exists p) (\<lambda>e. if e then a else b))"
  unfolding obeys_def
proof
  fix h
  have reads: "R h (h\<lparr>hs_stat_faults := fs\<rparr>)" if "hs_stat_faults h = f # fs" for f fs
    by (rule same_files) (use that in auto)
  have there: "path_absent h p" if "\<not> there (node_at h p)"
    using that by (auto simp: there_def path_absent_def split: option.splits node.splits)
  have absent: "path_absent (h\<lparr>hs_stat_faults := fs\<rparr>) p" if "\<not> there (node_at h p)" for fs
    using there [OF that] by (simp add: path_absent_def)
  show "R h (snd (io_bind (path_exists p) (\<lambda>e. if e then a else b) h))"
  proof (cases "hs_stat_faults h")
    case Nil
    then show ?thesis
      using assms(1) assms(2) [OF there] by (simp add: io_bind_def path_exists_def obeys_def)
  next
    case (Cons f fs)
    have "R h (snd (b (h\<lparr>hs_stat_faults := fs\<rparr>)))" if "f \<or> \<not> there (node_at h p)"
    proof (cases f)
      case True
      then show ?thesis
        using assms(3) Cons by simp
    next
      case False
      then show ?thesis
        using steps [OF reads [OF Cons] assms(2) [OF absent]] that by blast
    qed
    moreover have "R h (snd (a (h\<lparr>hs_stat_faults := fs\<rparr>)))"
      using steps [OF reads [OF Cons]] assms(1) unfolding obeys_def by blast
    ultimately show ?thesis
      by (simp add: Cons io_bind_def path_exists_def)
  qed
qed

lemma file_made:
  assumes "starting_file p c"
    and "\<And>h fs. hs_stat_faults h = True # fs \<Longrightarrow> R h (snd (write_atomic p c m (h\<lparr>hs_stat_faults := fs\<rparr>)))"
  shows "obeys R (file_if_absent p c m)"
  unfolding file_if_absent_def by (intro existence_decides mode_set file_started assms)

lemma ensured_made: "ensured_file p c \<Longrightarrow> obeys R (file_if_absent p c m)"
  by (rule file_made) (simp_all add: starting_file_def restartable_def file_restarted)

lemma lock_made: "obeys R (ensure_lock LOCK_PATH)"
  unfolding obeys_def
proof
  fix h
  obtain r h' where o: "open_new LOCK_PATH h = (r, h')"
    by fastforce
  then have 1: "R h h'"
    using lock_created unfolding obeys_def by (metis snd_conv)
  have "obeys R (io_bind (symlink_metadata LOCK_PATH) (\<lambda>n.
      if regular_file n None then set_mode LOCK_PATH MODE_600
      else io_fail (IoInvalid ''policy lock must be a regular file'')))"
    by (intro host_rules mode_set)
  then have 2: "R h' (snd (io_bind (symlink_metadata LOCK_PATH) (\<lambda>n.
      if regular_file n None then set_mode LOCK_PATH MODE_600
      else io_fail (IoInvalid ''policy lock must be a regular file'')) h'))"
    unfolding obeys_def by blast
  have 3: "R h' (snd (set_mode LOCK_PATH MODE_600 h'))"
    using mode_set unfolding obeys_def by blast
  show "R h (snd (ensure_lock LOCK_PATH h))"
    using 1 steps [OF 1 2] steps [OF 1 3] by (simp add: ensure_lock_def o split: result.split)
qed

lemma log_made: "obeys R (ensure_log DENIED_LOG)"
  unfolding obeys_def
proof
  fix h
  obtain r h' where o: "symlink_metadata DENIED_LOG h = (r, h')"
    by fastforce
  then have 1: "R h h'"
    using metadata_read unfolding obeys_def by (metis snd_conv)
  have 2: "R h' (snd (set_mode DENIED_LOG MODE_622 h'))"
    using mode_set unfolding obeys_def by blast
  have "path_absent h' DENIED_LOG" if "r = Err IoNotFound"
    using o that
    by (auto simp: symlink_metadata_def io_faulty_def lookup_def ok_or_def path_absent_def io_return_def
        split: list.splits option.splits)
  then have 3: "R h' (snd (write_atomic DENIED_LOG [] MODE_622 h'))" if "r = Err IoNotFound"
    using that by (intro file_started) (simp_all add: starting_file_def)
  show "R h (snd (ensure_log DENIED_LOG h))"
    using 1 steps [OF 1 2] steps [OF 1 3] by (auto simp: ensure_log_def o split: result.split node.split)
qed

lemma loopback_made: "base \<in> {PROJECTS, RUNS} \<Longrightarrow> obeys R (loopback_in_each wanted base)"
  unfolding loopback_in_each_def by (intro host_rules ensured_made) (auto simp: ensured_file_def)

lemma files_made: "obeys R ensure_files"
  unfolding ensure_files_def
  by (intro host_rules ensured_made loopback_made log_made) (simp_all add: ensured_file_def)

lemma ensured: "obeys R ensure"
  unfolding ensure_def by (intro host_rules dir_made lock_made files_made with_lock_plain) (use store_dirs in blast)+

lemma locked_plain: "obeys R f \<Longrightarrow> obeys R (locked f)"
  unfolding locked_def locked_dropping_def by (intro host_rules ensured with_lock_plain)

end

locale store_order = ensure_order +
  assumes project_restarted: "hs_stat_faults h = True # fs \<Longrightarrow> project_file p c \<Longrightarrow>
      R h (snd (write_atomic p c m (h\<lparr>hs_stat_faults := fs\<rparr>)))"
begin

lemma project_file_made: "project_file p c \<Longrightarrow> obeys R (file_if_absent p c m)"
  by (rule file_made) (simp_all add: starting_file_def restartable_def project_restarted)

lemma project_made: "obeys R (project_files_locked project)"
proof -
  have p: "project_file (project_dir project @ [''path'']) (pj_path project)"
    and a: "project_file (project_dir project @ [''allow.local'']) []"
    and l: "project_file (project_dir project @ [''loopback.allow'']) []"
    by (auto simp: project_file_def project_dir_def)
  have "obeys R (mkdir (project_dir project))"
    by (rule dir_made) (use store_dirs in blast)
  moreover have "obeys R (io_bind (path_exists (project_dir project @ [''path''])) (\<lambda>e.
      if e then io_bind (read_file (project_dir project @ [''path''])) (\<lambda>c.
                  if c \<noteq> pj_path project then io_fail IoExists else io_return ())
      else write_atomic (project_dir project @ [''path'']) (pj_path project) MODE_600))"
    by (intro existence_decides host_rules file_started project_restarted p)
      (simp_all add: starting_file_def restartable_def p)
  ultimately show ?thesis
    unfolding project_files_locked_def Let_def
    by (intro sequenced mode_set project_file_made a l returned)
qed

end

section \<open>Files that keep their contents\<close>

text \<open>
  What may happen to a node that an operation is not about: permissions may be set, something new
  may appear where there was nothing, and nothing else.
\<close>

fun gentle :: "node option \<Rightarrow> node option \<Rightarrow> bool" where
  "gentle None b = True"
| "gentle (Some (FileNode c m l)) b = (\<exists>m. b = Some (FileNode c m l))"
| "gentle (Some (DirNode m)) b = (\<exists>m. b = Some (DirNode m))"
| "gentle (Some (SymlinkNode c)) b = (c = None \<or> b = Some (SymlinkNode c))"
| "gentle (Some OtherNode) b = (b = Some OtherNode)"

lemma gentle_refl [simp]: "gentle a a"
  by (cases "(a, a)" rule: gentle.cases) auto

lemma gentle_trans: "gentle a b \<Longrightarrow> gentle b c \<Longrightarrow> gentle a c"
  by (cases "(a, b)" rule: gentle.cases) auto

lemma gentle_file: "gentle (Some (FileNode c m l)) b \<Longrightarrow> \<exists>m. b = Some (FileNode c m l)"
  by simp

definition restarted :: "(path \<Rightarrow> bytes \<Rightarrow> bool) \<Rightarrow> path \<Rightarrow> node option \<Rightarrow> bool" where
  "restarted S q n \<longleftrightarrow> (\<exists>c m. S q c \<and> n = Some (FileNode c m False))"

text \<open>
  Outside \<open>T\<close> every node is kept, or is one of the files of \<open>S\<close> and was made anew when a \<open>stat\<close> failed.
\<close>

definition keeps :: "(path \<Rightarrow> bytes \<Rightarrow> bool) \<Rightarrow> path set \<Rightarrow> host \<Rightarrow> host \<Rightarrow> bool" where
  "keeps S T h h' \<longleftrightarrow> set (hs_stat_faults h') \<subseteq> set (hs_stat_faults h) \<and>
     (\<forall>q. q \<notin> T \<longrightarrow> gentle (node_at h q) (node_at h' q) \<or> stat_fails h \<and> restarted S q (node_at h' q))"

lemma stat_fails_mono: "set (hs_stat_faults h') \<subseteq> set (hs_stat_faults h) \<Longrightarrow> stat_fails h' \<Longrightarrow> stat_fails h"
  by (auto simp: stat_fails_def)

lemma restarted_gentle: "restarted S q a \<Longrightarrow> gentle a b \<Longrightarrow> restarted S q b"
  by (auto simp: restarted_def)

lemma keeps_trans:
  assumes "keeps S T a b" and "keeps S T b c"
  shows "keeps S T a c"
  unfolding keeps_def
proof (intro conjI allI impI)
  show "set (hs_stat_faults c) \<subseteq> set (hs_stat_faults a)"
    using assms by (auto simp: keeps_def)
  fix q
  assume q: "q \<notin> T"
  have "stat_fails b \<Longrightarrow> stat_fails a"
    using assms(1) stat_fails_mono by (auto simp: keeps_def)
  then show "gentle (node_at a q) (node_at c q) \<or> stat_fails a \<and> restarted S q (node_at c q)"
    using assms q gentle_trans restarted_gentle unfolding keeps_def by blast
qed

lemma set_mode_cases:
  assumes "set_mode p m h = (r, h')"
  shows "node_at h' q = node_at h q
    \<or> (\<exists>c n l. node_at h q = Some (FileNode c n l) \<and> node_at h' q = Some (FileNode c m l))
    \<or> (\<exists>n. node_at h q = Some (DirNode n) \<and> node_at h' q = Some (DirNode m))"
  using assms
  by (auto simp: set_mode_def io_faulty_def io_bind_def lookup_def io_return_def io_fail_def set_node_def
        update_conv' ok_or_def
      split: list.splits option.splits node.splits if_splits)

lemma set_mode_gentle: "gentle (node_at h q) (node_at (snd (set_mode p m h)) q)"
proof -
  obtain r h' where s: "set_mode p m h = (r, h')"
    by fastforce
  show ?thesis
    using set_mode_cases [OF s, of q] by (auto simp: s)
qed

lemma create_node_gentle: "gentle (node_at h q) (node_at (snd (create_node p n h)) q)"
proof -
  obtain r h' where c: "create_node p n h = (r, h')"
    by fastforce
  show ?thesis
    using create_node_cases [OF c] c by (cases "q = p") auto
qed

lemma write_atomic_gentle:
  assumes "path_absent h p \<or> q \<noteq> p"
  shows "gentle (node_at h q) (node_at (snd (write_atomic p c m h)) q)"
proof -
  obtain r h' where w: "write_atomic p c m h = (r, h')"
    by fastforce
  have "gentle (node_at h q) (node_at h' q)"
  proof (cases "node_at h q")
    case (Some n)
    show ?thesis
    proof (cases "q = p \<and> is_ok r")
      case True
      then show ?thesis
        using assms Some by (auto simp: path_absent_def)
    next
      case False
      then show ?thesis
        using write_atomic_others [OF w Some] Some by auto
    qed
  qed simp
  then show ?thesis
    by (simp add: w)
qed

text \<open>Calls that do not ask whether a file exists leave the faults of that question alone.\<close>

definition asks_nothing :: "'a io \<Rightarrow> bool" where
  "asks_nothing m \<longleftrightarrow> (\<forall>h. hs_stat_faults (snd (m h)) = hs_stat_faults h)"

named_theorems ask_rules

lemma asks_nothing_basic [ask_rules]:
  "asks_nothing (io_return x)" "asks_nothing (io_fail e)" "asks_nothing (lookup p)" "asks_nothing (set_node p n)"
  "asks_nothing (contents_at p)" "asks_nothing next_tmp_id" "asks_nothing (remove_entries p k)"
  by (simp_all add: asks_nothing_def io_return_def io_fail_def lookup_def set_node_def contents_at_def next_tmp_id_def
      remove_entries_def Let_def)

lemma asks_nothing_bind [ask_rules]:
  "asks_nothing m \<Longrightarrow> (\<And>x. asks_nothing (f x)) \<Longrightarrow> asks_nothing (io_bind m f)"
  by (auto simp: asks_nothing_def io_bind_def split: prod.split result.split) (metis snd_conv)+

lemma asks_nothing_then [ask_rules]: "asks_nothing m \<Longrightarrow> asks_nothing n \<Longrightarrow> asks_nothing (io_then m n)"
  unfolding io_then_def by (rule asks_nothing_bind)

lemma asks_nothing_cleanup [ask_rules]: "asks_nothing m \<Longrightarrow> asks_nothing c \<Longrightarrow> asks_nothing (io_cleanup m c)"
  by (auto simp: asks_nothing_def io_cleanup_def split: prod.split result.split) (metis snd_conv)+

lemma asks_nothing_faulty [ask_rules]:
  "(\<And>k. asks_nothing (partly k)) \<Longrightarrow> asks_nothing m \<Longrightarrow> asks_nothing (io_faulty partly m)"
  by (simp add: asks_nothing_def io_faulty_def split: list.split option.split)

lemma asks_nothing_set_mode: "asks_nothing (set_mode p m)"
  unfolding set_mode_def by (intro ask_rules) (auto intro: ask_rules split: node.split)

lemma asks_nothing_create: "asks_nothing (create_node p n)"
  unfolding create_node_def by (intro ask_rules) (simp add: asks_nothing_def set_node_def split: option.split)

lemma asks_nothing_rename: "asks_nothing (rename a b)"
  unfolding rename_def by (intro ask_rules) (simp add: asks_nothing_def)

lemma asks_nothing_remove: "asks_nothing (remove_dir_all p)"
proof -
  have "asks_nothing (\<lambda>h. (Ok (), h\<lparr>hs_tree := f (hs_tree h)\<rparr>))" for f
    by (simp add: asks_nothing_def)
  then show ?thesis
    unfolding remove_dir_all_def by (intro ask_rules) (auto intro: ask_rules split: node.split)
qed

lemma asks_nothing_lease: "asks_nothing (lock_lease p)" "asks_nothing (release_lease p)"
proof -
  show "asks_nothing (lock_lease p)"
    unfolding lock_lease_def by (intro ask_rules) (auto intro: ask_rules split: node.split)
  show "asks_nothing (release_lease p)"
    by (simp add: asks_nothing_def release_lease_def set_node_def split: option.split node.split)
qed

lemma asks_nothing_write: "asks_nothing (write_atomic p c m)"
proof -
  have fills: "asks_nothing (fill_temporary tmp p c m)" for tmp
  proof -
    have "asks_nothing (set_contents tmp d)" for d
      unfolding set_contents_def by (intro ask_rules) (auto intro: ask_rules split: node.split)
    moreover have "asks_nothing (remove_file tmp)"
    proof -
      have "asks_nothing (\<lambda>h. (Ok (), h\<lparr>hs_tree := f (hs_tree h)\<rparr>))" for f
        by (simp add: asks_nothing_def)
      then show ?thesis
        unfolding remove_file_def by (intro ask_rules) (auto intro: ask_rules split: node.split)
    qed
    ultimately show ?thesis
      unfolding fill_temporary_def write_file_def sync_file_def
      by (intro ask_rules asks_nothing_set_mode asks_nothing_rename)
  qed
  have "hs_stat_faults (snd (write_attempts n k p c m h)) = hs_stat_faults h" for n k h
  proof (induction "n - k" arbitrary: k h)
    case 0
    then show ?case
      by (subst write_attempts.simps) (simp add: io_fail_def)
  next
    case (Suc d)
    obtain q h1 where o: "open_new (tmp_name p (hs_pid h) (hs_next_tmp h + k)) (h\<lparr>hs_next_tmp := hs_next_tmp h + 1\<rparr>) = (q, h1)"
      by fastforce
    then have "hs_stat_faults h1 = hs_stat_faults h"
      using asks_nothing_create unfolding open_new_def asks_nothing_def by (metis (no_types) host.select_convs(3) host.surjective host.update_convs(4) snd_conv)
    moreover have "hs_stat_faults (snd (write_attempts n (k + 1) p c m h1)) = hs_stat_faults h1"
      using Suc by simp
    ultimately show ?case
      using fills o
      by (subst write_attempts.simps)
        (auto simp: io_bind_def next_tmp_id_def asks_nothing_def io_fail_def split: result.split)
  qed
  then show ?thesis
    by (simp add: asks_nothing_def write_atomic_def io_fail_def)
qed

lemma keepsI:
  assumes "asks_nothing m" and "\<And>q. q \<notin> T \<Longrightarrow> gentle (node_at h q) (node_at (snd (m h)) q)"
  shows "keeps S T h (snd (m h))"
  using assms by (simp add: keeps_def asks_nothing_def)

text \<open>A file that is made anew although it is there.\<close>

lemma write_restarts:
  assumes "S p c \<or> p \<in> T" and "hs_stat_faults h = True # fs"
  shows "keeps S T h (snd (write_atomic p c m (h\<lparr>hs_stat_faults := fs\<rparr>)))"
proof -
  let ?h = "h\<lparr>hs_stat_faults := fs\<rparr>"
  obtain r h' where w: "write_atomic p c m ?h = (r, h')"
    by fastforce
  have "hs_stat_faults h' = fs"
    using asks_nothing_write [of p c m] w unfolding asks_nothing_def by (metis host.select_convs(3) host.surjective host.update_convs(3) snd_conv)
  moreover have "gentle (node_at h q) (node_at h' q) \<or> restarted S q (node_at h' q)" if "q \<notin> T" for q
  proof (cases "q = p \<and> is_ok r")
    case True
    then obtain u where "write_atomic p c m ?h = (Ok u, h')"
      using w by (auto simp: is_ok_iff)
    then have "node_at h' q = Some (FileNode c m False)"
      using write_atomic_Ok [of p c m ?h u h' q] True by simp
    then show ?thesis
      using assms(1) True that by (auto simp: restarted_def)
  next
    case False
    then have "gentle (node_at h q) (node_at h' q)"
      using write_atomic_others [OF w, of q] by (cases "node_at h q") auto
    then show ?thesis
      by blast
  qed
  ultimately show ?thesis
    using assms(2) by (auto simp: keeps_def w stat_fails_def)
qed

lemma keeps_host_order: "host_order (keeps S T)"
proof
  show "keeps S T h h'" if "hs_tree h' = hs_tree h" "set (hs_stat_faults h') \<subseteq> set (hs_stat_faults h)" for h h'
    by (simp add: keeps_def that)
  show "keeps S T a c" if "keeps S T a b" "keeps S T b c" for a b c
    using that by (rule keeps_trans)
qed

lemma keeps_ensure_order:
  assumes "\<And>p c. ensured_file p c \<Longrightarrow> S p c"
  shows "ensure_order (keeps S T)"
proof (intro ensure_order.intro keeps_host_order ensure_order_axioms.intro)
  show "obeys (keeps S T) (set_mode p m)" for p m
    unfolding obeys_def by (intro allI keepsI asks_nothing_set_mode set_mode_gentle)
  show "obeys (keeps S T) (create_dir p)" for p
    unfolding obeys_def create_dir_def by (intro allI keepsI asks_nothing_create create_node_gentle)
  show "obeys (keeps S T) (open_new LOCK_PATH)"
    unfolding obeys_def open_new_def by (intro allI keepsI asks_nothing_create create_node_gentle)
  show "keeps S T h (snd (write_atomic p c m h))" if "path_absent h p" for h p c m
    by (intro keepsI asks_nothing_write write_atomic_gentle disjI1 that)
  show "keeps S T h (snd (write_atomic p c m (h\<lparr>hs_stat_faults := fs\<rparr>)))"
    if "hs_stat_faults h = True # fs" "ensured_file p c" for h fs p c m
    using that assms by (intro write_restarts disjI1)
qed

text \<open>
  Three instances: nothing is made anew, what may be made anew by any operation, and what may be
  made anew by one on a project.
\<close>

abbreviation no_file :: "path \<Rightarrow> bytes \<Rightarrow> bool" where
  "no_file \<equiv> \<lambda>_ _. False"

interpretation holding: host_order "keeps no_file T" for T
  by (rule keeps_host_order)

interpretation ensuring: ensure_order "keeps ensured_file T" for T
  by (rule keeps_ensure_order)

interpretation keeping: store_order "keeps restartable T" for T
  by (intro store_order.intro keeps_ensure_order store_order_axioms.intro write_restarts disjI1) (simp_all add: restartable_def)

end
