(* ===== verification/Cli_Guarantees.thy ===== *)
theory Cli_Guarantees
  imports Cli_Store
begin

text \<open>
  All operations of the policy store as one type, and two properties of every sequence of them
  under all faults: what the store holds always loads in the proxy, and the files of a run that is
  alive are left alone. Both are interpretations of the locale \<open>policy_order\<close>, in which each
  operation is walked through once.
\<close>

section \<open>Layers that the proxy accepts\<close>

definition DOMAIN_LAYERS :: "bytes set" where
  "DOMAIN_LAYERS = {''allow.local'', ''base.allow'', ''harness.allow'', ''run.allow''}"

definition layer_ok :: "path \<Rightarrow> bytes \<Rightarrow> bool" where
  "layer_ok p c \<longleftrightarrow> butlast p = RUNS \<or>
     (last p \<in> DOMAIN_LAYERS \<longrightarrow> is_ok (parse_domain_layer c) \<and> utf8_valid c) \<and>
     (last p = ''loopback.allow'' \<longrightarrow> is_ok (parse_local_layer c) \<and> utf8_valid c) \<and>
     (last p = ''mode'' \<longrightarrow> is_ok (parse_mode c) \<and> utf8_valid c)"

lemma layer_names: "''loopback.allow'' \<notin> DOMAIN_LAYERS" "''mode'' \<notin> DOMAIN_LAYERS" "''loopback.allow'' \<noteq> ''mode''"
  by (simp_all add: DOMAIN_LAYERS_def)

lemma domains_layer_ok:
  assumes "last p \<in> DOMAIN_LAYERS" and "distinct ds" and "list_all valid_policy_domain ds"
  shows "layer_ok p (domains_text ds)"
proof -
  have "list_all is_ascii ds"
    using assms(3) by (auto simp: list_all_iff valid_policy_domain_def)
  then have "utf8_valid (domains_text ds)"
    unfolding domains_text_def by (intro is_ascii_utf8_valid is_ascii_concat_lines)
  then show ?thesis
    using stored_domains(1) [OF assms(2,3)] assms(1) by (auto simp: layer_ok_def layer_names is_ok_iff)
qed

lemma authorities_layer_ok:
  assumes "last p = ''loopback.allow''" and "distinct as" and "list_all valid_loopback_authority as"
  shows "layer_ok p (authorities_text as)"
proof -
  have "list_all is_ascii (map cli_authority_display as)"
    using loopback_authority_visible
    by (fastforce simp: list_all_iff cli_authority_display_eq is_ascii_def is_ascii_char_def visible_def)
  then have "is_ascii (concat (map (\<lambda>l. l @ [LF]) (map cli_authority_display as)))"
    by (rule is_ascii_concat_lines)
  then have "utf8_valid (authorities_text as)"
    by (intro is_ascii_utf8_valid) (simp add: authorities_text_def comp_def)
  then show ?thesis
    using stored_authorities(1) [OF assms(2,3)] assms(1) layer_names by (auto simp: layer_ok_def)
qed

lemma mode_layer_ok: "last p = ''mode'' \<Longrightarrow> layer_ok p (cli_mode_as_str mode @ [LF])"
proof -
  assume p: "last p = ''mode''"
  have "is_ok (parse_mode (cli_mode_as_str mode @ [LF])) \<and> utf8_valid (cli_mode_as_str mode @ [LF])"
  proof -
    have "is_ok (parse_mode (''enforce'' @ [LF])) \<and> utf8_valid (''enforce'' @ [LF])"
      and "is_ok (parse_mode (''report'' @ [LF])) \<and> utf8_valid (''report'' @ [LF])"
      and "is_ok (parse_mode (''open'' @ [LF])) \<and> utf8_valid (''open'' @ [LF])"
      by code_simp+
    then show ?thesis
      unfolding cli_mode_as_str_def by (cases mode) (simp_all only: mode.rec)
  qed
  then show ?thesis
    using p layer_names by (simp add: layer_ok_def)
qed

lemma empty_layer_ok: "last p \<noteq> ''mode'' \<Longrightarrow> layer_ok p []"
proof -
  assume p: "last p \<noteq> ''mode''"
  have "is_ok (parse_domain_layer [])" "is_ok (parse_local_layer [])" "utf8_valid []"
    by code_simp+
  then show ?thesis
    using p by (simp add: layer_ok_def)
qed

lemma hidden_layer_ok: "hidden (last p) \<Longrightarrow> layer_ok p c"
proof -
  assume h: "hidden (last p)"
  have "\<not> hidden ''allow.local''" "\<not> hidden ''base.allow''" "\<not> hidden ''harness.allow''" "\<not> hidden ''run.allow''"
    "\<not> hidden ''loopback.allow''" "\<not> hidden ''mode''"
    by code_simp+
  then have "last p \<notin> DOMAIN_LAYERS \<union> {''loopback.allow'', ''mode''}"
    using h by (auto simp: DOMAIN_LAYERS_def)
  then show ?thesis
    by (simp add: layer_ok_def)
qed

lemma other_layer_ok: "last p \<notin> DOMAIN_LAYERS \<union> {''loopback.allow'', ''mode''} \<Longrightarrow> layer_ok p c"
  by (simp add: layer_ok_def)

section \<open>The operations\<close>

datatype policy_op =
    MutateGlobal "bytes list" "bytes list"
  | MutateProject project_identity "bytes list" "bytes list"
  | MutateLoopbackGlobal "bytes list" "bytes list"
  | MutateLoopbackProject project_identity "bytes list" "bytes list"
  | Deny "project_identity option" "bytes list"
  | DenyLoopback "project_identity option" "bytes list"
  | TakeSnapshot
  | Resolve bytes "bytes list" "project_identity option" bytes "bytes list"
  | ResolveLoopback "project_identity option" bytes "bytes list"
  | ListDenied
  | SetActiveMode mode
  | PublishRun "nat option" bytes project_identity "bytes list" "bytes list" "bytes list" mode
  | RetireRun bytes bool

definition run_of :: "bytes \<Rightarrow> bool \<Rightarrow> policy_run" where
  "run_of i retired = \<lparr>pr_published = RUNS @ [i], pr_dead = run_dead i, pr_retired = retired\<rparr>"

definition io_drop :: "'a io \<Rightarrow> unit io" where
  "io_drop m = io_bind m (\<lambda>_. io_return ())"

primrec perform :: "policy_env \<Rightarrow> policy_op \<Rightarrow> unit io" where
  "perform env (MutateGlobal add remove) = mutate_global env add remove"
| "perform env (MutateProject project add remove) = mutate_project env project add remove"
| "perform env (MutateLoopbackGlobal add remove) = mutate_loopback_global add remove"
| "perform env (MutateLoopbackProject project add remove) = mutate_loopback_project project add remove"
| "perform env (Deny project domains) = io_drop (deny env project domains)"
| "perform env (DenyLoopback project authorities) = io_drop (deny_loopback env project authorities)"
| "perform env TakeSnapshot = io_drop (snapshot env)"
| "perform env (Resolve harness harness_domains project i run_list) =
     io_drop (resolved_domains env harness harness_domains project i run_list)"
| "perform env (ResolveLoopback project i run_list) = io_drop (resolved_loopback project i run_list)"
| "perform env ListDenied = io_drop denied_domains"
| "perform env (SetActiveMode mode) = io_drop (set_active_mode mode)"
| "perform env (PublishRun nanos harness project harness_domains run_domains run_loopback mode) =
     io_drop (publish_run env nanos harness project harness_domains run_domains run_loopback mode)"
| "perform env (RetireRun i retired) = (\<lambda>h. case retire_inner (run_of i retired) h of (r, _, h) \<Rightarrow> (r, h))"

text \<open>
  One operation after the other, each by a process with its own id and its own counter of
  temporary files, whatever became of the earlier ones.
\<close>

definition perform_all :: "policy_env \<Rightarrow> (nat \<times> nat \<times> policy_op) list \<Rightarrow> host \<Rightarrow> host" where
  "perform_all env ops h =
     foldl (\<lambda>h (pid, n, op). snd (perform env op (h\<lparr>hs_pid := pid, hs_next_tmp := n\<rparr>))) h ops"

text \<open>The files that the operations write.\<close>

definition policy_path :: "path \<Rightarrow> bool" where
  "policy_path p \<longleftrightarrow> p \<in> {GLOBAL, GLOBAL_LOOPBACK, DENIED_LOG} \<or> (\<exists>key n. p = PROJECTS @ [key, n]) \<or>
     (\<exists>i n. p = run_temporary i @ [n]) \<or> (\<exists>name. p = RUNS @ [name, ''mode''])"

lemma hidden_temporary: "hidden (''.'' @ s)"
  by (simp add: hidden_def starts_with_def)

lemma run_hidden: "hidden (last (run_temporary i))"
  unfolding run_temporary_def using hidden_temporary by simp

locale run_order = store_order +
  assumes reaped: "obeys R (reap_run name)"
    and written: "policy_path p \<Longrightarrow> layer_ok p c \<Longrightarrow> obeys R (write_atomic p c m)"
    and lease_locked: "obeys R (lock_lease (run_temporary i @ [''lease'']))"
    and lease_freed: "obeys R (release_lease (run_temporary i @ [''lease'']))"
    and temporary_removed: "obeys R (remove_dir_all (run_temporary i))"
begin

lemma dropped [host_rules]: "obeys R m \<Longrightarrow> obeys R (io_drop m)"
  unfolding io_drop_def by (intro host_rules)

lemma runs_reaped: "obeys R reap_runs_locked"
  by (rule reaps_runs) (rule reaped)

lemma read_list_Ok: "read_list reader p h = (Ok xs, h') \<Longrightarrow> \<exists>c. reader c = Ok xs"
  by (auto simp: read_list_def io_bind_Ok io_result_def)

lemma domains_written:
  assumes "policy_path p" and "last p \<in> DOMAIN_LAYERS" and "distinct ds" and "list_all valid_policy_domain ds"
  shows "obeys R (write_atomic p (domains_text ds) m)"
  using written assms domains_layer_ok by blast

lemma authorities_written:
  assumes "policy_path p" and "last p = ''loopback.allow''" and "distinct as" and "list_all valid_loopback_authority as"
  shows "obeys R (write_atomic p (authorities_text as) m)"
  using written assms authorities_layer_ok by blast

lemma list_mutated:
  assumes "\<And>c xs. reader c = Ok xs \<Longrightarrow> distinct xs \<and> list_all P xs" and "list_all P add"
    and "\<And>xs. distinct xs \<Longrightarrow> list_all P xs \<Longrightarrow> obeys R (write_atomic p (writer xs) MODE_644)"
  shows "obeys R (mutate_list reader writer not_allowed p add remove)"
  unfolding mutate_list_def
proof (rule bound_Ok [OF list_read])
  fix xs h h'
  assume "read_list reader p h = (Ok xs, h')"
  then have xs: "distinct xs" "list_all P xs"
    using read_list_Ok assms(1) by blast+
  have "distinct (foldl push_new xs add)" and "set (foldl push_new xs add) = set xs \<union> set add"
    using foldl_push_new [OF xs(1), of add] by auto
  then have "distinct (filter (\<lambda>x. x \<notin> remove) (foldl push_new xs add))"
    and "list_all P (filter (\<lambda>x. x \<notin> remove) (foldl push_new xs add))"
    using xs(2) assms(2) by (auto simp: list_all_iff)
  then show "obeys R (let xs = foldl push_new xs add
      in if \<not> remove \<subseteq> set xs then io_fail (IoText (not_allowed (remove - set xs)))
         else write_atomic p (writer (filter (\<lambda>x. x \<notin> remove) xs)) MODE_644)"
    by (intro host_rules assms(3))
qed

lemma read_domains_valid: "read_domains idna c = Ok ds \<Longrightarrow> distinct ds \<and> list_all valid_policy_domain ds"
  by (auto simp: read_domains_def and_then_eq_Ok dest: normalize_domains_valid)

lemma read_authorities_valid: "read_loopback_authorities c = Ok as \<Longrightarrow> distinct as \<and> list_all valid_loopback_authority as"
  by (auto simp: read_loopback_authorities_def and_then_eq_Ok dest: normalize_loopback_authorities_valid)

lemma normalize_batch_valid: "normalize_batch idna add remove = Ok (as, rs) \<Longrightarrow> list_all valid_policy_domain as"
proof -
  assume "normalize_batch idna add remove = Ok (as, rs)"
  then have "map (normalize_domain idna) add = map Ok as"
    by (auto simp: normalize_batch_def and_then_eq_Ok collect_results_eq_Ok)
  then have "Ok a \<in> set (map (normalize_domain idna) add)" if "a \<in> set as" for a
    using that by simp
  then show ?thesis
    using normalize_domain_valid by (fastforce simp: list_all_iff)
qed

lemma normalize_loopback_batch_valid:
  "normalize_loopback_batch add remove = Ok (as, rs) \<Longrightarrow> list_all valid_loopback_authority as"
  by (auto simp: normalize_loopback_batch_def and_then_eq_Ok dest: normalize_loopback_authorities_valid)

lemma domains_mutated:
  assumes "policy_path p" and "last p \<in> DOMAIN_LAYERS" and "list_all valid_policy_domain add"
  shows "obeys R (mutate_file_locked idna p add remove)"
  unfolding mutate_file_locked_def
  by (rule list_mutated [OF read_domains_valid assms(3) domains_written [OF assms(1,2)]])

lemma authorities_mutated:
  assumes "policy_path p" and "last p = ''loopback.allow''" and "list_all valid_loopback_authority add"
  shows "obeys R (mutate_loopback_file_locked p add remove)"
  unfolding mutate_loopback_file_locked_def
  by (rule list_mutated [OF read_authorities_valid assms(3) authorities_written [OF assms(1,2)]])

lemma io_result_Ok: "io_result r h = (Ok x, h') \<longleftrightarrow> r = Ok x \<and> h' = h"
  by (cases r) (auto simp: io_result_def)

lemma project_files_Ok:
  "project_files_locked project h = (Ok (a, b), h') \<Longrightarrow>
     a = project_dir project @ [''allow.local''] \<and> b = project_dir project @ [''loopback.allow'']"
  by (auto simp: project_files_locked_def Let_def io_then_def io_bind_Ok io_return_def)

lemma global_paths: "policy_path GLOBAL" "policy_path GLOBAL_LOOPBACK" "policy_path DENIED_LOG"
    "last GLOBAL = ''allow.local''" "last GLOBAL_LOOPBACK = ''loopback.allow''"
    "last DENIED_LOG = ''denied.log''"
  by (simp_all add: policy_path_def GLOBAL_def GLOBAL_LOOPBACK_def DENIED_LOG_def)

lemma project_paths: "policy_path (project_dir project @ [n])" "policy_path (PROJECTS @ [key, n])"
  by (auto simp: policy_path_def project_dir_def)

lemma allow_local: "''allow.local'' \<in> DOMAIN_LAYERS"
  by (simp add: DOMAIN_LAYERS_def)

lemma mutate_ops:
  "obeys R (mutate_global env add remove)" "obeys R (mutate_project env project add remove)"
  "obeys R (mutate_loopback_global add remove)" "obeys R (mutate_loopback_project project add remove)"
  unfolding mutate_global_def mutate_project_def mutate_loopback_global_def mutate_loopback_project_def
  by (rule bound_Ok [OF resulted], clarsimp simp: io_result_Ok, intro host_rules locked_plain bound_Ok [OF project_made] 
        domains_mutated authorities_mutated,
      auto simp: global_paths project_paths allow_local dest: normalize_batch_valid normalize_loopback_batch_valid project_files_Ok)+

lemma io_map_source: "io_map f xs h = (Ok ys, h') \<Longrightarrow> y \<in> set ys \<Longrightarrow> \<exists>x h1 h2. f x h1 = (Ok y, h2) \<and> x \<in> set xs"
proof (induction xs arbitrary: h ys)
  case (Cons x xs)
  then show ?case
    by (fastforce simp: io_bind_Ok io_return_def)
qed (simp add: io_return_def)

lemma snapshot_obeys: "obeys R (snapshot_locked env)"
  by (rule takes_snapshot) (rule reaped)

lemma project_locked_Ok:
  "project_locked env key h = (Ok e, h') \<Longrightarrow> distinct (pp_loopback e) \<and> list_all valid_loopback_authority (pp_loopback e)"
  by (auto simp: project_locked_def Let_def io_bind_Ok io_return_def invalid_data_def io_fail_def
      split: if_split_asm dest!: read_list_Ok dest: read_authorities_valid)

lemma snapshot_Ok:
  assumes "snapshot_locked env h = (Ok s, h')"
  shows "distinct (sn_loopback s) \<and> list_all valid_loopback_authority (sn_loopback s)"
    and "e \<in> set (sn_projects s) \<Longrightarrow> distinct (pp_loopback e) \<and> list_all valid_loopback_authority (pp_loopback e)"
proof -
  obtain h1 h2 h3 h4 where "read_list read_loopback_authorities GLOBAL_LOOPBACK h1 = (Ok (sn_loopback s), h2)"
    and p: "projects_locked env h3 = (Ok (sn_projects s), h4)"
    using assms by (auto simp: snapshot_locked_def io_then_def io_bind_Ok io_return_def)
  then show "distinct (sn_loopback s) \<and> list_all valid_loopback_authority (sn_loopback s)"
    using read_list_Ok read_authorities_valid by blast
  show "distinct (pp_loopback e) \<and> list_all valid_loopback_authority (pp_loopback e)" if "e \<in> set (sn_projects s)"
  proof -
    obtain es h5 h6 names where "io_map (project_locked env) names h5 = (Ok es, h6)"
        and "sort_key pp_path es = sn_projects s"
      using p by (auto simp: projects_locked_def io_bind_Ok io_return_def)
    moreover from this have "e \<in> set es"
      using that by (metis set_sort)
    ultimately obtain key h7 h8 where "project_locked env key h7 = (Ok e, h8)"
      by (metis io_map_source)
    then show ?thesis
      by (rule project_locked_Ok)
  qed
qed

lemma stored_project_Some: "stored_project s project = Some e \<Longrightarrow> e \<in> set (sn_projects s)"
  by (auto simp: stored_project_def find_Some_iff)

lemma retained: "distinct xs \<and> list_all P xs \<Longrightarrow> distinct (filter Q xs) \<and> list_all P (filter Q xs)"
  by (auto simp: list_all_iff)

lemma deny_obeys: "obeys R (deny_locked env project domains)"
  unfolding deny_locked_def
proof (rule bound_Ok [OF snapshot_obeys], unfold Let_def, rule bound_Ok)
  fix s
  let ?selected = "case project of None \<Rightarrow> Some GLOBAL
    | Some p \<Rightarrow> map_option (\<lambda>e. PROJECTS @ [pp_key e, ''allow.local'']) (stored_project s p)"
  show "obeys R (case ?selected of None \<Rightarrow> io_return [] | Some fp \<Rightarrow> read_list (read_domains (pe_idna env)) fp)"
    by (intro host_rules)
  fix allowed h h'
  assume "(case ?selected of None \<Rightarrow> io_return [] | Some fp \<Rightarrow> read_list (read_domains (pe_idna env)) fp) h = (Ok allowed, h')"
  then have allowed: "distinct allowed \<and> list_all valid_policy_domain allowed" if "?selected = Some fp" for fp
    using that read_list_Ok [of "read_domains (pe_idna env)" fp h allowed h'] by (auto dest: read_domains_valid)
  have "policy_path fp \<and> last fp \<in> DOMAIN_LAYERS" if "?selected = Some fp" for fp
    using that by (auto simp: global_paths project_paths allow_local split: option.split_asm)
  then have "obeys R (write_atomic fp (domains_text (filter (\<lambda>d. d \<notin> set domains) allowed)) MODE_644)"
    if "?selected = Some fp" for fp
    using that retained [OF allowed [OF that]] by (intro domains_written) auto
  then show "obeys R
      (if filter (\<lambda>d. d \<notin> set allowed) domains \<noteq> [] then
         io_return \<lparr>dr_selected = selected_label project,
           dr_missing = map (\<lambda>d. (d, other_sources env s project d (selected_label project)))
             (filter (\<lambda>d. d \<notin> set allowed) domains), dr_remaining = []\<rparr>
       else
         (case ?selected of
            None \<Rightarrow> io_fail IoPanic
          | Some fp \<Rightarrow>
              io_then (write_atomic fp (domains_text (filter (\<lambda>d. d \<notin> set domains) allowed)) MODE_644)
                (io_return \<lparr>dr_selected = selected_label project, dr_missing = [],
                   dr_remaining = map (\<lambda>d. (d, other_sources env
                     (case project of
                        None \<Rightarrow> s\<lparr>sn_global := filter (\<lambda>d. d \<notin> set domains) allowed\<rparr>
                      | Some p \<Rightarrow>
                          s\<lparr>sn_projects :=
                              update_first (\<lambda>e. pp_key e = pj_key p)
                                (\<lambda>e. e\<lparr>pp_domains := filter (\<lambda>d. d \<notin> set domains) allowed\<rparr>) (sn_projects s)\<rparr>)
                     project d [])) domains\<rparr>)))"
    by (intro obeys_if obeys_option sequenced returned failed)
qed

lemma deny_loopback_obeys: "obeys R (deny_loopback_locked env project authorities)"
  unfolding deny_loopback_locked_def
proof (rule bound_Ok [OF snapshot_obeys], unfold Let_def)
  fix s h h'
  assume s: "snapshot_locked env h = (Ok s, h')"
  let ?stored = "Option.bind project (stored_project s)"
  let ?selected = "case project of None \<Rightarrow> Some GLOBAL_LOOPBACK
    | Some _ \<Rightarrow> map_option (\<lambda>e. PROJECTS @ [pp_key e, ''loopback.allow'']) ?stored"
  let ?allowed = "case project of None \<Rightarrow> sn_loopback s | Some _ \<Rightarrow> (case ?stored of None \<Rightarrow> [] | Some e \<Rightarrow> pp_loopback e)"
  have "distinct ?allowed \<and> list_all valid_loopback_authority ?allowed"
    using snapshot_Ok [OF s] stored_project_Some by (auto split: option.split)
  moreover have "policy_path fp \<and> last fp = ''loopback.allow''" if "?selected = Some fp" for fp
    using that by (auto simp: global_paths project_paths split: option.split_asm)
  ultimately have "obeys R (write_atomic fp (authorities_text (filter (\<lambda>a. a \<notin> set authorities) ?allowed)) MODE_644)"
    if "?selected = Some fp" for fp
    using that retained [of ?allowed] by (intro authorities_written) auto
  then show "obeys R
      (if filter (\<lambda>a. a \<notin> set ?allowed) authorities \<noteq> [] then
         io_return \<lparr>dr_selected = selected_label project,
           dr_missing = map (\<lambda>a. (cli_authority_display a, other_loopback_sources s project a (selected_label project)))
             (filter (\<lambda>a. a \<notin> set ?allowed) authorities), dr_remaining = []\<rparr>
       else
         (case ?selected of
            None \<Rightarrow> io_fail IoPanic
          | Some fp \<Rightarrow>
              io_then (write_atomic fp (authorities_text (filter (\<lambda>a. a \<notin> set authorities) ?allowed)) MODE_644)
                (io_return \<lparr>dr_selected = selected_label project, dr_missing = [],
                   dr_remaining = map (\<lambda>a. (cli_authority_display a, other_loopback_sources
                     (case project of
                        None \<Rightarrow> s\<lparr>sn_loopback := filter (\<lambda>a. a \<notin> set authorities) ?allowed\<rparr>
                      | Some p \<Rightarrow>
                          s\<lparr>sn_projects :=
                              update_first (\<lambda>e. pp_key e = pj_key p)
                                (\<lambda>e. e\<lparr>pp_loopback := filter (\<lambda>a. a \<notin> set authorities) ?allowed\<rparr>) (sn_projects s)\<rparr>)
                     project a [])) authorities\<rparr>)))"
    by (intro obeys_if obeys_option sequenced returned failed)
qed

lemma mode_files_obey: "obeys R (mode_file p)"
  unfolding obeys_def
proof
  fix h
  obtain r h' where m: "symlink_metadata p h = (r, h')"
    by fastforce
  then have "R h h'"
    using metadata_read unfolding obeys_def by (metis snd_conv)
  then show "R h (snd (mode_file p h))"
    by (auto simp: mode_file_def m split: result.split)
qed

lemma modes_changed:
  "list_all (\<lambda>p. \<exists>name. p = RUNS @ [name, ''mode'']) ps \<Longrightarrow> obeys R (change_modes (cli_mode_as_str mode @ [LF]) ps n)"
proof (induction ps arbitrary: n)
  case (Cons p ps)
  show ?case
    unfolding obeys_def
  proof
    fix h
    obtain r h' where w: "write_atomic p (cli_mode_as_str mode @ [LF]) MODE_644 h = (r, h')"
      by fastforce
    obtain name where "p = RUNS @ [name, ''mode'']"
      using Cons by auto
    then have "obeys R (write_atomic p (cli_mode_as_str mode @ [LF]) MODE_644)"
      by (intro written mode_layer_ok) (auto simp: policy_path_def)
    then have 1: "R h h'"
      using w unfolding obeys_def by (metis snd_conv)
    have "R h' (snd (change_modes (cli_mode_as_str mode @ [LF]) ps k h'))" for k
      using Cons unfolding obeys_def by simp
    then have "R h (snd (change_modes (cli_mode_as_str mode @ [LF]) ps k h'))" for k
      using steps [OF 1] by blast
    then show "R h (snd (change_modes (cli_mode_as_str mode @ [LF]) (p # ps) n h))"
      using 1 by (simp add: w split: result.split)
  qed
qed (simp add: returned)

lemma mode_file_Ok: "mode_file p h = (Ok qs, h') \<Longrightarrow> q \<in> set qs \<Longrightarrow> q = p"
  by (auto simp: mode_file_def split: prod.splits result.splits if_splits)

lemma active_mode_obeys: "obeys R (set_active_mode_locked mode)"
proof -
  have paths: "list_all (\<lambda>p. \<exists>name. p = RUNS @ [name, ''mode'']) (concat valid)"
    if io: "io_map mode_file (sort (map (\<lambda>name. RUNS @ [name, ''mode'']) names)) h = (Ok valid, h')" for names h valid h'
  proof -
    have "\<exists>name. p = RUNS @ [name, ''mode'']" if p: "p \<in> set (concat valid)" for p
    proof -
      obtain qs where qs: "qs \<in> set valid" "p \<in> set qs"
        using p by auto
      obtain x h1 h2 where "mode_file x h1 = (Ok qs, h2)" and "x \<in> set (sort (map (\<lambda>name. RUNS @ [name, ''mode'']) names))"
        using io_map_source [OF io qs(1)] by blast
      then show ?thesis
        using mode_file_Ok [OF _ qs(2)] by auto
    qed
    then show ?thesis
      by (simp add: list_all_iff)
  qed
  have "obeys R (io_bind (io_map mode_file (sort (map (\<lambda>name. RUNS @ [name, ''mode'']) names)))
      (\<lambda>valid. change_modes (cli_mode_as_str mode @ [LF]) (concat valid) 0))" for names
    by (rule bound_Ok [OF mapped [OF mode_files_obey] modes_changed [OF paths]])
  then show ?thesis
    unfolding set_active_mode_locked_def by (intro sequenced [OF runs_reaped] bound [OF dir_read])
qed

lemma log_reset: "obeys R reset_log_if_idle_locked"
  unfolding reset_log_if_idle_locked_def by (intro host_rules written empty_layer_ok) (simp_all add: global_paths)

lemma temporary_path: "policy_path (run_temporary i @ [n])"
  by (auto simp: policy_path_def)

lemma domain_layers: "''base.allow'' \<in> DOMAIN_LAYERS" "''harness.allow'' \<in> DOMAIN_LAYERS" "''run.allow'' \<in> DOMAIN_LAYERS"
  by (simp_all add: DOMAIN_LAYERS_def)

lemma domains_stored:
  assumes "policy_path p" and "last p \<in> DOMAIN_LAYERS"
  shows "obeys R (write_domains idna p ds)"
  unfolding write_domains_def
  by (rule bound_Ok [OF resulted])
    (use assms in \<open>auto simp: io_result_Ok dest!: normalize_domains_valid intro!: domains_written\<close>)

lemma plain_written: "last p \<notin> DOMAIN_LAYERS \<union> {''loopback.allow'', ''mode''} \<Longrightarrow> policy_path p \<Longrightarrow> obeys R (write_atomic p c m)"
  using written other_layer_ok by blast

lemma run_filled:
  assumes "distinct run_loopback" and "list_all valid_loopback_authority run_loopback"
  shows "obeys R (fill_run env (run_temporary i) harness project harness_domains run_domains run_loopback mode)"
  unfolding fill_run_def write_loopback_authorities_def
  by (intro sequenced opened lease_locked plain_written domains_stored authorities_written written mode_layer_ok assms)
    (simp_all add: temporary_path domain_layers, simp_all add: DOMAIN_LAYERS_def)

end

text \<open>A relation that also lets a run appear under its name.\<close>

locale policy_order = run_order +
  assumes run_renamed: "obeys R (rename (run_temporary i) (RUNS @ [i]))"
begin

lemma publish_obeys:
  assumes "distinct run_loopback" and "list_all valid_loopback_authority run_loopback"
  shows "obeys R (publish_locked env nanos harness project harness_domains run_domains run_loopback mode)"
  unfolding publish_locked_def
  by (intro sequenced runs_reaped bound project_made returned log_reset run_named dir_created mode_set cleaned_up
      run_filled [OF assms] run_renamed lease_freed temporary_removed) (simp add: run_hidden)

lemma publish_run_obeys:
  assumes "\<And>hds rds rls h prun h1 h2.
      publish_locked env nanos harness project hds rds rls mode h = (Ok prun, h1) \<Longrightarrow> hs_tree h2 = hs_tree h1 \<Longrightarrow>
      hs_stat_faults h2 = hs_stat_faults h1 \<Longrightarrow> distinct rls \<Longrightarrow> list_all valid_loopback_authority rls \<Longrightarrow>
      R h (snd (drop_run prun h2))"
  shows "obeys R (publish_run env nanos harness project harness_list run_list loopback_list mode)"
  unfolding publish_run_def locked_dropping_def
  by (rule bound_Ok [OF resulted], rule bound_Ok [OF resulted], rule bound_Ok [OF resulted],
      intro sequenced ensured with_lock_obeys publish_obeys)
    (auto simp: io_result_Ok intro: assms dest: normalize_loopback_authorities_valid)

lemma layer_normalised: "obeys R (normal_layer idna ds source)"
  unfolding normal_layer_def by (intro host_rules)

lemma project_layer_obeys: "(\<And>p. obeys R (reader p)) \<Longrightarrow> obeys R (project_layer reader name project)"
  unfolding project_layer_def Let_def by (intro host_rules)

lemma resolve_ops:
  "obeys R (resolved_domains env harness hds project i run_list)" "obeys R (resolved_loopback project i run_list)"
  unfolding resolved_domains_def resolved_loopback_def Let_def
  by (intro host_rules ensured layer_normalised project_layer_obeys)+

lemma list_denied_obeys: "obeys R denied_domains"
  unfolding denied_domains_def by (intro host_rules ensured)

lemma deny_ops: "obeys R (deny env project ds)" "obeys R (deny_loopback env project as)"
  unfolding deny_def deny_loopback_def
  by (intro host_rules locked_plain deny_obeys deny_loopback_obeys)+

lemma performs:
  assumes "\<And>nanos harness project hds rds rls mode h prun h1 h2.
      publish_locked env nanos harness project hds rds rls mode h = (Ok prun, h1) \<Longrightarrow> hs_tree h2 = hs_tree h1 \<Longrightarrow>
      hs_stat_faults h2 = hs_stat_faults h1 \<Longrightarrow> distinct rls \<Longrightarrow> list_all valid_loopback_authority rls \<Longrightarrow>
      R h (snd (drop_run prun h2))"
    and "\<And>i b. op = RetireRun i b \<Longrightarrow> obeys R (perform env op)"
  shows "obeys R (perform env op)"
  using assms
  by (cases op) (auto simp: snapshot_def set_active_mode_def
      intro!: mutate_ops dropped deny_ops resolve_ops list_denied_obeys publish_run_obeys
        locked_plain [OF snapshot_obeys] locked_plain [OF active_mode_obeys])

end

section \<open>What the store holds loads in the proxy\<close>

definition layers_load :: "host \<Rightarrow> bool" where
  "layers_load h \<longleftrightarrow> (\<forall>q c m l. node_at h q = Some (FileNode c m l) \<longrightarrow> layer_ok q c)"

definition loads_on :: "host \<Rightarrow> host \<Rightarrow> bool" where
  "loads_on h h' \<longleftrightarrow> (layers_load h \<longrightarrow> layers_load h')"

lemma loads_onI:
  assumes "\<And>q c m l. node_at h' q = Some (FileNode c m l) \<Longrightarrow> layers_load h \<Longrightarrow>
      (\<exists>m l. node_at h q = Some (FileNode c m l)) \<or> layer_ok q c"
  shows "loads_on h h'"
  using assms unfolding loads_on_def layers_load_def by blast

lemma tmp_name_layer_ok: "p \<noteq> [] \<Longrightarrow> layer_ok (tmp_name p pid i) c"
  by (rule hidden_layer_ok) (simp add: tmp_name_def hidden_def starts_with_def)

lemma loads_on_write_atomic:
  assumes "layer_ok p c"
  shows "loads_on h (snd (write_atomic p c m h))"
proof -
  obtain r h' where w: "write_atomic p c m h = (r, h')"
    by fastforce
  have "loads_on h h'"
  proof (cases "p = []")
    case True
    then show ?thesis
      using w by (auto simp: write_atomic_def io_fail_def loads_on_def)
  next
    case False
    show ?thesis
    proof (cases r)
      case (Ok u)
      then show ?thesis
        using assms write_atomic_Ok [of p c m h u h'] w by (intro loads_onI) (auto split: if_split_asm)
    next
      case (Err e)
      then obtain i where "\<And>q. node_at h' q = node_at h q \<or> q = tmp_name p (hs_pid h) i \<and> node_at h q = None"
        using w write_atomic_Err by blast
      then show ?thesis
        using tmp_name_layer_ok [OF False] by (intro loads_onI) metis
    qed
  qed
  then show ?thesis
    by (simp add: w)
qed

lemma loads_on_create_node:
  assumes "\<And>c m l. n = FileNode c m l \<Longrightarrow> layer_ok p c"
  shows "loads_on h (snd (create_node p n h))"
proof -
  obtain r h' where c: "create_node p n h = (r, h')"
    by fastforce
  have "loads_on h h'"
  proof (rule loads_onI)
    fix q c m l
    assume "node_at h' q = Some (FileNode c m l)"
    then show "(\<exists>m l. node_at h q = Some (FileNode c m l)) \<or> layer_ok q c"
      using create_node_cases [OF c] assms by (cases "q = p") auto
  qed
  then show ?thesis
    by (simp add: c)
qed

lemma loads_on_removed: "loads_on h (snd (remove_dir_all p h))"
proof -
  obtain r h' where c: "remove_dir_all p h = (r, h')"
    by fastforce
  have "loads_on h h'"
    using remove_dir_all_cases [OF c] by (intro loads_onI) (metis option.distinct(1))
  then show ?thesis
    by (simp add: c)
qed

lemma layer_ok_moved:
  assumes "layer_ok (a @ x # xs) c" and "butlast a = RUNS" and "a \<noteq> []"
  shows "layer_ok (b @ x # xs) c"
proof -
  have "length RUNS < length (butlast (a @ x # xs))"
    using assms(3) by (cases a) (simp_all flip: assms(2))
  then have "butlast (a @ x # xs) \<noteq> RUNS"
    by (metis less_irrefl)
  then show ?thesis
    using assms(1) by (simp add: layer_ok_def)
qed

lemma loads_on_renamed:
  assumes "butlast a = RUNS" and "butlast b = RUNS" and "a \<noteq> []"
  shows "loads_on h (snd (rename a b h))"
proof -
  obtain r h' where c: "rename a b h = (r, h')"
    by fastforce
  have "loads_on h h'"
  proof (cases "a = b")
    case True
    then have "hs_tree h' = hs_tree h"
      using c by (auto simp: rename_def io_faulty_def io_bind_def lookup_def io_return_def ok_or_def
          split: list.split_asm option.split_asm)
    then show ?thesis
      by (simp add: loads_on_def layers_load_def)
  next
    case False
    from c False show ?thesis
    proof (cases rule: rename_cases)
      case (renamed n)
      show ?thesis
      proof (rule loads_onI)
        fix q c m l
        assume q: "node_at h' q = Some (FileNode c m l)" and loads: "layers_load h"
        consider "q = b" | x xs k where "q = b @ x # xs" "n = DirNode k" | "node_at h' q = node_at h q"
        proof (cases "prefix b q \<and> (\<exists>k. n = DirNode k)")
          case True
          then obtain zs k where "q = b @ zs" and "n = DirNode k"
            by (auto simp: prefix_def)
          then show ?thesis
            using that(1,2) by (cases zs) auto
        next
          case False
          then show ?thesis
            using that(1,3) q renamed(6) [of q] by (auto split: if_split_asm)
        qed
        then show "(\<exists>m l. node_at h q = Some (FileNode c m l)) \<or> layer_ok q c"
        proof cases
          case 1
          then show ?thesis
            using assms(2) by (simp add: layer_ok_def)
        next
          case 2
          then have "node_at h (a @ x # xs) = Some (FileNode c m l)"
            using renamed(6) [of q] q by simp
          then show ?thesis
            using loads 2 layer_ok_moved [OF _ assms(1,3)] by (auto simp: layers_load_def)
        next
          case 3
          then show ?thesis
            using q by (metis (full_types))
        qed
      qed
    next
      case refused
      then show ?thesis
        by (simp add: loads_on_def layers_load_def)
    qed
  qed
  then show ?thesis
    by (simp add: c)
qed

lemma loads_on_kept:
  assumes "\<And>q c m l. node_at h' q = Some (FileNode c m l) \<Longrightarrow> \<exists>m l. node_at h q = Some (FileNode c m l)"
  shows "loads_on h h'"
  using assms by (intro loads_onI) blast

lemma lease_cases:
  assumes "m = lock_lease p \<or> m = release_lease p" and "m h = (r, h')"
  shows "node_at h' q = node_at h q \<or> q = p \<and>
    (\<exists>c k l l'. node_at h q = Some (FileNode c k l) \<and> node_at h' q = Some (FileNode c k l'))"
  using assms(1)
proof
  assume "m = lock_lease p"
  then have "lock_lease p h = (r, h')"
    using assms(2) by simp
  then show ?thesis
    unfolding lock_lease_def
  proof (cases rule: io_faulty_cases)
    case (works fs)
    then show ?thesis
      by (cases "node_at h p")
        (auto simp: io_bind_def lookup_def set_node_def io_return_def update_conv' split: node.split_asm if_split_asm)
  qed (simp add: io_return_def)
next
  assume "m = release_lease p"
  then show ?thesis
    using assms(2) by (auto simp: release_lease_def set_node_def update_conv' split: option.split_asm node.split_asm if_split_asm)
qed

lemma loads_on_lease: "loads_on h (snd (lock_lease p h))" "loads_on h (snd (release_lease p h))"
proof -
  have "loads_on h (snd (m h))" if "m = lock_lease p \<or> m = release_lease p" for m
  proof -
    obtain r h' where m: "m h = (r, h')"
      by fastforce
    show ?thesis
      unfolding m snd_conv
    proof (rule loads_on_kept)
      show "\<exists>m l. node_at h q = Some (FileNode c m l)" if "node_at h' q = Some (FileNode c k l)" for q c k l
      proof (cases "node_at h' q = node_at h q")
        case True
        then show ?thesis
          using that by metis
      next
        case False
        then show ?thesis
          using lease_cases [OF \<open>m = _ \<or> _\<close> m, of q] that by auto
      qed
    qed
  qed
  then show "loads_on h (snd (lock_lease p h))" "loads_on h (snd (release_lease p h))"
    by blast+
qed

lemma starting_layer_ok:
  assumes "starting_file p c"
  shows "layer_ok p c"
proof (cases "last p = ''path''")
  case True
  then show ?thesis
    by (intro other_layer_ok) (simp add: DOMAIN_LAYERS_def)
next
  case False
  then have "c = []" and "last p \<noteq> ''mode''"
    using assms
    by (auto simp: starting_file_def restartable_def ensured_file_def project_file_def GLOBAL_def GLOBAL_LOOPBACK_def DENIED_LOG_def)
  then show ?thesis
    using empty_layer_ok [of p] by simp
qed

lemma loads_on_restarted:
  assumes "restartable p c"
  shows "loads_on h (snd (write_atomic p c m (h\<lparr>hs_stat_faults := fs\<rparr>)))"
proof -
  have "layer_ok p c"
    using assms by (intro starting_layer_ok) (simp add: starting_file_def)
  then have "loads_on (h\<lparr>hs_stat_faults := fs\<rparr>) (snd (write_atomic p c m (h\<lparr>hs_stat_faults := fs\<rparr>)))"
    by (rule loads_on_write_atomic)
  then show ?thesis
    by (simp add: loads_on_def layers_load_def)
qed

interpretation loading: store_order loads_on
proof
  show "loads_on h h'" if "hs_tree h' = hs_tree h" for h h'
    using that by (simp add: loads_on_def layers_load_def)
  show "loads_on a c" if "loads_on a b" "loads_on b c" for a b c
    using that by (simp add: loads_on_def)
  show "obeys loads_on (set_mode p m)" for p m
    unfolding obeys_def
  proof
    fix h
    obtain r h' where s: "set_mode p m h = (r, h')"
      by fastforce
    show "loads_on h (snd (set_mode p m h))"
      unfolding s snd_conv
    proof (rule loads_on_kept)
      show "\<exists>m l. node_at h q = Some (FileNode c m l)" if "node_at h' q = Some (FileNode c k l)" for q c k l
        using set_mode_cases [OF s, of q] that by (metis node.distinct(1) option.inject node.inject(1))
    qed
  qed
  show "obeys loads_on (create_dir p)" for p
    unfolding obeys_def create_dir_def by (blast intro: loads_on_create_node)
  show "obeys loads_on (open_new LOCK_PATH)"
    unfolding obeys_def open_new_def
    by (intro allI loads_on_create_node other_layer_ok) (simp add: LOCK_PATH_def DOMAIN_LAYERS_def)
  show "loads_on h (snd (write_atomic p c m h))" if "starting_file p c" for h p c m
    using that by (intro loads_on_write_atomic starting_layer_ok)
  show "loads_on h (snd (write_atomic p c m (h\<lparr>hs_stat_faults := fs\<rparr>)))" if "ensured_file p c" for h p c m fs
    using that by (intro loads_on_restarted) (simp add: restartable_def)
  show "loads_on h (snd (write_atomic p c m (h\<lparr>hs_stat_faults := fs\<rparr>)))" if "project_file p c" for h p c m fs
    using that by (intro loads_on_restarted) (simp add: restartable_def)
qed

lemma run_dirs: "butlast (run_temporary i) = RUNS" "butlast (run_dead i) = RUNS" "butlast (RUNS @ [i]) = RUNS"
    "run_temporary i \<noteq> []" "run_dead i \<noteq> []"
  by (simp_all add: run_temporary_def run_dead_def)

interpretation loading: policy_order loads_on
proof
  show "obeys loads_on (reap_run name)" for name
    by (rule loading.run_reaped) (simp add: obeys_def loads_on_removed)
  show "obeys loads_on (write_atomic p c m)" if "layer_ok p c" for p c m
    using that by (simp add: obeys_def loads_on_write_atomic)
  show "obeys loads_on (lock_lease (run_temporary i @ [''lease'']))"
    and "obeys loads_on (release_lease (run_temporary i @ [''lease'']))"
    and "obeys loads_on (remove_dir_all (run_temporary i))"
    and "obeys loads_on (rename (run_temporary i) (RUNS @ [i]))" for i
    by (simp_all add: obeys_def loads_on_lease loads_on_removed loads_on_renamed run_dirs)
qed

lemma loads_on_retired: "loads_on h (snd (snd (retire_inner (run_of i b) h)))"
proof -
  obtain r h1 where m: "rename (RUNS @ [i]) (run_dead i) h = (r, h1)"
    by fastforce
  then have 1: "loads_on h h1"
    using loads_on_renamed [of "RUNS @ [i]" "run_dead i" h] by (simp add: run_dirs)
  have "loads_on h (snd (remove_dir_all (run_dead i) h1))"
    using 1 loads_on_removed loading.steps by blast
  then show ?thesis
    using 1 loading.same by (auto simp: retire_inner_def run_of_def m split: result.split prod.split)
qed

lemma published_run:
  "publish_locked env nanos harness project hds rds rls mode h = (Ok prun, h') \<Longrightarrow> \<exists>i. prun = run_of i False"
  by (auto simp: publish_locked_def io_then_def io_bind_Ok io_cleanup_Ok io_return_def run_of_def)

lemma loads_on_dropped: "loads_on h (snd (drop_run (run_of i b) h))"
proof -
  obtain r prun h' where m: "retire_inner (run_of i b) h = (r, prun, h')"
    by (metis prod.exhaust)
  then have "loads_on h h'"
    using loads_on_retired [of h i b] by simp
  then show ?thesis
    using loading.steps loads_on_lease(2) by (auto simp: drop_run_def m)
qed

lemma perform_loads: "obeys loads_on (perform env op)"
proof (rule loading.performs)
  fix nanos harness project hds rds rls mode prun and h h1 h2 :: host
  assume p: "publish_locked env nanos harness project hds rds rls mode h = (Ok prun, h1)" and same: "hs_tree h2 = hs_tree h1"
    and asked: "hs_stat_faults h2 = hs_stat_faults h1" and rls: "distinct rls" "list_all valid_loopback_authority rls"
  have "loads_on h h1"
    using loading.publish_obeys [OF rls] p unfolding obeys_def by (metis snd_conv)
  moreover have "loads_on h1 h2"
    by (rule loading.same_files) (simp_all add: same asked)
  moreover have "loads_on h2 (snd (drop_run prun h2))"
    using published_run [OF p] loads_on_dropped by auto
  ultimately show "loads_on h (snd (drop_run prun h2))"
    using loading.steps by blast
next
  show "obeys loads_on (perform env op)" if "op = RetireRun i b" for i b
    unfolding obeys_def
  proof
    show "loads_on h (snd (perform env op h))" for h
      using loads_on_retired [of h i b] by (cases "retire_inner (run_of i b) h") (simp add: that)
  qed
qed

lemma perform_all_append:
  "perform_all env (ops @ [(pid, n, op)]) h =
     snd (perform env op ((perform_all env ops h)\<lparr>hs_pid := pid, hs_next_tmp := n\<rparr>))"
  by (simp add: perform_all_def)

definition fresh_host :: "nat option list \<Rightarrow> bool list \<Rightarrow> host" where
  "fresh_host faults stat_faults =
     \<lparr>hs_tree = [], hs_faults = faults, hs_stat_faults = stat_faults, hs_next_tmp = 0, hs_pid = 0\<rparr>"

text \<open>
  C9: what the host stores always loads. Start with no store at all, and let any number of
  processes perform any operations one after the other with any arguments, while any of their
  system calls fail, half-way or completely, the clean-up and the question whether a file exists
  included: at every moment each layer of
  domains, each layer of loopback authorities and each mode file, of the host, of a project or of
  a run, is UTF-8 and is accepted by the strict parser with which the proxy reads it.
\<close>

theorem store_always_loads: "layers_load (perform_all env ops (fresh_host faults stat_faults))"
proof (induction ops rule: rev_induct)
  case Nil
  then show ?case
    by (simp add: perform_all_def fresh_host_def layers_load_def)
next
  case (snoc x ops)
  obtain pid n op where x: "x = (pid, n, op)"
    by (metis prod.exhaust)
  let ?h = "perform_all env ops (fresh_host faults stat_faults)"
  have "layers_load (?h\<lparr>hs_pid := pid, hs_next_tmp := n\<rparr>)"
    using snoc by (simp add: layers_load_def)
  moreover have "loads_on (?h\<lparr>hs_pid := pid, hs_next_tmp := n\<rparr>)
      (snd (perform env op (?h\<lparr>hs_pid := pid, hs_next_tmp := n\<rparr>)))"
    using perform_loads unfolding obeys_def by blast
  ultimately show ?case
    unfolding x perform_all_append loads_on_def by blast
qed

section \<open>Runs that are alive\<close>

definition live_run :: "bytes \<Rightarrow> host \<Rightarrow> bool" where
  "live_run name h \<longleftrightarrow> \<not> hidden name \<and> (\<exists>m. node_at h (RUNS @ [name]) = Some (DirNode m)) \<and>
     (\<exists>c m. node_at h (RUNS @ [name, ''lease'']) = Some (FileNode c m True))"

definition run_files :: "bytes \<Rightarrow> path set" where
  "run_files name = {q. prefix (RUNS @ [name]) q} - {RUNS @ [name, ''mode'']}"

definition spares :: "bytes \<Rightarrow> host \<Rightarrow> host \<Rightarrow> bool" where
  "spares name h h' \<longleftrightarrow> set (hs_stat_faults h') \<subseteq> set (hs_stat_faults h) \<and>
     (live_run name h \<longrightarrow> keeps ensured_file (- run_files name) h h')"

lemma run_files_own: "RUNS @ [name] \<in> run_files name" "RUNS @ [name, ''lease''] \<in> run_files name"
  by (simp_all add: run_files_def prefix_def)

lemma sparesI:
  assumes "asks_nothing m" and "\<And>q. live_run name h \<Longrightarrow> q \<in> run_files name \<Longrightarrow> gentle (node_at h q) (node_at (snd (m h)) q)"
  shows "spares name h (snd (m h))"
  using assms by (simp add: spares_def keeps_def asks_nothing_def)

lemma own_not_ensured: "\<not> ensured_file (RUNS @ [name]) c" "\<not> ensured_file (RUNS @ [name, ''lease'']) c"
  by (auto simp: ensured_file_def GLOBAL_def GLOBAL_LOOPBACK_def PROJECTS_def RUNS_def)

lemma spares_live:
  assumes "live_run name h" and "spares name h h'"
  shows "live_run name h'"
proof -
  have "gentle (node_at h (RUNS @ [name])) (node_at h' (RUNS @ [name]))"
    and "gentle (node_at h (RUNS @ [name, ''lease''])) (node_at h' (RUNS @ [name, ''lease'']))"
    using assms run_files_own own_not_ensured unfolding spares_def keeps_def restarted_def by blast+
  then show ?thesis
    using assms(1) by (auto simp: live_run_def)
qed

lemma other_run: "q \<in> run_files name \<Longrightarrow> prefix (RUNS @ [i]) q \<Longrightarrow> i = name"
  by (auto simp: run_files_def prefix_def)

lemma run_files_visible:
  assumes "q \<in> run_files name" and "live_run name h"
  shows "\<not> prefix (run_temporary i) q" "\<not> prefix (run_dead i) q" "\<not> policy_path q"
proof -
  have visible: "\<not> prefix (RUNS @ [''.'' @ s]) q" for s
    using other_run [OF assms(1)] assms(2) hidden_temporary by (metis live_run_def)
  then show temporary: "\<not> prefix (run_temporary i) q" and "\<not> prefix (run_dead i) q" for i
    unfolding run_temporary_def run_dead_def by blast+
  obtain zs where q: "q = RUNS @ name # zs"
    using assms(1) by (auto simp: run_files_def prefix_def)
  have "q \<noteq> run_temporary j @ [n]" for j n
    using temporary by (metis prefixI)
  moreover have "q \<noteq> RUNS @ [i, ''mode'']" for i
    using assms(1) q by (auto simp: run_files_def)
  ultimately show "\<not> policy_path q"
    by (auto simp: policy_path_def q GLOBAL_def GLOBAL_LOOPBACK_def DENIED_LOG_def PROJECTS_def RUNS_def)
qed

lemma spares_restarted:
  assumes "ensured_file p c \<or> p \<in> - run_files name" and "hs_stat_faults h = True # fs"
  shows "spares name h (snd (write_atomic p c m (h\<lparr>hs_stat_faults := fs\<rparr>)))"
  using write_restarts [of ensured_file p c "- run_files name" h fs m, OF assms] unfolding spares_def
  by (simp add: keeps_def)

interpretation sparing: store_order "spares name" for name
proof
  show "spares name h h'" if "hs_tree h' = hs_tree h" "set (hs_stat_faults h') \<subseteq> set (hs_stat_faults h)" for h h'
    using that by (simp add: spares_def ensuring.same_files)
  show "spares name a c" if "spares name a b" "spares name b c" for a b c
  proof -
    have "set (hs_stat_faults c) \<subseteq> set (hs_stat_faults a)"
      using that by (auto simp: spares_def)
    moreover have "keeps ensured_file (- run_files name) a c" if live: "live_run name a"
      using spares_live [OF live \<open>spares name a b\<close>] \<open>spares name a b\<close> \<open>spares name b c\<close> live keeps_trans
      unfolding spares_def by blast
    ultimately show ?thesis
      unfolding spares_def by blast
  qed
  show "obeys (spares name) (set_mode p m)" for p m
    unfolding obeys_def by (intro allI sparesI asks_nothing_set_mode set_mode_gentle)
  show "obeys (spares name) (create_dir p)" for p
    unfolding obeys_def create_dir_def by (intro allI sparesI asks_nothing_create create_node_gentle)
  show "obeys (spares name) (open_new LOCK_PATH)"
    unfolding obeys_def open_new_def by (intro allI sparesI asks_nothing_create create_node_gentle)
  show "spares name h (snd (write_atomic p c m h))" if "path_absent h p" for h p c m
    by (intro sparesI asks_nothing_write write_atomic_gentle disjI1 that)
  show "spares name h (snd (write_atomic p c m (h\<lparr>hs_stat_faults := fs\<rparr>)))"
    if "hs_stat_faults h = True # fs" and "ensured_file p c" for h p c m fs
    using that by (intro spares_restarted disjI1)
  show "spares name h (snd (write_atomic p c m (h\<lparr>hs_stat_faults := fs\<rparr>)))"
    if "hs_stat_faults h = True # fs" and "project_file p c" for h p c m fs
  proof (rule spares_restarted [OF disjI2 that(1)])
    show "p \<in> - run_files name"
      using that(2) by (auto simp: project_file_def run_files_def PROJECTS_def RUNS_def prefix_def)
  qed
qed

lemma spares_removed:
  assumes "i \<noteq> name \<or> hidden i"
  shows "spares name h (snd (remove_dir_all (RUNS @ [i]) h))"
proof (rule sparesI [OF asks_nothing_remove])
  fix q
  assume live: "live_run name h" and q: "q \<in> run_files name"
  obtain r h' where m: "remove_dir_all (RUNS @ [i]) h = (r, h')"
    by fastforce
  have "i \<noteq> name"
    using assms live by (auto simp: live_run_def)
  then have "node_at h' q = node_at h q"
    using remove_dir_all_cases [OF m, of q] other_run [OF q] by blast
  then show "gentle (node_at h q) (node_at (snd (remove_dir_all (RUNS @ [i]) h)) q)"
    by (simp add: m)
qed

interpretation still: host_order "\<lambda>h h'. hs_tree h' = hs_tree h"
  by unfold_locales simp_all

lemma still_triple:
  "obeys (\<lambda>h h'. hs_tree h' = hs_tree h) m \<Longrightarrow>
     triple (\<lambda>h. hs_tree h = t) m (\<lambda>_ h. hs_tree h = t) (\<lambda>h. hs_tree h = t)"
  by (rule tripleI) (auto simp: obeys_def dest: spec split: result.split, (metis snd_conv)+)

lemma metadata_triple:
  "triple (\<lambda>h. hs_tree h = t) (symlink_metadata p) (\<lambda>n h. hs_tree h = t \<and> map_of t p = Some n) (\<lambda>h. hs_tree h = t)"
  unfolding symlink_metadata_def
  by (rule triple_fault, simp add: on_files_def, rule tripleI)
    (auto simp: lookup_def ok_or_def split: option.splits result.split)

lemma reap_spares_live:
  assumes "live_run name h"
  shows "hs_tree (snd (reap_run name h)) = hs_tree h"
proof -
  let ?P = "\<lambda>g. hs_tree g = hs_tree h"
  let ?p = "RUNS @ [name]"
  obtain c m where lease: "node_at h (?p @ [''lease'']) = Some (FileNode c m True)" and visible: "\<not> hidden name"
    using assms by (auto simp: live_run_def)
  have "triple ?P (if \<not> regular_file n (Some MODE_600) then invalid_data ''published run lease must be a regular 0600 file''
            else io_then (open_existing (?p @ [''lease'']))
              (io_then lock_call
                (if file_locked n then io_return () else io_then lock_call (remove_dir_all ?p)))) (\<lambda>_. ?P) ?P"
    if "n = FileNode c m True" for n
    using that by (auto intro!: still_triple still.sequenced still.opened still.lock_called still.returned still.data_refused)
  note locked = this
  have body: "triple (\<lambda>g. ?P g \<and> map_of (hs_tree h) (?p @ [''lease'']) = Some n)
      (if \<not> regular_file n (Some MODE_600) then invalid_data ''published run lease must be a regular 0600 file''
       else io_then (open_existing (?p @ [''lease'']))
         (io_then lock_call
           (if file_locked n then io_return () else io_then lock_call (remove_dir_all ?p)))) (\<lambda>_. ?P) ?P" for n
  proof (cases "n = FileNode c m True")
    case True
    show ?thesis
      by (rule triple_weaken [OF locked [OF True]]) simp_all
  next
    case False
    then show ?thesis
      using lease by (simp add: triple_def)
  qed
  have "triple ?P (reap_run name) (\<lambda>_. ?P) ?P"
    unfolding reap_run_def Let_def if_not_P [OF visible]
  proof (rule triple_bind [OF still_triple [OF still.kind_read]])
    show "triple ?P (if \<not> d then invalid_data ''published run state is not a directory''
        else io_bind (symlink_metadata (?p @ [''lease''])) (\<lambda>n.
            if \<not> regular_file n (Some MODE_600) then invalid_data ''published run lease must be a regular 0600 file''
            else io_then (open_existing (?p @ [''lease'']))
              (io_then lock_call
                (if file_locked n then io_return () else io_then lock_call (remove_dir_all ?p))))) (\<lambda>_. ?P) ?P" for d
      using still_triple [OF still.data_refused] triple_bind [OF metadata_triple body] by (cases d) simp_all
  qed
  note reap = this
  obtain r h' where r: "reap_run name h = (r, h')"
    by fastforce
  have "case r of Ok x \<Rightarrow> ?P h' | Err _ \<Rightarrow> ?P h'"
    by (rule tripleD [OF reap refl r])
  then show ?thesis
    unfolding r by (cases r) simp_all
qed

lemma asks_nothing_reap: "asks_nothing (reap_run name)"
  unfolding reap_run_def Let_def is_dir_def symlink_metadata_def open_existing_def lock_call_def invalid_data_def
  by (auto intro!: ask_rules asks_nothing_remove)

lemma spares_reaped: "spares name h (snd (reap_run i h))"
proof (cases "i = name \<and> \<not> hidden i")
  case True
  then show ?thesis
    using reap_spares_live [of name h] by (intro sparesI asks_nothing_reap) simp
next
  case False
  then have "obeys (spares name) (reap_run i)"
    by (intro sparing.run_reaped) (auto simp: obeys_def intro!: spares_removed)
  then show ?thesis
    by (simp add: obeys_def)
qed

lemma spares_written:
  assumes "policy_path p"
  shows "spares name h (snd (write_atomic p c m h))"
proof (rule sparesI [OF asks_nothing_write])
  fix q
  assume "live_run name h" and "q \<in> run_files name"
  then have "q \<noteq> p"
    using run_files_visible(3) assms by blast
  then show "gentle (node_at h q) (node_at (snd (write_atomic p c m h)) q)"
    by (simp add: write_atomic_gentle)
qed

lemma spares_lease:
  assumes "p \<notin> run_files name \<or> \<not> live_run name h"
  shows "spares name h (snd (lock_lease p h))" "spares name h (snd (release_lease p h))"
proof -
  have "spares name h (snd (m h))" if m: "m = lock_lease p \<or> m = release_lease p" for m
  proof (rule sparesI)
    show "asks_nothing m"
      using m asks_nothing_lease by blast
    fix q
    assume live: "live_run name h" and q: "q \<in> run_files name"
    obtain r h' where r: "m h = (r, h')"
      by fastforce
    have "node_at h' q = node_at h q"
      using lease_cases [OF m r, of q] assms live q by auto
    then show "gentle (node_at h q) (node_at (snd (m h)) q)"
      by (simp add: r)
  qed
  then show "spares name h (snd (lock_lease p h))" "spares name h (snd (release_lease p h))"
    by blast+
qed

lemma live_not_vacant: "live_run name h \<Longrightarrow> \<not> vacant (RUNS @ [name]) h"
  using vacantD [of "RUNS @ [name]" h "RUNS @ [name, ''lease'']"] by (auto simp: live_run_def strict_prefix_def prefix_def)

text \<open>A rename onto a run that is alive is refused, any other that is not of the run leaves it alone.\<close>

lemma rename_onto_live:
  assumes "live_run name h" and "rename a (RUNS @ [name]) h = (r, h')" and "a \<noteq> RUNS @ [name]"
  shows "\<not> is_ok r" and "hs_tree h' = hs_tree h"
proof -
  have "\<not> is_ok r \<and> hs_tree h' = hs_tree h"
    using assms(2,3)
  proof (cases rule: rename_cases)
    case (renamed n)
    obtain m where "node_at h (RUNS @ [name]) = Some (DirNode m)"
      using assms(1) by (auto simp: live_run_def)
    then have "vacant (RUNS @ [name]) h"
      using renamed(3) may_replace_dir by metis
    then show ?thesis
      using live_not_vacant [OF assms(1)] by blast
  qed simp
  then show "\<not> is_ok r" "hs_tree h' = hs_tree h"
    by blast+
qed

lemma spares_renamed:
  assumes "a \<noteq> b" and "\<And>q. live_run name h \<Longrightarrow> q \<in> run_files name \<Longrightarrow> \<not> prefix a q"
    and "\<And>q. live_run name h \<Longrightarrow> q \<in> run_files name \<Longrightarrow> b = RUNS @ [name] \<or> \<not> prefix b q"
  shows "spares name h (snd (rename a b h))"
proof (rule sparesI [OF asks_nothing_rename])
  fix q
  assume live: "live_run name h" and q: "q \<in> run_files name"
  obtain r h' where m: "rename a b h = (r, h')"
    by fastforce
  have "node_at h' q = node_at h q"
  proof (cases "b = RUNS @ [name]")
    case True
    then show ?thesis
      using rename_onto_live(2) [OF live] m assms(1) by simp
  next
    case False
    then have "\<not> prefix a q" "\<not> prefix b q"
      using assms(2,3) live q by blast+
    then show ?thesis
      by (cases rule: rename_cases [OF m assms(1)]) auto
  qed
  then show "gentle (node_at h q) (node_at (snd (rename a b h)) q)"
    by (simp add: m)
qed

interpretation sparing: policy_order "spares name" for name
proof
  show "obeys (spares name) (reap_run i)" for i
    by (simp add: obeys_def spares_reaped)
  show "obeys (spares name) (write_atomic p c m)" if "policy_path p" for p c m
    using that by (simp add: obeys_def spares_written)
  have lease: "run_temporary i @ [''lease''] \<notin> run_files name \<or> \<not> live_run name h" for i h
    using run_files_visible(1) by (metis prefixI)
  show "obeys (spares name) (lock_lease (run_temporary i @ [''lease'']))"
    and "obeys (spares name) (release_lease (run_temporary i @ [''lease'']))" for i
    using spares_lease [OF lease] by (simp_all add: obeys_def)
  show "obeys (spares name) (remove_dir_all (run_temporary i))" for i
    unfolding run_temporary_def by (simp add: obeys_def spares_removed hidden_def starts_with_def)
  show "obeys (spares name) (rename (run_temporary i) (RUNS @ [i]))" for i
    unfolding obeys_def
  proof (intro allI spares_renamed)
    show "run_temporary i \<noteq> RUNS @ [i]"
    proof
      assume "run_temporary i = RUNS @ [i]"
      then have "length (''.'' @ i @ ''.tmp'') = length i"
        by (simp add: run_temporary_def)
      then show False
        by simp
    qed
  qed (use run_files_visible(1) other_run in blast)+
qed

lemma obeys_triple:
  assumes "obeys (spares name) m"
  shows "triple (live_run name) m (\<lambda>_. live_run name) (\<lambda>_. True)"
proof (rule tripleI)
  fix h h' :: host and r
  assume "live_run name h" and m: "m h = (r, h')"
  moreover have "spares name h h'"
    using assms m unfolding obeys_def by (metis snd_conv)
  ultimately show "case r of Ok _ \<Rightarrow> live_run name h' | Err _ \<Rightarrow> True"
    using spares_live by (cases r) auto
qed

lemma published_elsewhere:
  assumes "distinct rls" and "list_all valid_loopback_authority rls"
  shows "triple (live_run name) (publish_locked env nanos harness project hds rds rls mode)
     (\<lambda>prun _. \<exists>i. i \<noteq> name \<and> prun = run_of i False) (\<lambda>_. True)"
proof -
  have renames: "triple (live_run name) (rename (run_temporary i) (RUNS @ [i])) (\<lambda>_ _. i \<noteq> name) (\<lambda>_. True)" for i
  proof (rule tripleI)
    fix h h' :: host and r
    assume live: "live_run name h" and m: "rename (run_temporary i) (RUNS @ [i]) h = (r, h')"
    have "\<not> hidden name"
      using live by (simp add: live_run_def)
    then have "run_temporary i \<noteq> RUNS @ [name]"
      using hidden_temporary by (auto simp: run_temporary_def)
    then have "i \<noteq> name" if "is_ok r"
      using rename_onto_live(1) [OF live] m that by blast
    then show "case r of Ok _ \<Rightarrow> i \<noteq> name | Err _ \<Rightarrow> True"
      by (cases r) simp_all
  qed
  have cleans: "triple (\<lambda>_. True) (m :: unit io) (\<lambda>_ _. True) (\<lambda>_. True)" for m
    by (simp add: triple_def split: result.split)
  have returns: "triple (\<lambda>_. i \<noteq> name) (io_return (run_of i False)) (\<lambda>prun _. \<exists>i. i \<noteq> name \<and> prun = run_of i False) (\<lambda>_. True)" for i
    by (auto simp: triple_def io_return_def)
  have builds: "triple (live_run name)
      (io_cleanup
         (io_then (fill_run env (run_temporary i) harness project hds rds rls mode)
         (io_then (rename (run_temporary i) (RUNS @ [i])) (io_return (run_of i False))))
         (io_then (release_lease (run_temporary i @ [''lease''])) (remove_dir_all (run_temporary i))))
      (\<lambda>prun _. \<exists>i. i \<noteq> name \<and> prun = run_of i False) (\<lambda>_. True)" for i
    by (rule triple_cleanup [OF triple_then [OF obeys_triple [OF sparing.run_filled [OF assms]] triple_then [OF renames returns]] cleans])
  show ?thesis
    unfolding publish_locked_def run_of_def [of _ False, symmetric]
    by (intro triple_then [OF obeys_triple [OF sparing.runs_reaped]]
          triple_then [OF obeys_triple [OF sparing.bound [OF sparing.project_made sparing.returned]]]
          triple_then [OF obeys_triple [OF sparing.log_reset]]
          triple_bind [OF obeys_triple [OF sparing.run_named]]
          triple_then [OF obeys_triple [OF sparing.dir_created]]
          triple_then [OF obeys_triple [OF sparing.mode_set]] builds) (simp add: run_hidden)
qed

lemma spares_retired:
  assumes "i \<noteq> name"
  shows "spares name h (snd (snd (retire_inner (run_of i b) h)))"
proof -
  obtain r h1 where m: "rename (RUNS @ [i]) (run_dead i) h = (r, h1)"
    by fastforce
  have "RUNS @ [i] \<noteq> run_dead i"
  proof
    assume "RUNS @ [i] = run_dead i"
    then have "length i = length (''.'' @ i @ ''.dead'')"
      by (simp add: run_dead_def)
    then show False
      by simp
  qed
  then have "spares name h (snd (rename (RUNS @ [i]) (run_dead i) h))"
    using assms other_run run_files_visible(2) by (intro spares_renamed) blast+
  then have 1: "spares name h h1"
    by (simp add: m)
  have "spares name h1 (snd (remove_dir_all (run_dead i) h1))"
    unfolding run_dead_def by (simp add: spares_removed hidden_def starts_with_def)
  then have "spares name h (snd (remove_dir_all (run_dead i) h1))"
    using 1 sparing.steps by blast
  then show ?thesis
    using 1 sparing.same by (auto simp: retire_inner_def run_of_def m split: result.split prod.split)
qed

lemma retired_path: "pr_published (fst (snd (retire_inner prun h))) = pr_published prun"
  by (simp add: retire_inner_def split: prod.split result.split)

lemma spares_dropped:
  assumes "i \<noteq> name"
  shows "spares name h (snd (drop_run (run_of i b) h))"
proof -
  obtain r prun h' where m: "retire_inner (run_of i b) h = (r, prun, h')"
    by (metis prod.exhaust)
  then have "spares name h h'"
    using spares_retired [OF assms, of h b] by simp
  moreover have "pr_published prun @ [''lease''] \<notin> run_files name"
    using retired_path [of "run_of i b" h] m assms other_run [of _ name i] by (auto simp: run_of_def prefix_def)
  ultimately show ?thesis
    using sparing.steps spares_lease(2) by (auto simp: drop_run_def m)
qed

lemma asks_nothing_drop: "asks_nothing (drop_run prun)"
proof -
  have retires: "hs_stat_faults (snd (snd (retire_inner prun h))) = hs_stat_faults h" for h
  proof -
    obtain r h1 where m: "rename (pr_published prun) (pr_dead prun) h = (r, h1)"
      by fastforce
    then have "hs_stat_faults h1 = hs_stat_faults h"
      using asks_nothing_rename unfolding asks_nothing_def by (metis snd_conv)
    moreover have "hs_stat_faults (snd (remove_dir_all (pr_dead prun) h1)) = hs_stat_faults h1"
      using asks_nothing_remove by (simp add: asks_nothing_def)
    ultimately show ?thesis
      by (simp add: retire_inner_def m split: result.split prod.split) (metis snd_conv)
  qed
  show ?thesis
    unfolding asks_nothing_def
  proof
    fix h
    obtain r prun' h' where m: "retire_inner prun h = (r, prun', h')"
      by (metis prod.exhaust)
    then show "hs_stat_faults (snd (drop_run prun h)) = hs_stat_faults h"
      using retires [of h] asks_nothing_lease(2) by (simp add: drop_run_def asks_nothing_def)
  qed
qed

lemma perform_spares:
  assumes "\<And>retired. op \<noteq> RetireRun name retired"
  shows "spares name h (snd (perform env op h))"
proof -
  have "obeys (spares name) (perform env op)"
  proof (rule sparing.performs)
    fix nanos harness project hds rds rls mode prun and h h1 h2 :: host
    assume p: "publish_locked env nanos harness project hds rds rls mode h = (Ok prun, h1)" and same: "hs_tree h2 = hs_tree h1"
      and asked: "hs_stat_faults h2 = hs_stat_faults h1" and rls: "distinct rls" "list_all valid_loopback_authority rls"
    show "spares name h (snd (drop_run prun h2))"
    proof (cases "live_run name h")
      case True
      then obtain i where "i \<noteq> name" and "prun = run_of i False"
        using tripleD [OF published_elsewhere [OF rls] True p] by auto
      then have "spares name h2 (snd (drop_run prun h2))"
        using spares_dropped by blast
      moreover have "spares name h h1"
        using sparing.publish_obeys [OF rls] p unfolding obeys_def by (metis snd_conv)
      moreover have "spares name h1 h2"
        by (rule sparing.same_files) (simp_all add: same asked)
      ultimately show ?thesis
        using sparing.steps by blast
    next
      case False
      have "spares name h h1"
        using sparing.publish_obeys [OF rls] p unfolding obeys_def by (metis snd_conv)
      then have "set (hs_stat_faults (snd (drop_run prun h2))) \<subseteq> set (hs_stat_faults h)"
        using asked asks_nothing_drop [of prun] by (simp add: spares_def asks_nothing_def)
      then show ?thesis
        using False by (simp add: spares_def)
    qed
  next
    fix i b
    assume op: "op = RetireRun i b"
    then have "i \<noteq> name"
      using assms by blast
    then show "obeys (spares name) (perform env op)"
      unfolding obeys_def op perform.simps using spares_retired [of i name _ b]
      by (metis (mono_tags, lifting) prod.collapse prod.case snd_conv)
  qed
  then show ?thesis
    by (simp add: obeys_def)
qed

text \<open>
  C10: nothing but its own retirement removes a run that is alive. As long as a run's process holds
  the run's lease, no sequence of operations of any processes, whatever fails in them, removes the
  run, and every one of its files other than the mode, which \<open>set_active_mode\<close> is there to change,
  keeps its contents, with one exception: when a \<open>stat\<close> behind \<open>Path::exists\<close> fails, the run's loopback
  layer, and no other file, may have been replaced by the empty one. So its policy stays as it was
  published, unless such a failure takes its loopback authorities away; none is ever added.
\<close>

theorem live_runs_survive:
  assumes "live_run name h" and "\<And>pid n retired. (pid, n, RetireRun name retired) \<notin> set ops"
  shows "live_run name (perform_all env ops h) \<and>
    (\<forall>q c m l. q \<in> run_files name \<longrightarrow> node_at h q = Some (FileNode c m l) \<longrightarrow>
       (\<exists>m. node_at (perform_all env ops h) q = Some (FileNode c m l)) \<or>
       stat_fails h \<and> q = RUNS @ [name, ''loopback.allow''] \<and>
         (\<exists>m. node_at (perform_all env ops h) q = Some (FileNode [] m False)))"
proof -
  have spares: "spares name h (perform_all env ops h)"
    using assms(2)
  proof (induction ops rule: rev_induct)
    case Nil
    then show ?case
      by (simp add: perform_all_def sparing.same)
  next
    case (snoc x ops)
    obtain pid n op where x: "x = (pid, n, op)"
      by (metis prod.exhaust)
    let ?h = "perform_all env ops h"
    have "spares name h ?h"
      using snoc by simp
    moreover have "spares name ?h (?h\<lparr>hs_pid := pid, hs_next_tmp := n\<rparr>)"
      by (rule sparing.same_files) simp_all
    moreover have "op \<noteq> RetireRun name retired" for retired
      using snoc(2) [of pid n retired] x by auto
    then have "spares name (?h\<lparr>hs_pid := pid, hs_next_tmp := n\<rparr>) (perform_all env (ops @ [x]) h)"
      unfolding x perform_all_append by (rule perform_spares)
    ultimately show ?case
      using sparing.steps by blast
  qed
  have "(\<exists>m. node_at (perform_all env ops h) q = Some (FileNode c m l)) \<or>
     stat_fails h \<and> q = RUNS @ [name, ''loopback.allow''] \<and>
       (\<exists>m. node_at (perform_all env ops h) q = Some (FileNode [] m False))"
    if q: "q \<in> run_files name" and n: "node_at h q = Some (FileNode c m l)" for q c m l
  proof -
    have "gentle (node_at h q) (node_at (perform_all env ops h) q)
        \<or> stat_fails h \<and> restarted ensured_file q (node_at (perform_all env ops h) q)"
      using spares assms(1) q by (auto simp: spares_def keeps_def)
    then show ?thesis
      using n q by (auto simp: restarted_def ensured_file_def run_files_def prefix_def GLOBAL_def GLOBAL_LOOPBACK_def
          PROJECTS_def RUNS_def)
  qed
  then show ?thesis
    using spares_live [OF assms(1) spares] by blast
qed

section \<open>Examples\<close>

definition example_policy_env :: policy_env where
  "example_policy_env = \<lparr>pe_idna = (\<lambda>_. None), pe_key_of = (\<lambda>_. ''k''), pe_harnesses = [(''claude'', [''b.com''])]\<rparr>"

definition example_project :: project_identity where
  "example_project = \<lparr>pj_key = ''k'', pj_path = ''/p''\<rparr>"

text \<open>A store with a list for everybody, one for a project, and no run.\<close>

definition example_store :: host where
  "example_store =
     \<lparr>hs_tree =
        [([], DirNode MODE_755), (PROJECTS, DirNode MODE_755), ([''log''], DirNode MODE_755), (RUNS, DirNode MODE_755),
         (LOCK_PATH, FileNode [] MODE_600 False), (GLOBAL, FileNode (''a.com'' @ [LF] @ ''b.com'' @ [LF]) MODE_644 False),
         (GLOBAL_LOOPBACK, FileNode [] MODE_644 False), (DENIED_LOG, FileNode [] MODE_622 False),
         (PROJECTS @ [''k''], DirNode MODE_755), (PROJECTS @ [''k'', ''path''], FileNode ''/p'' MODE_600 False),
         (PROJECTS @ [''k'', ''allow.local''], FileNode (''a.com'' @ [LF]) MODE_644 False),
         (PROJECTS @ [''k'', ''loopback.allow''], FileNode [] MODE_644 False)],
      hs_faults = [], hs_stat_faults = [], hs_next_tmp = 0, hs_pid = 7\<rparr>"

definition example_run :: bytes where "example_run = ''7-1''"

definition example_running :: host where
  "example_running = example_store\<lparr>hs_tree := hs_tree example_store @
     [(RUNS @ [example_run], DirNode MODE_755), (RUNS @ [example_run, ''lease''], FileNode [] MODE_600 True),
      (RUNS @ [example_run, ''run.allow''], FileNode (''c.com'' @ [LF]) MODE_644 False)]\<rparr>"

theorem live_runs_survive_witness:
  "live_run example_run (perform_all example_policy_env
     [(8, 0, TakeSnapshot), (9, 0, SetActiveMode Open), (8, 0, MutateGlobal [''d.com''] [''a.com''])] example_running)"
proof -
  have "\<not> hidden example_run" and "node_at example_running (RUNS @ [example_run]) = Some (DirNode MODE_755)"
    and "node_at example_running (RUNS @ [example_run, ''lease'']) = Some (FileNode [] MODE_600 True)"
    by code_simp+
  then have "live_run example_run example_running"
    by (auto simp: live_run_def)
  from conjunct1 [OF live_runs_survive [OF this]] show ?thesis
    by auto
qed

end
