(* ===== verification/Cli_Changes.thy ===== *)
theory Cli_Changes
  imports Cli_Guarantees
begin

text \<open>
  What an operation of the policy store does to the list it is about, on every path through it:
  the list is either the old one or exactly the new one, and the result says which. The locale
  \<open>stored_list\<close> is the contract of a reader and a writer, interpreted for domains and for loopback
  authorities.
\<close>

section \<open>Stored lists\<close>

definition has_contents :: "path \<Rightarrow> bytes \<Rightarrow> host \<Rightarrow> bool" where
  "has_contents p c h \<longleftrightarrow> (\<exists>m l. node_at h p = Some (FileNode c m l))"

definition changed_list :: "'a list \<Rightarrow> 'a list \<Rightarrow> 'a set \<Rightarrow> 'a list" where
  "changed_list xs add remove = filter (\<lambda>x. x \<notin> remove) (foldl push_new xs add)"

lemma on_files_has_contents [simp]: "on_files (has_contents p c)"
  by (simp add: on_files_def has_contents_def)

lemma set_changed_list: "distinct xs \<Longrightarrow> set (changed_list xs add remove) = (set xs \<union> set add) - remove"
  using foldl_push_new [of xs add] by (auto simp: changed_list_def)

lemma keeps_contents:
  assumes "keeps S T h h'" and "p \<notin> T" and "has_contents p c h"
  shows "has_contents p c h' \<or> stat_fails h \<and> (\<exists>d. S p d \<and> has_contents p d h')"
proof -
  obtain m l where "node_at h p = Some (FileNode c m l)"
    using assms(3) by (auto simp: has_contents_def)
  then show ?thesis
    using assms(1,2) unfolding keeps_def restarted_def has_contents_def by (metis gentle_file)
qed

lemma holds_triple:
  assumes "obeys (keeps no_file T) m" and "p \<notin> T"
  shows "triple (has_contents p c) m (\<lambda>_. has_contents p c) (has_contents p c)"
proof (rule tripleI)
  fix h h' :: host and r
  assume "has_contents p c h" and m: "m h = (r, h')"
  moreover have "keeps no_file T h h'"
    using assms(1) m unfolding obeys_def by (metis snd_conv)
  ultimately show "case r of Ok _ \<Rightarrow> has_contents p c h' | Err _ \<Rightarrow> has_contents p c h'"
    using keeps_contents [OF _ assms(2)] by (cases r) auto
qed

text \<open>
  A file with contents \<open>c\<close>, or one that was made anew; \<open>b\<close> tells whether a \<open>stat\<close> may fail.
\<close>

definition begun :: "(path \<Rightarrow> bytes \<Rightarrow> bool) \<Rightarrow> bool \<Rightarrow> path \<Rightarrow> bytes \<Rightarrow> host \<Rightarrow> bool" where
  "begun S b p c h \<longleftrightarrow> (stat_fails h \<longrightarrow> b) \<and> (has_contents p c h \<or> b \<and> (\<exists>d. S p d \<and> has_contents p d h))"

lemma on_files_begun [simp]: "on_files (begun S b p c)"
  by (simp add: on_files_def begun_def has_contents_def stat_fails_def)

lemma begins: "has_contents p c h \<Longrightarrow> begun S (stat_fails h) p c h"
  by (simp add: begun_def)

lemma begun_triple:
  assumes "obeys (keeps S T) m" and "p \<notin> T"
  shows "triple (begun S b p c) m (\<lambda>_. begun S b p c) (begun S b p c)"
proof (rule tripleI)
  fix h h' :: host and r
  assume h: "begun S b p c h" and m: "m h = (r, h')"
  have k: "keeps S T h h'"
    using assms(1) m unfolding obeys_def by (metis snd_conv)
  then have "stat_fails h' \<Longrightarrow> stat_fails h"
    using stat_fails_mono by (auto simp: keeps_def)
  then have "begun S b p c h'"
    using h keeps_contents [OF k assms(2)] unfolding begun_def by blast
  then show "case r of Ok _ \<Rightarrow> begun S b p c h' | Err _ \<Rightarrow> begun S b p c h'"
    by (cases r) simp_all
qed

text \<open>What a file may hold that is begun, and what follows from each of the possibilities.\<close>

lemma begun_cases:
  assumes "\<And>d. d = c \<or> b \<and> S p d \<Longrightarrow> triple (\<lambda>h. has_contents p d h \<and> A h) m (Q d) (E d)"
  shows "triple (\<lambda>h. begun S b p c h \<and> A h) m (\<lambda>x h. \<exists>d. (d = c \<or> b \<and> S p d) \<and> Q d x h) (\<lambda>h. \<exists>d. (d = c \<or> b \<and> S p d) \<and> E d h)"
proof (rule tripleI)
  fix h h' :: host and r
  assume h: "begun S b p c h \<and> A h" and m: "m h = (r, h')"
  then obtain d where d: "d = c \<or> b \<and> S p d" and "has_contents p d h \<and> A h"
    by (auto simp: begun_def)
  then have "case r of Ok x \<Rightarrow> Q d x h' | Err _ \<Rightarrow> E d h'"
    using m by (intro tripleD [OF assms])
  then show "case r of Ok x \<Rightarrow> \<exists>d. (d = c \<or> b \<and> S p d) \<and> Q d x h' | Err _ \<Rightarrow> \<exists>d. (d = c \<or> b \<and> S p d) \<and> E d h'"
    using d by (cases r) auto
qed

lemma read_contents:
  "triple (has_contents p c) (read_list reader p) (\<lambda>xs h. reader c = Ok xs \<and> has_contents p c h) (has_contents p c)"
proof -
  have "triple (has_contents p c) (read_file p) (\<lambda>d h. d = c \<and> has_contents p c h) (has_contents p c)"
    unfolding read_file_def
    by (rule triple_fault [OF on_files_has_contents], rule tripleI)
      (auto simp: contents_at_def has_contents_def split: result.split)
  moreover have "triple (\<lambda>h. d = c \<and> has_contents p c h) (io_result (reader d))
      (\<lambda>xs h. reader c = Ok xs \<and> has_contents p c h) (has_contents p c)" for d
    by (rule tripleI) (auto simp: io_result_def split: result.splits)
  ultimately show ?thesis
    unfolding read_list_def by (rule triple_bind)
qed

lemma write_contents:
  "triple (has_contents p c) (write_atomic p d m)
     (\<lambda>_ h. node_at h p = Some (FileNode d m False)) (has_contents p c)"
proof (rule tripleI)
  fix h h' :: host and r
  assume "has_contents p c h" and w: "write_atomic p d m h = (r, h')"
  then obtain k l where n: "node_at h p = Some (FileNode c k l)"
    by (auto simp: has_contents_def)
  show "case r of Ok _ \<Rightarrow> node_at h' p = Some (FileNode d m False) | Err _ \<Rightarrow> has_contents p c h'"
  proof (cases r)
    case (Ok u)
    then show ?thesis
      using write_atomic_Ok [of p d m h u h' p] w by simp
  next
    case (Err e)
    then show ?thesis
      using write_atomic_others [OF w n] by (auto simp: has_contents_def)
  qed
qed

locale stored_list =
  fixes reader :: "bytes \<Rightarrow> ('a list, cli_error) result" and writer :: "'a list \<Rightarrow> bytes" and valid :: "'a \<Rightarrow> bool"
  assumes read_valid: "reader c = Ok xs \<Longrightarrow> distinct xs \<and> list_all valid xs"
    and read_written: "distinct xs \<Longrightarrow> list_all valid xs \<Longrightarrow> reader (writer xs) = Ok xs"
begin

lemma changed_valid:
  assumes "reader c = Ok xs" and "list_all valid add"
  shows "distinct (changed_list xs add remove)" and "list_all valid (changed_list xs add remove)"
  using read_valid [OF assms(1)] foldl_push_new [of xs add] assms(2) by (auto simp: changed_list_def list_all_iff)

lemma read_changed:
  "reader c = Ok xs \<Longrightarrow> list_all valid add \<Longrightarrow>
     reader (writer (changed_list xs add remove)) = Ok (changed_list xs add remove)"
  using read_written changed_valid by blast

lemma mutate_exact:
  assumes "reader c = Ok xs"
  shows "triple (has_contents p c) (mutate_list reader writer not_allowed p add remove)
     (\<lambda>_ h. remove \<subseteq> set xs \<union> set add \<and>
        node_at h p = Some (FileNode (writer (changed_list xs add remove)) MODE_644 False)) (has_contents p c)"
  unfolding mutate_list_def
proof (rule triple_bind [OF read_contents])
  fix ys
  let ?new = "foldl push_new ys add"
  have all: "set (foldl push_new xs add) = set xs \<union> set add"
    using read_valid [OF assms] foldl_push_new [of xs add] by simp
  have "triple (has_contents p c) (if \<not> remove \<subseteq> set ?new then io_fail (IoText (not_allowed (remove - set ?new)))
         else write_atomic p (writer (filter (\<lambda>x. x \<notin> remove) ?new)) MODE_644)
     (\<lambda>_ h. remove \<subseteq> set xs \<union> set add \<and>
        node_at h p = Some (FileNode (writer (changed_list xs add remove)) MODE_644 False)) (has_contents p c)"
    if "ys = xs"
  proof (cases "remove \<subseteq> set ?new")
    case True
    then show ?thesis
      using write_contents [of p c "writer (changed_list xs add remove)" MODE_644] all that
      by (simp add: changed_list_def)
  next
    case False
    then show ?thesis
      by (simp add: triple_def io_fail_def)
  qed
  then show "triple (\<lambda>h. reader c = Ok ys \<and> has_contents p c h)
     (let xs = ?new in if \<not> remove \<subseteq> set xs then io_fail (IoText (not_allowed (remove - set xs)))
         else write_atomic p (writer (filter (\<lambda>x. x \<notin> remove) xs)) MODE_644)
     (\<lambda>_ h. remove \<subseteq> set xs \<union> set add \<and>
        node_at h p = Some (FileNode (writer (changed_list xs add remove)) MODE_644 False)) (has_contents p c)"
    unfolding Let_def using assms by (cases "reader c = Ok ys") (simp_all add: triple_def)
qed

end

interpretation domain_list: stored_list "read_domains idna" domains_text valid_policy_domain for idna
proof
  show "distinct xs \<and> list_all valid_policy_domain xs" if "read_domains idna c = Ok xs" for c xs
    using that by (auto simp: read_domains_def and_then_eq_Ok dest: normalize_domains_valid)
qed (rule stored_domains(2))

interpretation authority_list: stored_list read_loopback_authorities authorities_text valid_loopback_authority
proof
  show "distinct xs \<and> list_all valid_loopback_authority xs" if "read_loopback_authorities c = Ok xs" for c xs
    using that by (auto simp: read_loopback_authorities_def and_then_eq_Ok dest: normalize_loopback_authorities_valid)
qed (rule stored_authorities(2))

section \<open>Under the lock\<close>

lemma with_lock_triple:
  assumes "triple P f Q E" and "on_files P" and "\<And>x. on_files (Q x)" and "on_files E"
    and "\<And>h. P h \<Longrightarrow> F h" and "\<And>h. E h \<Longrightarrow> F h"
    and "\<And>x. triple (Q x) (dropped x) (\<lambda>_. F) F"
  shows "triple P (with_lock dropped f) Q F"
proof -
  have still: "triple A (lock_call) (\<lambda>_. A) A" if "on_files A" for A
    unfolding lock_call_def by (rule triple_fault [OF that triple_return])
  have inner: "triple P (\<lambda>h. case f h of (r, h) \<Rightarrow>
      (case lock_call h of
         (Ok _, h) \<Rightarrow> (r, h)
       | (Err e, h) \<Rightarrow> (Err e, (case r of Ok x \<Rightarrow> snd (dropped x h) | Err _ \<Rightarrow> h)))) Q F"
  proof (rule tripleI)
    fix h h' :: host and r
    assume P: "P h" and m: "(case f h of (r, h) \<Rightarrow>
      (case lock_call h of
         (Ok _, h) \<Rightarrow> (r, h)
       | (Err e, h) \<Rightarrow> (Err e, (case r of Ok x \<Rightarrow> snd (dropped x h) | Err _ \<Rightarrow> h)))) = (r, h')"
    obtain s h1 where f: "f h = (s, h1)"
      by fastforce
    obtain u h2 where l: "lock_call h1 = (u, h2)"
      by fastforce
    show "case r of Ok x \<Rightarrow> Q x h' | Err _ \<Rightarrow> F h'"
    proof (cases s)
      case (Ok x)
      then have "Q x h1"
        using tripleD [OF assms(1) P f] by simp
      then have Q: "Q x h2"
        using tripleD [OF still [OF assms(3)] _ l] by (cases u) auto
      obtain v h3 where d: "dropped x h2 = (v, h3)"
        by fastforce
      have "F h3"
        using tripleD [OF assms(7) Q d] by (cases v) auto
      then show ?thesis
        using m Q by (cases u) (auto simp: f l Ok d)
    next
      case (Err e)
      then have "E h1"
        using tripleD [OF assms(1) P f] by simp
      then have "E h2"
        using tripleD [OF still [OF assms(4)] _ l] by (cases u) auto
      then show ?thesis
        using m assms(6) by (cases u) (auto simp: f l Err)
    qed
  qed
  have opens: "triple P (open_existing LOCK_PATH) (\<lambda>_. P) F"
    unfolding open_existing_def
    by (rule triple_fault [OF assms(2)])
      (auto simp: triple_def io_then_def io_bind_def contents_at_def io_return_def assms(5) split: option.splits node.splits result.splits)
  show ?thesis
    unfolding with_lock_def
    by (rule triple_then [OF opens triple_then [OF triple_weaken [OF still [OF assms(2)]] inner]]) (simp_all add: assms(5))
qed

lemma locked_triple:
  assumes "obeys (keeps S {}) ensure" and "triple (\<lambda>h. begun S b p c h \<and> A h) f Q E"
    and "triple A ensure (\<lambda>_. A) (\<lambda>_. True)"
    and "on_files A" and "\<And>x. on_files (Q x)" and "on_files E" and "\<And>h. begun S b p c h \<Longrightarrow> E h"
  shows "triple (\<lambda>h. begun S b p c h \<and> A h) (locked f) Q (\<lambda>h. E h \<or> (\<exists>x. Q x h))"
proof -
  let ?F = "\<lambda>h. E h \<or> (\<exists>x. Q x h)"
  have "on_files (\<lambda>h. begun S b p c h \<and> A h)"
    using assms(4) on_files_begun [of S b p c] unfolding on_files_def by blast
  then have "triple (\<lambda>h. begun S b p c h \<and> A h) (with_lock (\<lambda>_. io_return ()) f) Q ?F"
    by (rule with_lock_triple [OF assms(2) _ assms(5,6)])
      (use assms(7) in \<open>auto simp: triple_def io_return_def\<close>)
  moreover have "triple (\<lambda>h. begun S b p c h \<and> A h) ensure (\<lambda>_ h. begun S b p c h \<and> A h) ?F"
  proof (rule tripleI)
    fix h h' :: host and r
    assume h: "begun S b p c h \<and> A h" and m: "ensure h = (r, h')"
    have "case r of Ok _ \<Rightarrow> begun S b p c h' | Err _ \<Rightarrow> begun S b p c h'"
      by (rule tripleD [OF begun_triple [OF assms(1)] _ m]) (use h in simp_all)
    moreover have "case r of Ok _ \<Rightarrow> A h' | Err _ \<Rightarrow> True"
      by (rule tripleD [OF assms(3) _ m]) (use h in simp)
    ultimately show "case r of Ok _ \<Rightarrow> begun S b p c h' \<and> A h' | Err _ \<Rightarrow> ?F h'"
      using assms(7) by (cases r) auto
  qed
  ultimately show ?thesis
    unfolding locked_def locked_dropping_def by (blast intro: triple_then)
qed

section \<open>Adding and removing\<close>

lemma keeps_written: "obeys (keeps S {p}) (write_atomic p c m)"
  unfolding obeys_def by (intro allI keepsI asks_nothing_write write_atomic_gentle) simp

lemma keeps_mutated: "obeys (keeps restartable {p}) (mutate_list reader writer not_allowed p add remove)"
  unfolding mutate_list_def by (intro host_rules keeps_written)

lemma project_files_path:
  "triple (begun restartable b p c) (project_files_locked project)
     (\<lambda>fs h. fs = (project_dir project @ [''allow.local''], project_dir project @ [''loopback.allow'']) \<and> begun restartable b p c h)
     (begun restartable b p c)"
proof (rule tripleI)
  fix h h' :: host and r
  assume "begun restartable b p c h" and m: "project_files_locked project h = (r, h')"
  then have "case r of Ok _ \<Rightarrow> begun restartable b p c h' | Err _ \<Rightarrow> begun restartable b p c h'"
    by (intro tripleD [OF begun_triple [OF keeping.project_made, of p "{}"]]) simp_all
  then show "case r of
      Ok fs \<Rightarrow> fs = (project_dir project @ [''allow.local''], project_dir project @ [''loopback.allow''])
        \<and> begun restartable b p c h'
    | Err _ \<Rightarrow> begun restartable b p c h'"
    using loading.project_files_Ok m by (cases r) auto
qed

text \<open>The files that are not the one that changes: kept, or made anew when a \<open>stat\<close> failed.\<close>

definition others_kept :: "(path \<Rightarrow> bytes \<Rightarrow> bool) \<Rightarrow> path set \<Rightarrow> host \<Rightarrow> host \<Rightarrow> bool" where
  "others_kept S T h h' \<longleftrightarrow>
     (\<forall>q c. q \<notin> T \<longrightarrow> has_contents q c h \<longrightarrow> has_contents q c h' \<or> stat_fails h \<and> (\<exists>d. S q d \<and> has_contents q d h'))"

lemma keeps_others: "keeps S T h h' \<Longrightarrow> others_kept S T h h'"
  unfolding others_kept_def using keeps_contents by blast

lemma mutate_project_keeps:
  "obeys (keeps restartable {project_dir project @ [''allow.local'']}) (mutate_project env project add remove)"
  unfolding mutate_project_def mutate_file_locked_def
  by (rule keeping.bound [OF keeping.resulted], rule obeys_pair,
      rule keeping.locked_plain, rule keeping.bound_Ok [OF keeping.project_made])
    (auto dest: loading.project_files_Ok intro: keeps_mutated)

lemma read_no_domains: "read_domains idna [] = Ok []"
proof -
  have "utf8_lines [] = Ok []"
    by code_simp
  then show ?thesis
    by (simp add: read_domains_def normalize_domains_def)
qed

text \<open>
  The list that a change starts from: the one that is stored, or, when a \<open>stat\<close> failed, the empty one
  that took its place.
\<close>

definition starts_from :: "bool \<Rightarrow> bytes \<Rightarrow> 'a list \<Rightarrow> bytes \<Rightarrow> 'a list \<Rightarrow> bool" where
  "starts_from b c xs d zs \<longleftrightarrow> d = c \<and> zs = xs \<or> b \<and> d = [] \<and> zs = []"

lemma allow_restarts: "restartable (project_dir project @ [''allow.local'']) d \<Longrightarrow> d = []"
  by (auto simp: restartable_def ensured_file_def project_file_def)

lemma changed_domains:
  assumes "read_domains idna c = Ok xs" and "normalize_batch idna add remove = Ok (as, rs)"
  shows "\<exists>S. set (changed_list xs as rs) = (set xs \<union> set as) - rs \<and>
     read_domains idna (domains_text (changed_list xs as rs)) = Ok (changed_list xs as rs) \<and>
     parse_domain_layer (domains_text (changed_list xs as rs)) = Ok S \<and> show_policy_entry ` S = set (changed_list xs as rs)"
proof -
  note valid = domain_list.changed_valid [OF assms(1) loading.normalize_batch_valid [OF assms(2)]]
  show ?thesis
    using stored_domains [OF valid [of rs]] set_changed_list domain_list.read_valid [OF assms(1)] by blast
qed

definition changed_exactly :: "policy_env \<Rightarrow> path \<Rightarrow> bytes list \<Rightarrow> bytes list \<Rightarrow> bytes set \<Rightarrow> host \<Rightarrow> bool" where
  "changed_exactly env p zs as rs h \<longleftrightarrow> rs \<subseteq> set zs \<union> set as \<and>
     node_at h p = Some (FileNode (domains_text (changed_list zs as rs)) MODE_644 False)"

lemma on_files_changed [simp]: "on_files (changed_exactly env p zs as rs)"
  by (simp add: on_files_def changed_exactly_def)

lemma mutate_project_triple:
  assumes "p = project_dir project @ [''allow.local'']"
    and "read_domains (pe_idna env) c = Ok xs" and "normalize_batch (pe_idna env) add remove = Ok (as, rs)"
  shows "triple (begun restartable b p c) (mutate_project env project add remove)
     (\<lambda>_ h. \<exists>d zs. starts_from b c xs d zs \<and> changed_exactly env p zs as rs h)
     (\<lambda>h. \<exists>d zs. starts_from b c xs d zs \<and> (has_contents p d h \<or> changed_exactly env p zs as rs h))"
    (is "triple ?P _ (\<lambda>_. ?new) ?any")
proof -
  let ?E = "\<lambda>h. \<exists>d zs. starts_from b c xs d zs \<and> has_contents p d h"
  have P_E: "?E h" if "?P h" for h
    using that allow_restarts [of project] assms(1) by (auto simp: begun_def starts_from_def)
  have "triple (\<lambda>h. ?P h \<and> True) (mutate_file_locked (pe_idna env) p as rs)
      (\<lambda>_ h. \<exists>d. (d = c \<or> b \<and> restartable p d) \<and> changed_exactly env p (if d = c then xs else []) as rs h)
      (\<lambda>h. \<exists>d. (d = c \<or> b \<and> restartable p d) \<and> has_contents p d h)"
  proof (rule begun_cases)
    fix d
    assume "d = c \<or> b \<and> restartable p d"
    then have "read_domains (pe_idna env) d = Ok (if d = c then xs else [])"
      using assms(1,2) allow_restarts read_no_domains by auto
    from domain_list.mutate_exact [OF this, of p DomainsNotAllowed as rs]
    show "triple (\<lambda>h. has_contents p d h \<and> True) (mutate_file_locked (pe_idna env) p as rs)
        (\<lambda>_. changed_exactly env p (if d = c then xs else []) as rs) (has_contents p d)"
      unfolding mutate_file_locked_def changed_exactly_def by simp
  qed
  moreover have "starts_from b c xs d (if d = c then xs else [])" if "d = c \<or> b \<and> restartable p d" for d
    using that assms(1) allow_restarts [of project] by (auto simp: starts_from_def)
  ultimately have body: "triple ?P (mutate_file_locked (pe_idna env) p as rs) (\<lambda>_. ?new) ?E"
    by - (erule triple_weaken, blast+)
  have "triple (\<lambda>h. fs = (p, project_dir project @ [''loopback.allow'']) \<and> ?P h)
      (case fs of (fp, _) \<Rightarrow> mutate_file_locked (pe_idna env) fp as rs) (\<lambda>_. ?new) ?E" for fs
    using body by (cases "fs = (p, project_dir project @ [''loopback.allow''])") (simp_all add: triple_def)
  moreover have "triple ?P (project_files_locked project) (\<lambda>fs h. fs = (p, project_dir project @ [''loopback.allow'']) \<and> ?P h) ?E"
    by (rule triple_weaken [OF project_files_path]) (use P_E assms(1) in blast)+
  ultimately have "triple ?P (io_bind (project_files_locked project) (\<lambda>(fp, _). mutate_file_locked (pe_idna env) fp as rs))
      (\<lambda>_. ?new) ?E"
    by - (rule triple_bind)
  then have "triple (\<lambda>h. ?P h \<and> True) (locked (io_bind (project_files_locked project)
      (\<lambda>(fp, _). mutate_file_locked (pe_idna env) fp as rs))) (\<lambda>_. ?new) (\<lambda>h. ?E h \<or> (\<exists>x :: unit. ?new h))"
    by (intro locked_triple keeping.ensured P_E)
      (auto simp: on_files_def changed_exactly_def has_contents_def triple_def split: result.split)
  then have locks: "triple ?P (locked (io_bind (project_files_locked project)
      (\<lambda>(fp, _). mutate_file_locked (pe_idna env) fp as rs))) (\<lambda>_. ?new) ?any"
    by (rule triple_weaken) blast+
  have "mutate_project env project add remove = locked (io_bind (project_files_locked project)
      (\<lambda>(fp, _). mutate_file_locked (pe_idna env) fp as rs))"
    by (rule ext) (simp add: mutate_project_def io_bind_def [of "io_result _"] io_result_def assms(3))
  then show ?thesis
    using locks by simp
qed

text \<open>
  C12: a change of a list is all or nothing, and exact. Let a project's file hold a list. Then
  \<open>mutate_project\<close>, whatever fails in it, leaves either the contents it started from, and then it
  reports an error, or the file that lists the entries it started from and the added ones without
  the removed ones, which are all among them; the host reads that file as this list, and the proxy
  accepts exactly its entries. It starts from the stored list, unless a \<open>stat\<close> behind
  \<open>Path::exists\<close> fails: then it may start from the empty list that it puts in its place. No other
  file of the store changes its contents, again unless such a \<open>stat\<close> fails: then a list may become
  empty, and a project's path be written anew.
\<close>

theorem project_change_is_exact:
  assumes "mutate_project env project add remove h = (r, h')"
    and "p = project_dir project @ [''allow.local'']"
    and "node_at h p = Some (FileNode c m l)" and "read_domains (pe_idna env) c = Ok xs"
  shows "(\<exists>d zs. starts_from (stat_fails h) c xs d zs \<and>
     ((\<not> is_ok r \<and> has_contents p d h') \<or>
     (\<exists>as rs ys S. normalize_batch (pe_idna env) add remove = Ok (as, rs) \<and> rs \<subseteq> set zs \<union> set as \<and>
       ys = changed_list zs as rs \<and> set ys = (set zs \<union> set as) - rs \<and>
       node_at h' p = Some (FileNode (domains_text ys) MODE_644 False) \<and>
       read_domains (pe_idna env) (domains_text ys) = Ok ys \<and>
       parse_domain_layer (domains_text ys) = Ok S \<and> show_policy_entry ` S = set ys))) \<and>
    others_kept restartable {p} h h'"
    (is "(\<exists>d zs. ?from d zs \<and> (?old d \<or> ?new zs)) \<and> _")
proof
  have old: "has_contents p c h"
    using assms(3) by (auto simp: has_contents_def)
  show "others_kept restartable {p} h h'"
    using mutate_project_keeps [of project env add remove] assms(1,2) unfolding obeys_def by (metis keeps_others snd_conv)
  show "\<exists>d zs. ?from d zs \<and> (?old d \<or> ?new zs)"
  proof (cases "normalize_batch (pe_idna env) add remove")
    case (Ok batch)
    then obtain as rs where b: "normalize_batch (pe_idna env) add remove = Ok (as, rs)"
      by (cases batch) simp
    have reads: "\<exists>e. read_domains (pe_idna env) e = Ok zs" if "?from d zs" for d zs
      using that assms(4) read_no_domains by (auto simp: starts_from_def)
    have new: "?new zs" if start: "?from d zs" and change: "changed_exactly env p zs as rs h'" for d zs
    proof -
      obtain e where "read_domains (pe_idna env) e = Ok zs"
        using reads [OF start] by blast
      from changed_domains [OF this b] show ?thesis
        using b change unfolding changed_exactly_def by blast
    qed
    have result: "case r of Ok _ \<Rightarrow> \<exists>d zs. ?from d zs \<and> changed_exactly env p zs as rs h'
       | Err _ \<Rightarrow> \<exists>d zs. ?from d zs \<and> (has_contents p d h' \<or> changed_exactly env p zs as rs h')"
      by (rule tripleD [OF mutate_project_triple [OF assms(2,4) b] begins [OF old] assms(1)])
    then show ?thesis
    proof (cases r)
      case (Ok u)
      obtain d zs where start: "?from d zs" and "changed_exactly env p zs as rs h'"
        using result unfolding Ok result.case by blast
      then have "?old d \<or> ?new zs"
        using new [OF start] by (intro disjI2)
      with start show ?thesis
        by (intro exI conjI)
    next
      case (Err e)
      obtain d zs where start: "?from d zs" and "has_contents p d h' \<or> changed_exactly env p zs as rs h'"
        using result unfolding Err result.case by blast
      then have "?old d \<or> ?new zs"
        using new [OF start] Err by (simp only: is_ok.simps simp_thms) blast
      with start show ?thesis
        by (intro exI conjI)
    qed
  next
    case (Err e)
    then have "r = Err (IoText e)" and "h' = h"
      using assms(1) by (auto simp: mutate_project_def io_bind_def io_result_def)
    then show ?thesis
      using old by (auto simp: starts_from_def)
  qed
qed

section \<open>Denying\<close>

definition layer_path :: "project_identity option \<Rightarrow> bytes \<Rightarrow> path" where
  "layer_path project name = (case project of None \<Rightarrow> [name] | Some j \<Rightarrow> project_dir j @ [name])"

lemma keeps_reaped: "obeys (keeps no_file {q. prefix RUNS q}) (reap_run name)"
proof (rule holding.run_reaped, unfold obeys_def, intro allI keepsI asks_nothing_remove)
  fix h q
  obtain r h' where m: "remove_dir_all (RUNS @ [name]) h = (r, h')"
    by fastforce
  assume "q \<notin> {q. prefix RUNS q}"
  then have "node_at h' q = node_at h q"
    using remove_dir_all_cases [OF m, of q] append_prefixD by blast
  then show "gentle (node_at h q) (node_at (snd (remove_dir_all (RUNS @ [name]) h)) q)"
    by (simp add: m)
qed

lemma keeps_more: "obeys (keeps no_file T) m \<Longrightarrow> T \<subseteq> U \<Longrightarrow> obeys (keeps S U) m"
  unfolding obeys_def keeps_def restarted_def by blast

lemma layer_path_outside: "\<not> prefix RUNS (layer_path project ''allow.local'')" "\<not> prefix RUNS (layer_path project ''loopback.allow'')"
  by (auto simp: layer_path_def RUNS_def project_dir_def PROJECTS_def split: option.split)

lemma selected_path:
  "(case project of None \<Rightarrow> Some GLOBAL
      | Some j \<Rightarrow> map_option (\<lambda>e. PROJECTS @ [pp_key e, ''allow.local'']) (stored_project s j)) = Some fp \<Longrightarrow>
     fp = layer_path project ''allow.local''"
  by (auto simp: layer_path_def project_dir_def GLOBAL_def stored_project_def find_Some_iff split: option.split_asm)

text \<open>Whether the store knows a project: its directory holds its path.\<close>

definition project_stored :: "project_identity \<Rightarrow> host \<Rightarrow> bool" where
  "project_stored project h \<longleftrightarrow> (\<exists>m. node_at h (project_dir project) = Some (DirNode m)) \<and>
     has_contents (project_dir project @ [''path'']) (pj_path project) h"

definition unstored :: "project_identity option \<Rightarrow> host \<Rightarrow> bool" where
  "unstored project h \<longleftrightarrow> (\<exists>j. project = Some j \<and> \<not> project_stored j h)"

lemma stored_kept:
  assumes "keeps S T h h'" and "project_stored project h"
    and "\<And>c. \<not> S (project_dir project) c" and "\<And>c. \<not> S (project_dir project @ [''path'']) c"
    and "project_dir project \<notin> T" and "project_dir project @ [''path''] \<notin> T"
  shows "project_stored project h'"
proof -
  have "gentle (node_at h (project_dir project)) (node_at h' (project_dir project))"
    using assms(1,3,5) unfolding keeps_def restarted_def by blast
  moreover have "has_contents (project_dir project @ [''path'']) (pj_path project) h'"
    using keeps_contents [OF assms(1,6)] assms(2,4) unfolding project_stored_def by blast
  ultimately show ?thesis
    using assms(2) by (auto simp: project_stored_def)
qed

lemma project_paths_apart:
  "\<not> ensured_file (project_dir project) c" "\<not> ensured_file (project_dir project @ [''path'']) c"
  "\<not> prefix RUNS (project_dir project)" "\<not> prefix RUNS (project_dir project @ [''path''])"
  by (auto simp: ensured_file_def project_dir_def GLOBAL_def GLOBAL_LOOPBACK_def PROJECTS_def RUNS_def)

lemma read_file_contents:
  assumes "read_file p h = (Ok d, h')" and "node_at h p = Some (FileNode c m l)"
  shows "d = c"
  using assms(1) unfolding read_file_def
  by (cases rule: io_faulty_cases) (use assms(2) in \<open>auto simp: contents_at_def\<close>)

lemma still_after: "obeys (\<lambda>h h'. hs_tree h' = hs_tree h) m \<Longrightarrow> m h = (r, h') \<Longrightarrow> hs_tree h' = hs_tree h"
  unfolding obeys_def by (metis snd_conv)

lemma io_map_forward:
  assumes "\<And>x. x \<in> set xs \<Longrightarrow> obeys (\<lambda>h h'. hs_tree h' = hs_tree h) (f x)"
    and "io_map f xs h = (Ok ys, h')" and "x \<in> set xs"
  shows "\<exists>y h1 h2. y \<in> set ys \<and> f x h1 = (Ok y, h2) \<and> hs_tree h1 = hs_tree h"
  using assms
proof (induction xs arbitrary: h ys)
  case (Cons z zs)
  obtain y h1 ys' where f: "f z h = (Ok y, h1)" and m: "io_map f zs h1 = (Ok ys', h')" and ys: "ys = y # ys'"
    using Cons(3) by (auto simp: io_bind_Ok io_return_def)
  show ?case
  proof (cases "x = z")
    case True
    then show ?thesis
      using f ys by auto
  next
    case False
    have "obeys (\<lambda>h h'. hs_tree h' = hs_tree h) (f z)"
      using Cons(2) by simp
    then have "hs_tree h1 = hs_tree h"
      using still_after f by blast
    then show ?thesis
      using Cons(1) [OF Cons(2) m] Cons(4) False ys by auto
  qed
qed simp

lemma project_found:
  assumes "project_locked env (pj_key project) h = (Ok e, h')" and "project_stored project h"
  shows "pp_key e = pj_key project \<and> pp_path e = pj_path project"
proof -
  let ?p = "PROJECTS @ [pj_key project]"
  obtain h1 h2 c where d: "is_dir ?p h = (Ok True, h1)" and c: "read_file (?p @ [''path'']) h1 = (Ok c, h2)"
      and e: "pp_key e = pj_key project" "pp_path e = c"
    using assms(1)
    by (auto simp: project_locked_def Let_def io_bind_Ok io_return_def invalid_data_def io_fail_def split: if_split_asm)
  have "hs_tree h1 = hs_tree h"
    using still_after [OF still.kind_read d] .
  moreover obtain m l where "node_at h (?p @ [''path'']) = Some (FileNode (pj_path project) m l)"
    using assms(2) by (auto simp: project_stored_def has_contents_def project_dir_def)
  ultimately show ?thesis
    using read_file_contents [OF c, of "pj_path project" m l] e by simp
qed

lemma stored_listed:
  assumes "read_dir PROJECTS h = (Ok names, h')" and "node_at h (PROJECTS @ [key]) = Some n"
  shows "key \<in> set names"
proof -
  have "(PROJECTS @ [key], n) \<in> set (hs_tree h)"
    using assms(2) by (rule map_of_SomeD)
  then have listed: "key \<in> set (names_in PROJECTS (hs_tree h))"
    unfolding names_in_def by force
  from assms(1) show ?thesis
    unfolding read_dir_def
    by (cases rule: io_faulty_cases) (use listed in \<open>auto split: option.split_asm node.split_asm\<close>)
qed

lemma snapshot_finds:
  assumes "snapshot_locked env h = (Ok s, h')" and "project_stored project h"
  shows "stored_project s project \<noteq> None"
proof -
  obtain u h1 g h2 l h3 h4 where reap: "reap_runs_locked h = (Ok u, h1)"
      and g: "read_list (read_domains (pe_idna env)) GLOBAL h1 = (Ok g, h2)"
      and l: "read_list read_loopback_authorities GLOBAL_LOOPBACK h2 = (Ok l, h3)"
      and ps: "projects_locked env h3 = (Ok (sn_projects s), h4)"
    using assms(1) by (auto simp: snapshot_locked_def io_then_def io_bind_Ok io_return_def)
  have "keeps no_file {q. prefix RUNS q} h h1"
    using holding.reaps_runs [OF keeps_reaped] reap unfolding obeys_def by (metis snd_conv)
  then have "project_stored project h1"
    using assms(2) by (rule stored_kept) (simp_all add: project_dir_def PROJECTS_def RUNS_def)
  moreover have "hs_tree h3 = hs_tree h1"
    using still_after [OF still.list_read g] still_after [OF still.list_read l] by simp
  ultimately have stored: "project_stored project h3"
    by (simp add: project_stored_def has_contents_def)
  obtain names h5 es h6 where names: "read_dir PROJECTS h3 = (Ok names, h5)"
      and es: "io_map (project_locked env) names h5 = (Ok es, h6)" and sorted: "sn_projects s = sort_key pp_path es"
    using ps by (auto simp: projects_locked_def io_bind_Ok io_return_def)
  have "pj_key project \<in> set names"
    using stored stored_listed [OF names] by (auto simp: project_stored_def project_dir_def)
  then obtain e h7 h8 where e: "e \<in> set es" "project_locked env (pj_key project) h7 = (Ok e, h8)" "hs_tree h7 = hs_tree h5"
    using io_map_forward [OF still.project_obeys es] by blast
  have "hs_tree h5 = hs_tree h3"
    using still_after [OF still.dir_read names] .
  then have "project_stored project h7"
    using stored e(3) by (simp add: project_stored_def has_contents_def)
  then have "pp_key e = pj_key project \<and> pp_path e = pj_path project"
    by (rule project_found [OF e(2)])
  moreover have "e \<in> set (sn_projects s)"
    using e(1) sorted by simp
  ultimately show ?thesis
    by (auto simp: stored_project_def find_None_iff)
qed

text \<open>
  What a report says and the file then holds, when the list was \<open>xs\<close>. A project that the store does
  not know, \<open>u\<close>, may have the whole batch reported as missing.
\<close>

definition denied_exactly ::
    "bool \<Rightarrow> bytes list \<Rightarrow> bytes list \<Rightarrow> path \<Rightarrow> bytes \<Rightarrow> deny_report \<Rightarrow> host \<Rightarrow> bool" where
  "denied_exactly u ds xs p c rep h \<longleftrightarrow>
     (if dr_missing rep = []
      then set ds \<subseteq> set xs \<and> map fst (dr_remaining rep) = ds \<and>
        node_at h p = Some (FileNode (domains_text (filter (\<lambda>d. d \<notin> set ds) xs)) MODE_644 False)
      else has_contents p c h \<and>
        (map fst (dr_missing rep) = filter (\<lambda>d. d \<notin> set xs) ds \<or> u \<and> map fst (dr_missing rep) = ds))"

lemma deny_locked_triple:
  assumes "p = layer_path project ''allow.local''" and "read_domains (pe_idna env) c = Ok xs"
  shows "triple (\<lambda>h. has_contents p c h \<and> (u \<or> \<not> unstored project h)) (deny_locked env project ds)
     (denied_exactly u ds xs p c) (has_contents p c)"
  unfolding deny_locked_def
proof (rule triple_bind)
  show "triple (\<lambda>h. has_contents p c h \<and> (u \<or> \<not> unstored project h)) (snapshot_locked env)
     (\<lambda>s h. has_contents p c h \<and> (u \<or> (\<forall>j. project = Some j \<longrightarrow> stored_project s j \<noteq> None))) (has_contents p c)"
  proof (rule tripleI)
    fix h h' :: host and r
    assume h: "has_contents p c h \<and> (u \<or> \<not> unstored project h)" and m: "snapshot_locked env h = (r, h')"
    have "p \<notin> {q. prefix RUNS q}"
      using layer_path_outside assms(1) by simp
    then have "case r of Ok _ \<Rightarrow> has_contents p c h' | Err _ \<Rightarrow> has_contents p c h'"
      by (rule tripleD [OF holds_triple [OF holding.takes_snapshot [OF keeps_reaped]] _ m]) (use h in simp)
    then show "case r of Ok s \<Rightarrow> has_contents p c h' \<and> (u \<or> (\<forall>j. project = Some j \<longrightarrow> stored_project s j \<noteq> None))
        | Err _ \<Rightarrow> has_contents p c h'"
      using h m snapshot_finds by (cases r) (auto simp: unstored_def)
  qed
next
  fix s
  have known: "triple (has_contents p c)
     (let label = selected_label project;
         selected =
           (case project of
              None \<Rightarrow> Some GLOBAL
            | Some p \<Rightarrow> map_option (\<lambda>e. PROJECTS @ [pp_key e, ''allow.local'']) (stored_project s p))
     in io_bind (case selected of None \<Rightarrow> io_return [] | Some fp \<Rightarrow> read_list (read_domains (pe_idna env)) fp)
          (\<lambda>allowed.
            let missing = filter (\<lambda>d. d \<notin> set allowed) ds
            in if missing \<noteq> [] then
                 io_return \<lparr>dr_selected = label,
                   dr_missing = map (\<lambda>d. (d, other_sources env s project d label)) missing, dr_remaining = []\<rparr>
               else
                 (case selected of
                    None \<Rightarrow> io_fail IoPanic
                  | Some fp \<Rightarrow>
                      (let retained = filter (\<lambda>d. d \<notin> set ds) allowed;
                           after =
                             (case project of
                                None \<Rightarrow> s\<lparr>sn_global := retained\<rparr>
                              | Some p \<Rightarrow>
                                  s\<lparr>sn_projects :=
                                      update_first (\<lambda>e. pp_key e = pj_key p) (\<lambda>e. e\<lparr>pp_domains := retained\<rparr>) (sn_projects s)\<rparr>)
                       in io_then (write_atomic fp (domains_text retained) MODE_644)
                            (io_return \<lparr>dr_selected = label, dr_missing = [],
                               dr_remaining = map (\<lambda>d. (d, other_sources env after project d [])) ds\<rparr>)))))
     (denied_exactly u ds xs p c) (has_contents p c)" (is "triple _ ?m _ _")
    if found: "u \<or> (\<forall>j. project = Some j \<longrightarrow> stored_project s j \<noteq> None)"
  proof (cases "case project of None \<Rightarrow> Some GLOBAL
      | Some j \<Rightarrow> map_option (\<lambda>e. PROJECTS @ [pp_key e, ''allow.local'']) (stored_project s j)")
    case None
    then have u
      using found by (cases project) simp_all
    then show ?thesis
      unfolding Let_def None option.case
      by (auto simp: triple_def io_bind_def io_return_def io_fail_def denied_exactly_def comp_def)
  next
    case (Some fp)
    then have fp: "fp = p"
      using selected_path assms(1) by blast
    show ?thesis
      unfolding Let_def Some option.case fp
    proof (rule triple_bind [OF read_contents])
      fix allowed
      have writes: "triple (has_contents p c)
          (io_then (write_atomic p (domains_text (filter (\<lambda>d. d \<notin> set ds) xs)) MODE_644) (io_return rep))
          (denied_exactly u ds xs p c) (has_contents p c)"
        if "dr_missing rep = []" "map fst (dr_remaining rep) = ds" "set ds \<subseteq> set xs" for rep
        by (rule triple_then [OF write_contents triple_weaken [OF triple_return [of "denied_exactly u ds xs p c"]]])
          (use that in \<open>simp_all add: denied_exactly_def\<close>)
      have returns: "triple (has_contents p c) (io_return rep) (denied_exactly u ds xs p c) (has_contents p c)"
        if "dr_missing rep \<noteq> []" "map fst (dr_missing rep) = filter (\<lambda>d. d \<notin> set xs) ds" for rep
        using that by (simp add: triple_def io_return_def denied_exactly_def)
      have body: "triple (has_contents p c)
        (if filter (\<lambda>d. d \<notin> set xs) ds \<noteq> [] then io_return rep
         else io_then (write_atomic p (domains_text (filter (\<lambda>d. d \<notin> set ds) xs)) MODE_644) (io_return rep'))
        (denied_exactly u ds xs p c) (has_contents p c)"
        if "map fst (dr_missing rep) = filter (\<lambda>d. d \<notin> set xs) ds" "dr_missing rep' = []" "map fst (dr_remaining rep') = ds"
        for rep rep'
      proof (cases "filter (\<lambda>d. d \<notin> set xs) ds = []")
        case True
        then show ?thesis
          using writes [OF that(2,3)] by (auto simp: filter_empty_conv)
      next
        case False
        then have "dr_missing rep \<noteq> []"
          using that(1) by (metis list.map_disc_iff)
        then show ?thesis
          using returns [OF _ that(1)] False by simp
      qed
      show "triple (\<lambda>h. read_domains (pe_idna env) c = Ok allowed \<and> has_contents p c h)
         (if filter (\<lambda>d. d \<notin> set allowed) ds \<noteq> [] then
            io_return \<lparr>dr_selected = selected_label project,
              dr_missing = map (\<lambda>d. (d, other_sources env s project d (selected_label project)))
                (filter (\<lambda>d. d \<notin> set allowed) ds), dr_remaining = []\<rparr>
          else io_then (write_atomic p (domains_text (filter (\<lambda>d. d \<notin> set ds) allowed)) MODE_644)
            (io_return \<lparr>dr_selected = selected_label project, dr_missing = [],
               dr_remaining = map (\<lambda>d. (d, other_sources env
                 (case project of
                    None \<Rightarrow> s\<lparr>sn_global := filter (\<lambda>d. d \<notin> set ds) allowed\<rparr>
                  | Some p \<Rightarrow>
                      s\<lparr>sn_projects :=
                          update_first (\<lambda>e. pp_key e = pj_key p)
                            (\<lambda>e. e\<lparr>pp_domains := filter (\<lambda>d. d \<notin> set ds) allowed\<rparr>) (sn_projects s)\<rparr>)
                 project d [])) ds\<rparr>))
         (denied_exactly u ds xs p c) (has_contents p c)"
      proof (cases "allowed = xs")
        case True
        show ?thesis
          unfolding True by (rule triple_weaken [OF body]) (simp_all add: comp_def)
      next
        case False
        then show ?thesis
          using assms(2) by (simp add: triple_def)
      qed
    qed
  qed
  show "triple (\<lambda>h. has_contents p c h \<and> (u \<or> (\<forall>j. project = Some j \<longrightarrow> stored_project s j \<noteq> None))) ?m
     (denied_exactly u ds xs p c) (has_contents p c)"
  proof (cases "u \<or> (\<forall>j. project = Some j \<longrightarrow> stored_project s j \<noteq> None)")
    case True
    show ?thesis
      by (rule triple_weaken [OF known [OF True]]) blast+
  next
    case False
    then show ?thesis
      unfolding triple_def by blast
  qed
qed

lemma deny_locked_keeps:
  assumes "p = layer_path project ''allow.local''"
  shows "obeys (keeps ensured_file ({p} \<union> {q. prefix RUNS q})) (deny_locked env project ds)"
proof -
  have "obeys (keeps ensured_file ({p} \<union> {q. prefix RUNS q})) (snapshot_locked env)"
    by (intro ensuring.takes_snapshot keeps_more [OF keeps_reaped]) blast
  moreover have "obeys (keeps ensured_file ({p} \<union> {q. prefix RUNS q})) (write_atomic fp c m)"
    if "(case project of None \<Rightarrow> Some GLOBAL
      | Some j \<Rightarrow> map_option (\<lambda>e. PROJECTS @ [pp_key e, ''allow.local'']) (stored_project s j)) = Some fp" for fp c m s
    using selected_path [OF that] assms keeps_more [OF keeps_written] by blast
  ultimately show ?thesis
    unfolding deny_locked_def Let_def
    by (intro ensuring.bound obeys_if obeys_option ensuring.sequenced ensuring.returned ensuring.failed ensuring.list_read)
qed

lemma layer_ensured: "ensured_file (layer_path project ''allow.local'') d \<Longrightarrow> project = None \<and> d = []"
  by (auto simp: ensured_file_def layer_path_def project_dir_def GLOBAL_def GLOBAL_LOOPBACK_def PROJECTS_def RUNS_def
      split: option.split_asm)

lemma stored_ensured: "triple (\<lambda>h. u \<or> \<not> unstored project h) ensure (\<lambda>_ h. u \<or> \<not> unstored project h) (\<lambda>_. True)"
proof (rule tripleI)
  fix h h' :: host and r
  assume h: "u \<or> \<not> unstored project h" and m: "ensure h = (r, h')"
  have k: "keeps ensured_file {} h h'"
    using ensuring.ensured m unfolding obeys_def by (metis snd_conv)
  have "project_stored j h'" if "project_stored j h" for j
    using k that by (rule stored_kept) (simp_all add: project_paths_apart)
  then show "case r of Ok _ \<Rightarrow> u \<or> \<not> unstored project h' | Err _ \<Rightarrow> True"
    using h by (cases r) (auto simp: unstored_def)
qed

text \<open>
  C13: denying is all or nothing, and the report tells which. If a domain of the batch is not in
  the selected list, the list stays as it is and the report names exactly the missing ones;
  otherwise the list loses exactly the batch, and the report goes through the batch. Only a project
  that the store does not know may have the whole batch reported as missing. When the operation
  fails, one of the two holds of the file. The list is the one that is stored; only for the global
  list, and when a \<open>stat\<close> behind \<open>Path::exists\<close> fails, it may be the empty one that was put in its
  place. Outside the runs no other file changes its contents, unless such a \<open>stat\<close> fails and makes
  a list that every operation ensures empty.
\<close>

theorem deny_is_all_or_nothing:
  assumes "deny env project domains h = (r, h')" and "normalize_domains (pe_idna env) domains = Ok ds"
    and "p = layer_path project ''allow.local''" and "node_at h p = Some (FileNode c m l)"
    and "read_domains (pe_idna env) c = Ok xs"
  shows "(\<exists>d zs. starts_from (stat_fails h \<and> project = None) c xs d zs \<and>
     (case r of
        Ok rep \<Rightarrow> denied_exactly (unstored project h) ds zs p d rep h'
      | Err _ \<Rightarrow> has_contents p d h' \<or> (\<exists>rep. denied_exactly (unstored project h) ds zs p d rep h'))) \<and>
    others_kept ensured_file ({p} \<union> {q. prefix RUNS q}) h h'"
    (is "(\<exists>d zs. ?from d zs \<and> _) \<and> _")
proof
  let ?u = "unstored project h" and ?b = "stat_fails h"
  let ?start = "\<lambda>d. d = c \<or> ?b \<and> ensured_file p d" and ?zs = "\<lambda>d. if d = c then xs else []"
  let ?D = "\<lambda>d. denied_exactly ?u ds (?zs d) p d"
  have old: "begun ensured_file ?b p c h \<and> (?u \<or> \<not> unstored project h)"
    using assms(4) by (auto simp: has_contents_def intro: begins)
  have l: "locked (deny_locked env project ds) h = (r, h')"
    using assms(1,2) by (simp add: deny_def io_bind_def io_result_def)
  have start: "?from d (?zs d)" if "?start d" for d
    using that assms(3) layer_ensured by (auto simp: starts_from_def)
  have "triple (\<lambda>h. begun ensured_file ?b p c h \<and> (?u \<or> \<not> unstored project h)) (deny_locked env project ds)
     (\<lambda>rep h. \<exists>d. ?start d \<and> ?D d rep h) (\<lambda>h. \<exists>d. ?start d \<and> has_contents p d h)"
  proof (intro begun_cases deny_locked_triple assms(3))
    show "read_domains (pe_idna env) d = Ok (?zs d)" if "?start d" for d
      using that assms(3,5) layer_ensured read_no_domains by auto
  qed
  note locks = locked_triple [OF ensuring.ensured this stored_ensured]
  have result: "case r of Ok rep \<Rightarrow> \<exists>d. ?start d \<and> ?D d rep h'
    | Err _ \<Rightarrow> (\<exists>d. ?start d \<and> has_contents p d h') \<or> (\<exists>rep d. ?start d \<and> ?D d rep h')"
    by (rule tripleD [OF locks old l])
      (auto simp: on_files_def unstored_def project_stored_def has_contents_def denied_exactly_def begun_def)
  show "\<exists>d zs. ?from d zs \<and>
     (case r of
        Ok rep \<Rightarrow> denied_exactly ?u ds zs p d rep h'
      | Err _ \<Rightarrow> has_contents p d h' \<or> (\<exists>rep. denied_exactly ?u ds zs p d rep h'))"
  proof (cases r)
    case (Ok rep)
    then obtain d where "?start d" and "?D d rep h'"
      using result by auto
    then show ?thesis
      using start Ok by (intro exI [of _ d] exI [of _ "?zs d"]) simp
  next
    case (Err e)
    then obtain d where "?start d" and "has_contents p d h' \<or> (\<exists>rep. ?D d rep h')"
      using result by auto
    then show ?thesis
      using start Err by (intro exI [of _ d] exI [of _ "?zs d"]) simp
  qed
  have "obeys (keeps ensured_file ({p} \<union> {q. prefix RUNS q})) (locked (deny_locked env project ds))"
    by (intro ensuring.locked_plain deny_locked_keeps assms(3))
  then show "others_kept ensured_file ({p} \<union> {q. prefix RUNS q}) h h'"
    using l keeps_others unfolding obeys_def by (metis snd_conv)
qed

section \<open>Publishing a run\<close>

definition holds :: "path \<Rightarrow> (bytes \<times> node) list \<Rightarrow> host \<Rightarrow> bool" where
  "holds dir ns h \<longleftrightarrow> (\<exists>m. node_at h dir = Some (DirNode m)) \<and> (\<forall>(n, x) \<in> set ns. node_at h (dir @ [n]) = Some x)"

definition run_nodes ::
    "idna \<Rightarrow> bytes \<Rightarrow> project_identity \<Rightarrow> bytes list \<Rightarrow> bytes list \<Rightarrow> loopback_authority list \<Rightarrow> mode \<Rightarrow> bool
       \<Rightarrow> (bytes \<times> node) list" where
  "run_nodes idna harness project hds rds rls mode held =
     [(''mode'', FileNode (cli_mode_as_str mode @ [LF]) MODE_644 False),
      (''loopback.allow'', FileNode (authorities_text rls) MODE_644 False),
      (''run.allow'', FileNode (domains_text rds) MODE_644 False),
      (''harness.allow'', FileNode (domains_text hds) MODE_644 False),
      (''base.allow'', FileNode (domains_text BASE_ALLOWLIST) MODE_644 False),
      (''project-path'', FileNode (pj_path project) MODE_600 False),
      (''project-key'', FileNode (pj_key project) MODE_600 False),
      (''harness'', FileNode harness MODE_600 False),
      (''lease'', FileNode [] MODE_600 held)]"

lemma on_files_holds [simp]: "on_files (holds dir ns)"
  by (auto simp: on_files_def holds_def)

lemma holds_written:
  assumes "n \<notin> fst ` set ns"
  shows "triple (holds dir ns) (write_atomic (dir @ [n]) c m) (\<lambda>_. holds dir ((n, FileNode c m False) # ns)) (\<lambda>_. True)"
proof (rule tripleI)
  fix h h' :: host and r
  assume h: "holds dir ns h" and w: "write_atomic (dir @ [n]) c m h = (r, h')"
  show "case r of Ok _ \<Rightarrow> holds dir ((n, FileNode c m False) # ns) h' | Err _ \<Rightarrow> True"
  proof (cases r)
    case (Ok u)
    have "node_at h' q = (if q = dir @ [n] then Some (FileNode c m False) else node_at h q)" for q
      using w write_atomic_Ok by (auto simp: Ok)
    then show ?thesis
      using h assms by (force simp: Ok holds_def)
  qed simp
qed

lemma holds_opened: "triple (holds dir ns) (open_existing p) (\<lambda>_. holds dir ns) (\<lambda>_. True)"
  unfolding open_existing_def
  by (rule triple_fault [OF on_files_holds])
    (auto simp: triple_def io_then_def io_bind_def contents_at_def io_return_def split: option.splits node.splits result.splits)

lemma holds_locked:
  "triple (holds dir [(n, FileNode c m l)]) (lock_lease (dir @ [n])) (\<lambda>_. holds dir [(n, FileNode c m True)]) (\<lambda>_. True)"
  unfolding lock_lease_def
  by (rule triple_fault [OF on_files_holds])
    (auto simp: triple_def io_bind_def lookup_def set_node_def update_conv' holds_def split: result.split)

lemma normalized_written:
  assumes "normalize_domains idna ds = Ok ds'" and "n \<notin> fst ` set ns"
  shows "triple (holds dir ns) (write_domains idna (dir @ [n]) ds)
     (\<lambda>_. holds dir ((n, FileNode (domains_text ds') MODE_644 False) # ns)) (\<lambda>_. True)"
  using holds_written [OF assms(2), of dir "domains_text ds'" MODE_644] assms(1)
  unfolding write_domains_def by (simp add: triple_def io_bind_def io_result_def)

lemma base_normalized: "normalize_domains idna BASE_ALLOWLIST = Ok BASE_ALLOWLIST"
proof (rule normalize_domains_id)
  show "distinct BASE_ALLOWLIST" "list_all valid_policy_domain BASE_ALLOWLIST"
    by code_simp+
qed

lemma fill_run_exact:
  assumes "normalize_domains (pe_idna env) hds = Ok hds" and "normalize_domains (pe_idna env) rds = Ok rds"
  shows "triple (holds dir []) (fill_run env dir harness project hds rds rls mode)
     (\<lambda>_. holds dir (run_nodes (pe_idna env) harness project hds rds rls mode True)) (\<lambda>_. True)"
  unfolding fill_run_def run_nodes_def write_loopback_authorities_def
  by (rule triple_then [OF holds_written triple_then [OF holds_opened triple_then [OF holds_locked
        triple_then [OF holds_written triple_then [OF holds_written triple_then [OF holds_written
        triple_then [OF normalized_written [OF base_normalized] triple_then [OF normalized_written [OF assms(1)]
        triple_then [OF normalized_written [OF assms(2)] triple_then [OF holds_written holds_written]]]]]]]]]])
    simp_all

subsection \<open>The runs that can be seen\<close>

definition visible_runs :: "host \<Rightarrow> bytes set" where
  "visible_runs h = {name. \<not> hidden name \<and> node_at h (RUNS @ [name]) \<noteq> None}"

definition none_new :: "host \<Rightarrow> host \<Rightarrow> bool" where
  "none_new h h' \<longleftrightarrow> visible_runs h' \<subseteq> visible_runs h"

lemma none_newI:
  assumes "\<And>name. \<not> hidden name \<Longrightarrow> node_at h (RUNS @ [name]) = None \<Longrightarrow> node_at h' (RUNS @ [name]) = None"
  shows "none_new h h'"
  unfolding none_new_def visible_runs_def
proof (intro subsetI CollectI, elim CollectE conjE)
  fix name
  assume "\<not> hidden name" and "node_at h' (RUNS @ [name]) \<noteq> None"
  then show "\<not> hidden name \<and> node_at h (RUNS @ [name]) \<noteq> None"
    using assms [of name] by (cases "node_at h (RUNS @ [name])") simp_all
qed

lemma none_new_written:
  assumes "butlast p \<noteq> RUNS"
  shows "none_new h (snd (write_atomic p c m h))"
proof (rule none_newI)
  fix name
  assume visible: "\<not> hidden name" and absent: "node_at h (RUNS @ [name]) = None"
  obtain r h' where w: "write_atomic p c m h = (r, h')"
    by fastforce
  have p: "RUNS @ [name] \<noteq> p"
    using assms by auto
  have "node_at h' (RUNS @ [name]) = None"
  proof (cases r)
    case (Ok u)
    then show ?thesis
      using w write_atomic_Ok p absent by auto
  next
    case (Err e)
    show ?thesis
    proof (cases "p = []")
      case True
      then show ?thesis
        using w absent by (auto simp: write_atomic_def io_fail_def)
    next
      case False
      obtain i where i: "\<And>q. node_at h' q = node_at h q \<or> q = tmp_name p (hs_pid h) i \<and> node_at h q = None"
        using w Err write_atomic_Err by blast
      have "RUNS @ [name] \<noteq> tmp_name p (hs_pid h) i"
        using assms by (auto simp: tmp_name_def)
      then show ?thesis
        using i absent by metis
    qed
  qed
  then show "node_at (snd (write_atomic p c m h)) (RUNS @ [name]) = None"
    by (simp add: w)
qed

lemma none_new_created:
  assumes "butlast p \<noteq> RUNS \<or> hidden (last p)"
  shows "none_new h (snd (create_node p n h))"
proof (rule none_newI)
  fix name
  assume visible: "\<not> hidden name" and absent: "node_at h (RUNS @ [name]) = None"
  obtain r h' where c: "create_node p n h = (r, h')"
    by fastforce
  have "RUNS @ [name] \<noteq> p"
    using assms visible by auto
  then show "node_at (snd (create_node p n h)) (RUNS @ [name]) = None"
    using create_node_cases [OF c] absent by (auto simp: c)
qed

lemma none_new_removed: "none_new h (snd (remove_dir_all p h))"
proof (rule none_newI)
  fix name
  obtain r h' where m: "remove_dir_all p h = (r, h')"
    by fastforce
  show "node_at h (RUNS @ [name]) = None \<Longrightarrow> node_at (snd (remove_dir_all p h)) (RUNS @ [name]) = None"
    using remove_dir_all_cases [OF m, of "RUNS @ [name]"] by (auto simp: m)
qed

lemma none_new_lease: "none_new h (snd (lock_lease p h))" "none_new h (snd (release_lease p h))"
proof -
  have "none_new h (snd (m h))" if m: "m = lock_lease p \<or> m = release_lease p" for m
  proof (rule none_newI)
    fix name
    obtain r h' where r: "m h = (r, h')"
      by fastforce
    show "node_at h (RUNS @ [name]) = None \<Longrightarrow> node_at (snd (m h)) (RUNS @ [name]) = None"
      using lease_cases [OF m r, of "RUNS @ [name]"] by (auto simp: r)
  qed
  then show "none_new h (snd (lock_lease p h))" "none_new h (snd (release_lease p h))"
    by blast+
qed

lemma none_new_restarted:
  assumes "restartable p c"
  shows "none_new h (snd (write_atomic p c m (h\<lparr>hs_stat_faults := fs\<rparr>)))"
proof -
  have "butlast p \<noteq> RUNS"
    using assms starting_outside [of p c] by (simp add: starting_file_def)
  then have "none_new (h\<lparr>hs_stat_faults := fs\<rparr>) (snd (write_atomic p c m (h\<lparr>hs_stat_faults := fs\<rparr>)))"
    by (rule none_new_written)
  then show ?thesis
    by (simp add: none_new_def visible_runs_def)
qed

interpretation showing: store_order none_new
proof
  show "none_new h h'" if "hs_tree h' = hs_tree h" for h h'
    using that by (simp add: none_new_def visible_runs_def)
  show "none_new a c" if "none_new a b" "none_new b c" for a b c
    using that by (auto simp: none_new_def)
  show "obeys none_new (set_mode p m)" for p m
    unfolding obeys_def
  proof (intro allI none_newI)
    fix h name
    obtain r h' where s: "set_mode p m h = (r, h')"
      by fastforce
    show "node_at h (RUNS @ [name]) = None \<Longrightarrow> node_at (snd (set_mode p m h)) (RUNS @ [name]) = None"
      using set_mode_cases [OF s, of "RUNS @ [name]"] by (auto simp: s)
  qed
  show "obeys none_new (create_dir p)" if "butlast p \<noteq> RUNS \<or> hidden (last p)" for p
    using none_new_created that by (simp add: obeys_def create_dir_def)
  show "obeys none_new (open_new LOCK_PATH)"
    using none_new_created [of LOCK_PATH] by (simp add: obeys_def open_new_def LOCK_PATH_def RUNS_def)
  show "none_new h (snd (write_atomic p c m h))" if "starting_file p c" for h p c m
    using starting_outside [OF that] by (rule none_new_written)
  show "none_new h (snd (write_atomic p c m (h\<lparr>hs_stat_faults := fs\<rparr>)))" if "ensured_file p c" for h p c m fs
    using that by (intro none_new_restarted) (simp add: restartable_def)
  show "none_new h (snd (write_atomic p c m (h\<lparr>hs_stat_faults := fs\<rparr>)))" if "project_file p c" for h p c m fs
    using that by (intro none_new_restarted) (simp add: restartable_def)
qed

interpretation showing: run_order none_new
proof
  have removes: "obeys none_new (remove_dir_all p)" for p
    by (simp add: obeys_def none_new_removed)
  show "obeys none_new (remove_dir_all (run_temporary i))" for i
    by (rule removes)
  show "obeys none_new (reap_run name)" for name
    by (rule showing.run_reaped) (rule removes)
  show "obeys none_new (write_atomic p c m)" if "policy_path p" for p c m
  proof -
    have "butlast p \<noteq> RUNS"
      using that by (auto simp: policy_path_def GLOBAL_def GLOBAL_LOOPBACK_def DENIED_LOG_def PROJECTS_def RUNS_def run_temporary_def)
    then show ?thesis
      by (simp add: obeys_def none_new_written)
  qed
  show "obeys none_new (lock_lease (run_temporary i @ [''lease'']))"
    and "obeys none_new (release_lease (run_temporary i @ [''lease'']))" for i
    by (simp_all add: obeys_def none_new_lease)
qed

lemma on_files_visible [simp]: "on_files (\<lambda>h. visible_runs h \<subseteq> V)"
  by (simp add: on_files_def visible_runs_def)

lemma showing_triple:
  assumes "obeys none_new m"
  shows "triple (\<lambda>h. visible_runs h \<subseteq> V) m (\<lambda>_ h. visible_runs h \<subseteq> V) (\<lambda>h. visible_runs h \<subseteq> V)"
proof (rule tripleI)
  fix h h' :: host and r
  assume "visible_runs h \<subseteq> V" and m: "m h = (r, h')"
  moreover have "none_new h h'"
    using assms m unfolding obeys_def by (metis snd_conv)
  ultimately show "case r of Ok _ \<Rightarrow> visible_runs h' \<subseteq> V | Err _ \<Rightarrow> visible_runs h' \<subseteq> V"
    by (cases r) (auto simp: none_new_def)
qed

lemma triple_both:
  assumes "triple P m Q E" and "triple P' m Q' E'"
  shows "triple (\<lambda>h. P h \<and> P' h) m (\<lambda>x h. Q x h \<and> Q' x h) (\<lambda>h. E h \<and> E' h)"
proof (rule tripleI)
  fix h h' :: host and r
  assume P: "P h \<and> P' h" and m: "m h = (r, h')"
  then show "case r of Ok x \<Rightarrow> Q x h' \<and> Q' x h' | Err _ \<Rightarrow> E h' \<and> E' h'"
    using tripleD [OF assms(1) _ m] tripleD [OF assms(2) _ m] by (cases r) auto
qed

lemma holds_created: "triple (\<lambda>_. True) (create_dir p) (\<lambda>_. holds p []) (\<lambda>_. True)"
proof (rule tripleI)
  fix h h' :: host and r
  assume "create_dir p h = (r, h')"
  then show "case r of Ok _ \<Rightarrow> holds p [] h' | Err _ \<Rightarrow> True"
    using create_node_cases [of p "DirNode MODE_755" h r h'] by (auto simp: create_dir_def holds_def split: result.split)
qed

lemma holds_set_mode: "triple (holds p []) (set_mode p m) (\<lambda>_. holds p []) (\<lambda>_. True)"
proof (rule tripleI)
  fix h h' :: host and r
  assume "holds p [] h" and s: "set_mode p m h = (r, h')"
  then show "case r of Ok _ \<Rightarrow> holds p [] h' | Err _ \<Rightarrow> True"
    using set_mode_cases [OF s, of p] by (auto simp: holds_def split: result.split)
qed

lemma run_temporary_not_run: "run_temporary i \<noteq> RUNS @ [i]"
proof
  assume "run_temporary i = RUNS @ [i]"
  then have "length (''.'' @ i @ ''.tmp'') = length i"
    by (simp add: run_temporary_def)
  then show False
    by simp
qed

lemma rename_publishes:
  "triple (\<lambda>h. visible_runs h \<subseteq> V \<and> holds (run_temporary i) ns h) (rename (run_temporary i) (RUNS @ [i]))
     (\<lambda>_ h. visible_runs h \<subseteq> insert i V \<and> holds (RUNS @ [i]) ns h) (\<lambda>h. visible_runs h \<subseteq> V)"
proof (rule tripleI)
  fix h h' :: host and r
  assume h: "visible_runs h \<subseteq> V \<and> holds (run_temporary i) ns h" and m: "rename (run_temporary i) (RUNS @ [i]) h = (r, h')"
  from m run_temporary_not_run show "case r of
      Ok _ \<Rightarrow> visible_runs h' \<subseteq> insert i V \<and> holds (RUNS @ [i]) ns h'
    | Err _ \<Rightarrow> visible_runs h' \<subseteq> V"
  proof (cases rule: rename_cases)
    case (renamed n)
    obtain k where "n = DirNode k"
      using h renamed(2) by (auto simp: holds_def)
    then have q: "node_at h' q =
        (if prefix (RUNS @ [i]) q then node_at h (run_temporary i @ drop (length (RUNS @ [i])) q)
         else if prefix (run_temporary i) q then None else node_at h q)" for q
      using renamed(6) [of q] by auto
    have "visible_runs h' \<subseteq> insert i (visible_runs h)"
      by (auto simp: visible_runs_def q split: if_split_asm)
    moreover have "holds (RUNS @ [i]) ns h'"
      using h by (auto simp: holds_def q)
    ultimately show ?thesis
      using h renamed(1) by auto
  next
    case refused
    then show ?thesis
      using h by (cases r) (simp_all add: visible_runs_def)
  qed
qed

lemma run_id_visible: "run_id nanos h = (Ok i, h') \<Longrightarrow> \<not> hidden i \<and> h' = h"
proof -
  assume i: "run_id nanos h = (Ok i, h')"
  have "is_ascii_digit (hd (show_nat (hs_pid h)))"
    using show_nat_digits [of "hs_pid h"] by (cases "show_nat (hs_pid h)") simp_all
  then have "hd (show_nat (hs_pid h)) \<noteq> CHR ''.''"
    by (auto simp: is_ascii_digit_def)
  then have "\<not> prefix ''.'' (show_nat (hs_pid h) @ s)" for s
    by (cases "show_nat (hs_pid h)") auto
  then show ?thesis
    using i by (auto simp: run_id_def hidden_def starts_with_def split: option.split_asm)
qed

text \<open>The files of a run that has been published as it was asked for.\<close>

abbreviation published_whole ::
    "policy_env \<Rightarrow> bytes \<Rightarrow> project_identity \<Rightarrow> bytes list \<Rightarrow> bytes list \<Rightarrow> loopback_authority list \<Rightarrow> mode \<Rightarrow> bool
       \<Rightarrow> bytes \<Rightarrow> host \<Rightarrow> bool" where
  "published_whole env harness project hds rds rls mode held i \<equiv>
     holds (RUNS @ [i]) (run_nodes (pe_idna env) harness project hds rds rls mode held)"

lemma publish_whole:
  assumes "normalize_domains (pe_idna env) hds = Ok hds" and "normalize_domains (pe_idna env) rds = Ok rds"
    and "distinct rls" and "list_all valid_loopback_authority rls"
  shows "triple (\<lambda>h. visible_runs h \<subseteq> V) (publish_locked env nanos harness project hds rds rls mode)
     (\<lambda>prun h. \<exists>i. prun = run_of i False \<and> \<not> hidden i \<and> visible_runs h \<subseteq> insert i V \<and>
        published_whole env harness project hds rds rls mode True i h)
     (\<lambda>h. visible_runs h \<subseteq> V)"
proof -
  let ?V = "\<lambda>h. visible_runs h \<subseteq> V"
  let ?nodes = "run_nodes (pe_idna env) harness project hds rds rls mode True"
  let ?Q = "\<lambda>prun h. \<exists>i. prun = run_of i False \<and> \<not> hidden i \<and> visible_runs h \<subseteq> insert i V \<and> holds (RUNS @ [i]) ?nodes h"
  have named: "triple ?V (run_id nanos) (\<lambda>i h. \<not> hidden i \<and> ?V h) ?V"
  proof (rule tripleI)
    fix h h' :: host and r
    assume "?V h" and m: "run_id nanos h = (r, h')"
    then show "case r of Ok i \<Rightarrow> \<not> hidden i \<and> ?V h' | Err _ \<Rightarrow> ?V h'"
      using run_id_visible [of nanos h _ h'] by (cases r) (auto simp: run_id_def split: option.split_asm)
  qed
  have builds: "triple ?V
      (io_then (create_dir (run_temporary i))
      (io_then (set_mode (run_temporary i) MODE_755)
      (io_cleanup
         (io_then (fill_run env (run_temporary i) harness project hds rds rls mode)
         (io_then (rename (run_temporary i) (RUNS @ [i])) (io_return (run_of i False))))
         (io_then (release_lease (run_temporary i @ [''lease''])) (remove_dir_all (run_temporary i)))))) ?Q ?V"
    if "\<not> hidden i" for i
  proof -
    have created: "triple ?V (create_dir (run_temporary i)) (\<lambda>_ h. ?V h \<and> holds (run_temporary i) [] h) ?V"
      using triple_both [OF showing_triple [OF showing.dir_created] holds_created, of "run_temporary i" V]
      by (simp add: run_hidden)
    have set_up: "triple (\<lambda>h. ?V h \<and> holds (run_temporary i) [] h) (set_mode (run_temporary i) MODE_755)
        (\<lambda>_ h. ?V h \<and> holds (run_temporary i) [] h) ?V"
      using triple_both [OF showing_triple [OF showing.mode_set] holds_set_mode, of V "run_temporary i" MODE_755] by simp
    have filled: "triple (\<lambda>h. ?V h \<and> holds (run_temporary i) [] h) (fill_run env (run_temporary i) harness project hds rds rls mode)
        (\<lambda>_ h. ?V h \<and> holds (run_temporary i) ?nodes h) ?V"
      by (rule triple_weaken [OF triple_both [OF showing_triple [OF showing.run_filled [OF assms(3,4)]]
            fill_run_exact [OF assms(1,2)]]]) simp_all
    have returned: "triple (\<lambda>h. visible_runs h \<subseteq> insert i V \<and> holds (RUNS @ [i]) ?nodes h) (io_return (run_of i False)) ?Q ?V"
      using that by (auto simp: triple_def io_return_def)
    have cleaned: "triple ?V (io_then (release_lease (run_temporary i @ [''lease''])) (remove_dir_all (run_temporary i))) (\<lambda>_. ?V) ?V"
      by (intro showing_triple showing.sequenced showing.lease_freed showing.temporary_removed)
    show ?thesis
      by (rule triple_then [OF created triple_then [OF set_up triple_cleanup
            [OF triple_then [OF filled triple_then [OF rename_publishes returned]] cleaned]]])
  qed
  have after_name: "triple (\<lambda>h. \<not> hidden i \<and> ?V h)
      (io_then (create_dir (run_temporary i))
      (io_then (set_mode (run_temporary i) MODE_755)
      (io_cleanup
         (io_then (fill_run env (run_temporary i) harness project hds rds rls mode)
         (io_then (rename (run_temporary i) (RUNS @ [i])) (io_return (run_of i False))))
         (io_then (release_lease (run_temporary i @ [''lease''])) (remove_dir_all (run_temporary i)))))) ?Q ?V" for i
    using builds by (cases "hidden i") (simp_all add: triple_def)
  show ?thesis
    unfolding publish_locked_def run_of_def [of _ False, symmetric]
    by (rule triple_then [OF showing_triple [OF showing.runs_reaped]
          triple_then [OF showing_triple [OF showing.bound [OF showing.project_made showing.returned]]
          triple_then [OF showing_triple [OF showing.log_reset]
          triple_bind [OF named after_name]]]])
qed

lemma none_new_hidden_rename:
  assumes "hidden x"
  shows "none_new h (snd (rename (RUNS @ [i]) (RUNS @ [x]) h))"
proof (cases "i = x")
  case True
  then show ?thesis
    by (intro none_newI)
      (auto simp: rename_def io_faulty_def io_bind_def lookup_def io_return_def ok_or_def split: list.split option.split)
next
  case False
  then have "RUNS @ [i] \<noteq> RUNS @ [x]"
    by simp
  obtain r h' where m: "rename (RUNS @ [i]) (RUNS @ [x]) h = (r, h')"
    by fastforce
  have "none_new h h'"
  proof (rule none_newI)
    fix name
    assume "\<not> hidden name" and absent: "node_at h (RUNS @ [name]) = None"
    then have "\<not> prefix (RUNS @ [x]) (RUNS @ [name])"
      using assms by auto
    from m \<open>RUNS @ [i] \<noteq> RUNS @ [x]\<close> show "node_at h' (RUNS @ [name]) = None"
      by (cases rule: rename_cases) (use absent \<open>\<not> prefix (RUNS @ [x]) (RUNS @ [name])\<close> in auto)
  qed
  then show ?thesis
    by (simp add: m)
qed

lemma none_new_after: "none_new a b \<Longrightarrow> none_new b c \<Longrightarrow> none_new a c"
  by (rule showing.steps)

lemma none_new_retired: "none_new h (snd (snd (retire_inner (run_of i b) h)))"
proof -
  obtain r h1 where m: "rename (RUNS @ [i]) (run_dead i) h = (r, h1)"
    by fastforce
  have "none_new h (snd (rename (RUNS @ [i]) (run_dead i) h))"
    unfolding run_dead_def using none_new_hidden_rename hidden_temporary by blast
  then have 1: "none_new h h1"
    by (simp add: m)
  have "none_new h (snd (remove_dir_all (run_dead i) h1))"
    by (rule none_new_after [OF 1 none_new_removed])
  then show ?thesis
    using 1 showing.same by (auto simp: retire_inner_def run_of_def m split: result.split prod.split)
qed

text \<open>After dropping a run that was published whole, it is gone, or whole with a lease that is free.\<close>

definition gone_or_whole ::
    "policy_env \<Rightarrow> bytes \<Rightarrow> project_identity \<Rightarrow> bytes list \<Rightarrow> bytes list \<Rightarrow> loopback_authority list \<Rightarrow> mode
       \<Rightarrow> bytes set \<Rightarrow> host \<Rightarrow> bool" where
  "gone_or_whole env harness project hds rds rls mode V h \<longleftrightarrow>
     (\<forall>name \<in> visible_runs h - V. \<exists>held. published_whole env harness project hds rds rls mode held name h)"

lemma lease_released:
  assumes "published_whole env harness project hds rds rls mode held i h"
  shows "published_whole env harness project hds rds rls mode False i (snd (release_lease (RUNS @ [i, ''lease'']) h))"
proof -
  have "node_at h (RUNS @ [i, ''lease'']) = Some (FileNode [] MODE_600 held)"
    using assms by (simp add: holds_def run_nodes_def)
  then have "node_at (snd (release_lease (RUNS @ [i, ''lease'']) h)) q
      = (if q = RUNS @ [i, ''lease''] then Some (FileNode [] MODE_600 False) else node_at h q)" for q
    by (simp add: release_lease_def set_node_def update_conv')
  then show ?thesis
    using assms by (auto simp: holds_def run_nodes_def)
qed

lemma drop_whole:
  assumes "visible_runs h \<subseteq> insert i V" and "published_whole env harness project hds rds rls mode True i h"
  shows "gone_or_whole env harness project hds rds rls mode V (snd (drop_run (run_of i False) h))"
proof -
  have dead: "RUNS @ [i] \<noteq> run_dead i"
  proof
    assume "RUNS @ [i] = run_dead i"
    then have "length i = length (''.'' @ i @ ''.dead'')"
      by (simp add: run_dead_def)
    then show False
      by simp
  qed
  obtain r h1 where m: "rename (RUNS @ [i]) (run_dead i) h = (r, h1)"
    by fastforce
  obtain u prun h2 where t: "retire_inner (run_of i False) h = (u, prun, h2)"
    by (metis prod.exhaust)
  have path: "pr_published prun = RUNS @ [i]"
    using retired_path [of "run_of i False" h] t by (simp add: run_of_def)
  let ?h3 = "snd (release_lease (RUNS @ [i, ''lease'']) h2)"
  have final: "snd (drop_run (run_of i False) h) = ?h3"
    by (simp add: drop_run_def t path)
  have "none_new h ?h3"
    using none_new_after [OF none_new_retired [of h i False]] none_new_lease(2) by (simp add: t)
  then have seen: "visible_runs ?h3 \<subseteq> insert i V"
    using assms(1) by (auto simp: none_new_def)
  have "i \<notin> visible_runs ?h3 \<or> published_whole env harness project hds rds rls mode False i ?h3"
    using m dead
  proof (cases rule: rename_cases)
    case (renamed n)
    then have "node_at h1 (RUNS @ [i]) = None"
      using dead by (cases "\<exists>m. n = DirNode m") auto
    then have "i \<notin> visible_runs h1"
      by (simp add: visible_runs_def)
    moreover have "none_new h1 ?h3"
    proof (rule none_new_after [OF _ none_new_lease(2)])
      have "h2 = snd (remove_dir_all (run_dead i) h1)"
        using t m renamed(1) by (auto simp: retire_inner_def run_of_def split: prod.split_asm)
      then show "none_new h1 h2"
        using none_new_removed by simp
    qed
    ultimately show ?thesis
      by (auto simp: none_new_def)
  next
    case refused
    have "h2 = h1"
      using t m refused(1) by (cases r) (auto simp: retire_inner_def run_of_def split: if_split_asm)
    then have "published_whole env harness project hds rds rls mode True i h2"
      using assms(2) refused(2) by (simp add: holds_def)
    then show ?thesis
      using lease_released by blast
  qed
  then show ?thesis
    using seen unfolding gone_or_whole_def final by blast
qed

lemma whole_is_live:
  assumes "published_whole env harness project hds rds rls mode True i h" and "\<not> hidden i"
  shows "live_run i h"
  using assms by (auto simp: live_run_def holds_def run_nodes_def)

text \<open>
  C11: a run is published whole or not at all. Whatever fails while a run is published, in any
  call, every run that can be seen afterwards and could not before has all of its files with
  exactly what was asked for: the run's process identity, the base, harness and run layers, the
  loopback layer and the mode; half a run is never seen. When the operation succeeds, the run is
  there and alive.
\<close>

theorem run_is_published_whole:
  assumes "publish_run env nanos harness project harness_domains run_domains run_loopback mode h = (r, h')"
    and "normalize_domains (pe_idna env) harness_domains = Ok hds"
    and "normalize_domains (pe_idna env) run_domains = Ok rds"
    and "normalize_loopback_authorities run_loopback = Ok rls"
  shows "(\<forall>name \<in> visible_runs h' - visible_runs h. \<exists>held. published_whole env harness project hds rds rls mode held name h') \<and>
    (\<forall>prun. r = Ok prun \<longrightarrow> (\<exists>i. prun = run_of i False \<and> live_run i h' \<and>
       published_whole env harness project hds rds rls mode True i h'))"
proof -
  let ?V = "\<lambda>g. visible_runs g \<subseteq> visible_runs h"
  let ?F = "gone_or_whole env harness project hds rds rls mode (visible_runs h)"
  let ?Q = "\<lambda>prun g. \<exists>i. prun = run_of i False \<and> \<not> hidden i \<and> visible_runs g \<subseteq> insert i (visible_runs h) \<and>
        published_whole env harness project hds rds rls mode True i g"
  have same: "normalize_domains (pe_idna env) ds = Ok ds" if "normalize_domains (pe_idna env) texts = Ok ds" for texts ds
    using normalize_domains_valid [OF that] normalize_domains_id by blast
  have V_F: "?F g" if "?V g" for g
    using that by (auto simp: gone_or_whole_def)
  have body: "triple ?V (publish_locked env nanos harness project hds rds rls mode) ?Q ?V"
    using publish_whole [OF same [OF assms(2)] same [OF assms(3)]] normalize_loopback_authorities_valid [OF assms(4)] by blast
  have drops: "triple (?Q prun) (drop_run prun) (\<lambda>_. ?F) ?F" for prun
  proof (rule tripleI)
    fix g g' :: host and q
    assume Q: "?Q prun g" and d: "drop_run prun g = (q, g')"
    obtain i where "prun = run_of i False" "visible_runs g \<subseteq> insert i (visible_runs h)"
        "published_whole env harness project hds rds rls mode True i g"
      using Q by blast
    then have "?F (snd (drop_run prun g))"
      using drop_whole by blast
    then show "case q of Ok _ \<Rightarrow> ?F g' | Err _ \<Rightarrow> ?F g'"
      by (cases q) (simp_all add: d)
  qed
  have on_Q: "on_files (?Q prun)" for prun
    by (simp add: on_files_def visible_runs_def holds_def)
  have locks: "triple ?V (with_lock drop_run (publish_locked env nanos harness project hds rds rls mode)) ?Q ?F"
    by (rule with_lock_triple [OF body on_files_visible on_Q on_files_visible V_F V_F drops])
  have ensures: "triple ?V ensure (\<lambda>_. ?V) ?F"
    by (rule triple_weaken [OF showing_triple [OF showing.ensured]]) (auto intro: V_F)
  have m: "locked_dropping drop_run (publish_locked env nanos harness project hds rds rls mode) h = (r, h')"
    using assms by (simp add: publish_run_def io_bind_def io_result_def)
  have result: "case r of Ok prun \<Rightarrow> ?Q prun h' | Err _ \<Rightarrow> ?F h'"
    by (rule tripleD [OF triple_then [OF ensures locks] _ m [unfolded locked_dropping_def]]) simp
  show ?thesis
  proof (cases r)
    case (Ok prun)
    then obtain i where "prun = run_of i False" "\<not> hidden i" "visible_runs h' \<subseteq> insert i (visible_runs h)"
        "published_whole env harness project hds rds rls mode True i h'"
      using result by auto
    then show ?thesis
      using whole_is_live Ok by blast
  next
    case (Err e)
    then show ?thesis
      using result by (simp add: gone_or_whole_def)
  qed
qed

section \<open>Examples\<close>

definition example_layer :: path where "example_layer = project_dir example_project @ [''allow.local'']"

lemma example_layer_reads:
  "node_at example_store example_layer = Some (FileNode (''a.com'' @ [LF]) MODE_644 False)"
  "read_domains (pe_idna example_policy_env) (''a.com'' @ [LF]) = Ok [''a.com'']"
  by code_simp+

lemma example_stats: "\<not> stat_fails example_store"
  by (simp add: stat_fails_def example_store_def)

text \<open>
  What a failed \<open>stat\<close> does: adding an entry to a project's list, with the fifth \<open>Path::exists\<close>
  failing and nothing else, succeeds and drops the entry that was there.
\<close>

theorem failed_stat_empties_list:
  "\<exists>h'. mutate_project example_policy_env example_project [''c.com''] []
       (example_store\<lparr>hs_stat_faults := [False, False, False, False, True]\<rparr>) = (Ok (), h') \<and>
     node_at example_store example_layer = Some (FileNode (''a.com'' @ [LF]) MODE_644 False) \<and>
     node_at h' example_layer = Some (FileNode (''c.com'' @ [LF]) MODE_644 False)"
proof -
  let ?m = "mutate_project example_policy_env example_project [''c.com''] []
    (example_store\<lparr>hs_stat_faults := [False, False, False, False, True]\<rparr>)"
  have "fst ?m = Ok ()" and "node_at (snd ?m) example_layer = Some (FileNode (''c.com'' @ [LF]) MODE_644 False)"
    by code_simp+
  then show ?thesis
    using example_layer_reads(1) by (metis prod.collapse)
qed

theorem project_change_is_exact_witness:
  "\<exists>h' ys. mutate_project example_policy_env example_project [''c.com''] [''a.com''] example_store = (Ok (), h') \<and>
     set ys = {''c.com''} \<and> node_at h' example_layer = Some (FileNode (domains_text ys) MODE_644 False) \<and>
     others_kept restartable {example_layer} example_store h'"
proof -
  obtain r h' where m: "mutate_project example_policy_env example_project [''c.com''] [''a.com''] example_store = (r, h')"
    by fastforce
  have b: "normalize_batch (pe_idna example_policy_env) [''c.com''] [''a.com''] = Ok ([''c.com''], {''a.com''})"
    and ok: "fst (mutate_project example_policy_env example_project [''c.com''] [''a.com''] example_store) = Ok ()"
    by code_simp+
  have r: "r = Ok ()"
    using ok m by simp
  note change = project_change_is_exact [OF m example_layer_def example_layer_reads]
  then obtain ys where "set ys = (set [''a.com''] \<union> set [''c.com'']) - {''a.com''}"
      and n: "node_at h' example_layer = Some (FileNode (domains_text ys) MODE_644 False)"
    using b r by (auto simp only: is_ok.simps result.inject prod.inject simp_thms starts_from_def example_stats)
  then have "set ys = {''c.com''}"
    by auto
  with change m r n show ?thesis
    by blast
qed

theorem deny_is_all_or_nothing_witness:
  "\<exists>rep h'. deny example_policy_env None [''A.com''] example_store = (Ok rep, h') \<and> dr_missing rep = [] \<and>
     node_at h' GLOBAL = Some (FileNode (domains_text [''b.com'']) MODE_644 False)"
proof -
  obtain r h' where m: "deny example_policy_env None [''A.com''] example_store = (r, h')"
    by fastforce
  have n: "normalize_domains (pe_idna example_policy_env) [''A.com''] = Ok [''a.com'']"
    and g: "node_at example_store GLOBAL = Some (FileNode (''a.com'' @ [LF] @ ''b.com'' @ [LF]) MODE_644 False)"
    and d: "read_domains (pe_idna example_policy_env) (''a.com'' @ [LF] @ ''b.com'' @ [LF]) = Ok [''a.com'', ''b.com'']"
    and rep: "(case fst (deny example_policy_env None [''A.com''] example_store) of Ok rep \<Rightarrow> dr_missing rep = [] | Err _ \<Rightarrow> False)"
    and kept: "filter (\<lambda>d. d \<notin> set [''a.com'']) [''a.com'', ''b.com''] = [''b.com'']"
    by code_simp+
  obtain rep where rep: "r = Ok rep" "dr_missing rep = []"
    using rep m by (auto split: result.split_asm)
  have "layer_path None ''allow.local'' = GLOBAL"
    by (simp add: layer_path_def GLOBAL_def)
  from deny_is_all_or_nothing [OF m n this [symmetric] g d] have "denied_exactly (unstored None example_store)
      [''a.com''] [''a.com'', ''b.com''] GLOBAL (''a.com'' @ [LF] @ ''b.com'' @ [LF]) rep h'"
    by (auto simp only: rep result.case simp_thms starts_from_def example_stats)
  then have "node_at h' GLOBAL = Some (FileNode (domains_text [''b.com'']) MODE_644 False)"
    unfolding denied_exactly_def rep(2) kept by simp
  with m rep show ?thesis
    by blast
qed

theorem run_is_published_whole_witness:
  "\<exists>i h'. publish_run example_policy_env (Some 1) ''claude'' example_project [''b.com''] [''c.com''] [''localhost:80''] Enforce
       example_store = (Ok (run_of i False), h') \<and> live_run i h'"
proof -
  obtain r h' where m: "publish_run example_policy_env (Some 1) ''claude'' example_project [''b.com''] [''c.com'']
      [''localhost:80''] Enforce example_store = (r, h')"
    by fastforce
  have b: "normalize_domains (pe_idna example_policy_env) [''b.com''] = Ok [''b.com'']"
    and c: "normalize_domains (pe_idna example_policy_env) [''c.com''] = Ok [''c.com'']"
    and l: "normalize_loopback_authorities [''localhost:80''] = Ok [\<lparr>la_host = Localhost, la_port = 80\<rparr>]"
    and ok: "is_ok (fst (publish_run example_policy_env (Some 1) ''claude'' example_project [''b.com''] [''c.com'']
      [''localhost:80''] Enforce example_store))"
    by code_simp+
  obtain prun where "r = Ok prun"
    using ok m by (cases r) auto
  then show ?thesis
    using conjunct2 [OF run_is_published_whole [OF m b c l]] m by blast
qed

end
