(* ===== verification/Cli_Resolve.thy ===== *)
theory Cli_Resolve
  imports Cli_Policy
begin

text \<open>Which layers an entry of the effective policy comes from.\<close>

definition layer_entries :: "('a list \<times> layer_source) list \<Rightarrow> ('a \<times> layer_source) list" where
  "layer_entries layers = concat (map (\<lambda>(xs, source). map (\<lambda>x. (x, source)) xs) layers)"

definition first_occurrences :: "'a list \<Rightarrow> 'a list" where
  "first_occurrences xs = rev (remdups (rev xs))"

lemma first_occurrences_snoc:
  "first_occurrences (xs @ [x]) = (if x \<in> set xs then first_occurrences xs else first_occurrences xs @ [x])"
  by (simp add: first_occurrences_def)

lemma add_resolved_simps:
  "add_resolved source [] x = [(x, [source])]"
  "add_resolved source (r # out) x =
     (if fst r = x then (x, snd r @ [source]) # out else r # add_resolved source out x)"
  by (auto simp: add_resolved_def simp del: position_None split: option.split)

lemma fst_add_resolved:
  "map fst (add_resolved source out x) = (if x \<in> fst ` set out then map fst out else map fst out @ [x])"
  by (induction out) (auto simp: add_resolved_simps)

lemma map_of_add_resolved:
  "map_of (add_resolved source out x) y =
     (if y = x then Some ((case map_of out x of None \<Rightarrow> [] | Some sources \<Rightarrow> sources) @ [source]) else map_of out y)"
  by (induction out) (auto simp: add_resolved_simps)

lemma resolve_entries:
  "resolve_loopback_layers layers = foldl (\<lambda>out (x, source). add_resolved source out x) [] (layer_entries layers)"
proof -
  have "foldl add_layer out layers = foldl (\<lambda>out (x, source). add_resolved source out x) out (layer_entries layers)"
    for out
  proof (induction layers arbitrary: out)
    case (Cons l layers)
    obtain xs source where l: "l = (xs, source)"
      by fastforce
    have "foldl (add_resolved source) out xs
        = foldl (\<lambda>out (x, source). add_resolved source out x) out (map (\<lambda>x. (x, source)) xs)"
      by (induction xs arbitrary: out) simp_all
    then show ?case
      using Cons by (simp add: l layer_entries_def add_layer_def)
  qed (simp add: layer_entries_def)
  then show ?thesis
    by (simp add: resolve_loopback_layers_def)
qed

text \<open>
  C25: the effective policy and where it comes from. The resolved list is the union of the layers:
  each entry once, in the order of the first layer that has it, and with it, in the order of the
  layers, one source for every time a layer lists it.
\<close>

theorem effective_entries_have_their_sources:
  "map fst (resolve_loopback_layers layers) = first_occurrences (concat (map fst layers)) \<and>
   map_of (resolve_loopback_layers layers) x =
     (if x \<in> set (concat (map fst layers)) then Some (map snd (filter (\<lambda>e. fst e = x) (layer_entries layers))) else None)"
proof -
  let ?resolve = "foldl (\<lambda>out (x, source). add_resolved source out x) []"
  have all: "concat (map fst layers) = map fst (layer_entries layers)"
    by (induction layers) (auto simp: layer_entries_def comp_def)
  have "map fst (?resolve es) = first_occurrences (map fst es) \<and>
     map_of (?resolve es) x = (if x \<in> fst ` set es then Some (map snd (filter (\<lambda>e. fst e = x) es)) else None)"
    for es :: "('a \<times> layer_source) list"
  proof (induction es rule: rev_induct)
    case (snoc e es)
    obtain y source where e: "e = (y, source)"
      by fastforce
    have "fst ` set (?resolve es) = set (map fst es)"
      using snoc by (metis first_occurrences_def list.set_map set_remdups set_rev)
    then have "map fst (?resolve (es @ [e])) = first_occurrences (map fst (es @ [e]))"
      using snoc by (auto simp: e fst_add_resolved first_occurrences_snoc)
    moreover have "map_of (?resolve (es @ [e])) x =
        (if x \<in> fst ` set (es @ [e]) then Some (map snd (filter (\<lambda>e. fst e = x) (es @ [e]))) else None)"
    proof (cases "x = y")
      case True
      have "filter (\<lambda>e. fst e = y) es = []" if "y \<notin> fst ` set es"
        using that by (auto simp: filter_empty_conv)
      then show ?thesis
        using snoc True by (auto simp: e map_of_add_resolved)
    next
      case False
      then show ?thesis
        using snoc by (auto simp: e map_of_add_resolved)
    qed
    ultimately show ?case
      by blast
  qed (simp add: first_occurrences_def)
  then show ?thesis
    unfolding resolve_entries all by simp
qed

end
