(* ===== verification/Spec2Isabelle.thy ===== *)
theory Spec2Isabelle
  imports Registry Policy Public Bootstrap Cli_Broker Cli_Changes Cli_Resolve
begin

text \<open>
  A model of \<open>vhrn\<close>, which runs a coding agent in a container whose only way out is an egress
  proxy. Two programs of the repository are modelled. The proxy (\<open>src/proxy\<close>) accepts HTTP/1
  clients, decides for every request whether its target is allowed, forwards it or opens a
  tunnel, and keeps a log of denials. The host's command line (\<open>src/cli\<close>) writes the policy
  that the proxy reads, and runs the broker through which the proxy reaches loopback services of
  the host.

  Conventions. A string is its UTF-8 bytes (\<open>bytes\<close>). A Rust \<open>struct\<close> is a record, an \<open>enum\<close> a
  datatype, a fallible function returns \<open>result\<close>, and the \<open>?\<close> operator is \<open>and_then\<close>
  (\<open>Prelude\<close>). Machine integers whose wrap-around can matter are words (\<open>u8\<close> to \<open>u128\<close>);
  \<open>usize\<close> lengths of buffers in memory are \<open>nat\<close>. State is passed explicitly. An \<open>async\<close>
  function is a function of what it awaits: a reader is a finite script of read events, a writer
  a sink whose script says how much each write takes or how it fails, a file is what opening and
  reading it gives at that moment, a biased select is resolved by a schedule that is an argument,
  and a clock is the readings it gives. A theorem holds for all scripts, schedules and readings.
  Where such an argument can end before the code does, the model gives \<open>None\<close>, and a liveness or
  termination theorem says when it does not.

  The theories, from the bottom:

  Library. \<open>Prelude\<close> (results, byte classes, case folding), \<open>Std_Str\<close> and \<open>Std_Num\<close> (the
  functions of Rust's standard library on strings and numbers that the program calls),
  \<open>Ip_Addr\<close> (IP addresses, their printers and the standard parsers).

  Decisions. \<open>Registry\<close> (\<open>connect/public/registry.rs\<close>): the IANA special-purpose tables and the
  most-specific-entry lookup, proved equal to an independent list of the reserved ranges.
  \<open>Domain_Name\<close>, \<open>Target\<close>, \<open>Policy\<close> (\<open>domain/policy.rs\<close>, \<open>domain/target.rs\<close>,
  \<open>domain/policy/reader.rs\<close>): names and patterns, classification of request targets, policy
  files and the decisions that read them afresh for every request. The two kinds of policy lines
  share the locale \<open>line_format\<close>, interpreted for both.

  Messages. \<open>Headers\<close> (\<open>headers.rs\<close>), \<open>Http1_Head\<close>, \<open>Byte_Stream\<close>, \<open>Http1_Connection\<close>
  (\<open>server/http1.rs\<close>): request heads, framing, and the read buffer under arbitrary splits of the
  input into reads. \<open>Body_Spec\<close> is the abstract grammar of chunked and fixed bodies that decoders
  and encoders are compared with. \<open>Byte_Sink\<close>, \<open>Response\<close> (\<open>server/response.rs\<close>),
  \<open>Wire_Fields\<close>: writing under short writes and failures. The \<open>http\<close> crate's header map is a
  record of operations with named laws (\<open>header_laws\<close>, \<open>header_name_laws\<close>), which a list
  implementation satisfies.

  Connections. \<open>Pool\<close> (\<open>connect/pool.rs\<close>), \<open>Origin_Body\<close> (\<open>connect/origin_body.rs\<close>),
  \<open>Forward\<close> (\<open>connect/forward.rs\<close>), \<open>Shutdown\<close> (\<open>shutdown.rs\<close>), \<open>Public\<close>
  (\<open>connect/public.rs\<close>), \<open>Diagnostics\<close> (\<open>diagnostics.rs\<close>), \<open>Broker_Client\<close>
  (\<open>connect/broker.rs\<close> and its modules): idle connections, response bodies that give their
  connection back, the exchange of a request, permits and the socket registry as a step relation
  with owners (\<open>resource_step\<close>), dialling, the log of denials, and the broker protocol.

  The server. \<open>Router\<close> (\<open>server/router.rs\<close>): from a request to a contact or a refusal.
  \<open>Listener\<close> and \<open>Request_Stream\<close> (\<open>server/listener.rs\<close>): one client connection, and what it
  means in terms of the byte stream the client sent (\<open>requests_of\<close>). \<open>Relay\<close>
  (\<open>server/relay.rs\<close>): a tunnel as two pipes whose turns interleave. \<open>Supervisor\<close>: the accept
  loop, its leases and the drain. \<open>Proxy_Config\<close> (\<open>config.rs\<close>) and \<open>Bootstrap\<close> (\<open>lib.rs\<close>): what
  is checked before the first client.

  The host. \<open>Cli_Text\<close> (\<open>cli/src/net.rs\<close>): the texts the host reads and writes. The host has its
  own copies of the proxy's parsers; the lemmas show that both mean the same, so what the host
  stores is what the proxy enforces.

  \<open>Cli_Broker\<close> (\<open>cli/src/broker.rs\<close>): the other end of \<open>Broker_Client\<close>. A client's connection is
  served from its handshake to the end of its relay as a function of what it sends, of the policy
  files at that moment and of a schedule; the state its threads share (permits, sockets, workers,
  readiness) is a record, and the accept loop, the workers and \<open>stop\<close> are a step relation on it, in
  which a worker that ends drops what it owns in Rust's order, each lock a step of its own.
  The lemmas join both ends: what the proxy writes and allows, the broker reads and serves, and
  nothing else is dialled.

  \<open>Host_Fs\<close>, \<open>Host_Atomic\<close>, \<open>Cli_Policy\<close> (\<open>cli/src/net.rs\<close>, \<open>PolicyStore\<close>): the store of policies
  as a tree of files. The state holds a list of faults, so each call of the operating system may
  fail, before it does anything or half-way, the clean-up included, and what holds for all fault
  lists also holds for a crash between two calls. A second list of faults is for the questions
  whether a file exists: a \<open>stat\<close> that fails is answered like an absent file, as \<open>Path::exists\<close> does, and
  the code then puts an empty file in the place of the one that is there. The guarantees say what
  such a failure can cost (\<open>stat_fails\<close>). The policy lock serialises the operations of
  all processes, so an operation is one function of the tree.
  \<open>Cli_Store\<close>, \<open>Cli_Guarantees\<close>, \<open>Cli_Changes\<close>, \<open>Cli_Resolve\<close>: the locales \<open>host_order\<close>,
  \<open>ensure_order\<close>, \<open>store_order\<close>, \<open>run_order\<close>, \<open>policy_order\<close> walk once through every operation for a relation
  between the files before and after, and are interpreted for files that keep their contents, for
  layers that load, for runs that are alive and for runs that can be seen; \<open>stored_list\<close> is the
  contract of a reader and its writer, interpreted for domains and for authorities; \<open>triple\<close> is
  a Hoare triple with a postcondition for failures.

  What is shown. The properties are numbered in the order of their importance. The first ones
  compose the components: every contact with the outside is covered by a permission, a client's
  connection is served exactly as its byte stream demands, a tunnel is transparent, the proxy
  starts closed and shuts down completely. The others are about one component each.

  Bounds and fuel. \<open>exchange\<close>, \<open>relay\<close>, the supervisor and the connection loop take the schedule
  of their selects as a list; \<open>tunnel_ends\<close>, \<open>shutdown_completes\<close> and
  \<open>discarding_a_body_ends\<close> say how long a list is enough. Other clients of the same proxy act on
  the shared state through functions in the environment (\<open>se_others\<close>, \<open>OthersRun\<close>). Where an
  event may cut an operation short, a number says how far it got (\<open>io_end\<close>: bytes of a frame that
  were taken, \<open>ne_peer_closed\<close>: addresses that were dialled), and the theorems hold for all of them.
  All size limits are those of the source.

  Not modelled. The tokio runtime, sockets and the operating system (their results are
  arguments); signal handlers of the processes (\<open>main.rs\<close>); polling for a peer that closes while
  a request is served, beyond when it is noticed; the idle-connection probe that reads a socket without
  blocking, beyond its outcome; the crates \<open>http\<close>, \<open>hyper\<close> (its \<open>Uri\<close> accessors), \<open>idna\<close> and
  \<open>sha2\<close>, which are parameters; wording of error messages that only people read, where no
  decision depends on it. Of the host: the commands, starting and stopping containers, images, and the persistence of
  agent state (\<open>run.rs\<close>, \<open>cli.rs\<close>, \<open>persist.rs\<close> and the others). Nothing bounds the size of a
  stored layer, while the proxy refuses one above a mebibyte, so "loads" is about the text of a
  layer, not about its length.
\<close>

end
